(* ===== verification/Prelude.thy ===== *)
theory Prelude
  imports Complex_Main "HOL-Library.AList" "HOL-Library.Word" "HOL-Library.Sublist"
begin

text \<open>
  The prelude of the development: what the components share.

  The gateway keeps its state in JavaScript \<open>Map\<close> and \<open>Set\<close> objects. Both iterate in insertion
  order, and the gateway relies on it (the first suitable worker in that order gets a stage), so a
  \<open>Map\<close> is an association list: \<open>map_set\<close> overwrites in place or appends, \<open>map_delete\<close> removes. The
  locale \<open>ordered_map\<close> states what a client may rely on and is interpreted on these operations. A
  \<open>Set\<close> is a list to which an element is appended unless it is there. Then come the JSON values a
  message may carry, and the locale \<open>invariant_machine\<close>, in which every "holds in each reachable
  state" argument of the development is made.
\<close>

section \<open>Collections of facts\<close>

named_theorems frame_simps
named_theorems update_simps
named_theorems inv_intros

section \<open>JavaScript maps\<close>

type_synonym ('k, 'v) js_map = "('k \<times> 'v) list"

abbreviation map_get :: "('k, 'v) js_map \<Rightarrow> 'k \<Rightarrow> 'v option" where
  "map_get m k \<equiv> map_of m k"

abbreviation map_set :: "('k, 'v) js_map \<Rightarrow> 'k \<Rightarrow> 'v \<Rightarrow> ('k, 'v) js_map" where
  "map_set m k v \<equiv> AList.update k v m"

abbreviation map_delete :: "('k, 'v) js_map \<Rightarrow> 'k \<Rightarrow> ('k, 'v) js_map" where
  "map_delete m k \<equiv> AList.delete k m"

abbreviation map_has :: "('k, 'v) js_map \<Rightarrow> 'k \<Rightarrow> bool" where
  "map_has m k \<equiv> map_of m k \<noteq> None"

abbreviation map_keys :: "('k, 'v) js_map \<Rightarrow> 'k list" where
  "map_keys m \<equiv> map fst m"

abbreviation map_values :: "('k, 'v) js_map \<Rightarrow> 'v list" where
  "map_values m \<equiv> map snd m"

abbreviation wf_map :: "('k, 'v) js_map \<Rightarrow> bool" where
  "wf_map m \<equiv> distinct (map fst m)"

declare map_of_eq_Some_iff [simp del] map_of_eq_None_iff [simp del]

lemma map_get_set [simp, update_simps]:
  "map_get (map_set m k v) k' = (if k' = k then Some v else map_get m k')"
  by (simp add: update_conv)

lemma map_get_delete [simp, update_simps]:
  "map_get (map_delete m k) k' = (if k' = k then None else map_get m k')"
  by (simp add: delete_conv)

lemma wf_map_set [simp, intro]: "wf_map m \<Longrightarrow> wf_map (map_set m k v)"
  by (rule distinct_update)

lemma wf_map_delete [simp, intro]: "wf_map m \<Longrightarrow> wf_map (map_delete m k)"
  by (rule distinct_delete)

lemma wf_map_values: "wf_map m \<Longrightarrow> v \<in> set (map_values m) \<longleftrightarrow> (\<exists>k. map_get m k = Some v)"
  by (force simp: map_of_eq_Some_iff)

lemma map_get_values: "map_get m k = Some v \<Longrightarrow> v \<in> set (map_values m)"
  by (force dest: map_of_SomeD)

lemma set_map_set_subset: "set (map_values (map_set m k v)) \<subseteq> insert v (set (map_values m))"
  by (induction m) auto

lemma map_set_fresh: "map_get m k = None \<Longrightarrow> map_set m k v = m @ [(k, v)]"
  by (induction m) (auto split: if_splits)

lemma map_keys_set_old: "map_get m k \<noteq> None \<Longrightarrow> map_keys (map_set m k v) = map_keys m"
  by (induction m) (auto split: if_splits)

lemma map_set_split:
  assumes "wf_map m" and "map_get m k = Some old"
  obtains ps qs where "m = ps @ (k, old) # qs" "map_set m k v = ps @ (k, v) # qs"
    "k \<notin> fst ` set ps" "k \<notin> fst ` set qs"
proof -
  from assms(2) have "(k, old) \<in> set m" by (rule map_of_SomeD)
  then obtain ps qs where m: "m = ps @ (k, old) # qs" by (meson split_list)
  with assms(1) have nin: "k \<notin> fst ` set ps" "k \<notin> fst ` set qs" by auto
  from nin(1) have "map_set (ps @ (k, old) # qs) k v = ps @ (k, v) # qs"
    by (induction ps) auto
  with m nin show ?thesis using that by blast
qed

text \<open>
  The interface of an insertion-ordered map: what is read back after a write or a removal, that a
  listing holds exactly the stored values, and that a write to a stored key moves nothing.
\<close>

locale ordered_map =
  fixes empty :: "'m"
    and get :: "'m \<Rightarrow> 'k \<Rightarrow> 'v option"
    and put :: "'m \<Rightarrow> 'k \<Rightarrow> 'v \<Rightarrow> 'm"
    and remove :: "'m \<Rightarrow> 'k \<Rightarrow> 'm"
    and keys :: "'m \<Rightarrow> 'k list"
    and listing :: "'m \<Rightarrow> 'v list"
    and ok :: "'m \<Rightarrow> bool"
  assumes get_empty: "get empty k = None"
    and get_put: "get (put m k v) k' = (if k' = k then Some v else get m k')"
    and get_remove: "get (remove m k) k' = (if k' = k then None else get m k')"
    and listing_iff: "ok m \<Longrightarrow> v \<in> set (listing m) \<longleftrightarrow> (\<exists>k. get m k = Some v)"
    and keys_put_old: "get m k \<noteq> None \<Longrightarrow> keys (put m k v) = keys m"
    and keys_put_new: "get m k = None \<Longrightarrow> keys (put m k v) = keys m @ [k]"
    and ok_empty: "ok empty"
    and ok_put: "ok m \<Longrightarrow> ok (put m k v)"
    and ok_remove: "ok m \<Longrightarrow> ok (remove m k)"
begin

lemma find_listed:
  assumes "ok m" and "find P (listing m) = Some v"
  shows "(\<exists>k. get m k = Some v) \<and> P v"
  using assms by (auto simp: find_Some_iff listing_iff [symmetric])

lemma find_none_iff:
  assumes "ok m"
  shows "find P (listing m) = None \<longleftrightarrow> (\<forall>k v. get m k = Some v \<longrightarrow> \<not> P v)"
  using listing_iff [OF assms] by (auto simp: find_None_iff)

lemma put_listing:
  assumes "ok m" and "v' \<in> set (listing (put m k v))"
  shows "v' = v \<or> v' \<in> set (listing m)"
  using assms ok_put [OF assms(1), of k v]
  by (auto simp: listing_iff get_put split: if_splits)

end

interpretation js: ordered_map "[]" map_of "\<lambda>m k v. map_set m k v" "\<lambda>m k. map_delete m k"
  map_keys map_values wf_map
  by unfold_locales
    (auto simp: wf_map_values map_keys_set_old map_set_fresh simp del: set_map list.set_map)

section \<open>JavaScript sets\<close>

definition set_add :: "'a list \<Rightarrow> 'a \<Rightarrow> 'a list" where
  "set_add xs x = (if x \<in> set xs then xs else xs @ [x])"

abbreviation set_remove :: "'a list \<Rightarrow> 'a \<Rightarrow> 'a list" where
  "set_remove xs x \<equiv> removeAll x xs"

definition set_of_list :: "'a list \<Rightarrow> 'a list" where
  "set_of_list xs = foldl set_add [] xs"

lemma set_set_add [simp]: "set (set_add xs x) = insert x (set xs)"
  by (auto simp: set_add_def)

lemma distinct_set_add [simp]: "distinct (set_add xs x) = distinct xs"
  by (auto simp: set_add_def)

lemma set_foldl_set_add [simp]: "set (foldl set_add ys xs) = set ys \<union> set xs"
  by (induction xs arbitrary: ys) auto

lemma distinct_foldl_set_add [simp]: "distinct (foldl set_add ys xs) = distinct ys"
  by (induction xs arbitrary: ys) auto

lemma set_set_of_list [simp]: "set (set_of_list xs) = set xs"
  by (simp add: set_of_list_def)

lemma distinct_set_of_list [simp]: "distinct (set_of_list xs)"
  by (simp add: set_of_list_def)

section \<open>Nullish coalescing and sums over a store\<close>

text \<open>\<open>a ?? b\<close>: the value when there is one, else the default.\<close>

abbreviation coalesce :: "'a option \<Rightarrow> 'a \<Rightarrow> 'a" where
  "coalesce x d \<equiv> case_option d (\<lambda>v. v) x"

definition coalesce_opt :: "'a option \<Rightarrow> 'a option \<Rightarrow> 'a option" where
  "coalesce_opt x y = (case x of None \<Rightarrow> y | Some v \<Rightarrow> Some v)"

lemma coalesce_opt_simps [simp]:
  "coalesce_opt None y = y" "coalesce_opt (Some v) y = Some v"
  by (simp_all add: coalesce_opt_def)

text \<open>\<open>xs.at(-1)\<close>: the last element, or nothing for an empty list.\<close>

definition at_last :: "'a list \<Rightarrow> 'a option" where
  "at_last xs = (if xs = [] then None else Some (last xs))"

lemma at_last_simps [simp]: "at_last [] = None" "at_last (xs @ [x]) = Some x"
  by (simp_all add: at_last_def)

lemma sum_list_map_set_old:
  fixes f :: "'v \<Rightarrow> nat"
  assumes "wf_map m" and "map_get m k = Some old"
  shows "(\<Sum>v\<leftarrow>map_values (map_set m k v). f v) + f old = (\<Sum>v\<leftarrow>map_values m. f v) + f v"
proof -
  obtain ps qs where "m = ps @ (k, old) # qs" "map_set m k v = ps @ (k, v) # qs"
    using map_set_split [OF assms] by metis
  then show ?thesis by simp
qed

lemma sum_list_map_set_new:
  fixes f :: "'v \<Rightarrow> nat"
  assumes "map_get m k = None"
  shows "(\<Sum>v\<leftarrow>map_values (map_set m k v). f v) = (\<Sum>v\<leftarrow>map_values m. f v) + f v"
  using assms by (simp add: map_set_fresh)

lemma length_filter_as_sum: "length (filter P xs) = (\<Sum>x\<leftarrow>xs. if P x then 1 else 0)"
  by (induction xs) auto

section \<open>Numbers in template literals\<close>

text \<open>The decimal text of a number, as \<open>`${n}`\<close> writes it.\<close>

definition digit :: "nat \<Rightarrow> char" where
  "digit n = char_of (48 + n)"

fun decimal :: "nat \<Rightarrow> string" where
  "decimal n = (if n < 10 then [digit n] else decimal (n div 10) @ [digit (n mod 10)])"

declare decimal.simps [simp del]

definition show_int :: "int \<Rightarrow> string" where
  "show_int i = (if i < 0 then CHR ''-'' # decimal (nat (- i)) else decimal (nat i))"

definition undigits :: "string \<Rightarrow> nat" where
  "undigits s = foldl (\<lambda>n c. 10 * n + (of_char c - 48)) 0 s"

lemma of_char_digit: "n < 10 \<Longrightarrow> (of_char (digit n) :: nat) = 48 + n"
  by (simp add: digit_def)

lemma undigits_decimal: "undigits (decimal n) = n"
proof (induction n rule: decimal.induct)
  case (1 n)
  then show ?case
    by (subst decimal.simps) (auto simp: undigits_def of_char_digit)
qed

lemma decimal_digits: "c \<in> set (decimal n) \<Longrightarrow> 48 \<le> (of_char c :: nat) \<and> (of_char c :: nat) < 58"
proof (induction n rule: decimal.induct)
  case (1 n)
  then show ?case
    by (subst (asm) (2) decimal.simps) (auto simp: of_char_digit split: if_splits)
qed

lemma decimal_inj: "decimal m = decimal n \<longleftrightarrow> m = n"
  by (metis undigits_decimal)

lemma decimal_no_char: "(of_char c :: nat) < 48 \<Longrightarrow> c \<notin> set (decimal n)"
  using decimal_digits [of c n] by auto

lemma show_int_inj: "show_int i = show_int j \<longleftrightarrow> i = j"
proof -
  have "CHR ''-'' \<notin> set (decimal n)" for n by (rule decimal_no_char) simp
  then have "CHR ''-'' # xs \<noteq> decimal n" for xs n by (metis list.set_intros(1))
  then show ?thesis
    by (auto simp: show_int_def decimal_inj split: if_splits)
      (metis)+
qed

lemma show_int_no_nul: "CHR 0x00 \<notin> set (show_int i)"
  by (auto simp: show_int_def dest: decimal_digits)

section \<open>JSON values\<close>

text \<open>
  A parsed JSON value. The members of an object are kept in the order in which JavaScript would
  enumerate them, so two values are equal exactly when \<open>JSON.stringify\<close> writes the same text.
\<close>

datatype json =
    JNull
  | JBool bool
  | JNumber rat
  | JString string
  | JArray "json list"
  | JObject "(string \<times> json) list"

section \<open>Reachable states and invariants\<close>

text \<open>
  The frame of every invariant argument: a start predicate, a labelled step relation, an invariant
  that holds at the start and survives each step. What the locale gives is that the invariant holds
  after any run, and that a step-wise order (a revision that never falls, a history that only grows)
  holds between the two ends of a run.
\<close>

inductive run :: "('s \<Rightarrow> 'e \<Rightarrow> 's \<Rightarrow> bool) \<Rightarrow> 's \<Rightarrow> 'e list \<Rightarrow> 's \<Rightarrow> bool" for step where
  run_nil: "run step s [] s"
| run_cons: "step s e s' \<Longrightarrow> run step s' es s'' \<Longrightarrow> run step s (e # es) s''"

inductive_cases run_nilE: "run step s [] t"
inductive_cases run_consE: "run step s (e # es) t"

inductive_simps run_nil_iff [simp]: "run step s [] t"
inductive_simps run_cons_iff: "run step s (e # es) t"

lemma run_single: "step s e s' \<Longrightarrow> run step s [e] s'"
  by (auto intro: run.intros)

lemma run_append: "run step s es t \<Longrightarrow> run step t es' u \<Longrightarrow> run step s (es @ es') u"
  by (induction rule: run.induct) (auto intro: run.intros)

locale invariant_machine =
  fixes start :: "'s \<Rightarrow> bool"
    and step :: "'s \<Rightarrow> 'e \<Rightarrow> 's \<Rightarrow> bool"
    and inv :: "'s \<Rightarrow> bool"
  assumes inv_start: "start s \<Longrightarrow> inv s"
    and inv_step: "inv s \<Longrightarrow> step s e t \<Longrightarrow> inv t"
begin

lemma inv_run: "run step s es t \<Longrightarrow> inv s \<Longrightarrow> inv t"
  by (induction rule: run.induct) (auto intro: inv_step)

lemma inv_reachable: "start s \<Longrightarrow> run step s es t \<Longrightarrow> inv t"
  by (blast intro: inv_run inv_start)

lemma run_preorder:
  assumes "run step s es t" and "inv s"
    and refl: "\<And>s. R s s"
    and trans: "\<And>s t u. R s t \<Longrightarrow> R t u \<Longrightarrow> R s u"
    and mono: "\<And>s e t. inv s \<Longrightarrow> step s e t \<Longrightarrow> R s t"
  shows "R s t"
  using assms(1,2)
proof (induction rule: run.induct)
  case (run_nil s)
  show ?case by (rule refl)
next
  case (run_cons s e s' es s'')
  then have "R s' s''" by (blast intro: inv_step)
  moreover from run_cons have "R s s'" by (blast intro: mono)
  ultimately show ?case by (rule trans [rotated])
qed

end

end
