(* ===== verification/Protocol_Types.thy ===== *)
theory Protocol_Types
  imports Prelude
begin

text \<open>
  The data of the shared protocol package (\<open>src/packages/protocol/src\<close>): identifiers, pipelines,
  histories and tools, generation settings, stage payloads, tasks, assignments, devices, and the
  accounting records. A type of the source is a \<open>datatype\<close> or a \<open>record\<close> with the source's fields; an
  optional field is an \<open>option\<close>. Where the source states a shape with a validation schema, the type
  carries the shape and a bool-valued predicate \<open>valid_...\<close> carries the bounds the schema checks.

  Field names that Isabelle could not tell apart carry the name of their record: \<open>taskState\<close> is the
  field \<open>state\<close> of a task, \<open>pl_text\<close> the field \<open>text\<close> of a stage payload. Times are milliseconds since
  the epoch, as an \<open>int\<close>: the source writes them as ISO 8601 text of millisecond precision and reads
  them back with \<open>Date.parse\<close>. Numbers the program only carries or compares are rationals.
\<close>

section \<open>Identifiers and names\<close>

type_synonym device_id = string
type_synonym task_id = string
type_synonym stage_name = string
type_synonym account_id = string

definition valid_Identifier :: "string \<Rightarrow> bool" where
  "valid_Identifier s \<longleftrightarrow> 1 \<le> length s \<and> length s \<le> 200"

definition is_lower :: "char \<Rightarrow> bool" where
  "is_lower c \<longleftrightarrow> 97 \<le> (of_char c :: nat) \<and> (of_char c :: nat) \<le> 122"

definition is_digit :: "char \<Rightarrow> bool" where
  "is_digit c \<longleftrightarrow> 48 \<le> (of_char c :: nat) \<and> (of_char c :: nat) \<le> 57"

fun matches_name_pattern :: "string \<Rightarrow> bool" where
  "matches_name_pattern [] = False"
| "matches_name_pattern (c # cs) \<longleftrightarrow>
     is_lower c \<and> list_all (\<lambda>d. is_lower d \<or> is_digit d \<or> d = CHR ''_'') cs"

definition valid_StageName :: "stage_name \<Rightarrow> bool" where
  "valid_StageName s \<longleftrightarrow> 1 \<le> length s \<and> length s \<le> 100 \<and> matches_name_pattern s"

section \<open>Task types and pipelines\<close>

datatype task_type =
    task_type_dev_formula
  | task_type_llm_qwen3_0_6b_sharded
  | task_type_llm_gemma_nano_chrome_full
  | task_type_llm_qwen3_5_0_8b_full
  | task_type_llm_llama3_2_1b_full
  | task_type_llm_gemma_4_e2b_full

datatype stage_encoding = Inline_json

record pipeline_stage =
  stageName :: stage_name
  computation :: string
  inputSchemaId :: string
  outputSchemaId :: string
  stageEncoding :: stage_encoding
  stageLeaseMs :: "int option"
  prefersSameWorkerOnRetry :: "bool option"

record pipeline_specification =
  spec_pipelineId :: string
  spec_version :: int
  spec_taskType :: task_type
  spec_stages :: "pipeline_stage list"
  spec_repeatsUntilDone :: "bool option"
  spec_retired :: "bool option"

definition valid_PipelineStage :: "pipeline_stage \<Rightarrow> bool" where
  "valid_PipelineStage st \<longleftrightarrow>
     valid_StageName (stageName st) \<and>
     1 \<le> length (computation st) \<and> length (computation st) \<le> 100 \<and>
     matches_name_pattern (computation st) \<and>
     1 \<le> length (inputSchemaId st) \<and> length (inputSchemaId st) \<le> 200 \<and>
     1 \<le> length (outputSchemaId st) \<and> length (outputSchemaId st) \<le> 200 \<and>
     (case stageLeaseMs st of None \<Rightarrow> True | Some ms \<Rightarrow> 0 < ms \<and> ms \<le> 3600000)"

definition valid_PipelineSpecification :: "pipeline_specification \<Rightarrow> bool" where
  "valid_PipelineSpecification sp \<longleftrightarrow>
     1 \<le> length (spec_pipelineId sp) \<and> length (spec_pipelineId sp) \<le> 200 \<and>
     0 < spec_version sp \<and>
     list_all valid_PipelineStage (spec_stages sp) \<and>
     1 \<le> length (spec_stages sp) \<and> length (spec_stages sp) \<le> 20 \<and>
     distinct (map stageName (spec_stages sp))"

section \<open>Histories and tools\<close>

record tool_declaration =
  tool_name :: string
  tool_description :: "string option"
  tool_parametersJsonSchema :: "(string \<times> json) list"

record tool_call =
  call_name :: string
  call_argumentValues :: "(string \<times> string) list"

datatype history_role = Role_system | Role_user | Role_assistant | Role_tool

record history_message =
  msg_role :: history_role
  msg_content :: string
  msg_toolCalls :: "tool_call list option"

record history_input =
  history_messages :: "history_message list"
  history_tools :: "tool_declaration list option"

definition valid_ToolDeclaration :: "tool_declaration \<Rightarrow> bool" where
  "valid_ToolDeclaration t \<longleftrightarrow>
     1 \<le> length (tool_name t) \<and> length (tool_name t) \<le> 200 \<and>
     (case tool_description t of None \<Rightarrow> True | Some d \<Rightarrow> length d \<le> 100000) \<and>
     list_all (\<lambda>(k, _). length k \<le> 200) (tool_parametersJsonSchema t)"

definition valid_ToolCall :: "tool_call \<Rightarrow> bool" where
  "valid_ToolCall c \<longleftrightarrow>
     1 \<le> length (call_name c) \<and> length (call_name c) \<le> 200 \<and>
     list_all (\<lambda>(k, v). length k \<le> 200 \<and> length v \<le> 100000) (call_argumentValues c)"

definition valid_HistoryMessage :: "history_message \<Rightarrow> bool" where
  "valid_HistoryMessage m \<longleftrightarrow>
     length (msg_content m) \<le> 100000 \<and>
     (case msg_toolCalls m of None \<Rightarrow> True
      | Some cs \<Rightarrow> 1 \<le> length cs \<and> length cs \<le> 16 \<and> list_all valid_ToolCall cs)"

definition valid_HistoryInput :: "history_input \<Rightarrow> bool" where
  "valid_HistoryInput h \<longleftrightarrow>
     1 \<le> length (history_messages h) \<and> length (history_messages h) \<le> 1000 \<and>
     list_all valid_HistoryMessage (history_messages h) \<and>
     (case history_tools h of None \<Rightarrow> True
      | Some ts \<Rightarrow> 1 \<le> length ts \<and> length ts \<le> 64 \<and> list_all valid_ToolDeclaration ts)"

section \<open>Generation settings and task inputs\<close>

datatype response_format = Json_object | Json_schema "(string \<times> json) list"

datatype reasoning_effort =
  Effort_none | Effort_minimal | Effort_low | Effort_medium | Effort_high | Effort_xhigh

record generation_settings =
  isStreaming :: "bool option"
  temperature :: "rat option"
  topP :: "rat option"
  maximumOutputTokenCount :: "int option"
  stopSequences :: "string list option"
  randomSeed :: "int option"
  reasoningEffort :: "reasoning_effort option"
  responseFormat :: "response_format option"

definition valid_GenerationSettings :: "generation_settings \<Rightarrow> bool" where
  "valid_GenerationSettings gs \<longleftrightarrow>
     (case temperature gs of None \<Rightarrow> True | Some t \<Rightarrow> 0 \<le> t \<and> t \<le> 2) \<and>
     (case topP gs of None \<Rightarrow> True | Some p \<Rightarrow> 0 < p \<and> p \<le> 1) \<and>
     (case maximumOutputTokenCount gs of None \<Rightarrow> True | Some n \<Rightarrow> 0 < n) \<and>
     (case stopSequences gs of None \<Rightarrow> True
      | Some ss \<Rightarrow> list_all (\<lambda>s. 1 \<le> length s) ss \<and> 1 \<le> length ss \<and> length ss \<le> 4)"

datatype llm_task_value = Prompt string | History history_input

text \<open>
  The union is discriminated by the task type, and which value a task type carries is part of it:
  a formula carries a number, two task types a prompt, three a prompt or a history.
\<close>

datatype task_input =
    Dev_formula rat "generation_settings option"
  | Llm_qwen3_0_6b_sharded string "generation_settings option"
  | Llm_gemma_nano_chrome_full string "generation_settings option"
  | Llm_qwen3_5_0_8b_full llm_task_value "generation_settings option"
  | Llm_llama3_2_1b_full llm_task_value "generation_settings option"
  | Llm_gemma_4_e2b_full llm_task_value "generation_settings option"

fun taskType :: "task_input \<Rightarrow> task_type" where
  "taskType (Dev_formula _ _) = task_type_dev_formula"
| "taskType (Llm_qwen3_0_6b_sharded _ _) = task_type_llm_qwen3_0_6b_sharded"
| "taskType (Llm_gemma_nano_chrome_full _ _) = task_type_llm_gemma_nano_chrome_full"
| "taskType (Llm_qwen3_5_0_8b_full _ _) = task_type_llm_qwen3_5_0_8b_full"
| "taskType (Llm_llama3_2_1b_full _ _) = task_type_llm_llama3_2_1b_full"
| "taskType (Llm_gemma_4_e2b_full _ _) = task_type_llm_gemma_4_e2b_full"

fun generationSettings :: "task_input \<Rightarrow> generation_settings option" where
  "generationSettings (Dev_formula _ g) = g"
| "generationSettings (Llm_qwen3_0_6b_sharded _ g) = g"
| "generationSettings (Llm_gemma_nano_chrome_full _ g) = g"
| "generationSettings (Llm_qwen3_5_0_8b_full _ g) = g"
| "generationSettings (Llm_llama3_2_1b_full _ g) = g"
| "generationSettings (Llm_gemma_4_e2b_full _ g) = g"

section \<open>Stage payloads\<close>

record encoded_tensor =
  dims :: "int list"
  tensorType :: string
  dataBase64 :: string

datatype stop_reason = End_of_sequence | Max_new_tokens | Interrupted | Stop_sequence

record llm_stage_payload =
  pl_tensors :: "(string \<times> encoded_tensor) list option"
  pl_text :: "string option"
  pl_history :: "history_input option"
  pl_toolCalls :: "tool_call list option"
  pl_newText :: "string option"
  pl_inputIds :: "int list option"
  pl_position :: "int option"
  pl_isContinuation :: "bool option"
  pl_done :: "bool option"
  pl_promptTokenCount :: "int option"
  pl_completionTokenCount :: "int option"
  pl_stopReason :: "stop_reason option"

definition empty_payload :: llm_stage_payload where
  "empty_payload = \<lparr>pl_tensors = None, pl_text = None, pl_history = None, pl_toolCalls = None,
     pl_newText = None, pl_inputIds = None, pl_position = None, pl_isContinuation = None,
     pl_done = None, pl_promptTokenCount = None, pl_completionTokenCount = None,
     pl_stopReason = None\<rparr>"

datatype stage_payload = Number rat | Llm llm_stage_payload

definition opt_all :: "('a \<Rightarrow> bool) \<Rightarrow> 'a option \<Rightarrow> bool" where
  "opt_all P x = (case x of None \<Rightarrow> True | Some v \<Rightarrow> P v)"

lemma opt_all_simps [simp]: "opt_all P None" "opt_all P (Some v) = P v"
  by (simp_all add: opt_all_def)

fun valid_StagePayload :: "stage_payload \<Rightarrow> bool" where
  "valid_StagePayload (Number _) = True"
| "valid_StagePayload (Llm p) \<longleftrightarrow>
     opt_all (list_all (\<lambda>(k, t). length k \<le> 500 \<and> length (dims t) \<le> 8 \<and>
       length (tensorType t) \<le> 100 \<and> length (dataBase64 t) \<le> 8000000)) (pl_tensors p) \<and>
     opt_all (\<lambda>t. length t \<le> 100000) (pl_text p) \<and>
     opt_all valid_HistoryInput (pl_history p) \<and>
     opt_all (\<lambda>cs. list_all valid_ToolCall cs \<and> 1 \<le> length cs \<and> length cs \<le> 16)
       (pl_toolCalls p) \<and>
     opt_all (\<lambda>t. length t \<le> 100000) (pl_newText p) \<and>
     opt_all (\<lambda>ids. length ids \<le> 100000) (pl_inputIds p) \<and>
     opt_all (\<lambda>n. 0 \<le> n) (pl_position p) \<and>
     opt_all (\<lambda>n. 0 \<le> n) (pl_promptTokenCount p) \<and>
     opt_all (\<lambda>n. 0 \<le> n) (pl_completionTokenCount p)"

section \<open>Tasks and assignments\<close>

datatype task_state = Queued | Assigned | Running | Completed | Failed | Cancelled

datatype retry_reason = Lease_expired | Worker_disconnected | Worker_relinquished

record stage_result =
  result_name :: stage_name
  result_value :: stage_payload

record stage_assignment =
  workerDeviceId :: device_id
  stageAssignmentId :: string
  attempt :: nat
  assignedStage :: stage_name
  assignedValue :: stage_payload
  leaseUntil :: int
  acceptedAt :: "int option"
  retryReason :: "retry_reason option"

datatype event_type =
  Stage_assignment_created | Stage_assignment_accepted | Stage_assignment_retried | Task_cancelled

record task_event =
  event_type :: event_type
  event_timestamp :: int
  event_reason :: "string option"
  event_stageAssignmentId :: "string option"
  event_attempt :: "nat option"

record task =
  taskId :: task_id
  taskRequestId :: string
  consumerDeviceId :: device_id
  consumerAuthIdentity :: "string option"
  consumerAccountId :: "account_id option"
  taskInput :: task_input
  taskState :: task_state
  completedStages :: "stage_result list"
  newText :: "string option"
  generatedText :: "string option"
  taskResult :: "stage_payload option"
  taskError :: "string option"
  createdAt :: int
  updatedAt :: int
  stageAssignment :: "stage_assignment option"
  stageAssignmentAttempts :: "stage_assignment list"
  currentStageAttempts :: nat
  taskEvents :: "task_event list"
  submissionDeadlineAt :: int
  taskRevision :: nat
  pipelineId :: "string option"
  pipelineVersion :: "int option"
  pipelineStages :: "stage_name list option"
  pipelineRepeatsUntilDone :: "bool option"
  stageWorkerDeviceIds :: "(stage_name, device_id) js_map option"
  acknowledgedStageAssignmentIds :: "string list option"

text \<open>The three states from which a task is not advanced any more.\<close>

definition isFinished :: "task_state \<Rightarrow> bool" where
  "isFinished s \<longleftrightarrow> s = Completed \<or> s = Failed \<or> s = Cancelled"

lemma isFinished_simps [simp]:
  "isFinished Completed" "isFinished Failed" "isFinished Cancelled"
  "\<not> isFinished Queued" "\<not> isFinished Assigned" "\<not> isFinished Running"
  by (simp_all add: isFinished_def)

section \<open>Devices\<close>

datatype device_role = Worker | Consumer

datatype worker_state = Ready | Draining

record device =
  deviceId :: device_id
  deviceName :: string
  deviceRole :: device_role
  stageNames :: "stage_name list"
  connectedAt :: int
  lastSeenAt :: int
  ipAddress :: "string option"
  workerState :: "worker_state option"
  device_authIdentity :: "string option"
  deviceReady :: "bool option"
  maxConcurrentAssignments :: "int option"
  activeAssignments :: "int option"
  device_listRevision :: "nat option"

record device_activity =
  activity_deviceId :: device_id
  activity_lastSeenAt :: int
  activity_workerState :: "worker_state option"
  activity_ready :: "bool option"
  activity_activeAssignments :: "int option"

section \<open>Accounts and the ledger\<close>

datatype signature_algorithm = Ed25519 | ECDSA_P_256

record account_profile =
  profile_accountId :: account_id
  signatureAlgorithmName :: signature_algorithm
  publicKeySpkiBase64 :: string
  emailAddress :: string
  displayName :: string
  profile_createdAt :: int

datatype ledger_direction = Earned | Spent | Both

record ledger_entry =
  ledgerEntryId :: string
  recordedAt :: int
  entry_accountId :: account_id
  creditDelta :: int
  entry_taskId :: task_id
  entry_stageName :: stage_name
  entry_stageAssignmentId :: string
  entry_workerDeviceId :: device_id
  entry_consumerDeviceId :: device_id
  stageDurationMs :: "int option"

definition valid_CreditDelta :: "int \<Rightarrow> bool" where
  "valid_CreditDelta d \<longleftrightarrow> d = 1 \<or> d = -1"

definition maximumLedgerPageSize :: int where
  "maximumLedgerPageSize = 500"

record account_ledger_summary =
  summary_accountId :: account_id
  balance :: int
  earnedStageCount :: nat
  spentStageCount :: nat

record account_summary_row = account_ledger_summary +
  row_displayName :: string
  row_createdAt :: "int option"

end
