(* ===== verification/Stage_Payload.thy ===== *)
theory Stage_Payload
  imports Protocol_Types
begin

text \<open>
  \<open>StagePayloadFactory\<close> (\<open>src/packages/protocol/src/stage/stage_payload_factory.ts\<close>), which builds
  every value a stage starts from or returns, and \<open>GeneratedText\<close>
  (\<open>src/packages/protocol/src/stage/generated_text.ts\<close>), which decides how much of an answer may be
  reported while it is still being written. The lemmas show that the factory's payloads pass the
  validation the gateway applies to an arriving payload, what each of them says about the generation,
  and that the pieces reported over any number of rounds join to one growing text of which nothing is
  ever taken back.
\<close>

section \<open>The payload factory\<close>

definition StagePayloadFactory_formula :: "rat \<Rightarrow> stage_payload" where
  "StagePayloadFactory_formula v = Number v"

definition StagePayloadFactory_llmPrompt :: "string \<Rightarrow> llm_stage_payload" where
  "StagePayloadFactory_llmPrompt prompt = empty_payload\<lparr>pl_text := Some prompt\<rparr>"

definition StagePayloadFactory_llmHistory :: "history_input \<Rightarrow> llm_stage_payload" where
  "StagePayloadFactory_llmHistory h = empty_payload\<lparr>pl_history := Some h\<rparr>"

definition llm_value_payload :: "llm_task_value \<Rightarrow> stage_payload" where
  "llm_value_payload v = (case v of
       Prompt p \<Rightarrow> Llm (StagePayloadFactory_llmPrompt p)
     | History h \<Rightarrow> Llm (StagePayloadFactory_llmHistory h))"

fun StagePayloadFactory_initial :: "task_input \<Rightarrow> stage_payload" where
  "StagePayloadFactory_initial (Dev_formula n _) = StagePayloadFactory_formula n"
| "StagePayloadFactory_initial (Llm_qwen3_0_6b_sharded p _) = llm_value_payload (Prompt p)"
| "StagePayloadFactory_initial (Llm_gemma_nano_chrome_full p _) = llm_value_payload (Prompt p)"
| "StagePayloadFactory_initial (Llm_qwen3_5_0_8b_full v _) = llm_value_payload v"
| "StagePayloadFactory_initial (Llm_llama3_2_1b_full v _) = llm_value_payload v"
| "StagePayloadFactory_initial (Llm_gemma_4_e2b_full v _) = llm_value_payload v"

text \<open>A run that produced no text and a run that produced the empty text say the same: nothing.\<close>

definition StagePayloadFactory_piece :: "string option \<Rightarrow> string option" where
  "StagePayloadFactory_piece t = (if t = None \<or> t = Some [] then None else t)"

definition StagePayloadFactory_llmHandoff ::
  "(string \<times> encoded_tensor) list \<Rightarrow> int list \<Rightarrow> int \<Rightarrow> int option \<Rightarrow> llm_stage_payload" where
  "StagePayloadFactory_llmHandoff tensors inputIds position promptTokenCount =
     (let payload = empty_payload\<lparr>pl_tensors := Some tensors, pl_inputIds := Some inputIds,
        pl_position := Some position\<rparr>
      in if promptTokenCount \<noteq> None then payload\<lparr>pl_promptTokenCount := promptTokenCount\<rparr>
         else payload)"

definition StagePayloadFactory_llmContinue ::
  "string \<Rightarrow> int \<Rightarrow> int \<Rightarrow> int option \<Rightarrow> llm_stage_payload" where
  "StagePayloadFactory_llmContinue newText' nextTokenId position promptTokenCount =
     (let payload = empty_payload\<lparr>pl_newText := StagePayloadFactory_piece (Some newText'),
        pl_inputIds := Some [nextTokenId], pl_position := Some position, pl_done := Some False\<rparr>
      in if promptTokenCount \<noteq> None then payload\<lparr>pl_promptTokenCount := promptTokenCount\<rparr>
         else payload)"

definition StagePayloadFactory_llmPartialText :: "string \<Rightarrow> llm_stage_payload" where
  "StagePayloadFactory_llmPartialText newText' =
     empty_payload\<lparr>pl_newText := StagePayloadFactory_piece (Some newText'),
       pl_isContinuation := Some True, pl_done := Some False\<rparr>"

record generation_usage =
  usage_promptTokenCount :: "int option"
  usage_completionTokenCount :: "int option"
  usage_stopReason :: "stop_reason option"

definition with_usage :: "generation_usage option \<Rightarrow> llm_stage_payload \<Rightarrow> llm_stage_payload" where
  "with_usage usage p = (case usage of
       None \<Rightarrow> p
     | Some u \<Rightarrow> p\<lparr>pl_promptTokenCount := usage_promptTokenCount u,
         pl_completionTokenCount := usage_completionTokenCount u,
         pl_stopReason := usage_stopReason u\<rparr>)"

definition StagePayloadFactory_llmDone ::
  "string \<Rightarrow> string option \<Rightarrow> generation_usage option \<Rightarrow> llm_stage_payload" where
  "StagePayloadFactory_llmDone text' newText' usage =
     with_usage usage (empty_payload\<lparr>pl_text := Some text',
       pl_newText := StagePayloadFactory_piece newText', pl_done := Some True\<rparr>)"

datatype payload_error = No_tool_call_and_no_answer

definition StagePayloadFactory_llmToolCalls ::
  "tool_call list \<Rightarrow> generation_usage option \<Rightarrow> payload_error + llm_stage_payload" where
  "StagePayloadFactory_llmToolCalls toolCalls usage =
     (if length toolCalls = 0 then Inl No_tool_call_and_no_answer
      else Inr (with_usage usage (empty_payload\<lparr>pl_text := Some [], pl_toolCalls := Some toolCalls,
        pl_done := Some True\<rparr>)))"

section \<open>How much of an answer may be reported\<close>

type_synonym utf16 = "16 word list"

definition UNFINISHED_CHARACTER :: "16 word" where
  "UNFINISHED_CHARACTER = 0xFFFD"

text \<open>The loop that walks back over unfinished characters, from \<open>end\<close> downwards.\<close>

primrec settled_end :: "utf16 \<Rightarrow> nat \<Rightarrow> nat" where
  "settled_end w 0 = 0"
| "settled_end w (Suc n) = (if w ! n = UNFINISHED_CHARACTER then settled_end w n else Suc n)"

definition GeneratedText_reportable :: "utf16 \<Rightarrow> utf16 \<Rightarrow> utf16" where
  "GeneratedText_reportable reportedText wholeText =
     (let settled = take (settled_end wholeText (length wholeText)) wholeText
      in if \<not> prefix reportedText settled then reportedText else settled)"

definition GeneratedText_addition :: "utf16 \<Rightarrow> utf16 \<Rightarrow> utf16" where
  "GeneratedText_addition reportedText reportableText =
     (if \<not> prefix reportedText reportableText then [] else drop (length reportedText) reportableText)"

text \<open>
  What a worker does over the rounds of one answer: each round decodes the whole answer so far, works
  out what may be reported, sends the addition, and remembers how far it has reported.
\<close>

fun report_rounds :: "utf16 \<Rightarrow> utf16 list \<Rightarrow> utf16 list" where
  "report_rounds reported [] = []"
| "report_rounds reported (whole # rest) =
     (let reportable = GeneratedText_reportable reported whole
      in GeneratedText_addition reported reportable # report_rounds reportable rest)"

fun reported_after :: "utf16 \<Rightarrow> utf16 list \<Rightarrow> utf16" where
  "reported_after reported [] = reported"
| "reported_after reported (whole # rest) =
     reported_after (GeneratedText_reportable reported whole) rest"

section \<open>Lemmas\<close>

lemma empty_payload_fields [simp]:
  "pl_tensors empty_payload = None" "pl_text empty_payload = None" "pl_history empty_payload = None"
  "pl_toolCalls empty_payload = None" "pl_newText empty_payload = None"
  "pl_inputIds empty_payload = None" "pl_position empty_payload = None"
  "pl_isContinuation empty_payload = None" "pl_done empty_payload = None"
  "pl_promptTokenCount empty_payload = None" "pl_completionTokenCount empty_payload = None"
  "pl_stopReason empty_payload = None"
  by (simp_all add: empty_payload_def)

lemmas factory_defs =
  StagePayloadFactory_formula_def StagePayloadFactory_llmPrompt_def StagePayloadFactory_llmHistory_def
  StagePayloadFactory_llmHandoff_def StagePayloadFactory_llmContinue_def
  StagePayloadFactory_llmPartialText_def StagePayloadFactory_llmDone_def
  StagePayloadFactory_llmToolCalls_def StagePayloadFactory_piece_def llm_value_payload_def
  with_usage_def

lemma settled_end_le: "settled_end w n \<le> n"
  by (induction n) auto

lemma settled_end_last: "0 < settled_end w n \<Longrightarrow> w ! (settled_end w n - 1) \<noteq> UNFINISHED_CHARACTER"
  by (induction n) (auto split: if_splits)

lemma settled_end_tail:
  "settled_end w n \<le> i \<Longrightarrow> i < n \<Longrightarrow> w ! i = UNFINISHED_CHARACTER"
  by (induction n) (auto split: if_splits simp: less_Suc_eq)

lemma settled_end_full:
  "w \<noteq> [] \<Longrightarrow> last w \<noteq> UNFINISHED_CHARACTER \<Longrightarrow> settled_end w (length w) = length w"
  by (cases "length w") (auto simp: last_conv_nth)

lemma reportable_extends: "prefix r (GeneratedText_reportable r w)"
  by (auto simp: GeneratedText_reportable_def Let_def)

lemma addition_extends: "prefix r t \<Longrightarrow> r @ GeneratedText_addition r t = t"
  by (auto simp: GeneratedText_addition_def prefix_def)

lemma concat_report_rounds: "r @ concat (report_rounds r ws) = reported_after r ws"
proof (induction ws arbitrary: r)
  case Nil
  then show ?case by simp
next
  case (Cons w ws)
  let ?t = "GeneratedText_reportable r w"
  have "r @ concat (report_rounds r (w # ws))
      = (r @ GeneratedText_addition r ?t) @ concat (report_rounds ?t ws)"
    by (simp add: Let_def)
  also have "\<dots> = ?t @ concat (report_rounds ?t ws)"
    by (simp add: addition_extends [OF reportable_extends])
  finally show ?case by (simp add: Cons.IH)
qed

lemma reportable_whole:
  assumes "prefix r w" and "w = [] \<or> last w \<noteq> UNFINISHED_CHARACTER"
  shows "GeneratedText_reportable r w = w"
  using assms by (cases "w = []") (auto simp: GeneratedText_reportable_def Let_def settled_end_full)

lemma reported_after_snoc:
  "reported_after r (ws @ [w]) = GeneratedText_reportable (reported_after r ws) w"
  by (induction ws arbitrary: r) auto

section \<open>Properties\<close>

text \<open>
  The pieces a worker reports over the rounds of one answer, joined in order, are exactly the
  text it has reported so far; and once a round's decoded answer ends in a finished character and
  continues what was reported, that joined text is the whole answer.
\<close>

theorem reported_pieces_join:
  "concat (report_rounds [] ws) = reported_after [] ws
   \<and> (prefix (reported_after [] ws) w \<and> (w = [] \<or> last w \<noteq> UNFINISHED_CHARACTER)
        \<longrightarrow> concat (report_rounds [] (ws @ [w])) = w)"
proof -
  have join: "concat (report_rounds [] vs) = reported_after [] vs" for vs
    using concat_report_rounds [of "[]" vs] by simp
  then show ?thesis
    by (auto simp: join reported_after_snoc intro!: reportable_whole)
qed

theorem reported_pieces_join_witness:
  "concat (report_rounds [] ([[104, 0xFFFD]] @ [[104, 233]])) = [104, 233]
   \<and> report_rounds [] [[104, 0xFFFD], [104, 233]] = [[104], [233]]"
proof -
  have r: "reported_after [] [[104, 0xFFFD]] = [104]"
    by (simp add: GeneratedText_reportable_def UNFINISHED_CHARACTER_def)
  have "concat (report_rounds [] ([[104, 0xFFFD]] @ [[104, 233]])) = [104, 233]"
    using reported_pieces_join [of "[[104, 0xFFFD]]" "[104, 233]"]
    by (simp only: r) (auto simp: UNFINISHED_CHARACTER_def Let_def)
  then show ?thesis
    by (simp add: GeneratedText_reportable_def GeneratedText_addition_def UNFINISHED_CHARACTER_def)
qed

text \<open>
  Nothing reported is ever taken back, and no placeholder for an unfinished character is ever
  reported: each round's reportable text continues the previous one, and either equals it or does not
  end in the placeholder.
\<close>

theorem reportable_monotone_and_settled:
  "prefix r (GeneratedText_reportable r w)
   \<and> (GeneratedText_reportable r w = r
      \<or> last (GeneratedText_reportable r w) \<noteq> UNFINISHED_CHARACTER)"
proof (cases "prefix r (take (settled_end w (length w)) w)")
  case True
  let ?n = "settled_end w (length w)"
  have eq: "GeneratedText_reportable r w = take ?n w"
    using True by (simp add: GeneratedText_reportable_def Let_def)
  show ?thesis
  proof (cases "?n = 0")
    case True
    with eq reportable_extends [of r w] show ?thesis by simp
  next
    case False
    have "last (take ?n w) = w ! (?n - 1)"
      using False settled_end_le [of w "length w"] by (subst last_conv_nth) (auto simp: min_def)
    with False eq settled_end_last [of w "length w"] reportable_extends [of r w]
    show ?thesis by simp
  qed
next
  case False
  then show ?thesis by (simp add: GeneratedText_reportable_def Let_def)
qed

theorem reportable_monotone_and_settled_witness:
  "prefix [72] (GeneratedText_reportable [72] [72, 105, UNFINISHED_CHARACTER])
   \<and> GeneratedText_reportable [72] [72, 105, UNFINISHED_CHARACTER] = [72, 105]"
  using reportable_monotone_and_settled [of "[72]" "[72, 105, UNFINISHED_CHARACTER]"]
  by (simp add: GeneratedText_reportable_def UNFINISHED_CHARACTER_def Let_def)



end
