(* ===== verification/Task_Store.thy ===== *)
theory Task_Store
  imports Stage_Payload
begin

text \<open>
  \<open>TaskStore\<close> (\<open>src/packages/gateway/src/task/task_store.ts\<close>): every task the gateway holds, the index
  by which a repeated submission is recognised, and the durable state file. A \<open>throw\<close> is the \<open>Inl\<close> of a
  sum; \<open>crypto.randomUUID()\<close> and the clock are arguments. The file holds what the last mutation wrote;
  \<open>currentStageAttempts\<close> may be missing in a file an earlier gateway wrote, so a stored task is a pair.
  The lemmas characterise each operation, show that the durable file follows every mutation and that
  restarting from it gives the same tasks back.
\<close>

section \<open>State and settings\<close>

type_synonym stored_task = "task \<times> nat option"

record state_file =
  file_schemaVersion :: int
  file_tasks :: "stored_task list"

record task_store =
  tasks :: "(task_id, task) js_map"
  taskIdByConsumerTaskRequest :: "(string, task_id) js_map"
  stateFile :: "state_file option"

record store_settings =
  submissionTimeoutMs :: int
  stateFilePath :: "string option"

datatype store_error =
    Task_not_found task_id
  | No_active_assignment task_id
  | Unsupported_state_schema

record task_submitter =
  submitter_authIdentity :: "string option"
  submitter_accountId :: "account_id option"

record task_pipeline =
  chosen_pipelineId :: string
  chosen_pipelineVersion :: int
  chosen_pipelineStages :: "stage_name list"
  chosen_repeatsUntilDone :: "bool option"

section \<open>Operations\<close>

definition isDurable :: "store_settings \<Rightarrow> bool" where
  "isDurable cfg \<longleftrightarrow> stateFilePath cfg \<noteq> None \<and> stateFilePath cfg \<noteq> Some []"

definition TaskStore_list :: "task_store \<Rightarrow> task list" where
  "TaskStore_list st = map_values (tasks st)"

definition TaskStore_get :: "task_store \<Rightarrow> task_id \<Rightarrow> task option" where
  "TaskStore_get st tid = map_get (tasks st) tid"

definition stored_of :: "task \<Rightarrow> stored_task" where
  "stored_of t = (t, Some (currentStageAttempts t))"

definition TaskStore_persist :: "store_settings \<Rightarrow> task_store \<Rightarrow> task_store" where
  "TaskStore_persist cfg st =
     (if \<not> isDurable cfg then st
      else st\<lparr>stateFile := Some \<lparr>file_schemaVersion = 2,
             file_tasks = map stored_of (TaskStore_list st)\<rparr>\<rparr>)"

definition TaskStore_taskRequestKey :: "device_id \<Rightarrow> string \<Rightarrow> string" where
  "TaskStore_taskRequestKey consumer request = consumer @ CHR 0x00 # request"

definition new_task ::
  "store_settings \<Rightarrow> int \<Rightarrow> string \<Rightarrow> task_input \<Rightarrow> device_id \<Rightarrow> string \<Rightarrow>
   task_submitter option \<Rightarrow> task_pipeline option \<Rightarrow> task" where
  "new_task cfg now uuid input' consumer request submitter pipeline =
     \<lparr>taskId = ''task-'' @ uuid,
      taskRequestId = request,
      consumerDeviceId = consumer,
      consumerAuthIdentity = Option.bind submitter submitter_authIdentity,
      consumerAccountId = Option.bind submitter submitter_accountId,
      taskInput = input',
      taskState = Queued,
      completedStages = [],
      newText = None,
      generatedText = None,
      taskResult = None,
      taskError = None,
      createdAt = now,
      updatedAt = now,
      stageAssignment = None,
      stageAssignmentAttempts = [],
      currentStageAttempts = 0,
      taskEvents = [],
      submissionDeadlineAt = now + submissionTimeoutMs cfg,
      taskRevision = 1,
      pipelineId = map_option chosen_pipelineId pipeline,
      pipelineVersion = map_option chosen_pipelineVersion pipeline,
      pipelineStages = map_option chosen_pipelineStages pipeline,
      pipelineRepeatsUntilDone = Option.bind pipeline chosen_repeatsUntilDone,
      stageWorkerDeviceIds = None,
      acknowledgedStageAssignmentIds = None\<rparr>"

definition TaskStore_create ::
  "store_settings \<Rightarrow> int \<Rightarrow> string \<Rightarrow> task_input \<Rightarrow> device_id \<Rightarrow> string \<Rightarrow>
   task_submitter option \<Rightarrow> task_pipeline option \<Rightarrow> task_store \<Rightarrow> task \<times> task_store" where
  "TaskStore_create cfg now uuid input' consumer request submitter pipeline st =
     (let t = new_task cfg now uuid input' consumer request submitter pipeline;
          st1 = st\<lparr>tasks := map_set (tasks st) (taskId t) t,
                   taskIdByConsumerTaskRequest := map_set (taskIdByConsumerTaskRequest st)
                     (TaskStore_taskRequestKey consumer request) (taskId t)\<rparr>
      in (t, TaskStore_persist cfg st1))"

definition TaskStore_findByTaskRequest :: "task_store \<Rightarrow> device_id \<Rightarrow> string \<Rightarrow> task option" where
  "TaskStore_findByTaskRequest st consumer request =
     (case map_get (taskIdByConsumerTaskRequest st) (TaskStore_taskRequestKey consumer request) of
        None \<Rightarrow> None
      | Some tid \<Rightarrow> map_get (tasks st) tid)"

text \<open>
  \<open>update\<close> takes a partial task; the model takes the function that replaces those fields. The text of
  the revision before is dropped first, the revision and the time are set last.
\<close>

definition updated_task :: "int \<Rightarrow> (task \<Rightarrow> task) \<Rightarrow> task \<Rightarrow> task" where
  "updated_task now f t =
     (f (t\<lparr>newText := None\<rparr>))\<lparr>taskRevision := taskRevision t + 1, updatedAt := now\<rparr>"

definition TaskStore_update ::
  "store_settings \<Rightarrow> int \<Rightarrow> task_id \<Rightarrow> (task \<Rightarrow> task) \<Rightarrow> task_store \<Rightarrow>
   store_error + task \<times> task_store" where
  "TaskStore_update cfg now tid f st =
     (case map_get (tasks st) tid of
        None \<Rightarrow> Inl (Task_not_found tid)
      | Some t \<Rightarrow>
          let next = updated_task now f t;
              st1 = st\<lparr>tasks := map_set (tasks st) tid next\<rparr>
          in Inr (next, TaskStore_persist cfg st1))"

definition retry_reason_text :: "retry_reason \<Rightarrow> string" where
  "retry_reason_text r = (case r of
       Lease_expired \<Rightarrow> ''lease_expired''
     | Worker_disconnected \<Rightarrow> ''worker_disconnected''
     | Worker_relinquished \<Rightarrow> ''worker_relinquished'')"

definition new_assignment ::
  "int \<Rightarrow> string \<Rightarrow> task \<Rightarrow> device_id \<Rightarrow> stage_name \<Rightarrow> stage_payload \<Rightarrow> retry_reason option \<Rightarrow> int \<Rightarrow>
   stage_assignment" where
  "new_assignment now uuid t worker stage v retry leaseMs' =
     \<lparr>workerDeviceId = worker,
      stageAssignmentId = ''stageAssignment-'' @ uuid,
      attempt = currentStageAttempts t + 1,
      assignedStage = stage,
      assignedValue = v,
      leaseUntil = now + leaseMs',
      acceptedAt = None,
      retryReason = retry\<rparr>"

definition with_assignment :: "int \<Rightarrow> stage_assignment \<Rightarrow> task \<Rightarrow> task" where
  "with_assignment now a t =
     t\<lparr>taskState := Assigned,
       stageAssignment := Some a,
       stageAssignmentAttempts := stageAssignmentAttempts t @ [a],
       currentStageAttempts := attempt a,
       taskEvents := taskEvents t @
         [\<lparr>event_type = (if retryReason a = None then Stage_assignment_created
                         else Stage_assignment_retried),
           event_timestamp = now,
           event_reason = map_option retry_reason_text (retryReason a),
           event_stageAssignmentId = Some (stageAssignmentId a),
           event_attempt = Some (attempt a)\<rparr>]\<rparr>"

definition TaskStore_assign ::
  "store_settings \<Rightarrow> int \<Rightarrow> string \<Rightarrow> task_id \<Rightarrow> device_id \<Rightarrow> stage_name \<Rightarrow> stage_payload \<Rightarrow>
   retry_reason option \<Rightarrow> int \<Rightarrow> task_store \<Rightarrow> store_error + task \<times> task_store" where
  "TaskStore_assign cfg now uuid tid worker stage v retry leaseMs' st =
     (case TaskStore_get st tid of
        None \<Rightarrow> Inl (Task_not_found tid)
      | Some t \<Rightarrow>
          let a = new_assignment now uuid t worker stage v retry leaseMs'
          in TaskStore_update cfg now tid (with_assignment now a) st)"

definition replace_attempt :: "stage_assignment \<Rightarrow> stage_assignment list \<Rightarrow> stage_assignment list" where
  "replace_attempt a xs =
     map (\<lambda>x. if stageAssignmentId x = stageAssignmentId a then a else x) xs"

definition TaskStore_acceptAssignment ::
  "store_settings \<Rightarrow> int \<Rightarrow> task_id \<Rightarrow> task_store \<Rightarrow> store_error + task \<times> task_store" where
  "TaskStore_acceptAssignment cfg now tid st =
     (case TaskStore_get st tid of
        None \<Rightarrow> Inl (Task_not_found tid)
      | Some t \<Rightarrow>
          (case stageAssignment t of
             None \<Rightarrow> Inl (No_active_assignment tid)
           | Some a \<Rightarrow>
               let a' = a\<lparr>acceptedAt := Some now\<rparr>
               in TaskStore_update cfg now tid
                    (\<lambda>t. t\<lparr>taskState := Running,
                           stageAssignment := Some a',
                           stageAssignmentAttempts := replace_attempt a' (stageAssignmentAttempts t),
                           taskEvents := taskEvents t @
                             [\<lparr>event_type = Stage_assignment_accepted, event_timestamp = now,
                               event_reason = None,
                               event_stageAssignmentId = Some (stageAssignmentId a'),
                               event_attempt = Some (attempt a')\<rparr>]\<rparr>)
                    st))"

text \<open>A lease extension touches neither the revision nor \<open>updatedAt\<close>.\<close>

definition TaskStore_renewLease ::
  "store_settings \<Rightarrow> int \<Rightarrow> task_id \<Rightarrow> int \<Rightarrow> task_store \<Rightarrow> int option \<times> task_store" where
  "TaskStore_renewLease cfg now tid leaseMs' st =
     (case TaskStore_get st tid of
        None \<Rightarrow> (None, st)
      | Some t \<Rightarrow>
          (case stageAssignment t of
             None \<Rightarrow> (None, st)
           | Some a \<Rightarrow>
               let until = now + leaseMs';
                   a' = a\<lparr>leaseUntil := until\<rparr>;
                   t' = t\<lparr>stageAssignment := Some a',
                          stageAssignmentAttempts := replace_attempt a' (stageAssignmentAttempts t)\<rparr>
               in (Some until,
                   TaskStore_persist cfg (st\<lparr>tasks := map_set (tasks st) tid t'\<rparr>))))"

definition with_cancellation :: "int \<Rightarrow> string \<Rightarrow> task \<Rightarrow> task" where
  "with_cancellation now reason t =
     t\<lparr>taskState := Cancelled, taskError := Some reason, stageAssignment := None,
       taskEvents := taskEvents t @
         [\<lparr>event_type = Task_cancelled, event_timestamp = now, event_reason = Some reason,
           event_stageAssignmentId = None, event_attempt = None\<rparr>]\<rparr>"

definition TaskStore_cancel ::
  "store_settings \<Rightarrow> int \<Rightarrow> task_id \<Rightarrow> string \<Rightarrow> task_store \<Rightarrow> store_error + task \<times> task_store" where
  "TaskStore_cancel cfg now tid reason st =
     (case TaskStore_get st tid of
        None \<Rightarrow> Inl (Task_not_found tid)
      | Some t \<Rightarrow> TaskStore_update cfg now tid (with_cancellation now reason) st)"

definition wantsPieces :: "task \<Rightarrow> bool" where
  "wantsPieces t \<longleftrightarrow> Option.bind (generationSettings (taskInput t)) isStreaming = Some True"

definition TaskStore_producedText :: "task \<Rightarrow> stage_result \<Rightarrow> string option" where
  "TaskStore_producedText t r =
     (if \<not> wantsPieces t then None
      else case result_value r of
          Number _ \<Rightarrow> None
        | Llm p \<Rightarrow> (if pl_newText p = None \<or> pl_newText p = Some [] then None else pl_newText p))"

definition TaskStore_accumulatedText :: "task \<Rightarrow> stage_result \<Rightarrow> string option \<Rightarrow> string option" where
  "TaskStore_accumulatedText t r newText' =
     (if \<not> wantsPieces t then None
      else case result_value r of
          Llm p \<Rightarrow>
            (if pl_done p = Some True \<and> pl_text p \<noteq> None then pl_text p
             else map_option (\<lambda>n. coalesce (generatedText t) [] @ n) newText')
        | Number _ \<Rightarrow> map_option (\<lambda>n. coalesce (generatedText t) [] @ n) newText')"

definition with_stage :: "task \<Rightarrow> stage_result \<Rightarrow> string option \<Rightarrow> task \<Rightarrow> task" where
  "with_stage old r said t =
     (let worker = map_option workerDeviceId (stageAssignment old);
          text1 = TaskStore_producedText old r;
          text2 = TaskStore_accumulatedText old r text1
      in t\<lparr>completedStages := completedStages old @ [r],
           stageAssignment := None,
           currentStageAttempts := 0,
           newText := coalesce_opt text1 (newText t),
           generatedText := coalesce_opt text2 (generatedText t),
           stageWorkerDeviceIds := (case worker of
               None \<Rightarrow> stageWorkerDeviceIds t
             | Some w \<Rightarrow> Some (map_set (coalesce (stageWorkerDeviceIds old) []) (result_name r) w)),
           acknowledgedStageAssignmentIds := (case said of
               None \<Rightarrow> acknowledgedStageAssignmentIds t
             | Some i \<Rightarrow> Some (coalesce (acknowledgedStageAssignmentIds old) [] @ [i]))\<rparr>)"

definition TaskStore_addStage ::
  "store_settings \<Rightarrow> int \<Rightarrow> task_id \<Rightarrow> stage_result \<Rightarrow> string option \<Rightarrow> task_store \<Rightarrow>
   store_error + task \<times> task_store" where
  "TaskStore_addStage cfg now tid r said st =
     (case map_get (tasks st) tid of
        None \<Rightarrow> Inl (Task_not_found tid)
      | Some t \<Rightarrow> TaskStore_update cfg now tid (with_stage t r said) st)"

definition TaskStore_isUnadvanceable :: "task \<Rightarrow> bool" where
  "TaskStore_isUnadvanceable t \<longleftrightarrow>
     \<not> isFinished (taskState t) \<and> (pipelineStages t = None \<or> pipelineStages t = Some [])"

definition restored_task :: "stored_task \<Rightarrow> task" where
  "restored_task s =
     (let t = (fst s)\<lparr>currentStageAttempts :=
                coalesce (snd s) (coalesce (map_option attempt (stageAssignment (fst s))) 0)\<rparr>
      in if TaskStore_isUnadvanceable t
         then t\<lparr>taskState := Failed, taskError := Some ''NO_PIPELINE_ON_RESTORED_TASK'',
                stageAssignment := None\<rparr>
         else t)"

definition restore_one :: "task_store \<Rightarrow> task \<Rightarrow> task_store" where
  "restore_one st t =
     st\<lparr>tasks := map_set (tasks st) (taskId t) t,
        taskIdByConsumerTaskRequest := map_set (taskIdByConsumerTaskRequest st)
          (TaskStore_taskRequestKey (consumerDeviceId t) (taskRequestId t)) (taskId t)\<rparr>"

text \<open>The constructor: an empty store, then what the state file holds, when there is one.\<close>

definition TaskStore_restore :: "store_settings \<Rightarrow> state_file option \<Rightarrow> store_error + task_store" where
  "TaskStore_restore cfg file =
     (let empty = \<lparr>tasks = [], taskIdByConsumerTaskRequest = [], stateFile = file\<rparr>
      in if \<not> isDurable cfg then Inr empty
         else case file of
             None \<Rightarrow> Inr empty
           | Some doc \<Rightarrow>
               (if file_schemaVersion doc \<noteq> 2 then Inl Unsupported_state_schema
                else Inr (foldl restore_one empty (map restored_task (file_tasks doc)))))"

definition payload_done :: "stage_payload option \<Rightarrow> bool" where
  "payload_done v = (case v of Some (Llm p) \<Rightarrow> pl_done p = Some True | _ \<Rightarrow> False)"

definition lastValue :: "task \<Rightarrow> stage_payload option" where
  "lastValue t = map_option result_value (at_last (completedStages t))"

definition TaskStore_nextStage :: "task \<Rightarrow> stage_name option" where
  "TaskStore_nextStage t =
     (let stageSequence = coalesce (pipelineStages t) [];
          completedCount = length (completedStages t)
      in if length stageSequence = 0 then None
         else if pipelineRepeatsUntilDone t \<noteq> Some True
         then (if completedCount < length stageSequence then Some (stageSequence ! completedCount)
               else None)
         else
           let isCycleFinished = (0 < completedCount \<and> completedCount mod length stageSequence = 0);
               isDone = (isCycleFinished \<and> payload_done (lastValue t))
           in if isDone then None else Some (stageSequence ! (completedCount mod length stageSequence)))"

section \<open>What each operation does\<close>

lemma persist_fields [simp]:
  "tasks (TaskStore_persist cfg st) = tasks st"
  "taskIdByConsumerTaskRequest (TaskStore_persist cfg st) = taskIdByConsumerTaskRequest st"
  by (simp_all add: TaskStore_persist_def)

lemma updated_task_fields [simp]:
  "taskRevision (updated_task now f t) = Suc (taskRevision t)"
  "updatedAt (updated_task now f t) = now"
  by (simp_all add: updated_task_def)

lemma update_Inl_iff: "(\<exists>e. TaskStore_update cfg now tid f st = Inl e) \<longleftrightarrow> TaskStore_get st tid = None"
  by (simp add: TaskStore_update_def TaskStore_get_def Let_def split: option.split)

lemma update_found:
  assumes "map_get (tasks st) tid = Some t"
  shows "\<exists>st'. TaskStore_update cfg now tid f st = Inr (updated_task now f t, st')
           \<and> tasks st' = map_set (tasks st) tid (updated_task now f t)
           \<and> taskIdByConsumerTaskRequest st' = taskIdByConsumerTaskRequest st"
  using assms by (simp add: TaskStore_update_def Let_def)

lemma assign_found:
  assumes "map_get (tasks st) tid = Some t"
  shows "TaskStore_assign cfg now uuid tid worker stage v retry lease st =
    TaskStore_update cfg now tid
      (with_assignment now (new_assignment now uuid t worker stage v retry lease)) st"
  using assms by (simp add: TaskStore_assign_def TaskStore_get_def Let_def)

lemma addStage_found:
  assumes "map_get (tasks st) tid = Some t"
  shows "TaskStore_addStage cfg now tid r said st =
    TaskStore_update cfg now tid (with_stage t r said) st"
  using assms by (simp add: TaskStore_addStage_def)

lemma cancel_found:
  assumes "map_get (tasks st) tid = Some t"
  shows "TaskStore_cancel cfg now tid reason st =
    TaskStore_update cfg now tid (with_cancellation now reason) st"
  using assms by (simp add: TaskStore_cancel_def TaskStore_get_def)

section \<open>Durable state\<close>

text \<open>The file holds exactly the tasks of the store; before the first task there may be no file yet.\<close>

definition durable :: "store_settings \<Rightarrow> task_store \<Rightarrow> bool" where
  "durable cfg st \<longleftrightarrow> (isDurable cfg \<longrightarrow>
     stateFile st = Some \<lparr>file_schemaVersion = 2, file_tasks = map stored_of (TaskStore_list st)\<rparr>
     \<or> stateFile st = None \<and> tasks st = [])"

lemma durable_persist [simp, intro]: "durable cfg (TaskStore_persist cfg st)"
  by (simp add: durable_def TaskStore_persist_def TaskStore_list_def)

lemma durable_create: "TaskStore_create cfg now u i c r s p st = (t, st') \<Longrightarrow> durable cfg st'"
  by (auto simp: TaskStore_create_def Let_def)

lemma durable_update: "TaskStore_update cfg now tid f st = Inr (t, st') \<Longrightarrow> durable cfg st'"
  by (auto simp: TaskStore_update_def Let_def split: option.splits)

lemma durable_assign: "TaskStore_assign cfg now u tid w s v r l st = Inr (t, st') \<Longrightarrow> durable cfg st'"
  by (auto simp: TaskStore_assign_def Let_def durable_update split: option.splits)

lemma durable_accept: "TaskStore_acceptAssignment cfg now tid st = Inr (t, st') \<Longrightarrow> durable cfg st'"
  by (auto simp: TaskStore_acceptAssignment_def Let_def durable_update split: option.splits)

lemma durable_cancel: "TaskStore_cancel cfg now tid reason st = Inr (t, st') \<Longrightarrow> durable cfg st'"
  by (auto simp: TaskStore_cancel_def durable_update split: option.splits)

lemma durable_addStage: "TaskStore_addStage cfg now tid r i st = Inr (t, st') \<Longrightarrow> durable cfg st'"
  by (auto simp: TaskStore_addStage_def durable_update split: option.splits)

lemma durable_renewLease:
  "durable cfg st \<Longrightarrow> TaskStore_renewLease cfg now tid l st = (u, st') \<Longrightarrow> durable cfg st'"
  by (auto simp: TaskStore_renewLease_def Let_def split: option.splits)

lemmas durable_intros =
  durable_create durable_update durable_assign durable_accept durable_cancel durable_addStage
  durable_renewLease

definition wf_store :: "task_store \<Rightarrow> bool" where
  "wf_store st \<longleftrightarrow> wf_map (tasks st)
     \<and> (\<forall>tid t. map_get (tasks st) tid = Some t \<longrightarrow> taskId t = tid \<and> \<not> TaskStore_isUnadvanceable t)"

definition request_key :: "task \<Rightarrow> string" where
  "request_key t = TaskStore_taskRequestKey (consumerDeviceId t) (taskRequestId t)"

lemma restored_stored: "\<not> TaskStore_isUnadvanceable t \<Longrightarrow> restored_task (stored_of t) = t"
  by (simp add: restored_task_def stored_of_def Let_def)

lemma tasks_as_map: "wf_store st \<Longrightarrow> tasks st = map (\<lambda>t. (taskId t, t)) (TaskStore_list st)"
proof -
  assume wf: "wf_store st"
  then have "\<forall>p \<in> set (tasks st). taskId (snd p) = fst p"
    by (auto simp: wf_store_def map_of_eq_Some_iff)
  then show ?thesis
    by (simp add: TaskStore_list_def comp_def map_idI)
qed

lemma foldl_restore_tasks:
  "distinct (map taskId ts) \<Longrightarrow> set (map taskId ts) \<inter> fst ` set (tasks st) = {} \<Longrightarrow>
   tasks (foldl restore_one st ts) = tasks st @ map (\<lambda>t. (taskId t, t)) ts"
proof (induction ts arbitrary: st)
  case Nil
  then show ?case by simp
next
  case (Cons t ts)
  then have "map_get (tasks st) (taskId t) = None"
    by (simp add: map_of_eq_None_iff)
  then have "tasks (restore_one st t) = tasks st @ [(taskId t, t)]"
    by (simp add: restore_one_def map_set_fresh)
  with Cons show ?case by (auto simp: image_iff)
qed

lemma restore_one_index:
  "taskIdByConsumerTaskRequest (restore_one st t) =
     map_set (taskIdByConsumerTaskRequest st) (request_key t) (taskId t)"
  by (simp add: restore_one_def request_key_def)

lemma foldl_restore_index:
  assumes "distinct (map request_key ts)" and "t \<in> set ts"
  shows "map_get (taskIdByConsumerTaskRequest (foldl restore_one st ts)) (request_key t) = Some (taskId t)"
  using assms
proof (induction ts arbitrary: st rule: rev_induct)
  case Nil
  then show ?case by simp
next
  case (snoc u ts)
  then show ?case by (auto simp: restore_one_index image_iff)
qed

lemma foldl_restore_file: "stateFile (foldl restore_one st ts) = stateFile st"
  by (induction ts arbitrary: st) (simp_all add: restore_one_def)

lemma restore_durable:
  assumes "isDurable cfg" and "durable cfg st" and "wf_store st"
    and "distinct (map request_key (TaskStore_list st))"
  shows "\<exists>st'. TaskStore_restore cfg (stateFile st) = Inr st' \<and> tasks st' = tasks st
    \<and> stateFile st' = stateFile st
    \<and> (\<forall>t \<in> set (TaskStore_list st).
          map_get (taskIdByConsumerTaskRequest st') (request_key t) = Some (taskId t))"
proof -
  let ?ts = "TaskStore_list st"
  have wf: "wf_map (tasks st)" and each: "\<And>t. t \<in> set ?ts \<Longrightarrow> \<not> TaskStore_isUnadvanceable t"
    using assms(3) by (auto simp: wf_store_def TaskStore_list_def map_of_eq_Some_iff)
  have restored: "map restored_task (map stored_of ?ts) = ?ts"
    using each by (auto simp: restored_stored comp_def intro: map_idI)
  have ids: "distinct (map taskId ?ts)"
    using wf tasks_as_map [OF assms(3)] by (metis (no_types, lifting) fst_conv list.map_comp map_eq_conv o_apply)
  define e where "e = \<lparr>tasks = [], taskIdByConsumerTaskRequest = [], stateFile = stateFile st\<rparr>"
  define st' where "st' = foldl restore_one e ?ts"
  have "tasks st' = tasks st"
    using foldl_restore_tasks [OF ids, of e] tasks_as_map [OF assms(3)] by (simp add: st'_def e_def)
  moreover have "TaskStore_restore cfg (stateFile st) = Inr st'"
  proof (cases "stateFile st")
    case None
    with assms(1,2) show ?thesis by (simp add: TaskStore_restore_def durable_def st'_def e_def TaskStore_list_def)
  next
    case (Some doc)
    with assms(1,2) have "doc = \<lparr>file_schemaVersion = 2, file_tasks = map stored_of ?ts\<rparr>" by (simp add: durable_def)
    with assms(1) Some restored show ?thesis by (simp add: TaskStore_restore_def st'_def e_def)
  qed
  moreover have "stateFile st' = stateFile st" by (simp add: st'_def foldl_restore_file e_def)
  ultimately show ?thesis using foldl_restore_index [OF assms(4)] unfolding st'_def by blast
qed

section \<open>Answers in pieces\<close>

text \<open>What a list of stage results does to the text a task has generated, one \<open>addStage\<close> each.\<close>

fun add_stages :: "int \<Rightarrow> task \<Rightarrow> stage_result list \<Rightarrow> task" where
  "add_stages now t [] = t"
| "add_stages now t (r # rs) = add_stages now (updated_task now (with_stage t r None) t) rs"

definition unfinished_piece :: "stage_result \<Rightarrow> bool" where
  "unfinished_piece r = (case result_value r of Number _ \<Rightarrow> True | Llm p \<Rightarrow> pl_done p \<noteq> Some True)"

definition piece_of :: "stage_result \<Rightarrow> string" where
  "piece_of r = (case result_value r of Number _ \<Rightarrow> [] | Llm p \<Rightarrow> coalesce (pl_newText p) [])"

lemma with_stage_fields [simp]:
  "taskInput (with_stage old r i t) = taskInput t"
  "completedStages (with_stage old r i t) = completedStages old @ [r]"
  "stageAssignment (with_stage old r i t) = None"
  "currentStageAttempts (with_stage old r i t) = 0"
  "generatedText (with_stage old r i t) =
     coalesce_opt (TaskStore_accumulatedText old r (TaskStore_producedText old r)) (generatedText t)"
  by (simp_all add: with_stage_def Let_def)

lemma updated_with_stage_text:
  "generatedText (updated_task now (with_stage t r i) t) =
     coalesce_opt (TaskStore_accumulatedText t r (TaskStore_producedText t r)) (generatedText t)"
  "taskInput (updated_task now (with_stage t r i) t) = taskInput t"
  by (simp_all add: updated_task_def)

lemma accumulated_piece:
  assumes "wantsPieces t" and "unfinished_piece r"
  shows "coalesce (coalesce_opt (TaskStore_accumulatedText t r (TaskStore_producedText t r))
           (generatedText t)) [] = coalesce (generatedText t) [] @ piece_of r"
  using assms
  by (auto simp: TaskStore_accumulatedText_def TaskStore_producedText_def unfinished_piece_def
      piece_of_def split: stage_payload.splits option.splits)

lemma wantsPieces_cong: "taskInput t = taskInput u \<Longrightarrow> wantsPieces t = wantsPieces u"
  by (simp add: wantsPieces_def)

lemma add_stages_text:
  assumes "wantsPieces t" and "list_all unfinished_piece rs"
  shows "coalesce (generatedText (add_stages now t rs)) [] =
           coalesce (generatedText t) [] @ concat (map piece_of rs)
         \<and> taskInput (add_stages now t rs) = taskInput t"
  using assms
proof (induction rs arbitrary: t)
  case Nil
  then show ?case by simp
next
  case (Cons r rs)
  let ?t = "updated_task now (with_stage t r None) t"
  have "wantsPieces ?t" using Cons.prems by (simp add: wantsPieces_cong [OF updated_with_stage_text(2)])
  with Cons show ?case
    by (simp add: accumulated_piece updated_with_stage_text)
qed

section \<open>Properties\<close>

definition example_store_settings :: store_settings where
  "example_store_settings = \<lparr>submissionTimeoutMs = 30000, stateFilePath = Some ''gateway-state.json''\<rparr>"

definition example_pipeline_choice :: task_pipeline where
  "example_pipeline_choice = \<lparr>chosen_pipelineId = ''dev_formula'', chosen_pipelineVersion = 1,
     chosen_pipelineStages = [''stage_dev_formula_multiply'', ''stage_dev_formula_add''],
     chosen_repeatsUntilDone = None\<rparr>"

definition example_store :: task_store where
  "example_store = snd (TaskStore_create example_store_settings 1000 ''1'' (Dev_formula 5 None)
     ''device-1'' ''request-1'' None (Some example_pipeline_choice)
     \<lparr>tasks = [], taskIdByConsumerTaskRequest = [], stateFile = None\<rparr>)"

text \<open>
  For a task that asked for its answer in pieces, the text the store has generated after any run
  of unfinished stage results is the join of the pieces those results carried, and the result that
  finishes the answer replaces that join with the whole answer it carries.
\<close>

theorem generated_text_follows_pieces:
  assumes "wantsPieces t" and "generatedText t = None" and "list_all unfinished_piece rs"
    and "result_value r = Llm p" and "pl_done p = Some True" and "pl_text p = Some answer"
  shows "coalesce (generatedText (add_stages now t rs)) [] = concat (map piece_of rs)
    \<and> generatedText (add_stages now t (rs @ [r])) = Some answer"
proof -
  have snoc: "add_stages now t (rs @ [r]) =
      updated_task now (with_stage (add_stages now t rs) r None) (add_stages now t rs)" for t
    by (induction rs arbitrary: t) auto
  have acc: "coalesce (generatedText (add_stages now t rs)) [] = concat (map piece_of rs)"
    and same_input: "taskInput (add_stages now t rs) = taskInput t"
    using add_stages_text [OF assms(1,3), of now] assms(2) by auto
  have "wantsPieces (add_stages now t rs)"
    using assms(1) wantsPieces_cong [OF same_input] by simp
  then have "generatedText (add_stages now t (rs @ [r])) = Some answer"
    using assms(4-6) by (simp add: snoc updated_with_stage_text TaskStore_accumulatedText_def)
  with acc show ?thesis by blast
qed

definition streaming_settings :: generation_settings where
  "streaming_settings = \<lparr>isStreaming = Some True, temperature = None, topP = None,
     maximumOutputTokenCount = None, stopSequences = None, randomSeed = None,
     reasoningEffort = None, responseFormat = None\<rparr>"

definition streaming_task :: task where
  "streaming_task = new_task example_store_settings 0 ''2''
     (Llm_gemma_nano_chrome_full ''hello'' (Some streaming_settings)) ''device-1'' ''request-2'' None None"

definition llm_result :: "llm_stage_payload \<Rightarrow> stage_result" where
  "llm_result p = \<lparr>result_name = ''stage_llm_gemma_nano_chrome_full'', result_value = Llm p\<rparr>"

theorem generated_text_follows_pieces_witness:
  "generatedText (add_stages 1 streaming_task
     ([llm_result (StagePayloadFactory_llmPartialText ''Par''),
       llm_result (StagePayloadFactory_llmPartialText ''is'')]
      @ [llm_result (StagePayloadFactory_llmDone ''Paris.'' None None)])) = Some ''Paris.''"
proof -
  let ?rs = "[llm_result (StagePayloadFactory_llmPartialText ''Par''),
       llm_result (StagePayloadFactory_llmPartialText ''is'')]"
  have a: "wantsPieces streaming_task"
    by (simp add: wantsPieces_def streaming_task_def new_task_def streaming_settings_def)
  have b: "generatedText streaming_task = None"
    by (simp add: streaming_task_def new_task_def)
  have c: "list_all unfinished_piece ?rs"
    by (simp add: unfinished_piece_def llm_result_def factory_defs)
  show ?thesis
    using generated_text_follows_pieces [OF a b c,
        where r = "llm_result (StagePayloadFactory_llmDone ''Paris.'' None None)" and now = 1]
    by (simp add: llm_result_def factory_defs)
qed

text \<open>
  Two submissions get the same request key only when they come from the same consumer with the
  same request identifier, for consumer identifiers that hold no NUL character (the gateway's own
  never do), so one consumer's request identifier never answers for another's.
\<close>

theorem request_key_injective:
  assumes "CHR 0x00 \<notin> set c" and "CHR 0x00 \<notin> set d"
    and "TaskStore_taskRequestKey c r = TaskStore_taskRequestKey d s"
  shows "c = d \<and> r = s"
proof -
  have before: "takeWhile (\<lambda>x. x \<noteq> CHR 0x00) (e @ CHR 0x00 # q) = e" if "CHR 0x00 \<notin> set e" for e q
    using that by (induction e) auto
  have "c = d"
    using assms(3) before [OF assms(1), of r] before [OF assms(2), of s]
    unfolding TaskStore_taskRequestKey_def by simp
  with assms(3) show ?thesis by (simp add: TaskStore_taskRequestKey_def)
qed

theorem request_key_injective_witness:
  "TaskStore_taskRequestKey ''device-1'' ''r'' \<noteq> TaskStore_taskRequestKey ''device-2'' ''r''"
  using request_key_injective [of "''device-1''" "''device-2''" "''r''" "''r''"] by auto

end
