(* ===== verification/Pipeline_Registry.thy ===== *)
theory Pipeline_Registry
  imports Task_Store
begin

text \<open>
  The pipelines a task may run (\<open>src/packages/gateway/src/task/pipeline_registry.ts\<close>), the six pipelines
  the gateway starts with, and the settings of one stage
  (\<open>src/packages/gateway/src/task/stage_policy_resolver.ts\<close>). The lemmas show that a registered version
  is never replaced, that a lookup by identifier and version returns that very version, that \<open>select\<close>
  returns the highest usable version exactly when there is one, and that the built-in pipelines register
  without an error and serve every task type.
\<close>

section \<open>The registry\<close>

record pipeline_registry =
  specifications :: "(string, pipeline_specification) js_map"

datatype pipeline_error =
    Invalid_specification
  | Already_registered string int

definition PipelineRegistry_key :: "string \<Rightarrow> int \<Rightarrow> string" where
  "PipelineRegistry_key pid version = pid @ CHR 0x00 # show_int version"

definition PipelineRegistry_add ::
  "pipeline_specification \<Rightarrow> pipeline_registry \<Rightarrow>
   pipeline_error + pipeline_specification \<times> pipeline_registry" where
  "PipelineRegistry_add specification reg =
     (if \<not> valid_PipelineSpecification specification then Inl Invalid_specification
      else
        let key = PipelineRegistry_key (spec_pipelineId specification) (spec_version specification)
        in if map_has (specifications reg) key
           then Inl (Already_registered (spec_pipelineId specification) (spec_version specification))
           else Inr (specification,
                  reg\<lparr>specifications := map_set (specifications reg) key specification\<rparr>))"

fun PipelineRegistry_add_all ::
  "pipeline_specification list \<Rightarrow> pipeline_registry \<Rightarrow> pipeline_error + pipeline_registry" where
  "PipelineRegistry_add_all [] reg = Inr reg"
| "PipelineRegistry_add_all (s # ss) reg =
     (case PipelineRegistry_add s reg of
        Inl e \<Rightarrow> Inl e
      | Inr (_, reg') \<Rightarrow> PipelineRegistry_add_all ss reg')"

definition PipelineRegistry_constructor ::
  "pipeline_specification list \<Rightarrow> pipeline_error + pipeline_registry" where
  "PipelineRegistry_constructor ss = PipelineRegistry_add_all ss \<lparr>specifications = []\<rparr>"

definition PipelineRegistry_list :: "pipeline_registry \<Rightarrow> pipeline_specification list" where
  "PipelineRegistry_list reg = map_values (specifications reg)"

definition PipelineRegistry_get ::
  "pipeline_registry \<Rightarrow> string \<Rightarrow> int \<Rightarrow> pipeline_specification option" where
  "PipelineRegistry_get reg pid version = map_get (specifications reg) (PipelineRegistry_key pid version)"

text \<open>\<open>sort\<close> is stable, so the first of the candidates is the earliest one of the highest version.\<close>

definition PipelineRegistry_select ::
  "pipeline_registry \<Rightarrow> task_input \<Rightarrow> string option \<Rightarrow> int option \<Rightarrow> pipeline_specification option" where
  "PipelineRegistry_select reg input' pid version =
     (let usable = filter (\<lambda>s. spec_taskType s = taskType input' \<and> spec_retired s \<noteq> Some True)
            (PipelineRegistry_list reg);
          named = filter (\<lambda>s. pid = None \<or> Some (spec_pipelineId s) = pid) usable;
          versioned = filter (\<lambda>s. version = None \<or> Some (spec_version s) = version) named;
          candidates = sort_key (\<lambda>s. - spec_version s) versioned
      in (case candidates of [] \<Rightarrow> None | s # _ \<Rightarrow> Some s))"

definition PipelineRegistry_definesStage :: "pipeline_registry \<Rightarrow> stage_name \<Rightarrow> bool" where
  "PipelineRegistry_definesStage reg stage \<longleftrightarrow>
     list_ex (\<lambda>s. spec_retired s \<noteq> Some True \<and> list_ex (\<lambda>st. stageName st = stage) (spec_stages s))
       (PipelineRegistry_list reg)"

definition PipelineRegistry_stageNames :: "pipeline_registry \<Rightarrow> stage_name list" where
  "PipelineRegistry_stageNames reg =
     set_of_list (concat (map (\<lambda>s. map stageName (spec_stages s))
       (filter (\<lambda>s. spec_retired s \<noteq> Some True) (PipelineRegistry_list reg))))"

section \<open>The built-in pipelines\<close>

definition formula_stage :: "string \<Rightarrow> string \<Rightarrow> pipeline_stage" where
  "formula_stage name run_as = \<lparr>stageName = name, computation = run_as, inputSchemaId = ''number@1'',
     outputSchemaId = ''number@1'', stageEncoding = Inline_json, stageLeaseMs = None,
     prefersSameWorkerOnRetry = None\<rparr>"

definition llm_stage :: "string \<Rightarrow> string \<Rightarrow> int option \<Rightarrow> pipeline_stage" where
  "llm_stage name run_as lease = \<lparr>stageName = name, computation = run_as, inputSchemaId = ''llm@1'',
     outputSchemaId = ''llm@1'', stageEncoding = Inline_json, stageLeaseMs = lease,
     prefersSameWorkerOnRetry = Some True\<rparr>"

definition builtinPipelineSpecifications :: "pipeline_specification list" where
  "builtinPipelineSpecifications =
    [\<lparr>spec_pipelineId = ''dev_formula'', spec_version = 1, spec_taskType = task_type_dev_formula,
      spec_stages = [formula_stage ''stage_dev_formula_multiply'' ''dev_formula_multiply'',
                     formula_stage ''stage_dev_formula_add'' ''dev_formula_add''],
      spec_repeatsUntilDone = None, spec_retired = None\<rparr>,
     \<lparr>spec_pipelineId = ''llm_qwen3_0_6b_sharded'', spec_version = 1,
      spec_taskType = task_type_llm_qwen3_0_6b_sharded,
      spec_stages = [llm_stage ''stage_llm_qwen3_0_6b_shard1of3'' ''llm_qwen3_0_6b_shard'' None,
                     llm_stage ''stage_llm_qwen3_0_6b_shard2of3'' ''llm_qwen3_0_6b_shard'' None,
                     llm_stage ''stage_llm_qwen3_0_6b_shard3of3'' ''llm_qwen3_0_6b_shard'' None],
      spec_repeatsUntilDone = Some True, spec_retired = None\<rparr>,
     \<lparr>spec_pipelineId = ''llm_gemma_nano_chrome_full'', spec_version = 1,
      spec_taskType = task_type_llm_gemma_nano_chrome_full,
      spec_stages = [llm_stage ''stage_llm_gemma_nano_chrome_full'' ''llm_gemma_nano_chrome_full''
                       (Some 60000)],
      spec_repeatsUntilDone = Some True, spec_retired = None\<rparr>,
     \<lparr>spec_pipelineId = ''llm_qwen3_5_0_8b_full'', spec_version = 1,
      spec_taskType = task_type_llm_qwen3_5_0_8b_full,
      spec_stages = [llm_stage ''stage_llm_qwen3_5_0_8b_full'' ''llm_qwen3_5_0_8b_full'' (Some 60000)],
      spec_repeatsUntilDone = Some True, spec_retired = None\<rparr>,
     \<lparr>spec_pipelineId = ''llm_llama3_2_1b_full'', spec_version = 1,
      spec_taskType = task_type_llm_llama3_2_1b_full,
      spec_stages = [llm_stage ''stage_llm_llama3_2_1b_full'' ''llm_llama3_2_1b_full'' (Some 60000)],
      spec_repeatsUntilDone = Some True, spec_retired = None\<rparr>,
     \<lparr>spec_pipelineId = ''llm_gemma_4_e2b_full'', spec_version = 1,
      spec_taskType = task_type_llm_gemma_4_e2b_full,
      spec_stages = [llm_stage ''stage_llm_gemma_4_e2b_full'' ''llm_gemma_4_e2b_full'' (Some 60000)],
      spec_repeatsUntilDone = Some True, spec_retired = None\<rparr>]"

section \<open>The policy of one stage\<close>

record stage_policy =
  policy_leaseMs :: int
  policy_prefersSameWorkerOnRetry :: bool

definition StagePolicyResolver_stageSpecification ::
  "pipeline_registry \<Rightarrow> task \<Rightarrow> stage_name \<Rightarrow> pipeline_stage option" where
  "StagePolicyResolver_stageSpecification reg t stage =
     (case (pipelineId t, pipelineVersion t) of
        (Some pid, Some version) \<Rightarrow>
          (case PipelineRegistry_get reg pid version of
             None \<Rightarrow> None
           | Some specification \<Rightarrow> find (\<lambda>st. stageName st = stage) (spec_stages specification))
      | _ \<Rightarrow> None)"

definition StagePolicyResolver_resolve ::
  "pipeline_registry \<Rightarrow> int \<Rightarrow> task \<Rightarrow> stage_name \<Rightarrow> stage_policy" where
  "StagePolicyResolver_resolve reg defaultLeaseMs t stage =
     (let specified = StagePolicyResolver_stageSpecification reg t stage
      in \<lparr>policy_leaseMs = coalesce (Option.bind specified stageLeaseMs) defaultLeaseMs,
          policy_prefersSameWorkerOnRetry =
            coalesce (Option.bind specified prefersSameWorkerOnRetry) False\<rparr>)"

section \<open>Lemmas\<close>

lemma key_inj: "PipelineRegistry_key p v = PipelineRegistry_key q w \<longleftrightarrow> p = q \<and> v = w"
proof
  assume eq: "PipelineRegistry_key p v = PipelineRegistry_key q w"
  have last: "takeWhile (\<lambda>c. c \<noteq> CHR 0x00) (rev (p @ CHR 0x00 # show_int v)) = rev (show_int v)" for p v
    using show_int_no_nul [of v]
    by (subst rev_append) (simp, subst takeWhile_append2, auto)
  have "rev (show_int v) = rev (show_int w)"
    using eq last [of p v] last [of q w] unfolding PipelineRegistry_key_def by simp
  then have "v = w" by (simp add: show_int_inj)
  with eq show "p = q \<and> v = w" by (simp add: PipelineRegistry_key_def)
qed simp

text \<open>Every entry is a valid specification, stored under its own identifier and version.\<close>

definition wf_registry :: "pipeline_registry \<Rightarrow> bool" where
  "wf_registry reg \<longleftrightarrow> wf_map (specifications reg)
     \<and> (\<forall>k s. map_get (specifications reg) k = Some s \<longrightarrow> valid_PipelineSpecification s
          \<and> k = PipelineRegistry_key (spec_pipelineId s) (spec_version s))"

lemma add_Inr:
  "PipelineRegistry_add s reg = Inr (s', reg') \<longleftrightarrow>
     valid_PipelineSpecification s \<and> s' = s
     \<and> map_get (specifications reg) (PipelineRegistry_key (spec_pipelineId s) (spec_version s)) = None
     \<and> reg' = reg\<lparr>specifications := map_set (specifications reg)
                   (PipelineRegistry_key (spec_pipelineId s) (spec_version s)) s\<rparr>"
  by (auto simp: PipelineRegistry_add_def Let_def)

lemma wf_add: "PipelineRegistry_add s reg = Inr (s', reg') \<Longrightarrow> wf_registry reg \<Longrightarrow> wf_registry reg'"
  by (auto simp: add_Inr wf_registry_def)

lemma wf_add_all: "PipelineRegistry_add_all ss reg = Inr reg' \<Longrightarrow> wf_registry reg \<Longrightarrow> wf_registry reg'"
  by (induction ss arbitrary: reg) (auto intro: wf_add split: sum.splits)

lemma wf_constructor: "PipelineRegistry_constructor ss = Inr reg \<Longrightarrow> wf_registry reg"
  unfolding PipelineRegistry_constructor_def by (erule wf_add_all) (simp add: wf_registry_def)

lemma hd_sort_key_least:
  assumes "sort_key f xs = y # ys"
  shows "y \<in> set xs \<and> (\<forall>x \<in> set xs. f y \<le> f x)"
proof -
  have "set xs = insert y (set ys)" using assms by (metis list.simps(15) set_sort)
  moreover have "sorted (map f (y # ys))" using assms sorted_sort_key [of f xs] by simp
  ultimately show ?thesis by auto
qed

definition matches_request :: "task_input \<Rightarrow> string option \<Rightarrow> int option \<Rightarrow> pipeline_specification \<Rightarrow> bool" where
  "matches_request input' pid version s \<longleftrightarrow>
     spec_taskType s = taskType input' \<and> spec_retired s \<noteq> Some True
     \<and> (pid = None \<or> Some (spec_pipelineId s) = pid)
     \<and> (version = None \<or> Some (spec_version s) = version)"

lemma select_candidates:
  "PipelineRegistry_select reg i p v =
     (case sort_key (\<lambda>s. - spec_version s) (filter (matches_request i p v) (PipelineRegistry_list reg)) of
        [] \<Rightarrow> None | s # _ \<Rightarrow> Some s)"
proof -
  have "filter (\<lambda>s. v = None \<or> Some (spec_version s) = v)
      (filter (\<lambda>s. p = None \<or> Some (spec_pipelineId s) = p)
        (filter (\<lambda>s. spec_taskType s = taskType i \<and> spec_retired s \<noteq> Some True)
          (PipelineRegistry_list reg))) = filter (matches_request i p v) (PipelineRegistry_list reg)"
    unfolding filter_filter by (rule filter_cong) (auto simp: matches_request_def)
  then show ?thesis unfolding PipelineRegistry_select_def Let_def by (simp only:)
qed

lemma select_Some:
  assumes "PipelineRegistry_select reg i p v = Some s"
  shows "s \<in> set (PipelineRegistry_list reg) \<and> matches_request i p v s
    \<and> (\<forall>s' \<in> set (PipelineRegistry_list reg). matches_request i p v s' \<longrightarrow> spec_version s' \<le> spec_version s)"
proof -
  obtain ss where "sort_key (\<lambda>s. - spec_version s)
      (filter (matches_request i p v) (PipelineRegistry_list reg)) = s # ss"
    using assms by (auto simp: select_candidates split: list.splits)
  from hd_sort_key_least [OF this] show ?thesis by auto
qed

lemma select_None:
  "PipelineRegistry_select reg i p v = None \<longleftrightarrow>
     (\<forall>s \<in> set (PipelineRegistry_list reg). \<not> matches_request i p v s)"
proof -
  have "PipelineRegistry_select reg i p v = None \<longleftrightarrow>
      sort_key (\<lambda>s. - spec_version s) (filter (matches_request i p v) (PipelineRegistry_list reg)) = []"
    by (simp add: select_candidates split: list.splits)
  also have "\<dots> \<longleftrightarrow> filter (matches_request i p v) (PipelineRegistry_list reg) = []"
    by (metis length_0_conv length_sort)
  finally show ?thesis by (simp add: filter_empty_conv)
qed

lemma listed_specification:
  assumes "wf_registry reg" and "s \<in> set (PipelineRegistry_list reg)"
  shows "valid_PipelineSpecification s
    \<and> PipelineRegistry_get reg (spec_pipelineId s) (spec_version s) = Some s"
proof -
  obtain k where k: "map_get (specifications reg) k = Some s"
    using assms wf_map_values [of "specifications reg" s]
    by (auto simp: wf_registry_def PipelineRegistry_list_def)
  with assms(1) have "valid_PipelineSpecification s"
    and "k = PipelineRegistry_key (spec_pipelineId s) (spec_version s)"
    by (auto simp: wf_registry_def)
  with k show ?thesis by (simp add: PipelineRegistry_get_def)
qed

lemma selected_valid:
  "wf_registry reg \<Longrightarrow> PipelineRegistry_select reg i p v = Some s \<Longrightarrow> valid_PipelineSpecification s"
  using select_Some [of reg i p v s] listed_specification [of reg s] by blast

lemma stageNames_iff:
  "stage \<in> set (PipelineRegistry_stageNames reg) \<longleftrightarrow> PipelineRegistry_definesStage reg stage"
  by (auto simp: PipelineRegistry_stageNames_def PipelineRegistry_definesStage_def list_ex_iff)

section \<open>Properties\<close>

text \<open>
  A task is given the highest version that serves its kind, is not retired and is the pipeline and
  version the consumer insisted on; it is refused only when there is none. The chosen version is the
  one a later lookup by its identifier and version returns.
\<close>

theorem select_highest_usable_version:
  assumes "wf_registry reg"
  shows "(case PipelineRegistry_select reg i p v of
      None \<Rightarrow> \<forall>s \<in> set (PipelineRegistry_list reg). \<not> matches_request i p v s
    | Some s \<Rightarrow> matches_request i p v s
        \<and> PipelineRegistry_get reg (spec_pipelineId s) (spec_version s) = Some s
        \<and> (\<forall>s' \<in> set (PipelineRegistry_list reg).
             matches_request i p v s' \<longrightarrow> spec_version s' \<le> spec_version s))"
proof (cases "PipelineRegistry_select reg i p v")
  case None
  then show ?thesis using select_None [of reg i p v] by simp
next
  case (Some s)
  with select_Some [OF Some] listed_specification [OF assms] show ?thesis by simp
qed

definition builtin_registry :: pipeline_registry where
  "builtin_registry = \<lparr>specifications =
     map (\<lambda>s. (PipelineRegistry_key (spec_pipelineId s) (spec_version s), s))
       builtinPipelineSpecifications\<rparr>"

lemma builtin_constructed: "PipelineRegistry_constructor builtinPipelineSpecifications = Inr builtin_registry"
  by code_simp

lemma wf_builtin: "wf_registry builtin_registry"
  by (rule wf_constructor [OF builtin_constructed])

theorem select_highest_usable_version_witness:
  "wf_registry builtin_registry
   \<and> map_option spec_pipelineId (PipelineRegistry_select builtin_registry (Dev_formula 5 None) None None)
       = Some ''dev_formula''
   \<and> PipelineRegistry_select builtin_registry (Dev_formula 5 None) None (Some 2) = None
   \<and> (case PipelineRegistry_select builtin_registry (Dev_formula 5 None) None None of
        None \<Rightarrow> False | Some s \<Rightarrow> matches_request (Dev_formula 5 None) None None s)"
proof -
  have "map_option spec_pipelineId (PipelineRegistry_select builtin_registry (Dev_formula 5 None) None None)
       = Some ''dev_formula''"
    by code_simp
  moreover have "PipelineRegistry_select builtin_registry (Dev_formula 5 None) None (Some 2) = None"
    by code_simp
  ultimately show ?thesis
    using wf_builtin select_highest_usable_version [OF wf_builtin, of "Dev_formula 5 None" None None]
    by (auto split: option.splits)
qed

text \<open>
  A registered version is immutable: registering succeeds only for a valid specification whose
  identifier and version are new, and then every version registered before is still found unchanged
  and the new one is found under its own identifier and version.
\<close>

theorem registered_versions_immutable:
  assumes "PipelineRegistry_add s reg = Inr (s', reg')"
  shows "valid_PipelineSpecification s
    \<and> PipelineRegistry_get reg (spec_pipelineId s) (spec_version s) = None
    \<and> PipelineRegistry_get reg' (spec_pipelineId s) (spec_version s) = Some s
    \<and> (\<forall>p v old. PipelineRegistry_get reg p v = Some old \<longrightarrow> PipelineRegistry_get reg' p v = Some old)"
  using assms by (auto simp: add_Inr PipelineRegistry_get_def key_inj)

theorem registered_versions_immutable_witness:
  "\<exists>s. PipelineRegistry_get builtin_registry ''dev_formula'' 2 = None
     \<and> PipelineRegistry_get (snd (projr (PipelineRegistry_add s builtin_registry))) ''dev_formula'' 2 = Some s"
proof -
  define s where "s = (hd builtinPipelineSpecifications)\<lparr>spec_version := 2\<rparr>"
  have "isl (PipelineRegistry_add s builtin_registry) = False" unfolding s_def by code_simp
  then obtain s' reg' where added: "PipelineRegistry_add s builtin_registry = Inr (s', reg')"
    by (cases "PipelineRegistry_add s builtin_registry") auto
  have "spec_pipelineId s = ''dev_formula''" "spec_version s = 2"
    unfolding s_def by code_simp+
  then show ?thesis
    using registered_versions_immutable [OF added] added by (intro exI [of _ s]) simp
qed

text \<open>
  The pipelines the gateway starts with register without an error, and every task a consumer can
  submit is served by one of them, whatever its kind.
\<close>

theorem builtin_pipelines_serve_every_task:
  "(\<exists>reg. PipelineRegistry_constructor builtinPipelineSpecifications = Inr reg
     \<and> (\<forall>i. \<exists>s. PipelineRegistry_select reg i None None = Some s
          \<and> spec_taskType s = taskType i \<and> spec_stages s \<noteq> []))"
proof -
  have served: "\<exists>s \<in> set (PipelineRegistry_list builtin_registry).
      spec_taskType s = ty \<and> spec_retired s \<noteq> Some True" for ty
    by (cases ty) (simp_all add: builtin_registry_def PipelineRegistry_list_def
        builtinPipelineSpecifications_def)
  have "\<exists>s. PipelineRegistry_select builtin_registry i None None = Some s" for i
    using served [of "taskType i"] select_None [of builtin_registry i None None]
    by (fastforce simp: matches_request_def)
  moreover have "spec_taskType s = taskType i \<and> spec_stages s \<noteq> []"
    if "PipelineRegistry_select builtin_registry i None None = Some s" for i s
    using select_Some [OF that] selected_valid [OF wf_builtin that]
    by (auto simp: matches_request_def valid_PipelineSpecification_def)
  ultimately show ?thesis using builtin_constructed by metis
qed

end
