(* ===== verification/Device_Registry.thy ===== *)
theory Device_Registry
  imports Pipeline_Registry
begin

text \<open>
  The connected devices (\<open>src/packages/gateway/src/device/device_registry.ts\<close>) and the placement of a
  stage that keeps state on one device (\<open>src/packages/gateway/src/device/worker_placement.ts\<close>). The
  locale \<open>worker_pool\<close> states what the scheduler relies on when it asks for a worker: whatever it is
  given is registered, ready, offers the stage and has room, and it is refused only when there is no such
  worker. It is interpreted on the registry's own search. The other lemmas show that the membership
  revision rises exactly when something worth announcing changed.
\<close>

section \<open>The registry\<close>

datatype change_kind = Joined | Stable_changed | Activity_changed | Unchanged

record device_registry_change =
  change_kind :: change_kind
  change_device :: device
  change_deviceListRevision :: nat

record device_removal =
  removed_deviceId :: device_id
  removed_deviceListRevision :: nat

record device_registry =
  devices :: "(device_id, device) js_map"
  deviceListRevision :: nat

definition empty_device_registry :: device_registry where
  "empty_device_registry = \<lparr>devices = [], deviceListRevision = 0\<rparr>"

definition DeviceRegistry_isStageListChanged :: "stage_name list \<Rightarrow> stage_name list \<Rightarrow> bool" where
  "DeviceRegistry_isStageListChanged previous current \<longleftrightarrow>
     (if length previous \<noteq> length current then True
      else list_ex (\<lambda>i. previous ! i \<noteq> current ! i) [0 ..< length previous])"

text \<open>\<open>stableFieldNames\<close> and \<open>activityFieldNames\<close>, each field compared in the order listed.\<close>

definition isStableChanged :: "device \<Rightarrow> device \<Rightarrow> bool" where
  "isStableChanged previous d \<longleftrightarrow>
     deviceName previous \<noteq> deviceName d \<or> deviceRole previous \<noteq> deviceRole d
     \<or> connectedAt previous \<noteq> connectedAt d \<or> ipAddress previous \<noteq> ipAddress d
     \<or> device_authIdentity previous \<noteq> device_authIdentity d
     \<or> maxConcurrentAssignments previous \<noteq> maxConcurrentAssignments d
     \<or> DeviceRegistry_isStageListChanged (stageNames previous) (stageNames d)"

definition isActivityChanged :: "device \<Rightarrow> device \<Rightarrow> bool" where
  "isActivityChanged previous d \<longleftrightarrow>
     workerState previous \<noteq> workerState d \<or> deviceReady previous \<noteq> deviceReady d
     \<or> activeAssignments previous \<noteq> activeAssignments d"

definition DeviceRegistry_store ::
  "device \<Rightarrow> nat option \<Rightarrow> device_registry \<Rightarrow> device \<times> device_registry" where
  "DeviceRegistry_store d revision reg =
     (let stored = (case revision of None \<Rightarrow> d | Some r \<Rightarrow> d\<lparr>device_listRevision := Some r\<rparr>)
      in (stored, reg\<lparr>devices := map_set (devices reg) (deviceId d) stored\<rparr>))"

definition DeviceRegistry_add ::
  "device \<Rightarrow> device_registry \<Rightarrow> device_registry_change \<times> device_registry" where
  "DeviceRegistry_add d reg =
     (case map_get (devices reg) (deviceId d) of
        None \<Rightarrow>
          (let rev = deviceListRevision reg + 1;
               (stored, reg') = DeviceRegistry_store d (Some rev) (reg\<lparr>deviceListRevision := rev\<rparr>)
           in (\<lparr>change_kind = Joined, change_device = stored, change_deviceListRevision = rev\<rparr>, reg'))
      | Some previous \<Rightarrow>
          (let stable = isStableChanged previous d;
               activity = isActivityChanged previous d
           in if \<not> stable \<and> \<not> activity then
                (let (stored, reg') = DeviceRegistry_store d (device_listRevision previous) reg
                 in (\<lparr>change_kind = Unchanged, change_device = stored,
                      change_deviceListRevision = deviceListRevision reg\<rparr>, reg'))
              else
                (let rev = deviceListRevision reg + 1;
                     (stored, reg') = DeviceRegistry_store d (Some rev) (reg\<lparr>deviceListRevision := rev\<rparr>)
                 in (\<lparr>change_kind = (if stable then Stable_changed else Activity_changed),
                      change_device = stored, change_deviceListRevision = rev\<rparr>, reg'))))"

definition DeviceRegistry_remove ::
  "device_id \<Rightarrow> device_registry \<Rightarrow> device_removal option \<times> device_registry" where
  "DeviceRegistry_remove did reg =
     (if \<not> map_has (devices reg) did then (None, reg)
      else
        let rev = deviceListRevision reg + 1
        in (Some \<lparr>removed_deviceId = did, removed_deviceListRevision = rev\<rparr>,
            reg\<lparr>devices := map_delete (devices reg) did, deviceListRevision := rev\<rparr>))"

definition DeviceRegistry_get :: "device_registry \<Rightarrow> device_id \<Rightarrow> device option" where
  "DeviceRegistry_get reg did = map_get (devices reg) did"

definition DeviceRegistry_list :: "device_registry \<Rightarrow> device list" where
  "DeviceRegistry_list reg = map_values (devices reg)"

definition DeviceRegistry_currentDeviceListRevision :: "device_registry \<Rightarrow> nat" where
  "DeviceRegistry_currentDeviceListRevision reg = deviceListRevision reg"

definition takes_work :: "stage_name \<Rightarrow> device \<Rightarrow> bool" where
  "takes_work stage d \<longleftrightarrow> deviceRole d = Worker
     \<and> workerState d \<noteq> Some Draining \<and> deviceReady d \<noteq> Some False
     \<and> stage \<in> set (stageNames d)"

definition has_room :: "device \<Rightarrow> bool" where
  "has_room d \<longleftrightarrow> coalesce (activeAssignments d) 0 < coalesce (maxConcurrentAssignments d) 1"

definition DeviceRegistry_findWorker ::
  "device_registry \<Rightarrow> stage_name \<Rightarrow> device_id list \<Rightarrow> device option" where
  "DeviceRegistry_findWorker reg stage excluded =
     find (\<lambda>d. deviceRole d = Worker
             \<and> workerState d \<noteq> Some Draining \<and> deviceReady d \<noteq> Some False
             \<and> coalesce (activeAssignments d) 0 < coalesce (maxConcurrentAssignments d) 1
             \<and> stage \<in> set (stageNames d)
             \<and> deviceId d \<notin> set excluded)
       (DeviceRegistry_list reg)"

definition DeviceRegistry_hasWorkerForStage :: "device_registry \<Rightarrow> stage_name \<Rightarrow> bool" where
  "DeviceRegistry_hasWorkerForStage reg stage \<longleftrightarrow>
     list_ex (\<lambda>d. deviceRole d = Worker \<and> stage \<in> set (stageNames d)) (DeviceRegistry_list reg)"

section \<open>Placement on the device that holds a stage's state\<close>

definition WorkerPlacement_preferredWorkerDeviceId ::
  "task \<Rightarrow> stage_name \<Rightarrow> stage_policy \<Rightarrow> device_id option \<Rightarrow> device_id option" where
  "WorkerPlacement_preferredWorkerDeviceId t upcoming policy previousWorker =
     (if \<not> policy_prefersSameWorkerOnRetry policy then None
      else coalesce_opt (Option.bind (stageWorkerDeviceIds t) (\<lambda>m. map_get m upcoming)) previousWorker)"

definition WorkerPlacement_reusableWorker ::
  "device_registry \<Rightarrow> device_id \<Rightarrow> stage_name \<Rightarrow> bool \<Rightarrow> device option" where
  "WorkerPlacement_reusableWorker reg worker stage isPreviousAssignmentReleased =
     (case DeviceRegistry_get reg worker of
        None \<Rightarrow> None
      | Some d \<Rightarrow>
          if deviceRole d \<noteq> Worker then None
          else if workerState d = Some Draining \<or> deviceReady d = Some False then None
          else if stage \<notin> set (stageNames d) then None
          else
            let active = (if isPreviousAssignmentReleased then coalesce (activeAssignments d) 0
                          else max 0 (coalesce (activeAssignments d) 0 - 1))
            in if coalesce (maxConcurrentAssignments d) 1 \<le> active then None else Some d)"

section \<open>What the operations do\<close>

definition wf_devices :: "device_registry \<Rightarrow> bool" where
  "wf_devices reg \<longleftrightarrow> wf_map (devices reg)
     \<and> (\<forall>did d. map_get (devices reg) did = Some d \<longrightarrow> deviceId d = did
          \<and> (\<exists>r. device_listRevision d = Some r \<and> r \<le> deviceListRevision reg))"

lemma stage_list_changed [simp]: "DeviceRegistry_isStageListChanged xs ys \<longleftrightarrow> xs \<noteq> ys"
  using list_eq_iff_nth_eq [of xs ys]
  by (simp add: DeviceRegistry_isStageListChanged_def list_ex_iff Bex_def)

lemma add_devices:
  "devices (snd (DeviceRegistry_add d reg)) =
     map_set (devices reg) (deviceId d) (change_device (fst (DeviceRegistry_add d reg)))"
  by (simp add: DeviceRegistry_add_def DeviceRegistry_store_def Let_def split: option.split)

lemma add_stored:
  "\<exists>r. change_device (fst (DeviceRegistry_add d reg)) = d\<lparr>device_listRevision := r\<rparr>"
proof -
  have "\<exists>r. fst (DeviceRegistry_store d rev reg') = d\<lparr>device_listRevision := r\<rparr>" for rev reg'
  proof (cases rev)
    case None
    then have "fst (DeviceRegistry_store d rev reg') = d\<lparr>device_listRevision := device_listRevision d\<rparr>"
      by (simp add: DeviceRegistry_store_def)
    then show ?thesis by (rule exI)
  next
    case (Some r)
    then have "fst (DeviceRegistry_store d rev reg') = d\<lparr>device_listRevision := Some r\<rparr>"
      by (simp add: DeviceRegistry_store_def Let_def)
    then show ?thesis by (rule exI)
  qed
  then show ?thesis
    by (simp add: DeviceRegistry_add_def Let_def case_prod_beta split: option.split)
qed

lemma add_get:
  "\<exists>r. DeviceRegistry_get (snd (DeviceRegistry_add d reg)) did =
     (if did = deviceId d then Some (d\<lparr>device_listRevision := r\<rparr>) else DeviceRegistry_get reg did)"
  using add_stored [of d reg] by (auto simp: DeviceRegistry_get_def add_devices)

lemma add_revision:
  "deviceListRevision (snd (DeviceRegistry_add d reg)) =
     (if change_kind (fst (DeviceRegistry_add d reg)) = Unchanged then deviceListRevision reg
      else deviceListRevision reg + 1)"
  "change_deviceListRevision (fst (DeviceRegistry_add d reg)) =
     deviceListRevision (snd (DeviceRegistry_add d reg))"
  by (simp_all add: DeviceRegistry_add_def DeviceRegistry_store_def Let_def split: option.split)

lemma add_kind:
  "change_kind (fst (DeviceRegistry_add d reg)) =
     (case map_get (devices reg) (deviceId d) of
        None \<Rightarrow> Joined
      | Some p \<Rightarrow> if isStableChanged p d then Stable_changed
                 else if isActivityChanged p d then Activity_changed else Unchanged)"
  by (simp add: DeviceRegistry_add_def DeviceRegistry_store_def Let_def split: option.split)

lemma add_listRevision:
  assumes "wf_devices reg"
  shows "\<exists>r. device_listRevision (change_device (fst (DeviceRegistry_add d reg))) = Some r
    \<and> r \<le> deviceListRevision (snd (DeviceRegistry_add d reg))"
proof (cases "map_get (devices reg) (deviceId d)")
  case None
  then show ?thesis by (simp add: DeviceRegistry_add_def DeviceRegistry_store_def Let_def)
next
  case (Some p)
  with assms obtain r where "device_listRevision p = Some r" "r \<le> deviceListRevision reg"
    unfolding wf_devices_def by blast
  with Some show ?thesis by (simp add: DeviceRegistry_add_def DeviceRegistry_store_def Let_def)
qed

lemma wf_devices_add [intro]:
  assumes "wf_devices reg"
  shows "wf_devices (snd (DeviceRegistry_add d reg))"
proof -
  let ?reg = "snd (DeviceRegistry_add d reg)"
  have "deviceId e = did \<and> (\<exists>r. device_listRevision e = Some r \<and> r \<le> deviceListRevision ?reg)"
    if e: "map_get (devices ?reg) did = Some e" for did e
  proof (cases "did = deviceId d")
    case True
    with e add_listRevision [OF assms, of d] add_stored [of d reg] show ?thesis
      by (auto simp: add_devices)
  next
    case False
    with e have "map_get (devices reg) did = Some e" by (simp add: add_devices)
    with assms obtain r where "deviceId e = did" "device_listRevision e = Some r"
      "r \<le> deviceListRevision reg" unfolding wf_devices_def by blast
    then show ?thesis by (simp add: add_revision)
  qed
  moreover have "wf_map (devices ?reg)" using assms by (simp add: add_devices wf_devices_def)
  ultimately show ?thesis unfolding wf_devices_def by blast
qed

lemma wf_devices_remove [intro]: "wf_devices reg \<Longrightarrow> wf_devices (snd (DeviceRegistry_remove did reg))"
  by (fastforce simp: wf_devices_def DeviceRegistry_remove_def Let_def)

lemma wf_devices_empty [simp]: "wf_devices empty_device_registry"
  by (simp add: wf_devices_def empty_device_registry_def)

lemma remove_get:
  "DeviceRegistry_get (snd (DeviceRegistry_remove did reg)) did' =
     (if did' = did then None else DeviceRegistry_get reg did')"
  by (auto simp: DeviceRegistry_get_def DeviceRegistry_remove_def Let_def)

lemma reusable_iff:
  "WorkerPlacement_reusableWorker reg w stage released = Some d \<longleftrightarrow>
     DeviceRegistry_get reg w = Some d \<and> takes_work stage d
     \<and> (if released then coalesce (activeAssignments d) 0 else max 0 (coalesce (activeAssignments d) 0 - 1))
         < coalesce (maxConcurrentAssignments d) 1"
  by (auto simp: WorkerPlacement_reusableWorker_def takes_work_def Let_def not_le split: option.split)

lemma unchanged_iff:
  assumes "deviceId p = deviceId d"
  shows "\<not> isStableChanged p d \<and> \<not> isActivityChanged p d \<longleftrightarrow>
    p\<lparr>lastSeenAt := lastSeenAt d, device_listRevision := device_listRevision d\<rparr> = d"
proof (cases p)
  case p: (fields)
  show ?thesis
  proof (cases d)
    case (fields)
    with p assms show ?thesis by (auto simp: isStableChanged_def isActivityChanged_def)
  qed
qed

section \<open>The contract of a worker search\<close>

locale worker_pool =
  fixes lookup :: "'r \<Rightarrow> device_id \<Rightarrow> device option"
    and search :: "'r \<Rightarrow> stage_name \<Rightarrow> device_id list \<Rightarrow> device option"
    and ok :: "'r \<Rightarrow> bool"
  assumes lookup_id: "ok r \<Longrightarrow> lookup r w = Some d \<Longrightarrow> deviceId d = w"
    and search_sound: "ok r \<Longrightarrow> search r stage excluded = Some d \<Longrightarrow>
      lookup r (deviceId d) = Some d \<and> takes_work stage d \<and> has_room d \<and> deviceId d \<notin> set excluded"
    and search_complete: "ok r \<Longrightarrow> search r stage excluded = None \<Longrightarrow> lookup r w = Some d \<Longrightarrow>
      takes_work stage d \<Longrightarrow> has_room d \<Longrightarrow> w \<in> set excluded"
begin

text \<open>The gateway's fall-back: away from the excluded devices first, then anywhere.\<close>

lemma fallback_sound:
  assumes "ok r" and "coalesce_opt (search r stage excluded) (search r stage []) = Some d"
  shows "lookup r (deviceId d) = Some d \<and> takes_work stage d \<and> has_room d"
  using assms search_sound by (cases "search r stage excluded") auto

lemma fallback_complete:
  assumes "ok r" and "coalesce_opt (search r stage excluded) (search r stage []) = None"
    and "lookup r w = Some d" and "takes_work stage d"
  shows "\<not> has_room d"
proof
  assume room: "has_room d"
  from assms(2) have "search r stage [] = None" by (cases "search r stage excluded") auto
  from search_complete [OF assms(1) this assms(3,4) room] show False by simp
qed

end

interpretation pool: worker_pool DeviceRegistry_get DeviceRegistry_findWorker wf_devices
proof
  fix r :: device_registry and w d
  assume "wf_devices r" "DeviceRegistry_get r w = Some d"
  then show "deviceId d = w" by (simp add: wf_devices_def DeviceRegistry_get_def)
next
  fix r :: device_registry and stage excluded d
  assume wf: "wf_devices r" and f: "DeviceRegistry_findWorker r stage excluded = Some d"
  from wf have map: "wf_map (devices r)" by (simp add: wf_devices_def)
  from js.find_listed [OF map f [unfolded DeviceRegistry_findWorker_def DeviceRegistry_list_def]] wf
  show "DeviceRegistry_get r (deviceId d) = Some d \<and> takes_work stage d \<and> has_room d
      \<and> deviceId d \<notin> set excluded"
    by (auto simp: DeviceRegistry_get_def wf_devices_def takes_work_def has_room_def)
next
  fix r :: device_registry and stage excluded w d
  assume wf: "wf_devices r" and f: "DeviceRegistry_findWorker r stage excluded = None"
    and g: "DeviceRegistry_get r w = Some d" and d: "takes_work stage d" "has_room d"
  from wf have map: "wf_map (devices r)" and id: "deviceId d = w"
    using g by (simp_all add: wf_devices_def DeviceRegistry_get_def)
  have "\<not> (deviceRole d = Worker \<and> workerState d \<noteq> Some Draining \<and> deviceReady d \<noteq> Some False
      \<and> coalesce (activeAssignments d) 0 < coalesce (maxConcurrentAssignments d) 1
      \<and> stage \<in> set (stageNames d) \<and> deviceId d \<notin> set excluded)"
    using iffD1 [OF js.find_none_iff [OF map]
        f [unfolded DeviceRegistry_findWorker_def DeviceRegistry_list_def]]
      g [unfolded DeviceRegistry_get_def] by (elim allE impE)
  with d id show "w \<in> set excluded" by (auto simp: takes_work_def has_room_def)
qed

section \<open>Properties\<close>

text \<open>
  The membership revision is exact: storing a device raises it by one when the device is new or
  anything but its last-seen time moved, and leaves it alone otherwise; the change reported carries the
  revision the list is at afterwards; and the stored record is the device given, under its identifier,
  no other device touched.
\<close>

theorem device_list_revision_exact:
  assumes wf: "wf_devices reg"
  shows "(let (change, reg') = DeviceRegistry_add d reg
    in change_deviceListRevision change = DeviceRegistry_currentDeviceListRevision reg'
     \<and> DeviceRegistry_currentDeviceListRevision reg' =
         DeviceRegistry_currentDeviceListRevision reg + (if change_kind change = Unchanged then 0 else 1)
     \<and> (change_kind change = Unchanged \<longleftrightarrow>
          (\<exists>p. DeviceRegistry_get reg (deviceId d) = Some p
             \<and> p\<lparr>lastSeenAt := lastSeenAt d, device_listRevision := device_listRevision d\<rparr> = d))
     \<and> (\<exists>r. DeviceRegistry_get reg' (deviceId d) = Some (d\<lparr>device_listRevision := r\<rparr>))
     \<and> (\<forall>did. did \<noteq> deviceId d \<longrightarrow> DeviceRegistry_get reg' did = DeviceRegistry_get reg did))"
proof -
  have id: "deviceId p = deviceId d" if "DeviceRegistry_get reg (deviceId d) = Some p" for p
    using pool.lookup_id [OF wf that] .
  have "change_kind (fst (DeviceRegistry_add d reg)) = Unchanged \<longleftrightarrow>
      (\<exists>p. DeviceRegistry_get reg (deviceId d) = Some p
         \<and> p\<lparr>lastSeenAt := lastSeenAt d, device_listRevision := device_listRevision d\<rparr> = d)"
  proof (cases "DeviceRegistry_get reg (deviceId d)")
    case None
    then show ?thesis by (simp add: add_kind DeviceRegistry_get_def)
  next
    case (Some p)
    then have "change_kind (fst (DeviceRegistry_add d reg)) = Unchanged \<longleftrightarrow>
        \<not> isStableChanged p d \<and> \<not> isActivityChanged p d"
      by (simp add: add_kind DeviceRegistry_get_def)
    with Some unchanged_iff [OF id [OF Some]] show ?thesis by simp
  qed
  moreover have "\<exists>r. DeviceRegistry_get (snd (DeviceRegistry_add d reg)) (deviceId d)
      = Some (d\<lparr>device_listRevision := r\<rparr>)"
    using add_get [of d reg "deviceId d"] by simp
  moreover have "did \<noteq> deviceId d \<Longrightarrow>
      DeviceRegistry_get (snd (DeviceRegistry_add d reg)) did = DeviceRegistry_get reg did" for did
    using add_get [of d reg did] by simp
  ultimately show ?thesis
    unfolding DeviceRegistry_currentDeviceListRevision_def
    by (simp add: case_prod_beta Let_def add_revision)
qed

definition example_device :: device where
  "example_device = \<lparr>deviceId = ''device-1'', deviceName = ''tab'', deviceRole = Worker, stageNames = [''stage_a''],
     connectedAt = 0, lastSeenAt = 0, ipAddress = None, workerState = Some Ready, device_authIdentity = None,
     deviceReady = Some True, maxConcurrentAssignments = Some 1, activeAssignments = Some 0,
     device_listRevision = None\<rparr>"

theorem device_list_revision_exact_witness:
  "(let (change, reg') = DeviceRegistry_add example_device empty_device_registry
    in change_deviceListRevision change = DeviceRegistry_currentDeviceListRevision reg'
     \<and> (\<exists>r. DeviceRegistry_get reg' ''device-1'' = Some (example_device\<lparr>device_listRevision := r\<rparr>)))"
proof -
  have "wf_devices empty_device_registry" by (simp add: wf_devices_def empty_device_registry_def)
  from device_list_revision_exact [OF this, of example_device] show ?thesis
    by (auto simp: example_device_def Let_def case_prod_beta)
qed

end
