(* ===== verification/Session_Registry.thy ===== *)
theory Session_Registry
  imports Protocol_Types
begin

text \<open>
  Who is authenticated on each connection (\<open>src/packages/gateway/src/task/session_registry.ts\<close>) and the
  one-time values an account signs (\<open>src/packages/gateway/src/accounting/challenge_registry.ts\<close>). Both
  hand a connection something that expires. The locale \<open>expiring_registry\<close> states what they share: what
  is live is what was issued, until it expires or is closed, and one connection never disturbs another.
  It is extended by \<open>one_time_registry\<close> (reading takes the value away) and \<open>lasting_registry\<close> (reading
  leaves it), and the two registries interpret one each. The SHA-256 digest and the random bytes come from
  the platform and are arguments.
\<close>

section \<open>Sessions\<close>

record session =
  authIdentity :: string
  session_accountId :: "account_id option"
  session_expiresAt :: int

record session_registry =
  sessionsByDeviceId :: "(device_id, session) js_map"

definition SessionRegistry_authIdentityFor :: "(string \<Rightarrow> string) \<Rightarrow> string \<Rightarrow> string" where
  "SessionRegistry_authIdentityFor sha256Hex token =
     ''authIdentity-'' @ take 16 (sha256Hex token)"

definition SessionRegistry_open ::
  "(string \<Rightarrow> string) \<Rightarrow> int \<Rightarrow> device_id \<Rightarrow> string \<Rightarrow> int \<Rightarrow> session_registry \<Rightarrow>
   session \<times> session_registry" where
  "SessionRegistry_open sha256Hex sessionDurationMs did token now reg =
     (let s = \<lparr>authIdentity = SessionRegistry_authIdentityFor sha256Hex token,
               session_accountId = None, session_expiresAt = now + sessionDurationMs\<rparr>
      in (s, reg\<lparr>sessionsByDeviceId := map_set (sessionsByDeviceId reg) did s\<rparr>))"

definition SessionRegistry_active ::
  "device_id \<Rightarrow> int \<Rightarrow> session_registry \<Rightarrow> session option \<times> session_registry" where
  "SessionRegistry_active did now reg =
     (case map_get (sessionsByDeviceId reg) did of
        None \<Rightarrow> (None, reg)
      | Some s \<Rightarrow>
          if now < session_expiresAt s then (Some s, reg)
          else (None, reg\<lparr>sessionsByDeviceId := map_delete (sessionsByDeviceId reg) did\<rparr>))"

definition SessionRegistry_attachAccount ::
  "device_id \<Rightarrow> account_id \<Rightarrow> int \<Rightarrow> session_registry \<Rightarrow> session option \<times> session_registry" where
  "SessionRegistry_attachAccount did account now reg =
     (case SessionRegistry_active did now reg of
        (None, reg1) \<Rightarrow> (None, reg1)
      | (Some s, reg1) \<Rightarrow>
          let withAccount = s\<lparr>session_accountId := Some account\<rparr>
          in (Some withAccount,
              reg1\<lparr>sessionsByDeviceId := map_set (sessionsByDeviceId reg1) did withAccount\<rparr>))"

definition SessionRegistry_close :: "device_id \<Rightarrow> session_registry \<Rightarrow> session_registry" where
  "SessionRegistry_close did reg =
     reg\<lparr>sessionsByDeviceId := map_delete (sessionsByDeviceId reg) did\<rparr>"

section \<open>Challenges\<close>

record account_challenge =
  challenge_text :: string
  challenge_expiresAt :: int

datatype challenge_verdict = Verdict_accepted string | Verdict_unknown | Verdict_expired

record challenge_registry =
  challengesByDeviceId :: "(device_id, account_challenge) js_map"

text \<open>
  Deleting entries while iterating a \<open>Map\<close> visits every remaining entry once, so the sweep is a filter.
\<close>

definition ChallengeRegistry_issue ::
  "int \<Rightarrow> device_id \<Rightarrow> string \<Rightarrow> int \<Rightarrow> challenge_registry \<Rightarrow> account_challenge \<times> challenge_registry" where
  "ChallengeRegistry_issue challengeDurationMs did randomHex now reg =
     (let kept = filter (\<lambda>(_, outstanding). \<not> challenge_expiresAt outstanding \<le> now)
            (challengesByDeviceId reg);
          c = \<lparr>challenge_text = randomHex, challenge_expiresAt = now + challengeDurationMs\<rparr>
      in (c, reg\<lparr>challengesByDeviceId := map_set kept did c\<rparr>))"

definition ChallengeRegistry_consume ::
  "device_id \<Rightarrow> int \<Rightarrow> challenge_registry \<Rightarrow> challenge_verdict \<times> challenge_registry" where
  "ChallengeRegistry_consume did now reg =
     (case map_get (challengesByDeviceId reg) did of
        None \<Rightarrow> (Verdict_unknown, reg)
      | Some outstanding \<Rightarrow>
          let reg' = reg\<lparr>challengesByDeviceId := map_delete (challengesByDeviceId reg) did\<rparr>
          in if challenge_expiresAt outstanding \<le> now then (Verdict_expired, reg')
             else (Verdict_accepted (challenge_text outstanding), reg'))"

definition ChallengeRegistry_close :: "device_id \<Rightarrow> challenge_registry \<Rightarrow> challenge_registry" where
  "ChallengeRegistry_close did reg =
     reg\<lparr>challengesByDeviceId := map_delete (challengesByDeviceId reg) did\<rparr>"

section \<open>What the two have in common\<close>

locale expiring_registry =
  fixes issue :: "device_id \<Rightarrow> 'a \<Rightarrow> int \<Rightarrow> 'r \<Rightarrow> 'r"
    and consult :: "device_id \<Rightarrow> int \<Rightarrow> 'r \<Rightarrow> 'v option \<times> 'r"
    and close :: "device_id \<Rightarrow> 'r \<Rightarrow> 'r"
    and live :: "'r \<Rightarrow> device_id \<Rightarrow> int \<Rightarrow> 'v option"
    and content :: "'a \<Rightarrow> int \<Rightarrow> 'v"
    and duration :: int
    and ok :: "'r \<Rightarrow> bool"
  assumes consult_live: "fst (consult d now r) = live r d now"
    and live_issue: "ok r \<Longrightarrow> now \<le> later \<Longrightarrow> live (issue d a now r) d' later =
      (if d' = d then (if later < now + duration then Some (content a now) else None)
       else live r d' later)"
    and live_close: "live (close d r) d' t = (if d' = d then None else live r d' t)"
    and live_consult_other: "d' \<noteq> d \<Longrightarrow> live (snd (consult d now r)) d' t = live r d' t"
    and live_expires: "live r d now = None \<Longrightarrow> now \<le> later \<Longrightarrow> live r d later = None"
    and ok_issue: "ok r \<Longrightarrow> ok (issue d a now r)"
    and ok_close: "ok r \<Longrightarrow> ok (close d r)"
    and ok_consult: "ok r \<Longrightarrow> ok (snd (consult d now r))"
begin

lemma issued_is_live:
  assumes "ok r" and "now \<le> later" and "later < now + duration"
  shows "fst (consult d later (issue d a now r)) = Some (content a now)"
  using assms by (simp add: consult_live live_issue)

lemma issued_expires:
  assumes "ok r" and "now \<le> later" and "now + duration \<le> later"
  shows "fst (consult d later (issue d a now r)) = None"
  using assms by (simp add: consult_live live_issue)

lemma closed_is_gone: "fst (consult d t (close d r)) = None"
  by (simp add: consult_live live_close)

end

locale one_time_registry = expiring_registry +
  assumes consult_takes: "live (snd (consult d now r)) d t = None"
begin

lemma used_once: "fst (consult d later (snd (consult d now r))) = None"
  by (simp add: consult_live consult_takes)

end

locale lasting_registry = expiring_registry +
  assumes consult_keeps: "now \<le> later \<Longrightarrow> live (snd (consult d now r)) d later = live r d later"
begin

lemma consult_again:
  assumes "now \<le> later"
  shows "fst (consult d' later (snd (consult d now r))) = fst (consult d' later r)"
  using assms live_consult_other [of d' d now r later] consult_keeps [of now later d r]
  by (cases "d' = d") (simp_all add: consult_live)

end

definition live_session :: "session_registry \<Rightarrow> device_id \<Rightarrow> int \<Rightarrow> session option" where
  "live_session reg did now = (case map_get (sessionsByDeviceId reg) did of
     None \<Rightarrow> None | Some s \<Rightarrow> if now < session_expiresAt s then Some s else None)"

definition live_challenge :: "challenge_registry \<Rightarrow> device_id \<Rightarrow> int \<Rightarrow> string option" where
  "live_challenge reg did now = (case map_get (challengesByDeviceId reg) did of
     None \<Rightarrow> None | Some c \<Rightarrow> if now < challenge_expiresAt c then Some (challenge_text c) else None)"

definition verdict_text :: "challenge_verdict \<Rightarrow> string option" where
  "verdict_text v = (case v of Verdict_accepted c \<Rightarrow> Some c | _ \<Rightarrow> None)"

lemma active_is_live [simp]: "fst (SessionRegistry_active did now reg) = live_session reg did now"
  by (simp add: SessionRegistry_active_def live_session_def split: option.split)

lemma live_after_active:
  "now \<le> later \<Longrightarrow> live_session (snd (SessionRegistry_active did now reg)) did' later = live_session reg did' later"
  by (auto simp: SessionRegistry_active_def live_session_def split: option.split)

interpretation session: lasting_registry
  "\<lambda>did token now reg. snd (SessionRegistry_open sha256Hex durationMs did token now reg)"
  SessionRegistry_active SessionRegistry_close live_session
  "\<lambda>token now. \<lparr>authIdentity = SessionRegistry_authIdentityFor sha256Hex token,
     session_accountId = None, session_expiresAt = now + durationMs\<rparr>" durationMs "\<lambda>_. True"
  for sha256Hex :: "string \<Rightarrow> string" and durationMs
  by unfold_locales
    (auto simp: live_session_def SessionRegistry_open_def SessionRegistry_close_def
      SessionRegistry_active_def Let_def split: option.splits if_splits)

lemma map_of_filter_values:
  "wf_map m \<Longrightarrow> map_get (filter (\<lambda>(_, v). P v) m) k =
     (case map_get m k of None \<Rightarrow> None | Some v \<Rightarrow> if P v then Some v else None)"
proof (induction m)
  case Nil
  then show ?case by simp
next
  case (Cons p m)
  then have "map_get m (fst p) = None" by (simp add: map_of_eq_None_iff)
  with Cons show ?case by (cases p) (auto split: option.splits)
qed

lemma wf_map_filter: "wf_map m \<Longrightarrow> wf_map (filter P m)"
  by (induction m) auto

interpretation challenge: one_time_registry
  "\<lambda>did randomHex now reg. snd (ChallengeRegistry_issue durationMs did randomHex now reg)"
  "\<lambda>did now reg. map_prod verdict_text id (ChallengeRegistry_consume did now reg)"
  ChallengeRegistry_close live_challenge "\<lambda>randomHex now. randomHex" durationMs
  "\<lambda>reg. wf_map (challengesByDeviceId reg)"
  for durationMs
proof (unfold_locales, goal_cases)
  case (2 r now later d a d')
  then show ?case
    by (auto simp: live_challenge_def ChallengeRegistry_issue_def Let_def map_of_filter_values
        split: option.splits)
next
  case (6 r d a now)
  then show ?case by (simp add: ChallengeRegistry_issue_def Let_def wf_map_filter)
qed (auto simp: live_challenge_def ChallengeRegistry_close_def
      ChallengeRegistry_consume_def verdict_text_def Let_def split: option.splits if_splits)

lemma consume_verdict:
  "fst (ChallengeRegistry_consume did now reg) =
     (case map_get (challengesByDeviceId reg) did of
        None \<Rightarrow> Verdict_unknown
      | Some c \<Rightarrow> if challenge_expiresAt c \<le> now then Verdict_expired
                 else Verdict_accepted (challenge_text c))"
  by (simp add: ChallengeRegistry_consume_def Let_def split: option.split)

lemma consume_rest:
  "map_get (challengesByDeviceId (snd (ChallengeRegistry_consume did now reg))) did' =
     (if did' = did then None else map_get (challengesByDeviceId reg) did')"
  by (auto simp: ChallengeRegistry_consume_def Let_def split: option.split)

lemma issued_challenge:
  "map_get (challengesByDeviceId (snd (ChallengeRegistry_issue durationMs did hex now reg))) did =
     Some \<lparr>challenge_text = hex, challenge_expiresAt = now + durationMs\<rparr>"
  by (simp add: ChallengeRegistry_issue_def Let_def)

section \<open>Properties\<close>

text \<open>
  The expiry the gateway advertises is honoured: a session is returned exactly from the moment it
  is opened until its duration has passed, asking never shortens or lengthens it, and closing the
  connection ends it at once.
\<close>

theorem session_lives_for_its_duration:
  assumes "now \<le> later"
  shows "(fst (SessionRegistry_active d later
            (snd (SessionRegistry_open sha256Hex durationMs d token now reg))) =
          (if later < now + durationMs
           then Some (fst (SessionRegistry_open sha256Hex durationMs d token now reg)) else None))
    \<and> fst (SessionRegistry_active d' later (snd (SessionRegistry_active d now reg)))
        = fst (SessionRegistry_active d' later reg)
    \<and> fst (SessionRegistry_active d later (SessionRegistry_close d reg)) = None"
proof -
  have "fst (SessionRegistry_active d later
      (snd (SessionRegistry_open sha256Hex durationMs d token now reg))) =
      (if later < now + durationMs
       then Some (fst (SessionRegistry_open sha256Hex durationMs d token now reg)) else None)"
    using session.issued_is_live [OF TrueI assms, of durationMs d sha256Hex token reg]
      session.issued_expires [OF TrueI assms, of durationMs d sha256Hex token reg]
    by (simp add: SessionRegistry_open_def Let_def not_less)
  then show ?thesis
    using session.consult_again [OF assms, of d' d reg] session.closed_is_gone [of d later reg] by simp
qed

theorem session_lives_for_its_duration_witness:
  "fst (SessionRegistry_active ''device-1'' 1999 (snd (SessionRegistry_open (\<lambda>_. ''ab'') 1000 ''device-1''
      ''token'' 1000 \<lparr>sessionsByDeviceId = []\<rparr>))) \<noteq> None
   \<and> fst (SessionRegistry_active ''device-1'' 2000 (snd (SessionRegistry_open (\<lambda>_. ''ab'') 1000 ''device-1''
      ''token'' 1000 \<lparr>sessionsByDeviceId = []\<rparr>))) = None"
  using session_lives_for_its_duration [of 1000 1999 "''device-1''" "\<lambda>_. ''ab''" 1000 "''token''"
      "\<lparr>sessionsByDeviceId = []\<rparr>" "''device-1''"]
    session_lives_for_its_duration [of 1000 2000 "''device-1''" "\<lambda>_. ''ab''" 1000 "''token''"
      "\<lparr>sessionsByDeviceId = []\<rparr>" "''device-1''"]
  by simp

text \<open>
  A challenge is usable once, by the connection it was handed to, until it expires: presenting it
  takes it away whatever the outcome, another connection's consultation neither uses nor sees it, and
  the value accepted is the value handed out.
\<close>

theorem challenge_usable_once:
  assumes "wf_map (challengesByDeviceId reg)" and "now \<le> later"
  shows "(let reg1 = snd (ChallengeRegistry_issue durationMs d randomHex now reg);
              (verdict, reg2) = ChallengeRegistry_consume d later reg1
          in (verdict = Verdict_accepted randomHex \<longleftrightarrow> later < now + durationMs)
           \<and> (later < now + durationMs \<or> verdict = Verdict_expired)
           \<and> (\<forall>again. fst (ChallengeRegistry_consume d again reg2) = Verdict_unknown)
           \<and> (d' \<noteq> d \<longrightarrow> verdict_text (fst (ChallengeRegistry_consume d' later reg1)) =
                          verdict_text (fst (ChallengeRegistry_consume d' later reg))
                      \<and> fst (ChallengeRegistry_consume d later
                          (snd (ChallengeRegistry_consume d' later reg1))) = verdict))"
proof -
  let ?reg1 = "snd (ChallengeRegistry_issue durationMs d randomHex now reg)"
  have "verdict_text (fst (ChallengeRegistry_consume d' later ?reg1)) =
      verdict_text (fst (ChallengeRegistry_consume d' later reg))" if "d' \<noteq> d"
    using challenge.live_issue [OF assms, of durationMs d randomHex d'] that
      challenge.consult_live [of d' later ?reg1] challenge.consult_live [of d' later reg] by simp
  then show ?thesis
    by (auto simp: Let_def case_prod_beta consume_verdict consume_rest issued_challenge)
qed

theorem challenge_usable_once_witness:
  "ChallengeRegistry_consume ''device-1'' 10 (snd (ChallengeRegistry_issue 60000 ''device-1'' ''c0ffee'' 5
      \<lparr>challengesByDeviceId = []\<rparr>)) = (Verdict_accepted ''c0ffee'', \<lparr>challengesByDeviceId = []\<rparr>)"
  using challenge_usable_once [of "\<lparr>challengesByDeviceId = []\<rparr>" 5 10 60000 "''device-1''" "''c0ffee''"
      "''device-2''"]
  by (simp add: ChallengeRegistry_issue_def ChallengeRegistry_consume_def Let_def)

end
