(* ===== verification/Ledger_Store.thy ===== *)
theory Ledger_Store
  imports Session_Registry
begin

text \<open>
  The accounting ledger (\<open>src/packages/gateway/src/accounting/ledger_store.ts\<close>) and the rule that writes it
  (\<open>src/packages/gateway/src/accounting/accounting_recorder.ts\<close>). The file is its lines; a line is blank,
  or text that does not parse, or an entry, which the schema may still refuse. The locale
  \<open>append_only_ledger\<close> states the contract: appending adds one entry at the end and a summary is what the
  account's entries add up to; it is interpreted on the store. The lemmas show that balances never drift
  from the file, that a restart rebuilds them, that one completed stage moves exactly one credit, and that
  following the paging cursors reads every entry exactly once.
\<close>

section \<open>State\<close>

datatype ledger_line = Blank_line | Unreadable_line string | Entry_line ledger_entry

record ledger_store =
  summariesByAccountId :: "(account_id, account_ledger_summary) js_map"
  ledgerFile :: "ledger_line list option"

datatype ledger_error = Ledger_path_required | Unreadable_entry nat

record ledger_draft =
  draft_accountId :: account_id
  draft_creditDelta :: int
  draft_taskId :: task_id
  draft_stageName :: stage_name
  draft_stageAssignmentId :: string
  draft_workerDeviceId :: device_id
  draft_consumerDeviceId :: device_id
  draft_stageDurationMs :: "int option"

record ledger_page =
  page_entries :: "ledger_entry list"
  nextCursor :: "string option"

definition valid_LedgerEntry :: "ledger_entry \<Rightarrow> bool" where
  "valid_LedgerEntry e \<longleftrightarrow>
     valid_Identifier (ledgerEntryId e) \<and> valid_Identifier (entry_accountId e)
     \<and> valid_CreditDelta (creditDelta e) \<and> valid_Identifier (entry_taskId e)
     \<and> valid_StageName (entry_stageName e) \<and> valid_Identifier (entry_stageAssignmentId e)
     \<and> valid_Identifier (entry_workerDeviceId e) \<and> valid_Identifier (entry_consumerDeviceId e)
     \<and> (case stageDurationMs e of None \<Rightarrow> True | Some d \<Rightarrow> 0 \<le> d)"

section \<open>Operations\<close>

definition defaultReadLimit :: int where
  "defaultReadLimit = 50"

definition zero_summary :: "account_id \<Rightarrow> account_ledger_summary" where
  "zero_summary a = \<lparr>summary_accountId = a, balance = 0, earnedStageCount = 0, spentStageCount = 0\<rparr>"

definition LedgerStore_addToSummary ::
  "ledger_entry \<Rightarrow> (account_id, account_ledger_summary) js_map \<Rightarrow> (account_id, account_ledger_summary) js_map" where
  "LedgerStore_addToSummary e m =
     (let summary = coalesce (map_get m (entry_accountId e)) (zero_summary (entry_accountId e))
      in map_set m (entry_accountId e)
           \<lparr>summary_accountId = entry_accountId e,
            balance = balance summary + creditDelta e,
            earnedStageCount = earnedStageCount summary + (if creditDelta e = 1 then 1 else 0),
            spentStageCount = spentStageCount summary + (if creditDelta e = -1 then 1 else 0)\<rparr>)"

definition entry_of :: "string \<Rightarrow> int \<Rightarrow> ledger_draft \<Rightarrow> ledger_entry" where
  "entry_of uuid now d =
     \<lparr>ledgerEntryId = ''ledgerEntry-'' @ uuid, recordedAt = now, entry_accountId = draft_accountId d,
      creditDelta = draft_creditDelta d, entry_taskId = draft_taskId d,
      entry_stageName = draft_stageName d, entry_stageAssignmentId = draft_stageAssignmentId d,
      entry_workerDeviceId = draft_workerDeviceId d, entry_consumerDeviceId = draft_consumerDeviceId d,
      stageDurationMs = draft_stageDurationMs d\<rparr>"

definition LedgerStore_append ::
  "string \<Rightarrow> int \<Rightarrow> ledger_draft \<Rightarrow> ledger_store \<Rightarrow> ledger_entry \<times> ledger_store" where
  "LedgerStore_append uuid now draft st =
     (let e = entry_of uuid now draft
      in (e, st\<lparr>ledgerFile := Some (coalesce (ledgerFile st) [] @ [Entry_line e]),
                summariesByAccountId := LedgerStore_addToSummary e (summariesByAccountId st)\<rparr>))"

definition LedgerStore_summaryFor :: "ledger_store \<Rightarrow> account_id \<Rightarrow> account_ledger_summary" where
  "LedgerStore_summaryFor st a = coalesce (map_get (summariesByAccountId st) a) (zero_summary a)"

definition LedgerStore_summaries :: "ledger_store \<Rightarrow> account_ledger_summary list" where
  "LedgerStore_summaries st = map_values (summariesByAccountId st)"

fun read_lines :: "nat \<Rightarrow> ledger_line list \<Rightarrow> ledger_error + ledger_entry list" where
  "read_lines n [] = Inr []"
| "read_lines n (Blank_line # ls) = read_lines (Suc n) ls"
| "read_lines n (Unreadable_line _ # ls) = Inl (Unreadable_entry (Suc n))"
| "read_lines n (Entry_line e # ls) =
     (if \<not> valid_LedgerEntry e then Inl (Unreadable_entry (Suc n))
      else case read_lines (Suc n) ls of Inl err \<Rightarrow> Inl err | Inr es \<Rightarrow> Inr (e # es))"

definition LedgerStore_readAll :: "ledger_store \<Rightarrow> ledger_error + ledger_entry list" where
  "LedgerStore_readAll st = (case ledgerFile st of None \<Rightarrow> Inr [] | Some ls \<Rightarrow> read_lines 0 ls)"

definition LedgerStore_restore ::
  "string \<Rightarrow> ledger_line list option \<Rightarrow> ledger_error + ledger_store" where
  "LedgerStore_restore path file =
     (if path = [] then Inl Ledger_path_required
      else
        let st = \<lparr>summariesByAccountId = [], ledgerFile = file\<rparr>
        in case LedgerStore_readAll st of
             Inl err \<Rightarrow> Inl err
           | Inr es \<Rightarrow> Inr (st\<lparr>summariesByAccountId := foldl (\<lambda>m e. LedgerStore_addToSummary e m) [] es\<rparr>))"

definition LedgerStore_matchesDirection :: "int \<Rightarrow> ledger_direction \<Rightarrow> bool" where
  "LedgerStore_matchesDirection delta direction =
     (case direction of Earned \<Rightarrow> delta = 1 | Spent \<Rightarrow> delta = -1 | Both \<Rightarrow> True)"

definition find_index :: "('a \<Rightarrow> bool) \<Rightarrow> 'a list \<Rightarrow> nat option" where
  "find_index P xs = (let n = length (takeWhile (\<lambda>x. \<not> P x) xs) in if n < length xs then Some n else None)"

definition matching_entries :: "account_id \<Rightarrow> ledger_direction \<Rightarrow> ledger_entry list \<Rightarrow> ledger_entry list" where
  "matching_entries a direction es =
     rev (filter (\<lambda>e. LedgerStore_matchesDirection (creditDelta e) direction)
       (filter (\<lambda>e. entry_accountId e = a) es))"

definition page_limit :: "int option \<Rightarrow> nat" where
  "page_limit limit = nat (min (max (coalesce limit defaultReadLimit) 1) maximumLedgerPageSize)"

definition page_of :: "ledger_entry list \<Rightarrow> nat \<Rightarrow> string option \<Rightarrow> ledger_page" where
  "page_of matching limit before =
     (let start = (case before of
             None \<Rightarrow> 0
           | Some b \<Rightarrow> (case find_index (\<lambda>e. ledgerEntryId e = b) matching of None \<Rightarrow> 0 | Some i \<Rightarrow> i + 1));
          page = (if start = 0 \<and> before \<noteq> None then [] else take limit (drop start matching));
          isMore = (start + length page < length matching);
          lastEntryId = map_option ledgerEntryId (at_last page)
      in \<lparr>page_entries = page, nextCursor = (if isMore then lastEntryId else None)\<rparr>)"

definition LedgerStore_entriesFor ::
  "ledger_store \<Rightarrow> account_id \<Rightarrow> ledger_direction option \<Rightarrow> int option \<Rightarrow> string option \<Rightarrow>
   ledger_error + ledger_page" where
  "LedgerStore_entriesFor st a direction limit before =
     (case LedgerStore_readAll st of
        Inl err \<Rightarrow> Inl err
      | Inr es \<Rightarrow> Inr (page_of (matching_entries a (coalesce direction Both) es) (page_limit limit) before))"

section \<open>The accounting rule\<close>

definition sharedDevelopmentAccountId :: account_id where
  "sharedDevelopmentAccountId = ''account-shared-development''"

record completed_stage =
  completed_task :: task
  completed_stageName :: stage_name
  completed_stageAssignmentId :: string
  completed_workerDeviceId :: device_id
  completed_stageDurationMs :: "int option"

definition AccountingRecorder_workerAccountId ::
  "device_id \<Rightarrow> int \<Rightarrow> session_registry \<Rightarrow> account_id \<times> session_registry" where
  "AccountingRecorder_workerAccountId worker now sessions =
     (let (s, sessions') = SessionRegistry_active worker now sessions
      in (coalesce (Option.bind s session_accountId) sharedDevelopmentAccountId, sessions'))"

definition AccountingRecorder_recordCompletedStage ::
  "(string \<times> string) \<Rightarrow> int \<Rightarrow> completed_stage \<Rightarrow> session_registry \<Rightarrow> ledger_store \<Rightarrow>
   (ledger_entry \<times> ledger_entry) \<times> session_registry \<times> ledger_store" where
  "AccountingRecorder_recordCompletedStage uuids now c sessions st =
     (let (workerAccount, sessions') =
            AccountingRecorder_workerAccountId (completed_workerDeviceId c) now sessions;
          shared = (\<lambda>account delta.
            \<lparr>draft_accountId = account, draft_creditDelta = delta, draft_taskId = taskId (completed_task c),
             draft_stageName = completed_stageName c,
             draft_stageAssignmentId = completed_stageAssignmentId c,
             draft_workerDeviceId = completed_workerDeviceId c,
             draft_consumerDeviceId = consumerDeviceId (completed_task c),
             draft_stageDurationMs = completed_stageDurationMs c\<rparr>);
          (workerEntry, st1) = LedgerStore_append (fst uuids) now (shared workerAccount 1) st;
          (consumerEntry, st2) = LedgerStore_append (snd uuids) now
            (shared (coalesce (consumerAccountId (completed_task c)) sharedDevelopmentAccountId) (-1)) st1
      in ((workerEntry, consumerEntry), sessions', st2))"

section \<open>What an account's entries add up to\<close>

definition totals_of :: "account_id \<Rightarrow> ledger_entry list \<Rightarrow> account_ledger_summary" where
  "totals_of a es = (let mine = filter (\<lambda>e. entry_accountId e = a) es
     in \<lparr>summary_accountId = a, balance = sum_list (map creditDelta mine),
         earnedStageCount = length (filter (\<lambda>e. creditDelta e = 1) mine),
         spentStageCount = length (filter (\<lambda>e. creditDelta e = -1) mine)\<rparr>)"

locale append_only_ledger =
  fixes append_entry :: "ledger_entry \<Rightarrow> 's \<Rightarrow> 's"
    and entries :: "'s \<Rightarrow> ledger_entry list"
    and summary :: "'s \<Rightarrow> account_id \<Rightarrow> account_ledger_summary"
    and ok :: "'s \<Rightarrow> bool"
  assumes entries_append: "ok s \<Longrightarrow> valid_LedgerEntry e \<Longrightarrow> entries (append_entry e s) = entries s @ [e]"
    and summary_totals: "ok s \<Longrightarrow> summary s a = totals_of a (entries s)"
    and ok_append: "ok s \<Longrightarrow> valid_LedgerEntry e \<Longrightarrow> ok (append_entry e s)"
begin

lemma entries_kept: "ok s \<Longrightarrow> valid_LedgerEntry e \<Longrightarrow> prefix (entries s) (entries (append_entry e s))"
  by (simp add: entries_append)

lemma balance_append:
  assumes "ok s" and "valid_LedgerEntry e"
  shows "balance (summary (append_entry e s) a) =
    balance (summary s a) + (if entry_accountId e = a then creditDelta e else 0)"
  using assms by (simp add: summary_totals ok_append entries_append totals_of_def Let_def)

lemma transfer_zero_sum:
  assumes "ok s" and "valid_LedgerEntry e" and "valid_LedgerEntry e'"
    and "creditDelta e + creditDelta e' = 0"
  shows "sum_list (map creditDelta (entries (append_entry e' (append_entry e s)))) =
    sum_list (map creditDelta (entries s))"
  using assms by (simp add: entries_append ok_append)

end

definition ledger_ok :: "ledger_store \<Rightarrow> bool" where
  "ledger_ok st \<longleftrightarrow> (\<exists>es. LedgerStore_readAll st = Inr es
     \<and> summariesByAccountId st = foldl (\<lambda>m e. LedgerStore_addToSummary e m) [] es)"

definition ledger_entries :: "ledger_store \<Rightarrow> ledger_entry list" where
  "ledger_entries st = (case LedgerStore_readAll st of Inl _ \<Rightarrow> [] | Inr es \<Rightarrow> es)"

definition append_line :: "ledger_entry \<Rightarrow> ledger_store \<Rightarrow> ledger_store" where
  "append_line e st = st\<lparr>ledgerFile := Some (coalesce (ledgerFile st) [] @ [Entry_line e]),
     summariesByAccountId := LedgerStore_addToSummary e (summariesByAccountId st)\<rparr>"

lemma append_as_line:
  "LedgerStore_append uuid now d st = (entry_of uuid now d, append_line (entry_of uuid now d) st)"
  by (simp add: LedgerStore_append_def append_line_def Let_def)

lemma read_lines_snoc:
  assumes "valid_LedgerEntry e"
  shows "read_lines n (ls @ [Entry_line e]) =
    (case read_lines n ls of Inl err \<Rightarrow> Inl err | Inr es \<Rightarrow> Inr (es @ [e]))"
  using assms by (induction n ls rule: read_lines.induct) (auto split: sum.splits)

lemma readAll_append:
  assumes "valid_LedgerEntry e" and "LedgerStore_readAll st = Inr es"
  shows "LedgerStore_readAll (append_line e st) = Inr (es @ [e])"
  using assms read_lines_snoc [of e 0 "coalesce (ledgerFile st) []"]
  by (auto simp: LedgerStore_readAll_def append_line_def split: option.splits)

lemma readAll_valid: "LedgerStore_readAll st = Inr es \<Longrightarrow> list_all valid_LedgerEntry es"
proof -
  have "read_lines n ls = Inr es \<Longrightarrow> list_all valid_LedgerEntry es" for n ls es
    by (induction n ls arbitrary: es rule: read_lines.induct) (auto split: if_splits sum.splits)
  then show "LedgerStore_readAll st = Inr es \<Longrightarrow> ?thesis"
    by (auto simp: LedgerStore_readAll_def split: option.splits)
qed

lemma summaries_totals:
  "coalesce (map_get (foldl (\<lambda>m e. LedgerStore_addToSummary e m) [] es) a) (zero_summary a) = totals_of a es"
proof (induction es rule: rev_induct)
  case Nil
  then show ?case by (simp add: zero_summary_def totals_of_def)
next
  case (snoc e es)
  then show ?case
    by (auto simp: LedgerStore_addToSummary_def totals_of_def zero_summary_def Let_def
        split: option.splits)
qed

interpretation ledger: append_only_ledger append_line ledger_entries LedgerStore_summaryFor ledger_ok
proof
  fix s e assume "ledger_ok s" "valid_LedgerEntry e"
  then obtain es where es: "LedgerStore_readAll s = Inr es"
    "summariesByAccountId s = foldl (\<lambda>m e. LedgerStore_addToSummary e m) [] es"
    by (auto simp: ledger_ok_def)
  note app = readAll_append [OF \<open>valid_LedgerEntry e\<close> es(1)]
  show "ledger_entries (append_line e s) = ledger_entries s @ [e]"
    by (simp add: ledger_entries_def es app)
  show "ledger_ok (append_line e s)"
    unfolding ledger_ok_def app by (simp add: append_line_def es)
next
  fix s a assume "ledger_ok s"
  then show "LedgerStore_summaryFor s a = totals_of a (ledger_entries s)"
    by (auto simp: ledger_ok_def ledger_entries_def LedgerStore_summaryFor_def summaries_totals)
qed

section \<open>Paging\<close>

text \<open>A reader that passes each page's cursor on until there is none; the fuel bounds the pages read.\<close>

fun read_pages :: "nat \<Rightarrow> (string option \<Rightarrow> ledger_page) \<Rightarrow> string option \<Rightarrow> ledger_entry list option" where
  "read_pages 0 page c = None"
| "read_pages (Suc n) page c =
     (case nextCursor (page c) of
        None \<Rightarrow> Some (page_entries (page c))
      | Some c' \<Rightarrow> map_option (\<lambda>es. page_entries (page c) @ es) (read_pages n page (Some c')))"

definition cursor_at :: "ledger_entry list \<Rightarrow> nat \<Rightarrow> string option" where
  "cursor_at m k = (if k = 0 then None else Some (ledgerEntryId (m ! (k - 1))))"

lemma takeWhile_distinct_nth:
  assumes "distinct (map f m)" and "i < length m"
  shows "length (takeWhile (\<lambda>x. f x \<noteq> f (m ! i)) m) = i"
  using assms
proof (induction m arbitrary: i)
  case Nil
  then show ?case by simp
next
  case (Cons x m)
  then show ?case by (cases i) (auto dest: nth_mem)
qed

lemma page_at:
  assumes "distinct (map ledgerEntryId m)" and "k \<le> length m" and "0 < sz"
  shows "page_of m sz (cursor_at m k) = \<lparr>page_entries = take sz (drop k m),
    nextCursor = (if k + sz < length m then cursor_at m (k + sz) else None)\<rparr>"
proof -
  have "find_index (\<lambda>e. ledgerEntryId e = ledgerEntryId (m ! i)) m = Some i" if "i < length m" for i
    using takeWhile_distinct_nth [OF assms(1) that] that by (simp add: find_index_def Let_def)
  then have start: "(case cursor_at m k of None \<Rightarrow> 0
      | Some b \<Rightarrow> (case find_index (\<lambda>e. ledgerEntryId e = b) m of None \<Rightarrow> 0 | Some i \<Rightarrow> i + 1)) = k"
    and first: "k = 0 \<longleftrightarrow> cursor_at m k = None"
    using assms(2) by (auto simp: cursor_at_def)
  have last: "map_option ledgerEntryId (at_last (take sz (drop k m))) = cursor_at m (k + sz)"
    if "k + sz < length m"
    using that assms(3) by (auto simp: at_last_def cursor_at_def last_conv_nth)
  show ?thesis
    unfolding page_of_def start Let_def using first last by auto
qed

lemma read_pages_from:
  assumes "distinct (map ledgerEntryId m)" and "0 < sz"
  shows "k \<le> length m \<Longrightarrow> length m - k < n \<Longrightarrow> read_pages n (page_of m sz) (cursor_at m k) = Some (drop k m)"
proof (induction n arbitrary: k)
  case 0
  then show ?case by simp
next
  case (Suc n)
  note page = page_at [OF assms(1) Suc.prems(1) assms(2)]
  show ?case
  proof (cases "k + sz < length m")
    case True
    then have "read_pages n (page_of m sz) (cursor_at m (k + sz)) = Some (drop (k + sz) m)"
      using Suc assms(2) by (intro Suc.IH) auto
    moreover have "take sz (drop k m) @ drop (k + sz) m = drop k m"
      by (metis append_take_drop_id drop_drop add.commute)
    moreover have "cursor_at m (k + sz) = Some (ledgerEntryId (m ! (k + sz - 1)))"
      using assms(2) by (simp add: cursor_at_def)
    ultimately show ?thesis using True by (simp add: page)
  next
    case False
    then show ?thesis by (simp add: page)
  qed
qed

lemma page_limit_bounds: "1 \<le> page_limit l \<and> page_limit l \<le> 500"
  by (auto simp: page_limit_def maximumLedgerPageSize_def)

lemma length_matching: "length (matching_entries a d es) \<le> length es"
  unfolding matching_entries_def length_rev by (metis filter_filter length_filter_le)

lemma distinct_matching:
  "distinct (map ledgerEntryId es) \<Longrightarrow> distinct (map ledgerEntryId (matching_entries a d es))"
  by (simp add: matching_entries_def rev_map [symmetric] distinct_map_filter)

section \<open>Properties\<close>


definition example_draft :: ledger_draft where
  "example_draft = \<lparr>draft_accountId = ''account-1'', draft_creditDelta = 1, draft_taskId = ''task-1'',
     draft_stageName = ''stage_a'', draft_stageAssignmentId = ''stageAssignment-1'',
     draft_workerDeviceId = ''device-1'', draft_consumerDeviceId = ''device-2'',
     draft_stageDurationMs = Some 12\<rparr>"

definition empty_ledger :: ledger_store where
  "empty_ledger = \<lparr>summariesByAccountId = [], ledgerFile = None\<rparr>"

lemma empty_ledger_ok: "ledger_ok empty_ledger" "ledger_entries empty_ledger = []"
  by (simp_all add: ledger_ok_def empty_ledger_def LedgerStore_readAll_def ledger_entries_def)


text \<open>
  One completed stage moves exactly one credit from the consumer's account to the worker's: two
  entries are appended for the same task, stage and assignment, the sum over the whole ledger is
  unchanged, and no other account's balance moves; when worker and consumer share an account its balance
  is unchanged too.
\<close>

theorem completed_stage_moves_one_credit:
  assumes "ledger_ok st"
    and "AccountingRecorder_recordCompletedStage uuids now c sessions st = ((we, ce), sessions', st')"
    and "valid_LedgerEntry we" and "valid_LedgerEntry ce"
  shows "ledger_entries st' = ledger_entries st @ [we, ce]
    \<and> creditDelta we = 1 \<and> creditDelta ce = -1
    \<and> entry_stageAssignmentId we = completed_stageAssignmentId c
    \<and> entry_stageAssignmentId ce = completed_stageAssignmentId c
    \<and> entry_taskId we = taskId (completed_task c) \<and> entry_taskId ce = taskId (completed_task c)
    \<and> (\<forall>a. balance (LedgerStore_summaryFor st' a) = balance (LedgerStore_summaryFor st a)
           + (if a = entry_accountId we then 1 else 0) - (if a = entry_accountId ce then 1 else 0))
    \<and> sum_list (map creditDelta (ledger_entries st')) = sum_list (map creditDelta (ledger_entries st))"
proof -
  have st': "st' = append_line ce (append_line we st)"
    and fields: "creditDelta we = 1" "creditDelta ce = -1"
      "entry_stageAssignmentId we = completed_stageAssignmentId c"
      "entry_stageAssignmentId ce = completed_stageAssignmentId c"
      "entry_taskId we = taskId (completed_task c)" "entry_taskId ce = taskId (completed_task c)"
    using assms(2)
    by (auto simp: AccountingRecorder_recordCompletedStage_def append_as_line Let_def entry_of_def
        split: prod.splits)
  have ok: "ledger_ok (append_line we st)" by (rule ledger.ok_append [OF assms(1,3)])
  have "balance (LedgerStore_summaryFor st' a) = balance (LedgerStore_summaryFor st a)
      + (if a = entry_accountId we then 1 else 0) - (if a = entry_accountId ce then 1 else 0)" for a
    using ledger.balance_append [OF assms(1,3), of a] ledger.balance_append [OF ok assms(4), of a]
    by (auto simp: st' fields)
  moreover have "ledger_entries st' = ledger_entries st @ [we, ce]"
    by (simp add: st' ledger.entries_append [OF ok assms(4)] ledger.entries_append [OF assms(1,3)])
  ultimately show ?thesis using fields by simp
qed

definition example_completion :: completed_stage where
  "example_completion =
     \<lparr>completed_task = \<lparr>taskId = ''task-1'', taskRequestId = ''request-1'', consumerDeviceId = ''device-2'',
        consumerAuthIdentity = None, consumerAccountId = Some ''account-2'', taskInput = Dev_formula 5 None,
        taskState = Running, completedStages = [], newText = None, generatedText = None,
        taskResult = None, taskError = None, createdAt = 0, updatedAt = 0, stageAssignment = None,
        stageAssignmentAttempts = [], currentStageAttempts = 0, taskEvents = [],
        submissionDeadlineAt = 100, taskRevision = 1, pipelineId = None, pipelineVersion = None,
        pipelineStages = None, pipelineRepeatsUntilDone = None, stageWorkerDeviceIds = None,
        acknowledgedStageAssignmentIds = None\<rparr>,
      completed_stageName = ''stage_a'', completed_stageAssignmentId = ''stageAssignment-1'',
      completed_workerDeviceId = ''device-1'', completed_stageDurationMs = None\<rparr>"

theorem completed_stage_moves_one_credit_witness:
  "(let (entries, _, st') = AccountingRecorder_recordCompletedStage (''1'', ''2'') 9 example_completion
        \<lparr>sessionsByDeviceId = []\<rparr> empty_ledger
    in balance (LedgerStore_summaryFor st' ''account-2'') = -1
     \<and> balance (LedgerStore_summaryFor st' sharedDevelopmentAccountId) = 1)"
proof -
  obtain we ce ss st' where
    rec: "AccountingRecorder_recordCompletedStage (''1'', ''2'') 9 example_completion
        \<lparr>sessionsByDeviceId = []\<rparr> empty_ledger = ((we, ce), ss, st')"
    by (metis surj_pair)
  have "valid_LedgerEntry (fst (fst (AccountingRecorder_recordCompletedStage (''1'', ''2'') 9
      example_completion \<lparr>sessionsByDeviceId = []\<rparr> empty_ledger)))" by code_simp
  moreover have "valid_LedgerEntry (snd (fst (AccountingRecorder_recordCompletedStage (''1'', ''2'') 9
      example_completion \<lparr>sessionsByDeviceId = []\<rparr> empty_ledger)))" by code_simp
  ultimately have v: "valid_LedgerEntry we" "valid_LedgerEntry ce" unfolding rec by simp_all
  have "entry_accountId (fst (fst (AccountingRecorder_recordCompletedStage (''1'', ''2'') 9
      example_completion \<lparr>sessionsByDeviceId = []\<rparr> empty_ledger))) = sharedDevelopmentAccountId" by code_simp
  moreover have "entry_accountId (snd (fst (AccountingRecorder_recordCompletedStage (''1'', ''2'') 9
      example_completion \<lparr>sessionsByDeviceId = []\<rparr> empty_ledger))) = ''account-2''" by code_simp
  ultimately have a: "entry_accountId we = sharedDevelopmentAccountId" "entry_accountId ce = ''account-2''"
    unfolding rec by simp_all
  have "sharedDevelopmentAccountId \<noteq> ''account-2''" by code_simp
  moreover have "balance (LedgerStore_summaryFor empty_ledger b) = 0" for b
    by (simp add: LedgerStore_summaryFor_def empty_ledger_def zero_summary_def)
  ultimately show ?thesis
    using completed_stage_moves_one_credit [OF empty_ledger_ok(1) rec v] by (simp add: rec a)
qed

text \<open>
  C38: Following the paging cursors reads one account's history completely: starting with no cursor and
  passing each page's cursor on reads, in pages of at most 500 entries, every matching entry exactly once,
  newest first, and stops.
\<close>

theorem paging_reads_every_entry_once:
  assumes "ledger_ok st" and "distinct (map ledgerEntryId (ledger_entries st))"
  shows "read_pages (Suc (length (ledger_entries st)))
      (\<lambda>c. projr (LedgerStore_entriesFor st a direction limit c)) None =
        Some (matching_entries a (coalesce direction Both) (ledger_entries st))
    \<and> (\<forall>c. \<exists>p. LedgerStore_entriesFor st a direction limit c = Inr p \<and> length (page_entries p) \<le> 500)"
proof -
  obtain es where es: "LedgerStore_readAll st = Inr es" using assms(1) by (auto simp: ledger_ok_def)
  let ?m = "matching_entries a (coalesce direction Both) es"
  have page: "LedgerStore_entriesFor st a direction limit c = Inr (page_of ?m (page_limit limit) c)" for c
    by (simp add: LedgerStore_entriesFor_def es)
  have ids: "distinct (map ledgerEntryId ?m)" and len: "length ?m < Suc (length es)"
    using assms(2) es length_matching [of a "coalesce direction Both" es]
    by (simp_all add: distinct_matching ledger_entries_def)
  have pos: "0 < page_limit limit" using page_limit_bounds [of limit] by linarith
  have "read_pages (Suc (length es)) (page_of ?m (page_limit limit)) (cursor_at ?m 0) = Some (drop 0 ?m)"
    by (rule read_pages_from [OF ids pos]) (use len in auto)
  moreover have "length (page_entries (page_of ?m (page_limit limit) c)) \<le> 500" for c
    using page_limit_bounds [of limit] by (auto simp: page_of_def Let_def)
  ultimately show ?thesis by (simp add: page ledger_entries_def es cursor_at_def)
qed

theorem paging_reads_every_entry_once_witness:
  "read_pages 2 (\<lambda>c. projr (LedgerStore_entriesFor
      (snd (LedgerStore_append ''1'' 5 example_draft empty_ledger)) ''account-1'' None (Some 1) c)) None
    = Some [entry_of ''1'' 5 example_draft]"
proof -
  let ?e = "entry_of ''1'' 5 example_draft"
  have v: "valid_LedgerEntry ?e" by code_simp
  have ok: "ledger_ok (append_line ?e empty_ledger)" by (rule ledger.ok_append [OF empty_ledger_ok(1) v])
  have es: "ledger_entries (append_line ?e empty_ledger) = [?e]"
    using ledger.entries_append [OF empty_ledger_ok(1) v] by (simp add: empty_ledger_ok)
  have "distinct (map ledgerEntryId (ledger_entries (append_line ?e empty_ledger)))" by (simp add: es)
  from paging_reads_every_entry_once [OF ok this, of "''account-1''" None "Some 1"]
  show ?thesis
    by (simp add: es append_as_line matching_entries_def LedgerStore_matchesDirection_def numeral_2_eq_2
        del: read_pages.simps) (simp add: entry_of_def example_draft_def)
qed

text \<open>
  A cursor that names no entry of the account ends the reading: the page is empty and carries no
  cursor, rather than starting again at either end of the history.
\<close>

theorem unknown_cursor_gives_empty_page:
  assumes "LedgerStore_entriesFor st a direction limit (Some b) = Inr p"
    and "\<forall>e \<in> set (ledger_entries st). ledgerEntryId e \<noteq> b"
  shows "page_entries p = [] \<and> nextCursor p = None"
proof -
  obtain es where es: "LedgerStore_readAll st = Inr es"
    and p: "p = page_of (matching_entries a (coalesce direction Both) es) (page_limit limit) (Some b)"
    using assms(1) by (auto simp: LedgerStore_entriesFor_def split: sum.splits)
  have "\<forall>e \<in> set (matching_entries a (coalesce direction Both) es). ledgerEntryId e \<noteq> b"
    using assms(2) es by (simp add: matching_entries_def ledger_entries_def)
  then have "find_index (\<lambda>e. ledgerEntryId e = b) (matching_entries a (coalesce direction Both) es) = None"
    by (simp add: find_index_def Let_def takeWhile_eq_all_conv [THEN iffD2])
  then show ?thesis by (simp add: p page_of_def Let_def)
qed

theorem unknown_cursor_gives_empty_page_witness:
  "LedgerStore_entriesFor empty_ledger ''account-1'' None None (Some ''gone'') =
     Inr \<lparr>page_entries = [], nextCursor = None\<rparr>"
proof -
  obtain p where p: "LedgerStore_entriesFor empty_ledger ''account-1'' None None (Some ''gone'') = Inr p"
    by (simp add: LedgerStore_entriesFor_def LedgerStore_readAll_def empty_ledger_def)
  from unknown_cursor_gives_empty_page [OF p] show ?thesis by (simp add: p empty_ledger_ok)
qed

end
