(* ===== verification/Gateway_Messages.thy ===== *)
theory Gateway_Messages
  imports Device_Registry Ledger_Store
begin

text \<open>
  The messages of the protocol: what a client may send
  (\<open>src/packages/protocol/src/message/client_message.ts\<close>) with the bounds its schema checks, what the
  gateway may answer (\<open>gateway_message.ts\<close>), the wrapper of a frame (\<open>envelope.ts\<close>), and the two shapes
  in which a task travels (\<open>src/packages/protocol/src/task/task_projection.ts\<close>). The lemmas show what the
  projections keep back: no stage input value, no assignment history, at most twenty events, and for the
  slim update neither the task's input nor its completed values.
\<close>

section \<open>Projections of a task\<close>

record task_update_assignment =
  ua_workerDeviceId :: device_id
  ua_stageAssignmentId :: string
  ua_attempt :: nat
  ua_stage :: stage_name
  ua_leaseUntil :: int
  ua_acceptedAt :: "int option"
  ua_retryReason :: "retry_reason option"

datatype task_snapshot = Task_snapshot
  (snap_taskId: task_id) (snap_taskRequestId: string) (snap_consumerDeviceId: device_id)
  (snap_consumerAuthIdentity: "string option") (snap_consumerAccountId: "account_id option")
  (snap_input: task_input) (snap_state: task_state) (snap_completedStages: "stage_result list")
  (snap_generatedText: "string option") (snap_result: "stage_payload option")
  (snap_error: "string option") (snap_createdAt: int) (snap_updatedAt: int)
  (snap_currentStageAttempts: nat) (snap_submissionDeadlineAt: int) (snap_taskRevision: nat)
  (snap_pipelineId: "string option") (snap_pipelineVersion: "int option")
  (snap_pipelineStages: "stage_name list option") (snap_pipelineRepeatsUntilDone: "bool option")
  (snap_stageWorkerDeviceIds: "(stage_name, device_id) js_map option")
  (snap_acknowledgedStageAssignmentIds: "string list option")
  (snap_stageAssignment: "task_update_assignment option") (snap_recentEvents: "task_event list")

record task_update =
  upd_taskId :: task_id
  upd_taskRevision :: nat
  upd_state :: task_state
  upd_updatedAt :: int
  upd_completedStageCount :: nat
  upd_currentStage :: "stage_name option"
  upd_currentStageAttempts :: nat
  upd_stageAssignment :: "task_update_assignment option"
  upd_newText :: "string option"
  upd_result :: "stage_payload option"
  upd_error :: "string option"

definition maximumSnapshotEventCount :: nat where
  "maximumSnapshotEventCount = 20"

text \<open>\<open>xs.slice(-n)\<close>: the last \<open>n\<close> elements.\<close>

definition slice_last :: "nat \<Rightarrow> 'a list \<Rightarrow> 'a list" where
  "slice_last n xs = drop (length xs - n) xs"

definition TaskProjection_stageAssignment :: "stage_assignment \<Rightarrow> task_update_assignment" where
  "TaskProjection_stageAssignment a =
     \<lparr>ua_workerDeviceId = workerDeviceId a, ua_stageAssignmentId = stageAssignmentId a,
      ua_attempt = attempt a, ua_stage = assignedStage a, ua_leaseUntil = leaseUntil a,
      ua_acceptedAt = acceptedAt a, ua_retryReason = retryReason a\<rparr>"

definition TaskProjection_snapshot :: "task \<Rightarrow> task_snapshot" where
  "TaskProjection_snapshot t =
     Task_snapshot (taskId t) (taskRequestId t) (consumerDeviceId t) (consumerAuthIdentity t)
       (consumerAccountId t) (taskInput t) (taskState t) (completedStages t) (generatedText t)
       (taskResult t) (taskError t) (createdAt t) (updatedAt t) (currentStageAttempts t)
       (submissionDeadlineAt t) (taskRevision t) (pipelineId t) (pipelineVersion t)
       (pipelineStages t) (pipelineRepeatsUntilDone t) (stageWorkerDeviceIds t)
       (acknowledgedStageAssignmentIds t)
       (map_option TaskProjection_stageAssignment (stageAssignment t))
       (slice_last maximumSnapshotEventCount (taskEvents t))"

definition TaskProjection_update :: "task \<Rightarrow> task_update" where
  "TaskProjection_update t =
     \<lparr>upd_taskId = taskId t, upd_taskRevision = taskRevision t, upd_state = taskState t,
      upd_updatedAt = updatedAt t, upd_completedStageCount = length (completedStages t),
      upd_currentStage = map_option assignedStage (stageAssignment t),
      upd_currentStageAttempts = currentStageAttempts t,
      upd_stageAssignment = map_option TaskProjection_stageAssignment (stageAssignment t),
      upd_newText = newText t, upd_result = taskResult t, upd_error = taskError t\<rparr>"

section \<open>What a client may send\<close>

datatype client_message =
    Observe
  | DeviceAuthenticate string
  | Account_register signature_algorithm string "string option" "string option"
  | Account_challenge_request
  | Account_authenticate account_id string
  | Account_get "account_id option"
  | Account_balance_get "account_id option"
  | Account_ledger_get "account_id option" "ledger_direction option" "int option" "string option"
  | Accounting_summaries_get
  | Task_observe task_id
  | Task_unobserve task_id
  | Task_resync task_id
  | Task_observer_grant task_id device_id
  | Task_observer_revoke task_id device_id
  | Devices_resync
  | Devices_subscribe
  | Devices_unsubscribe
  | DeviceRegister device_role string "stage_name list option" "bool option" "int option"
  | Task_submit string task_input "string option" "int option"
  | Pipelines_get
  | Task_get task_id
  | Task_history_get task_id
  | Stage_result task_id string nat stage_name stage_payload
  | Stage_failed task_id string nat stage_name string
  | Stage_accepted task_id string nat
  | Stage_relinquish task_id string nat
  | Stage_heartbeat task_id string nat
  | Task_cancel task_id string
  | Worker_state worker_state "int option"
  | Signal_to device_id json

fun valid_llm_task_value :: "llm_task_value \<Rightarrow> bool" where
  "valid_llm_task_value (Prompt _) = True"
| "valid_llm_task_value (History h) = valid_HistoryInput h"

fun valid_TaskInput :: "task_input \<Rightarrow> bool" where
  "valid_TaskInput (Dev_formula _ g) = opt_all valid_GenerationSettings g"
| "valid_TaskInput (Llm_qwen3_0_6b_sharded _ g) = opt_all valid_GenerationSettings g"
| "valid_TaskInput (Llm_gemma_nano_chrome_full _ g) = opt_all valid_GenerationSettings g"
| "valid_TaskInput (Llm_qwen3_5_0_8b_full v g) \<longleftrightarrow>
     valid_llm_task_value v \<and> opt_all valid_GenerationSettings g"
| "valid_TaskInput (Llm_llama3_2_1b_full v g) \<longleftrightarrow>
     valid_llm_task_value v \<and> opt_all valid_GenerationSettings g"
| "valid_TaskInput (Llm_gemma_4_e2b_full v g) \<longleftrightarrow>
     valid_llm_task_value v \<and> opt_all valid_GenerationSettings g"

definition valid_assignment_reference :: "task_id \<Rightarrow> string \<Rightarrow> nat \<Rightarrow> bool" where
  "valid_assignment_reference tid aid attempt' \<longleftrightarrow>
     valid_Identifier tid \<and> valid_Identifier aid \<and> 0 < attempt'"

fun valid_ClientMessage :: "client_message \<Rightarrow> bool" where
  "valid_ClientMessage Observe = True"
| "valid_ClientMessage (DeviceAuthenticate token) \<longleftrightarrow> 1 \<le> length token \<and> length token \<le> 4000"
| "valid_ClientMessage (Account_register _ key email name) \<longleftrightarrow>
     1 \<le> length key \<and> length key \<le> 2000 \<and> opt_all (\<lambda>e. length e \<le> 320) email
     \<and> opt_all (\<lambda>n. length n \<le> 200) name"
| "valid_ClientMessage Account_challenge_request = True"
| "valid_ClientMessage (Account_authenticate aid signature) \<longleftrightarrow>
     valid_Identifier aid \<and> 1 \<le> length signature \<and> length signature \<le> 2000"
| "valid_ClientMessage (Account_get aid) = opt_all valid_Identifier aid"
| "valid_ClientMessage (Account_balance_get aid) = opt_all valid_Identifier aid"
| "valid_ClientMessage (Account_ledger_get aid _ limit before) \<longleftrightarrow>
     opt_all valid_Identifier aid \<and> opt_all (\<lambda>n. 1 \<le> n \<and> n \<le> maximumLedgerPageSize) limit
     \<and> opt_all valid_Identifier before"
| "valid_ClientMessage Accounting_summaries_get = True"
| "valid_ClientMessage (Task_observe tid) = valid_Identifier tid"
| "valid_ClientMessage (Task_unobserve tid) = valid_Identifier tid"
| "valid_ClientMessage (Task_resync tid) = valid_Identifier tid"
| "valid_ClientMessage (Task_observer_grant tid did) \<longleftrightarrow> valid_Identifier tid \<and> valid_Identifier did"
| "valid_ClientMessage (Task_observer_revoke tid did) \<longleftrightarrow> valid_Identifier tid \<and> valid_Identifier did"
| "valid_ClientMessage Devices_resync = True"
| "valid_ClientMessage Devices_subscribe = True"
| "valid_ClientMessage Devices_unsubscribe = True"
| "valid_ClientMessage (DeviceRegister _ name stages _ maximum) \<longleftrightarrow>
     1 \<le> length name \<and> length name \<le> 200
     \<and> opt_all (\<lambda>ss. list_all valid_StageName ss \<and> length ss \<le> 10) stages
     \<and> opt_all (\<lambda>n. 1 \<le> n \<and> n \<le> 100) maximum"
| "valid_ClientMessage (Task_submit request input' pid version) \<longleftrightarrow>
     valid_Identifier request \<and> valid_TaskInput input' \<and> opt_all valid_Identifier pid
     \<and> opt_all (\<lambda>v. 0 < v) version"
| "valid_ClientMessage Pipelines_get = True"
| "valid_ClientMessage (Task_get tid) = valid_Identifier tid"
| "valid_ClientMessage (Task_history_get tid) = valid_Identifier tid"
| "valid_ClientMessage (Stage_result tid aid n stage v) \<longleftrightarrow>
     valid_assignment_reference tid aid n \<and> valid_StageName stage \<and> valid_StagePayload v"
| "valid_ClientMessage (Stage_failed tid aid n stage e) \<longleftrightarrow>
     valid_assignment_reference tid aid n \<and> valid_StageName stage \<and> 1 \<le> length e \<and> length e \<le> 10000"
| "valid_ClientMessage (Stage_accepted tid aid n) = valid_assignment_reference tid aid n"
| "valid_ClientMessage (Stage_relinquish tid aid n) = valid_assignment_reference tid aid n"
| "valid_ClientMessage (Stage_heartbeat tid aid n) = valid_assignment_reference tid aid n"
| "valid_ClientMessage (Task_cancel tid reason) \<longleftrightarrow>
     valid_Identifier tid \<and> 1 \<le> length reason \<and> length reason \<le> 10000"
| "valid_ClientMessage (Worker_state _ maximum) = opt_all (\<lambda>n. 1 \<le> n \<and> n \<le> 100) maximum"
| "valid_ClientMessage (Signal_to did _) = valid_Identifier did"

section \<open>What the gateway may send\<close>

datatype error_code =
    INVALID_MESSAGE | NOT_REGISTERED | VALIDATION | AUTHORISATION | TASK_NOT_FOUND
  | TASK_REQUEST_ID_CONFLICT | ASSIGNMENT_OWNER_MISMATCH | STALE_ASSIGNMENT | CAPACITY_EXHAUSTED
  | WORKER_REQUIRED | CONSUMER_REQUIRED | TASK_OWNER_MISMATCH | ASSIGNMENT_STAGE_MISMATCH
  | ASSIGNMENT_NOT_ACCEPTED | MESSAGE_TOO_LARGE | UNSUPPORTED | NO_COMPATIBLE_WORKER
  | AUTHENTICATION_REQUIRED | RATE_LIMITED | ACCOUNT_NOT_FOUND | ACCOUNT_CHALLENGE_INVALID
  | ACCOUNT_SIGNATURE_REJECTED | ACCOUNT_REQUIRED

datatype error_details =
    Undefined_stage_names "stage_name list" "stage_name list"
  | Active_task_limit nat
  | Missing_stage_names "stage_name list"
  | Supported_protocol_versions "int list"
  | Authenticated_account account_id

record protocol_error =
  error_code :: error_code
  error_message :: string
  error_details :: "error_details option"
  error_taskRequestId :: "string option"
  error_taskId :: "task_id option"
  error_retryable :: "bool option"

record stage_assign_message =
  sa_taskId :: task_id
  sa_stageAssignmentId :: string
  sa_attempt :: nat
  sa_stage :: stage_name
  sa_computation :: string
  sa_stageIndex :: nat
  sa_value :: stage_payload
  sa_generationSettings :: "generation_settings option"
  sa_leaseUntil :: int

datatype result_status = Status_assigned | Status_completed

datatype gateway_message =
    DeviceAuthenticated string int
  | Account_registered account_profile bool
  | Account_challenge string int
  | Account_authenticated account_id int
  | Account_profile account_profile
  | Account_balance account_ledger_summary
  | Account_ledger account_id ledger_direction "ledger_entry list" "string option"
  | Accounting_summaries "account_summary_row list"
  | DeviceRegistered device_id
  | Task_accepted string task_snapshot
  | Task_snapshot_message task_snapshot
  | Task_updated task_update
  | Task_history task_id "task_event list"
  | Pipelines "pipeline_specification list"
  | Stage_assign stage_assign_message
  | Stage_cancel task_id string nat string
  | Stage_lease_extended task_id string nat int
  | Stage_result_accepted task_id string nat nat result_status
  | Signal_from device_id json
  | Devices "device list" nat
  | Device_joined device nat
  | Device_updated device nat
  | Device_activity "device_activity list" nat
  | Device_left device_id nat
  | Error_message protocol_error

section \<open>The wrapper\<close>

definition protocolVersion :: int where
  "protocolVersion = 10"

definition supportedProtocolVersions :: "int list" where
  "supportedProtocolVersions = [10]"

record 'body envelope =
  env_v :: int
  env_id :: string
  env_ts :: int
  env_inReplyToMessageId :: "string option"
  env_body :: 'body

definition Envelope_newId :: "string \<Rightarrow> string" where
  "Envelope_newId uuid = ''message-'' @ uuid"

definition Envelope_fromClient :: "string \<Rightarrow> int \<Rightarrow> client_message \<Rightarrow> client_message envelope" where
  "Envelope_fromClient uuid now body =
     \<lparr>env_v = protocolVersion, env_id = Envelope_newId uuid, env_ts = now,
      env_inReplyToMessageId = None, env_body = body\<rparr>"

definition Envelope_fromGateway ::
  "string \<Rightarrow> int \<Rightarrow> gateway_message \<Rightarrow> string option \<Rightarrow> gateway_message envelope" where
  "Envelope_fromGateway uuid now body reply =
     \<lparr>env_v = protocolVersion, env_id = Envelope_newId uuid, env_ts = now,
      env_inReplyToMessageId = reply, env_body = body\<rparr>"

definition Envelope_supportsVersion :: "int \<Rightarrow> bool" where
  "Envelope_supportsVersion version \<longleftrightarrow> version \<in> set supportedProtocolVersions"

text \<open>
  A received value that carries a message type but no wrapper. A JSON object never holds
  \<open>undefined\<close>, so a body that is undefined is a body that is absent.
\<close>

definition Envelope_isUnwrappedMessage :: "json \<Rightarrow> bool" where
  "Envelope_isUnwrappedMessage v =
     (case v of
        JObject members \<Rightarrow>
          (case map_get members ''type'' of Some (JString _) \<Rightarrow> map_get members ''body'' = None | _ \<Rightarrow> False)
      | _ \<Rightarrow> False)"

section \<open>Properties\<close>

lemma slice_last_bounds: "length (slice_last n xs) \<le> n \<and> suffix (slice_last n xs) xs"
  by (auto simp: slice_last_def suffix_drop)

text \<open>
  What the projections keep back. The snapshot a reader gets does not depend on the value handed to
  the assigned worker, on the assignment history or on the text of the last revision, and carries at most
  the twenty latest events. The update broadcast on every revision does not depend on the task's input, on
  who submitted it, on its pipeline, on any completed value or on any event either, only on how many stages
  completed.
\<close>

theorem projections_disclose_no_values:
  "TaskProjection_snapshot (t\<lparr>stageAssignment := map_option (\<lambda>a. a\<lparr>assignedValue := v\<rparr>) (stageAssignment t),
      stageAssignmentAttempts := attempts, newText := piece\<rparr>) = TaskProjection_snapshot t
   \<and> length (snap_recentEvents (TaskProjection_snapshot t)) \<le> 20
   \<and> suffix (snap_recentEvents (TaskProjection_snapshot t)) (taskEvents t)
   \<and> TaskProjection_update (t\<lparr>taskInput := i, consumerDeviceId := c, consumerAuthIdentity := who,
       consumerAccountId := acc, completedStages := map (\<lambda>r. r\<lparr>result_value := v'\<rparr>) (completedStages t),
       generatedText := txt', taskEvents := evs, stageAssignmentAttempts := attempts,
       pipelineId := p, pipelineStages := ps,
       stageAssignment := map_option (\<lambda>a. a\<lparr>assignedValue := v\<rparr>) (stageAssignment t)\<rparr>)
     = TaskProjection_update t"
proof -
  have a: "TaskProjection_stageAssignment (a\<lparr>assignedValue := v\<rparr>) = TaskProjection_stageAssignment a" for a
    by (simp add: TaskProjection_stageAssignment_def)
  have "map_option TaskProjection_stageAssignment (map_option (\<lambda>a. a\<lparr>assignedValue := v\<rparr>) x) =
      map_option TaskProjection_stageAssignment x"
    and "map_option assignedStage (map_option (\<lambda>a. a\<lparr>assignedValue := v\<rparr>) x) =
      map_option assignedStage x" for x
    by (cases x; simp add: a)+
  then show ?thesis
    using slice_last_bounds [of 20 "taskEvents t"]
    by (simp add: TaskProjection_snapshot_def TaskProjection_update_def maximumSnapshotEventCount_def
        del: option.map_comp)
qed

end
