(* ===== verification/Account_Identity.thy ===== *)
theory Account_Identity
  imports Protocol_Types
begin

unbundle bit_operations_syntax

text \<open>
  What an account signs and how its identifier is derived from its public key
  (\<open>src/packages/protocol/src/accounting/account_identity.ts\<close>), and the accounts the gateway holds
  (\<open>src/packages/gateway/src/accounting/account_registry.ts\<close>). The Web Cryptography API and the base64
  functions of the platform are the fields of the record \<open>web_platform\<close>; what is relied on of them is a
  named hypothesis where it is used. The lemmas show the shape of an account identifier, that a signature
  is accepted only when the platform verified it over the prefixed challenge, that registering a known key
  changes nothing, and under which condition on the key texts a stored profile can never be replaced.
\<close>

section \<open>The platform\<close>

type_synonym bytes = "8 word list"

record 'key web_platform =
  atob :: "string \<Rightarrow> string option"
  btoa :: "string \<Rightarrow> string"
  digestSha256 :: "bytes \<Rightarrow> bytes"
  importSpki :: "bytes \<Rightarrow> signature_algorithm \<Rightarrow> 'key option"
  subtleVerify :: "signature_algorithm \<Rightarrow> 'key \<Rightarrow> bytes \<Rightarrow> bytes \<Rightarrow> bool option"

text \<open>\<open>TextEncoder\<close> writes UTF-8; the characters of the model are the code points below 256.\<close>

definition utf8_char :: "char \<Rightarrow> bytes" where
  "utf8_char c = (let w = of_char c :: 8 word
     in if w < 128 then [w] else [0xC0 OR drop_bit 6 w, 0x80 OR (w AND 0x3F)])"

definition text_encode :: "string \<Rightarrow> bytes" where
  "text_encode s = concat (map utf8_char s)"

text \<open>\<open>byte.toString(16).padStart(2, '0')\<close>\<close>

definition hex_digit :: "nat \<Rightarrow> char" where
  "hex_digit n = (if n < 10 then char_of (48 + n) else char_of (87 + n))"

definition hex_byte :: "8 word \<Rightarrow> string" where
  "hex_byte b = [hex_digit (unat b div 16), hex_digit (unat b mod 16)]"

section \<open>Account identity\<close>

definition signedMessagePrefix :: string where
  "signedMessagePrefix = ''webai-at-home:account-authentication:v1:''"

definition accountIdDigestLength :: nat where
  "accountIdDigestLength = 32"

definition AccountIdentity_signedMessageBytesFor :: "string \<Rightarrow> bytes" where
  "AccountIdentity_signedMessageBytesFor challenge = text_encode (signedMessagePrefix @ challenge)"

definition AccountIdentity_base64ToBytes :: "'key web_platform \<Rightarrow> string \<Rightarrow> bytes option" where
  "AccountIdentity_base64ToBytes p base64 = map_option (map of_char) (atob p base64)"

definition AccountIdentity_bytesToBase64 :: "'key web_platform \<Rightarrow> bytes \<Rightarrow> string" where
  "AccountIdentity_bytesToBase64 p bs = btoa p (map (\<lambda>b. char_of (unat b)) bs)"

text \<open>\<open>atob\<close> throws on text that is not base64, and so does the derivation.\<close>

definition AccountIdentity_accountIdFor :: "'key web_platform \<Rightarrow> string \<Rightarrow> account_id option" where
  "AccountIdentity_accountIdFor p publicKey =
     (case AccountIdentity_base64ToBytes p publicKey of
        None \<Rightarrow> None
      | Some bs \<Rightarrow>
          let hexadecimal = concat (map hex_byte (digestSha256 p bs))
          in Some (''account-'' @ take accountIdDigestLength hexadecimal))"

record account_signature_check =
  check_signatureAlgorithmName :: signature_algorithm
  check_publicKeySpkiBase64 :: string
  check_challenge :: string
  check_signatureBase64 :: string

definition AccountIdentity_verifyChallengeSignature ::
  "'key web_platform \<Rightarrow> account_signature_check \<Rightarrow> bool" where
  "AccountIdentity_verifyChallengeSignature p check =
     (let algorithm = check_signatureAlgorithmName check
      in case AccountIdentity_base64ToBytes p (check_publicKeySpkiBase64 check) of
           None \<Rightarrow> False
         | Some keyBytes \<Rightarrow>
             (case importSpki p keyBytes algorithm of
                None \<Rightarrow> False
              | Some publicKey \<Rightarrow>
                  (case AccountIdentity_base64ToBytes p (check_signatureBase64 check) of
                     None \<Rightarrow> False
                   | Some signature \<Rightarrow>
                       (case subtleVerify p algorithm publicKey signature
                               (AccountIdentity_signedMessageBytesFor (check_challenge check)) of
                          None \<Rightarrow> False
                        | Some verdict \<Rightarrow> verdict))))"

section \<open>The account registry\<close>

record account_file =
  accountFile_schemaVersion :: int
  accountFile_accounts :: "account_profile list"

record account_registry =
  accountsByAccountId :: "(account_id, account_profile) js_map"
  accountIdByPublicKey :: "(string, account_id) js_map"
  accountFile :: "account_file option"

datatype account_error = Unsupported_account_file

record account_registration =
  reg_accountId :: account_id
  reg_signatureAlgorithmName :: signature_algorithm
  reg_publicKeySpkiBase64 :: string
  reg_emailAddress :: string
  reg_displayName :: string

record account_registration_result =
  registered_account :: account_profile
  isNewAccount :: bool

definition AccountRegistry_list :: "account_registry \<Rightarrow> account_profile list" where
  "AccountRegistry_list reg = map_values (accountsByAccountId reg)"

definition AccountRegistry_get :: "account_registry \<Rightarrow> account_id \<Rightarrow> account_profile option" where
  "AccountRegistry_get reg aid = map_get (accountsByAccountId reg) aid"

definition AccountRegistry_persist :: "string option \<Rightarrow> account_registry \<Rightarrow> account_registry" where
  "AccountRegistry_persist path reg =
     (if path = None \<or> path = Some [] then reg
      else reg\<lparr>accountFile := Some \<lparr>accountFile_schemaVersion = 1,
             accountFile_accounts = AccountRegistry_list reg\<rparr>\<rparr>)"

definition new_account :: "int \<Rightarrow> account_registration \<Rightarrow> account_profile" where
  "new_account now r =
     \<lparr>profile_accountId = reg_accountId r,
      signatureAlgorithmName = reg_signatureAlgorithmName r,
      publicKeySpkiBase64 = reg_publicKeySpkiBase64 r,
      emailAddress = reg_emailAddress r,
      displayName = reg_displayName r,
      profile_createdAt = now\<rparr>"

definition store_account :: "account_profile \<Rightarrow> account_registry \<Rightarrow> account_registry" where
  "store_account a reg =
     reg\<lparr>accountsByAccountId := map_set (accountsByAccountId reg) (profile_accountId a) a,
         accountIdByPublicKey :=
           map_set (accountIdByPublicKey reg) (publicKeySpkiBase64 a) (profile_accountId a)\<rparr>"

definition AccountRegistry_register ::
  "string option \<Rightarrow> int \<Rightarrow> account_registration \<Rightarrow> account_registry \<Rightarrow>
   account_registration_result \<times> account_registry" where
  "AccountRegistry_register path now r reg =
     (let created = new_account now r;
          create = (\<lparr>registered_account = created, isNewAccount = True\<rparr>,
                    AccountRegistry_persist path (store_account created reg))
      in case map_get (accountIdByPublicKey reg) (reg_publicKeySpkiBase64 r) of
           None \<Rightarrow> create
         | Some existingAccountId \<Rightarrow>
             (case map_get (accountsByAccountId reg) existingAccountId of
                None \<Rightarrow> create
              | Some existing \<Rightarrow>
                  (\<lparr>registered_account = existing, isNewAccount = False\<rparr>, reg)))"

definition AccountRegistry_restore ::
  "string option \<Rightarrow> account_file option \<Rightarrow> account_error + account_registry" where
  "AccountRegistry_restore path file =
     (let empty = \<lparr>accountsByAccountId = [], accountIdByPublicKey = [], accountFile = file\<rparr>
      in if path = None \<or> path = Some [] then Inr empty
         else case file of
             None \<Rightarrow> Inr empty
           | Some doc \<Rightarrow>
               (if accountFile_schemaVersion doc \<noteq> 1 then Inl Unsupported_account_file
                else Inr (foldl (\<lambda>reg a. store_account a reg) empty (accountFile_accounts doc))))"

section \<open>Lemmas\<close>

definition is_hex :: "char \<Rightarrow> bool" where
  "is_hex c \<longleftrightarrow> c \<in> set ''0123456789abcdef''"

lemma is_hex_digit: "n < 16 \<Longrightarrow> is_hex (hex_digit n)"
proof -
  assume "n < 16"
  then have "n \<in> set [0 ..< 16]" by simp
  moreover have "\<forall>n \<in> set [0 ..< 16]. is_hex (hex_digit n)" by code_simp
  ultimately show ?thesis by blast
qed

lemma hex_bytes: "list_all is_hex (concat (map hex_byte bs))"
proof (induction bs)
  case Nil
  then show ?case by simp
next
  case (Cons b bs)
  have "unat b < 256" using unsigned_less [of b] by simp
  then have "unat b div 16 < 16" "unat b mod 16 < 16" by (auto simp: div_less_iff_less_mult)
  with Cons show ?case by (simp add: hex_byte_def is_hex_digit)
qed

lemma length_hex_bytes: "length (concat (map hex_byte bs)) = 2 * length bs"
  by (induction bs) (simp_all add: hex_byte_def)

lemma persist_accounts [simp]:
  "accountsByAccountId (AccountRegistry_persist path reg) = accountsByAccountId reg"
  "accountIdByPublicKey (AccountRegistry_persist path reg) = accountIdByPublicKey reg"
  by (simp_all add: AccountRegistry_persist_def)

text \<open>
  Every account is stored under the identifier \<open>derive\<close> gives for its key, every key text known leads to
  its account, and the profiles are found by their own identifiers.
\<close>

definition wf_accounts :: "(string \<Rightarrow> account_id option) \<Rightarrow> account_registry \<Rightarrow> bool" where
  "wf_accounts derive reg \<longleftrightarrow> wf_map (accountsByAccountId reg)
     \<and> (\<forall>aid a. map_get (accountsByAccountId reg) aid = Some a \<longrightarrow>
          profile_accountId a = aid \<and> derive (publicKeySpkiBase64 a) = Some aid
          \<and> map_get (accountIdByPublicKey reg) (publicKeySpkiBase64 a) = Some aid)
     \<and> (\<forall>k aid. map_get (accountIdByPublicKey reg) k = Some aid \<longrightarrow>
          derive k = Some aid \<and> map_get (accountsByAccountId reg) aid \<noteq> None)"

lemma known_account:
  assumes "wf_accounts derive reg" and "map_get (accountIdByPublicKey reg) k = Some aid"
  obtains a where "map_get (accountsByAccountId reg) aid = Some a" "derive k = Some aid"
    "profile_accountId a = aid"
proof -
  from assms have "derive k = Some aid" "map_get (accountsByAccountId reg) aid \<noteq> None"
    unfolding wf_accounts_def by blast+
  moreover have "profile_accountId a = aid" if "map_get (accountsByAccountId reg) aid = Some a" for a
    using assms(1) that unfolding wf_accounts_def by blast
  ultimately show ?thesis using that by (cases "map_get (accountsByAccountId reg) aid") auto
qed

lemma register_known:
  assumes "map_get (accountIdByPublicKey reg) (reg_publicKeySpkiBase64 r) = Some aid"
    and "map_get (accountsByAccountId reg) aid = Some a"
  shows "AccountRegistry_register path now r reg = (\<lparr>registered_account = a, isNewAccount = False\<rparr>, reg)"
  using assms by (simp add: AccountRegistry_register_def Let_def)

lemma register_new:
  assumes "map_get (accountIdByPublicKey reg) (reg_publicKeySpkiBase64 r) = None"
  shows "AccountRegistry_register path now r reg =
    (\<lparr>registered_account = new_account now r, isNewAccount = True\<rparr>,
     AccountRegistry_persist path (store_account (new_account now r) reg))"
  using assms by (simp add: AccountRegistry_register_def Let_def)

lemma wf_accounts_register:
  assumes wf: "wf_accounts derive reg" and r: "derive (reg_publicKeySpkiBase64 r) = Some (reg_accountId r)"
  shows "wf_accounts derive (snd (AccountRegistry_register path now r reg))"
proof (cases "map_get (accountIdByPublicKey reg) (reg_publicKeySpkiBase64 r)")
  case None
  then show ?thesis
    using wf r
    by (auto simp: register_new wf_accounts_def store_account_def new_account_def) fastforce
next
  case (Some aid)
  with wf obtain a where "map_get (accountsByAccountId reg) aid = Some a"
    by (blast elim: known_account)
  with Some wf show ?thesis by (simp add: register_known)
qed

section \<open>Properties\<close>

text \<open>
  An account identifier is \<open>account-\<close> followed by exactly 32 lower-case hexadecimal digits of the
  key's digest (for a digest of at least 16 bytes, as SHA-256 gives), so no key can have the identifier
  under which the gateway records anonymous work.
\<close>

theorem account_id_is_hexadecimal:
  assumes "\<And>bs. 16 \<le> length (digestSha256 p bs)"
    and "AccountIdentity_accountIdFor p k = Some aid"
  shows "\<exists>h. aid = ''account-'' @ h \<and> length h = 32 \<and> list_all is_hex h
    \<and> aid \<noteq> ''account-shared-development''"
proof -
  from assms(2) obtain bs where
    aid: "aid = ''account-'' @ take 32 (concat (map hex_byte (digestSha256 p bs)))"
    by (auto simp: AccountIdentity_accountIdFor_def Let_def accountIdDigestLength_def
        split: option.splits)
  define h where "h = take 32 (concat (map hex_byte (digestSha256 p bs)))"
  have len: "length h = 32" using assms(1) [of bs] by (simp add: h_def length_hex_bytes)
  moreover have "list_all is_hex h"
    using hex_bytes [of "digestSha256 p bs"] in_set_takeD
    unfolding h_def list_all_iff by (metis (no_types, lifting))
  moreover have "length aid = 40" unfolding aid h_def [symmetric] using len by simp
  then have "aid \<noteq> ''account-shared-development''" by auto
  ultimately show ?thesis unfolding aid h_def [symmetric] by blast
qed

definition example_platform :: "nat web_platform" where
  "example_platform = \<lparr>atob = Some \<circ> filter (\<lambda>c. c \<noteq> CHR '' ''), btoa = id,
     digestSha256 = (\<lambda>bs. take 32 (bs @ replicate 32 0)),
     importSpki = (\<lambda>bs _. Some (length bs)), subtleVerify = (\<lambda>_ _ signature message. Some (signature = message))\<rparr>"

theorem account_id_is_hexadecimal_witness:
  "\<exists>h. AccountIdentity_accountIdFor example_platform ''key'' = Some (''account-'' @ h) \<and> length h = 32"
proof -
  have a: "16 \<le> length (digestSha256 example_platform bs)" for bs
    by (simp add: example_platform_def)
  obtain aid where aid: "AccountIdentity_accountIdFor example_platform ''key'' = Some aid"
    by (simp add: AccountIdentity_accountIdFor_def AccountIdentity_base64ToBytes_def
        example_platform_def Let_def)
  show ?thesis using account_id_is_hexadecimal [OF a aid] aid by auto
qed

text \<open>
  Registering never changes an account that exists: a key already known is answered with the
  profile it has and changes nothing; a new key whose derived identifier no other key text gives adds
  one account under that identifier and keeps every stored profile.
\<close>

theorem registration_keeps_accounts:
  assumes "wf_accounts derive reg"
    and "derive (reg_publicKeySpkiBase64 r) = Some (reg_accountId r)"
    and "\<And>a. AccountRegistry_get reg (reg_accountId r) = Some a \<Longrightarrow>
           publicKeySpkiBase64 a = reg_publicKeySpkiBase64 r"
  shows "(let (result, reg') = AccountRegistry_register path now r reg
    in profile_accountId (registered_account result) = reg_accountId r
     \<and> AccountRegistry_get reg' (reg_accountId r) = Some (registered_account result)
     \<and> (isNewAccount result \<longleftrightarrow> AccountRegistry_get reg (reg_accountId r) = None)
     \<and> (\<not> isNewAccount result \<longrightarrow> reg' = reg)
     \<and> (\<forall>aid a. AccountRegistry_get reg aid = Some a \<longrightarrow> AccountRegistry_get reg' aid = Some a))"
proof (cases "map_get (accountIdByPublicKey reg) (reg_publicKeySpkiBase64 r)")
  case None
  then have "AccountRegistry_get reg (reg_accountId r) = None"
    using assms(1) assms(3) unfolding wf_accounts_def AccountRegistry_get_def
    by (metis option.distinct(1) option.exhaust)
  then show ?thesis
    using None by (auto simp: register_new AccountRegistry_get_def store_account_def new_account_def)
next
  case (Some aid)
  then obtain a where a: "map_get (accountsByAccountId reg) aid = Some a"
    "derive (reg_publicKeySpkiBase64 r) = Some aid" "profile_accountId a = aid"
    using known_account [OF assms(1)] by blast
  then have "aid = reg_accountId r" using assms(2) by simp
  with Some a show ?thesis by (simp add: register_known AccountRegistry_get_def)
qed

definition example_registration :: account_registration where
  "example_registration = \<lparr>reg_accountId = ''account-1'', reg_signatureAlgorithmName = Ed25519,
     reg_publicKeySpkiBase64 = ''key'', reg_emailAddress = [], reg_displayName = ''Ada''\<rparr>"

definition no_accounts :: account_registry where
  "no_accounts = \<lparr>accountsByAccountId = [], accountIdByPublicKey = [], accountFile = None\<rparr>"

theorem registration_keeps_accounts_witness:
  "isNewAccount (fst (AccountRegistry_register None 5 example_registration no_accounts))"
proof -
  have wf: "wf_accounts (\<lambda>_. Some ''account-1'') no_accounts"
    by (simp add: wf_accounts_def no_accounts_def)
  have none: "AccountRegistry_get no_accounts aid = None" for aid
    by (simp add: no_accounts_def AccountRegistry_get_def)
  have id: "Some ''account-1'' = Some (reg_accountId example_registration)"
    by (simp add: example_registration_def)
  show ?thesis
    using registration_keeps_accounts [OF wf id, of None 5] by (simp add: none case_prod_beta Let_def)
qed

lemma respelled_account_id:
  assumes "\<And>k. atob p (k @ '' '') = atob p k"
  shows "AccountIdentity_accountIdFor p (k @ '' '') = AccountIdentity_accountIdFor p k"
  unfolding AccountIdentity_accountIdFor_def AccountIdentity_base64ToBytes_def assms ..

text \<open>
  The condition on key texts is needed: the registry recognises a key by its base64 text while the
  identifier is derived from the decoded bytes, so a second text that decodes to the same bytes (the
  platform's decoder skips spaces) replaces the stored profile of an account somebody else owns, its
  algorithm, its email address and its display name included.
\<close>

theorem respelled_key_replaces_profile:
  assumes spaces: "\<And>k. atob p (k @ '' '') = atob p k"
    and first: "AccountIdentity_accountIdFor p k = Some aid"
    and owner: "reg_publicKeySpkiBase64 r = k \<and> reg_accountId r = aid"
    and other: "reg_publicKeySpkiBase64 r' = k @ '' '' \<and>
      AccountIdentity_accountIdFor p (reg_publicKeySpkiBase64 r') = Some (reg_accountId r')"
  shows "(let reg1 = snd (AccountRegistry_register path now r no_accounts);
              (result, reg2) = AccountRegistry_register path now' r' reg1
          in AccountRegistry_get reg1 aid = Some (new_account now r)
           \<and> isNewAccount result
           \<and> AccountRegistry_get reg2 aid = Some (new_account now' r'))"
proof -
  have same: "reg_accountId r' = aid"
    using other first respelled_account_id [OF spaces, of k] by auto
  have r: "AccountRegistry_register path now r no_accounts =
      (\<lparr>registered_account = new_account now r, isNewAccount = True\<rparr>,
       AccountRegistry_persist path (store_account (new_account now r) no_accounts))"
    by (rule register_new) (simp add: no_accounts_def)
  have "map_get (accountIdByPublicKey (snd (AccountRegistry_register path now r no_accounts)))
      (reg_publicKeySpkiBase64 r') = None"
    unfolding r using owner other by (simp add: store_account_def new_account_def no_accounts_def)
  then show ?thesis
    using owner same
    by (simp add: register_new Let_def case_prod_beta)
      (simp add: r store_account_def new_account_def AccountRegistry_get_def)
qed

theorem respelled_key_replaces_profile_witness:
  "\<exists>aid reg. AccountRegistry_get reg aid \<noteq> None
     \<and> AccountIdentity_accountIdFor example_platform ''key '' = Some aid
     \<and> map_option displayName (AccountRegistry_get (snd (AccountRegistry_register None 6
          (example_registration\<lparr>reg_accountId := aid, reg_publicKeySpkiBase64 := ''key '',
             reg_displayName := ''Eve''\<rparr>) reg)) aid) = Some ''Eve''"
proof -
  have spaces: "atob example_platform (k @ '' '') = atob example_platform k" for k
    by (simp add: example_platform_def)
  obtain aid where aid: "AccountIdentity_accountIdFor example_platform ''key'' = Some aid"
    by (simp add: AccountIdentity_accountIdFor_def AccountIdentity_base64ToBytes_def
        example_platform_def Let_def)
  have aid': "AccountIdentity_accountIdFor example_platform ''key '' = Some aid"
    using aid respelled_account_id [OF spaces, of "''key''"] by simp
  define r where "r = example_registration\<lparr>reg_accountId := aid\<rparr>"
  define r' where "r' = r\<lparr>reg_publicKeySpkiBase64 := ''key '', reg_displayName := ''Eve''\<rparr>"
  have o: "reg_publicKeySpkiBase64 r = ''key'' \<and> reg_accountId r = aid"
    by (simp add: r_def example_registration_def)
  have o': "reg_publicKeySpkiBase64 r' = ''key'' @ '' '' \<and>
      AccountIdentity_accountIdFor example_platform (reg_publicKeySpkiBase64 r') = Some (reg_accountId r')"
    using aid' o by (simp add: r'_def)
  let ?reg = "snd (AccountRegistry_register None 5 r no_accounts)"
  have r': "example_registration\<lparr>reg_accountId := aid, reg_publicKeySpkiBase64 := ''key '',
      reg_displayName := ''Eve''\<rparr> = r'"
    by (simp add: r_def r'_def)
  from respelled_key_replaces_profile [OF spaces aid o o', of None 5 6]
  have "AccountRegistry_get ?reg aid \<noteq> None \<and>
      AccountRegistry_get (snd (AccountRegistry_register None 6 r' ?reg)) aid = Some (new_account 6 r')"
    by (simp add: Let_def case_prod_beta)
  moreover have "displayName (new_account 6 r') = ''Eve''" by (simp add: new_account_def r'_def)
  ultimately show ?thesis
    using aid' by (intro exI [of _ aid] exI [of _ ?reg]) (simp only: r' option.map simp_thms)
qed

end
