(* ===== verification/Liveness_Limits.thy ===== *)
theory Liveness_Limits
  imports Protocol_Types
begin

text \<open>
  Two small guards of the gateway: the rolling cap on diagnostic entries
  (\<open>src/packages/gateway/src/libs/diagnostics_rate_limiter.ts\<close>) and the sweep that pings every connection
  and closes the silent ones (\<open>src/packages/gateway/src/connection/websocket_heartbeat.ts\<close>). The limiter's
  contract is about every window of time, not about one call: the lemmas relate what is stored to
  everything ever accepted and bound each window of that history.
\<close>

section \<open>The diagnostics rate limiter\<close>

record rate_limiter =
  acceptedTimestamps :: "(device_id, int list) js_map"

record limiter_settings =
  maximumEntriesPerWindow :: nat
  windowMs :: int

record limiter_verdict =
  isAccepted :: bool
  remaining :: nat
  retryAfterMs :: int

text \<open>The loop advances an index past every expired time and slices there.\<close>

definition DiagnosticsRateLimiter_recentTimestamps ::
  "limiter_settings \<Rightarrow> device_id \<Rightarrow> int \<Rightarrow> rate_limiter \<Rightarrow> int list" where
  "DiagnosticsRateLimiter_recentTimestamps cfg did now rl =
     (let recorded = coalesce (map_get (acceptedTimestamps rl) did) [];
          windowStart = now - windowMs cfg
      in dropWhile (\<lambda>t. t \<le> windowStart) recorded)"

definition DiagnosticsRateLimiter_accept ::
  "limiter_settings \<Rightarrow> device_id \<Rightarrow> nat \<Rightarrow> int \<Rightarrow> rate_limiter \<Rightarrow> limiter_verdict \<times> rate_limiter" where
  "DiagnosticsRateLimiter_accept cfg did entryCount now rl =
     (let recent = DiagnosticsRateLimiter_recentTimestamps cfg did now rl
      in if maximumEntriesPerWindow cfg < length recent + entryCount then
           (\<lparr>isAccepted = False,
             remaining = maximumEntriesPerWindow cfg - length recent,
             retryAfterMs = (case recent of
                 [] \<Rightarrow> windowMs cfg
               | oldest # _ \<Rightarrow> max 1 (oldest + windowMs cfg - now))\<rparr>, rl)
         else
           let recent' = recent @ replicate entryCount now
           in (\<lparr>isAccepted = True, remaining = maximumEntriesPerWindow cfg - length recent',
                retryAfterMs = 0\<rparr>,
               rl\<lparr>acceptedTimestamps := map_set (acceptedTimestamps rl) did recent'\<rparr>))"

definition DiagnosticsRateLimiter_forget :: "device_id \<Rightarrow> rate_limiter \<Rightarrow> rate_limiter" where
  "DiagnosticsRateLimiter_forget did rl =
     rl\<lparr>acceptedTimestamps := map_delete (acceptedTimestamps rl) did\<rparr>"

text \<open>The reports of one device in order, and the time of every entry accepted so far.\<close>

fun run_reports ::
  "limiter_settings \<Rightarrow> device_id \<Rightarrow> (nat \<times> int) list \<Rightarrow> rate_limiter \<times> int list \<Rightarrow> rate_limiter \<times> int list" where
  "run_reports cfg did [] s = s"
| "run_reports cfg did ((n, now) # rs) (rl, h) =
     (let (v, rl') = DiagnosticsRateLimiter_accept cfg did n now rl
      in run_reports cfg did rs (rl', if isAccepted v then h @ replicate n now else h))"

definition in_window :: "int \<Rightarrow> int \<Rightarrow> int list \<Rightarrow> nat" where
  "in_window w t h = length (filter (\<lambda>x. t - w < x \<and> x \<le> t) h)"

section \<open>The heartbeat\<close>

type_synonym socket = nat

record heartbeat =
  lastAnswerAtBySocket :: "(socket, int) js_map"

record sweep_result =
  terminated :: "socket list"
  pinged :: "socket list"

definition WebsocketHeartbeat_opened :: "socket \<Rightarrow> int \<Rightarrow> heartbeat \<Rightarrow> heartbeat" where
  "WebsocketHeartbeat_opened s now h =
     h\<lparr>lastAnswerAtBySocket := map_set (lastAnswerAtBySocket h) s now\<rparr>"

definition WebsocketHeartbeat_pong :: "socket \<Rightarrow> int \<Rightarrow> heartbeat \<Rightarrow> heartbeat" where
  "WebsocketHeartbeat_pong s now h =
     h\<lparr>lastAnswerAtBySocket := map_set (lastAnswerAtBySocket h) s now\<rparr>"

fun WebsocketHeartbeat_pingEveryConnection ::
  "int \<Rightarrow> int \<Rightarrow> socket list \<Rightarrow> heartbeat \<Rightarrow> sweep_result \<times> heartbeat" where
  "WebsocketHeartbeat_pingEveryConnection timeoutMs now [] h = (\<lparr>terminated = [], pinged = []\<rparr>, h)"
| "WebsocketHeartbeat_pingEveryConnection timeoutMs now (s # clients) h =
     (let lastAnswerAt = coalesce (map_get (lastAnswerAtBySocket h) s) now;
          h' = h\<lparr>lastAnswerAtBySocket := map_set (lastAnswerAtBySocket h) s lastAnswerAt\<rparr>;
          (r, h'') = WebsocketHeartbeat_pingEveryConnection timeoutMs now clients h'
      in if timeoutMs < now - lastAnswerAt
         then (r\<lparr>terminated := s # terminated r\<rparr>, h'')
         else (r\<lparr>pinged := s # pinged r\<rparr>, h''))"

section \<open>Lemmas\<close>

lemma dropWhile_sorted_filter: "sorted xs \<Longrightarrow> dropWhile (\<lambda>t. t \<le> (c::int)) xs = filter (\<lambda>t. c < t) xs"
proof (induction xs)
  case Nil
  then show ?case by simp
next
  case (Cons x xs)
  show ?case
  proof (cases "x \<le> c")
    case True
    with Cons show ?thesis by simp
  next
    case False
    with Cons.prems have "filter (\<lambda>t. c < t) (x # xs) = x # xs" by (intro filter_True) auto
    with False show ?thesis by (simp add: not_le)
  qed
qed

definition recorded :: "rate_limiter \<Rightarrow> device_id \<Rightarrow> int list" where
  "recorded rl did = coalesce (map_get (acceptedTimestamps rl) did) []"

text \<open>
  What is stored is the history after some time \<open>c\<close> that no report yet to come can reach behind; every
  window of the history holds at most the cap.
\<close>

definition limiter_inv :: "limiter_settings \<Rightarrow> device_id \<Rightarrow> int \<Rightarrow> rate_limiter \<times> int list \<Rightarrow> bool" where
  "limiter_inv cfg did now s \<longleftrightarrow>
     sorted (snd s) \<and> (\<forall>t \<in> set (snd s). t \<le> now)
     \<and> (\<exists>c \<le> now - windowMs cfg. recorded (fst s) did = filter (\<lambda>t. c < t) (snd s))
     \<and> (\<forall>t. in_window (windowMs cfg) t (snd s) \<le> maximumEntriesPerWindow cfg)"

lemma recent_of_history:
  assumes "limiter_inv cfg did now (rl, h)" and "now \<le> later"
  shows "DiagnosticsRateLimiter_recentTimestamps cfg did later rl = filter (\<lambda>t. later - windowMs cfg < t) h"
proof -
  obtain c where c: "c \<le> now - windowMs cfg" "recorded rl did = filter (\<lambda>t. c < t) h"
    using assms(1) by (auto simp: limiter_inv_def)
  have "sorted (recorded rl did)" using assms(1) c(2) by (simp add: limiter_inv_def sorted_wrt_filter)
  then have "DiagnosticsRateLimiter_recentTimestamps cfg did later rl
      = filter (\<lambda>t. later - windowMs cfg < t) (filter (\<lambda>t. c < t) h)"
    using c(2) by (simp add: DiagnosticsRateLimiter_recentTimestamps_def recorded_def Let_def
        dropWhile_sorted_filter)
  also have "\<dots> = filter (\<lambda>t. later - windowMs cfg < t) h"
    unfolding filter_filter by (rule filter_cong) (use c(1) assms(2) in auto)
  finally show ?thesis .
qed

lemma in_window_mono: "length (filter (\<lambda>x. t - w < x) h) \<le> n \<Longrightarrow> in_window w t h \<le> n"
proof -
  assume "length (filter (\<lambda>x. t - w < x) h) \<le> n"
  moreover have "in_window w t h = length (filter (\<lambda>x. x \<le> t) (filter (\<lambda>x. t - w < x) h))"
    by (simp add: in_window_def)
  ultimately show ?thesis using length_filter_le [of "\<lambda>x. x \<le> t" "filter (\<lambda>x. t - w < x) h"] by linarith
qed

lemma limiter_inv_later:
  assumes "limiter_inv cfg did now s" and "now \<le> later"
  shows "limiter_inv cfg did later s"
proof -
  obtain c where "c \<le> now - windowMs cfg" "recorded (fst s) did = filter (\<lambda>t. c < t) (snd s)"
    using assms(1) by (auto simp: limiter_inv_def)
  with assms(2) have "\<exists>c \<le> later - windowMs cfg. recorded (fst s) did = filter (\<lambda>t. c < t) (snd s)"
    by (intro exI [of _ c]) simp
  with assms show ?thesis by (auto simp: limiter_inv_def)
qed

lemma limiter_inv_accept:
  assumes inv: "limiter_inv cfg did now (rl, h)" and le: "now \<le> later" and w: "0 < windowMs cfg"
    and acc: "DiagnosticsRateLimiter_accept cfg did n later rl = (v, rl')"
  shows "limiter_inv cfg did later (rl', if isAccepted v then h @ replicate n later else h)"
proof -
  define R where "R = filter (\<lambda>t. later - windowMs cfg < t) h"
  have R: "DiagnosticsRateLimiter_recentTimestamps cfg did later rl = R"
    unfolding R_def by (rule recent_of_history [OF inv le])
  show ?thesis
  proof (cases "maximumEntriesPerWindow cfg < length R + n")
    case True
    then show ?thesis
      using acc limiter_inv_later [OF inv le]
      by (auto simp: DiagnosticsRateLimiter_accept_def R Let_def)
  next
    case False
    let ?h = "h @ replicate n later"
    have v: "isAccepted v" and rl': "recorded rl' did = R @ replicate n later"
      using acc False by (auto simp: DiagnosticsRateLimiter_accept_def R Let_def recorded_def)
    have sorted: "sorted ?h" and below: "\<forall>t \<in> set ?h. t \<le> later"
      using inv le by (auto simp: limiter_inv_def sorted_append sorted_replicate)
    have new: "filter (\<lambda>t. later - windowMs cfg < t) ?h = R @ replicate n later"
      using w by (simp add: R_def)
    have "in_window (windowMs cfg) t ?h \<le> maximumEntriesPerWindow cfg" for t
    proof (cases "t < later")
      case True
      then have "in_window (windowMs cfg) t ?h = in_window (windowMs cfg) t h"
        by (simp add: in_window_def)
      then show ?thesis using inv by (simp add: limiter_inv_def)
    next
      case late: False
      have "filter (\<lambda>x. t - windowMs cfg < x) ?h =
          filter (\<lambda>x. t - windowMs cfg < x) (filter (\<lambda>x. later - windowMs cfg < x) ?h)"
        unfolding filter_filter by (rule filter_cong) (use late in auto)
      then have "length (filter (\<lambda>x. t - windowMs cfg < x) ?h) \<le> length (R @ replicate n later)"
        unfolding new by (metis length_filter_le)
      then have "length (filter (\<lambda>x. t - windowMs cfg < x) ?h) \<le> maximumEntriesPerWindow cfg"
        using False by simp
      then show ?thesis by (rule in_window_mono)
    qed
    with v rl' new sorted below show ?thesis
      by (auto simp: limiter_inv_def intro!: exI [of _ "later - windowMs cfg"])
  qed
qed

lemma limiter_inv_run:
  assumes "limiter_inv cfg did now s" and "0 < windowMs cfg"
    and "sorted (map snd rs)" and "\<forall>r \<in> set rs. now \<le> snd r"
  shows "\<exists>later. limiter_inv cfg did later (run_reports cfg did rs s)"
  using assms
proof (induction cfg did rs s arbitrary: now rule: run_reports.induct)
  case (1 cfg did s)
  then show ?case by auto
next
  case (2 cfg did n t rs rl h)
  obtain v rl' where acc: "DiagnosticsRateLimiter_accept cfg did n t rl = (v, rl')" by fastforce
  have "limiter_inv cfg did t (rl', if isAccepted v then h @ replicate n t else h)"
    by (rule limiter_inv_accept [OF "2.prems"(1) _ "2.prems"(2) acc]) (use "2.prems" in auto)
  from "2.IH" [OF acc [symmetric] refl this "2.prems"(2)] "2.prems"(3) show ?case
    by (simp add: acc)
qed

definition silent :: "int \<Rightarrow> int \<Rightarrow> heartbeat \<Rightarrow> socket \<Rightarrow> bool" where
  "silent timeoutMs now h s \<longleftrightarrow> timeoutMs < now - coalesce (map_get (lastAnswerAtBySocket h) s) now"

lemma sweep_splits:
  "fst (WebsocketHeartbeat_pingEveryConnection timeoutMs now cs h) =
     \<lparr>terminated = filter (silent timeoutMs now h) cs,
      pinged = filter (\<lambda>s. \<not> silent timeoutMs now h s) cs\<rparr>"
proof (induction cs arbitrary: h)
  case Nil
  then show ?case by simp
next
  case (Cons s cs)
  let ?h = "h\<lparr>lastAnswerAtBySocket := map_set (lastAnswerAtBySocket h) s
      (coalesce (map_get (lastAnswerAtBySocket h) s) now)\<rparr>"
  have "silent timeoutMs now ?h = silent timeoutMs now h" by (rule ext) (simp add: silent_def)
  with Cons [of ?h] show ?case
    by (simp add: Let_def case_prod_beta silent_def [of timeoutMs now h s])
qed

section \<open>Properties\<close>

text \<open>
  The diagnostics cap holds over every window, not only per call: whatever one device reports, in
  reports of any size at times that never go back, no window of the configured length ever contains more
  accepted entries than the cap.
\<close>

theorem diagnostics_capped_in_every_window:
  assumes "0 < windowMs cfg" and "sorted (map snd reports)"
    and "run_reports cfg did reports (\<lparr>acceptedTimestamps = []\<rparr>, []) = (rl, accepted)"
  shows "in_window (windowMs cfg) t accepted \<le> maximumEntriesPerWindow cfg"
proof -
  have first: "\<forall>r \<in> set reports. hd (map snd reports @ [0]) \<le> snd r"
    using assms(2) by (cases reports) auto
  have "limiter_inv cfg did (hd (map snd reports @ [0])) (\<lparr>acceptedTimestamps = []\<rparr>, [])"
    by (auto simp: limiter_inv_def recorded_def in_window_def)
  from limiter_inv_run [OF this assms(1,2) first] assms(3) show ?thesis
    by (auto simp: limiter_inv_def)
qed

theorem diagnostics_capped_in_every_window_witness:
  "in_window 10 12 (snd (run_reports \<lparr>maximumEntriesPerWindow = 2, windowMs = 10\<rparr> ''device-1''
     [(1, 0), (1, 5), (1, 9), (1, 11)] (\<lparr>acceptedTimestamps = []\<rparr>, []))) \<le> 2"
  using diagnostics_capped_in_every_window [of "\<lparr>maximumEntriesPerWindow = 2, windowMs = 10\<rparr>"
      "[(1, 0), (1, 5), (1, 9), (1, 11)]" "''device-1''"
      "fst (run_reports \<lparr>maximumEntriesPerWindow = 2, windowMs = 10\<rparr> ''device-1''
         [(1, 0), (1, 5), (1, 9), (1, 11)] (\<lparr>acceptedTimestamps = []\<rparr>, []))" _ 12]
  by (simp del: run_reports.simps)

text \<open>
  A sweep of the heartbeat answers each open connection exactly once: a connection silent for longer
  than the timeout is closed, every other one is pinged, a connection met for the first time is pinged, and
  one that answered a ping is not closed before the timeout has passed since.
\<close>

theorem sweep_closes_exactly_the_silent:
  assumes "s \<in> set clients" and "0 \<le> timeoutMs"
  shows "(let r = fst (WebsocketHeartbeat_pingEveryConnection timeoutMs now clients h)
    in (s \<in> set (terminated r) \<longleftrightarrow>
          (\<exists>t. map_get (lastAnswerAtBySocket h) s = Some t \<and> t + timeoutMs < now))
     \<and> (s \<in> set (pinged r) \<longleftrightarrow> s \<notin> set (terminated r))
     \<and> (\<forall>answered. now \<le> answered + timeoutMs \<longrightarrow>
          s \<in> set (pinged (fst (WebsocketHeartbeat_pingEveryConnection timeoutMs now clients
             (WebsocketHeartbeat_pong s answered h))))))"
  using assms
  by (auto simp: Let_def sweep_splits silent_def WebsocketHeartbeat_pong_def split: option.splits)

theorem sweep_closes_exactly_the_silent_witness:
  "1 \<in> set (terminated (fst (WebsocketHeartbeat_pingEveryConnection 100 500 [1, 2]
      (WebsocketHeartbeat_opened 1 10 \<lparr>lastAnswerAtBySocket = []\<rparr>))))"
  using sweep_closes_exactly_the_silent [of 1 "[1, 2]" 100 500
      "WebsocketHeartbeat_opened 1 10 \<lparr>lastAnswerAtBySocket = []\<rparr>"]
  by (simp add: WebsocketHeartbeat_opened_def Let_def)

end
