(* ===== verification/Task_Lifecycle.thy ===== *)
theory Task_Lifecycle
  imports Task_Store
begin

text \<open>
  What the gateway promises about a task, as an abstract machine over the operations of \<open>Task_Store\<close>:
  \<open>task_step\<close> lists every change a task may undergo (placed, put back in the queue, failed, accepted,
  lease renewed, cancelled, advanced by a stage result), each with the condition under which it is
  allowed; \<open>store_step\<close> lifts it to the whole store and adds submission. The theories of the scheduler
  and the message handler show that every handler of the gateway does nothing else to the store. Here
  are the invariants of the machine: a task runs its pipeline's stages in order, hands each stage the
  value the stage before produced, is never assigned more often than the retry limit, is assigned
  exactly while its state says so, completes exactly when its pipeline is done, and never forgets.
\<close>

section \<open>The machine of one task\<close>

definition next_value :: "task \<Rightarrow> stage_payload" where
  "next_value t = coalesce (lastValue t) (StagePayloadFactory_initial (taskInput t))"

definition requeue :: "task \<Rightarrow> task" where
  "requeue t = t\<lparr>taskState := Queued, stageAssignment := None\<rparr>"

definition fail_with :: "string \<Rightarrow> task \<Rightarrow> task" where
  "fail_with e t = t\<lparr>taskState := Failed, taskError := Some e, stageAssignment := None\<rparr>"

definition complete_with :: "stage_payload \<Rightarrow> task \<Rightarrow> task" where
  "complete_with v t = t\<lparr>taskState := Completed, taskResult := Some v\<rparr>"

definition accept_assignment :: "int \<Rightarrow> stage_assignment \<Rightarrow> task \<Rightarrow> task" where
  "accept_assignment now a t =
     (let a' = a\<lparr>acceptedAt := Some now\<rparr>
      in t\<lparr>taskState := Running, stageAssignment := Some a',
           stageAssignmentAttempts := replace_attempt a' (stageAssignmentAttempts t),
           taskEvents := taskEvents t @
             [\<lparr>event_type = Stage_assignment_accepted, event_timestamp = now, event_reason = None,
               event_stageAssignmentId = Some (stageAssignmentId a'),
               event_attempt = Some (attempt a')\<rparr>]\<rparr>)"

definition renew_assignment :: "int \<Rightarrow> stage_assignment \<Rightarrow> task \<Rightarrow> task" where
  "renew_assignment until a t =
     (let a' = a\<lparr>leaseUntil := until\<rparr>
      in t\<lparr>stageAssignment := Some a',
           stageAssignmentAttempts := replace_attempt a' (stageAssignmentAttempts t)\<rparr>)"

definition attempt_ids :: "task \<Rightarrow> string list" where
  "attempt_ids t = map stageAssignmentId (stageAssignmentAttempts t)"

definition acknowledged :: "task \<Rightarrow> string list" where
  "acknowledged t = coalesce (acknowledgedStageAssignmentIds t) []"

inductive task_move :: "nat \<Rightarrow> task \<Rightarrow> task \<Rightarrow> bool" for M where
  placed: "\<not> isFinished (taskState t) \<Longrightarrow> currentStageAttempts t < M \<Longrightarrow>
     TaskStore_nextStage t = Some stage \<Longrightarrow> v = next_value t \<Longrightarrow>
     ''stageAssignment-'' @ uuid \<notin> set (attempt_ids t) \<Longrightarrow>
     task_move M t (updated_task now
       (with_assignment now (new_assignment now uuid t worker stage v retry lease)) t)"
| requeued: "\<not> isFinished (taskState t) \<Longrightarrow> task_move M t (updated_task now requeue t)"
| exhausted: "\<not> isFinished (taskState t) \<Longrightarrow> M \<le> currentStageAttempts t \<Longrightarrow>
     task_move M t (updated_task now (fail_with ''MAX_ATTEMPTS_EXHAUSTED'') t)"
| expired: "taskState t = Queued \<Longrightarrow> submissionDeadlineAt t \<le> now \<Longrightarrow>
     task_move M t (updated_task now (fail_with ''SUBMISSION_DEADLINE_EXPIRED'') t)"

datatype task_label = Moved | Accepted | Renewed | Withdrawn | Broken string | Advanced string

inductive task_step :: "nat \<Rightarrow> task \<Rightarrow> task_label \<Rightarrow> task \<Rightarrow> bool" for M where
  moved: "task_move M t t' \<Longrightarrow> task_step M t Moved t'"
| accepted: "stageAssignment t = Some a \<Longrightarrow>
     task_step M t Accepted (updated_task now (accept_assignment now a) t)"
| renewed: "stageAssignment t = Some a \<Longrightarrow> task_step M t Renewed (renew_assignment until a t)"
| broken: "taskState t = Running \<Longrightarrow> stageAssignment t = Some a \<Longrightarrow>
     task_step M t (Broken (stageAssignmentId a)) (updated_task now (fail_with e) t)"
| withdrawn: "task_step M t Withdrawn (updated_task now (with_cancellation now reason) t)"
| completed: "taskState t = Running \<Longrightarrow> stageAssignment t = Some a \<Longrightarrow>
     r = \<lparr>result_name = assignedStage a, result_value = v\<rparr> \<Longrightarrow>
     t1 = updated_task now (with_stage t r (Some (stageAssignmentId a))) t \<Longrightarrow>
     TaskStore_nextStage t1 = None \<Longrightarrow>
     task_step M t (Advanced (stageAssignmentId a)) (updated_task now (complete_with v) t1)"
| advanced: "taskState t = Running \<Longrightarrow> stageAssignment t = Some a \<Longrightarrow>
     r = \<lparr>result_name = assignedStage a, result_value = v\<rparr> \<Longrightarrow>
     t1 = updated_task now (with_stage t r (Some (stageAssignmentId a))) t \<Longrightarrow>
     TaskStore_nextStage t1 \<noteq> None \<Longrightarrow> task_move M t1 t2 \<Longrightarrow>
     task_step M t (Advanced (stageAssignmentId a)) t2"

inductive_cases task_stepE: "task_step M t l t'"

section \<open>The invariant of one task\<close>

definition stage_sequence :: "task \<Rightarrow> stage_name list" where
  "stage_sequence t = coalesce (pipelineStages t) []"

definition repeats :: "task \<Rightarrow> bool" where
  "repeats t \<longleftrightarrow> pipelineRepeatsUntilDone t = Some True"

definition in_pipeline_order :: "task \<Rightarrow> bool" where
  "in_pipeline_order t \<longleftrightarrow> stage_sequence t \<noteq> []
     \<and> (\<forall>i < length (completedStages t).
          result_name (completedStages t ! i) = stage_sequence t ! (i mod length (stage_sequence t)))
     \<and> (\<not> repeats t \<longrightarrow> length (completedStages t) \<le> length (stage_sequence t))"

definition assignment_matches :: "nat \<Rightarrow> task \<Rightarrow> bool" where
  "assignment_matches M t \<longleftrightarrow> (\<forall>a. stageAssignment t = Some a \<longrightarrow>
     attempt a = currentStageAttempts t \<and> 1 \<le> attempt a
     \<and> TaskStore_nextStage t = Some (assignedStage a)
     \<and> assignedValue a = next_value t
     \<and> (acceptedAt a \<noteq> None \<longleftrightarrow> taskState t = Running)
     \<and> stageAssignmentId a \<in> set (attempt_ids t)
     \<and> stageAssignmentId a \<notin> set (acknowledged t))"

definition ids_consistent :: "task \<Rightarrow> bool" where
  "ids_consistent t \<longleftrightarrow> distinct (attempt_ids t) \<and> distinct (acknowledged t)
     \<and> set (acknowledged t) \<subseteq> set (attempt_ids t)
     \<and> length (acknowledged t) = length (completedStages t)"

definition result_final :: "task \<Rightarrow> bool" where
  "result_final t \<longleftrightarrow> (taskState t = Completed \<longrightarrow>
     TaskStore_nextStage t = None \<and> completedStages t \<noteq> [] \<and> taskResult t = lastValue t)"

definition task_inv :: "nat \<Rightarrow> task \<Rightarrow> bool" where
  "task_inv M t \<longleftrightarrow>
     (stageAssignment t \<noteq> None \<longleftrightarrow> taskState t = Assigned \<or> taskState t = Running)
     \<and> currentStageAttempts t \<le> M \<and> 1 \<le> taskRevision t
     \<and> in_pipeline_order t \<and> assignment_matches M t \<and> ids_consistent t \<and> result_final t"

text \<open>A task as submission creates it.\<close>

definition fresh_task :: "task \<Rightarrow> bool" where
  "fresh_task t \<longleftrightarrow> taskState t = Queued \<and> stageAssignment t = None \<and> completedStages t = []
     \<and> stageAssignmentAttempts t = [] \<and> acknowledgedStageAssignmentIds t = None
     \<and> currentStageAttempts t = 0 \<and> taskRevision t = 1 \<and> stage_sequence t \<noteq> []"

section \<open>Each change keeps the invariant\<close>

lemma nextStage_cong:
  assumes "pipelineStages t = pipelineStages u"
    and "pipelineRepeatsUntilDone t = pipelineRepeatsUntilDone u"
    and "completedStages t = completedStages u"
  shows "TaskStore_nextStage t = TaskStore_nextStage u"
proof -
  have "lastValue t = lastValue u" using assms(3) by (simp add: lastValue_def)
  with assms show ?thesis by (simp add: TaskStore_nextStage_def Let_def)
qed

lemma nextStage_Some:
  assumes "TaskStore_nextStage t = Some s"
  shows "stage_sequence t \<noteq> []
    \<and> s = stage_sequence t ! (length (completedStages t) mod length (stage_sequence t))
    \<and> (\<not> repeats t \<longrightarrow> length (completedStages t) < length (stage_sequence t))"
  using assms
  by (auto simp: TaskStore_nextStage_def stage_sequence_def repeats_def Let_def split: if_splits)

lemma nextStage_None:
  "stage_sequence t \<noteq> [] \<Longrightarrow> TaskStore_nextStage t = None \<Longrightarrow> completedStages t \<noteq> []"
  by (auto simp: TaskStore_nextStage_def stage_sequence_def Let_def split: if_splits)

lemmas task_change_defs =
  updated_task_def requeue_def fail_with_def complete_with_def with_cancellation_def
  accept_assignment_def renew_assignment_def with_assignment_def new_assignment_def

lemmas task_inv_defs =
  task_inv_def in_pipeline_order_def assignment_matches_def ids_consistent_def result_final_def
  stage_sequence_def repeats_def attempt_ids_def acknowledged_def next_value_def lastValue_def

lemma fresh_task_inv: "fresh_task t \<Longrightarrow> task_inv M t"
  by (auto simp: fresh_task_def task_inv_defs)

text \<open>What every change but a stage result leaves alone, and the invariant's dependence on it.\<close>

definition same_progress :: "task \<Rightarrow> task \<Rightarrow> bool" where
  "same_progress t u \<longleftrightarrow> completedStages u = completedStages t \<and> pipelineStages u = pipelineStages t
     \<and> pipelineRepeatsUntilDone u = pipelineRepeatsUntilDone t \<and> taskInput u = taskInput t
     \<and> acknowledgedStageAssignmentIds u = acknowledgedStageAssignmentIds t"

lemma same_progress_eqs:
  assumes "same_progress t u"
  shows "TaskStore_nextStage u = TaskStore_nextStage t" "next_value u = next_value t"
    "lastValue u = lastValue t" "acknowledged u = acknowledged t"
    "in_pipeline_order u = in_pipeline_order t"
    "completedStages u = completedStages t"
proof -
  from assms have c: "completedStages u = completedStages t" and p: "pipelineStages u = pipelineStages t"
    and r: "pipelineRepeatsUntilDone u = pipelineRepeatsUntilDone t" and i: "taskInput u = taskInput t"
    and k: "acknowledgedStageAssignmentIds u = acknowledgedStageAssignmentIds t"
    by (simp_all add: same_progress_def)
  show "TaskStore_nextStage u = TaskStore_nextStage t" by (rule nextStage_cong [OF p r c])
  show l: "lastValue u = lastValue t" by (simp add: lastValue_def c)
  show "next_value u = next_value t" unfolding next_value_def l i ..
  show "acknowledged u = acknowledged t" by (simp add: acknowledged_def k)
  show "in_pipeline_order u = in_pipeline_order t"
    by (simp add: in_pipeline_order_def stage_sequence_def repeats_def c p r)
  show "completedStages u = completedStages t" by (rule c)
qed

lemma same_progress_changes [simp, intro]:
  "same_progress t (updated_task now requeue t)"
  "same_progress t (updated_task now (fail_with e) t)"
  "same_progress t (updated_task now (with_cancellation now' reason) t)"
  "same_progress t (updated_task now (accept_assignment now' a) t)"
  "same_progress t (renew_assignment until a t)"
  "same_progress t (updated_task now (with_assignment now' b) t)"
  by (simp_all add: same_progress_def task_change_defs Let_def)

lemma replace_attempt_ids [simp]:
  "map stageAssignmentId (replace_attempt a xs) = map stageAssignmentId xs"
  by (simp add: replace_attempt_def)

lemma attempt_ids_changes [simp]:
  "attempt_ids (updated_task now requeue t) = attempt_ids t"
  "attempt_ids (updated_task now (fail_with e) t) = attempt_ids t"
  "attempt_ids (updated_task now (complete_with v) t) = attempt_ids t"
  "attempt_ids (updated_task now (with_cancellation now' reason) t) = attempt_ids t"
  "attempt_ids (updated_task now (accept_assignment now' a) t) = attempt_ids t"
  "attempt_ids (renew_assignment until a t) = attempt_ids t"
  "attempt_ids (updated_task now (with_assignment now' b) t) = attempt_ids t @ [stageAssignmentId b]"
  "attempt_ids (updated_task now (with_stage t r i) t) = attempt_ids t"
  by (simp_all add: attempt_ids_def task_change_defs with_stage_def Let_def)

lemma inv_unassigned:
  assumes "task_inv M t" and "same_progress t u" and "attempt_ids u = attempt_ids t"
    and "stageAssignment u = None" and "taskState u \<in> {Queued, Failed, Cancelled}"
    and "currentStageAttempts u = currentStageAttempts t" and "taskRevision t \<le> taskRevision u"
  shows "task_inv M u"
  using assms same_progress_eqs [OF assms(2)]
  by (auto simp: task_inv_def assignment_matches_def ids_consistent_def result_final_def)

lemma inv_requeued: "task_inv M t \<Longrightarrow> task_inv M (updated_task now requeue t)"
  by (erule inv_unassigned [OF _ same_progress_changes(1) attempt_ids_changes(1)])
    (simp_all add: task_change_defs)

lemma inv_failed: "task_inv M t \<Longrightarrow> task_inv M (updated_task now (fail_with e) t)"
  by (erule inv_unassigned [OF _ same_progress_changes(2) attempt_ids_changes(2)])
    (simp_all add: task_change_defs)

lemma inv_cancelled: "task_inv M t \<Longrightarrow> task_inv M (updated_task now (with_cancellation now' r) t)"
  by (erule inv_unassigned [OF _ same_progress_changes(3) attempt_ids_changes(4)])
    (simp_all add: task_change_defs)

lemma inv_accepted:
  assumes inv: "task_inv M t" and a: "stageAssignment t = Some a"
  shows "task_inv M (updated_task now (accept_assignment now a) t)" (is "task_inv M ?u")
proof -
  note eqs = same_progress_eqs [OF same_progress_changes(4) [of t now now a]]
  have u: "stageAssignment ?u = Some (a\<lparr>acceptedAt := Some now\<rparr>)" "taskState ?u = Running"
    "currentStageAttempts ?u = currentStageAttempts t" "taskRevision ?u = Suc (taskRevision t)"
    by (simp_all add: task_change_defs Let_def)
  from inv a show ?thesis
    by (auto simp: task_inv_def assignment_matches_def ids_consistent_def result_final_def eqs u)
qed

lemma inv_renewed:
  assumes inv: "task_inv M t" and a: "stageAssignment t = Some a"
  shows "task_inv M (renew_assignment until a t)" (is "task_inv M ?u")
proof -
  note eqs = same_progress_eqs [OF same_progress_changes(5) [of t until a]]
  have u: "stageAssignment ?u = Some (a\<lparr>leaseUntil := until\<rparr>)" "taskState ?u = taskState t"
    "currentStageAttempts ?u = currentStageAttempts t" "taskRevision ?u = taskRevision t"
    "taskResult ?u = taskResult t"
    by (simp_all add: task_change_defs Let_def)
  from inv a show ?thesis
    by (auto simp: task_inv_def assignment_matches_def ids_consistent_def result_final_def eqs u)
qed

text \<open>
  Between \<open>addStage\<close> and what follows it, a task is running with no assignment. \<open>open_task\<close> is what a
  placement needs of it.
\<close>

definition open_task :: "nat \<Rightarrow> task \<Rightarrow> bool" where
  "open_task M t \<longleftrightarrow> currentStageAttempts t \<le> M \<and> 1 \<le> taskRevision t
     \<and> in_pipeline_order t \<and> ids_consistent t"

lemma task_inv_open: "task_inv M t \<Longrightarrow> open_task M t"
  by (simp add: task_inv_def open_task_def)

lemma inv_moved:
  assumes "task_move M t t'" and "open_task M t"
  shows "task_inv M t'"
  using assms
proof (induction rule: task_move.induct)
  case (placed t stage v uuid now worker retry lease)
  define i where "i = ''stageAssignment-'' @ uuid"
  define b where "b = new_assignment now uuid t worker stage v retry lease"
  define u where "u = updated_task now (with_assignment now b) t"
  have sp: "same_progress t u" unfolding u_def by (rule same_progress_changes)
  note eqs = same_progress_eqs [OF sp]
  have u: "stageAssignment u = Some b" "taskState u = Assigned"
    "currentStageAttempts u = attempt b" "taskRevision u = Suc (taskRevision t)"
    by (simp_all add: u_def updated_task_def with_assignment_def)
  have ids: "attempt_ids u = attempt_ids t @ [i]"
    by (simp add: u_def b_def i_def new_assignment_def)
  have b: "attempt b = Suc (currentStageAttempts t)" "assignedStage b = stage"
    "assignedValue b = next_value t" "acceptedAt b = None" "stageAssignmentId b = i"
    using placed by (simp_all add: b_def new_assignment_def i_def)
  have "i \<notin> set (attempt_ids t)" using placed by (simp add: i_def)
  then have "task_inv M u"
    using placed(2,3,6)
    by (auto simp: task_inv_def assignment_matches_def ids_consistent_def result_final_def
        open_task_def eqs u b ids)
  then show ?case by (simp add: u_def b_def)
next
  case (requeued t now)
  have "task_inv M (t\<lparr>taskState := Queued, stageAssignment := None\<rparr>)"
    using requeued(2) by (auto simp: open_task_def task_inv_defs)
  from inv_requeued [OF this, of now] show ?case by (simp add: updated_task_def requeue_def)
next
  case (exhausted t now)
  have "task_inv M (t\<lparr>taskState := Queued, stageAssignment := None\<rparr>)"
    using exhausted(3) by (auto simp: open_task_def task_inv_defs)
  from inv_failed [OF this, of now] show ?case by (simp add: updated_task_def fail_with_def)
next
  case (expired t now)
  have "task_inv M (t\<lparr>taskState := Queued, stageAssignment := None\<rparr>)"
    using expired(3) by (auto simp: open_task_def task_inv_defs)
  from inv_failed [OF this, of now] show ?case by (simp add: updated_task_def fail_with_def)
qed

lemma nth_append_in_order:
  assumes "\<forall>i < length xs. f (xs ! i) = g i" and "f x = g (length xs)"
  shows "\<forall>i < length (xs @ [x]). f ((xs @ [x]) ! i) = g i"
  using assms by (auto simp: nth_append less_Suc_eq)

lemma after_stage:
  assumes inv: "task_inv M t" and a: "stageAssignment t = Some a"
    and r: "r = \<lparr>result_name = assignedStage a, result_value = v\<rparr>"
    and t1: "t1 = updated_task now (with_stage t r (Some (stageAssignmentId a))) t"
  shows "open_task M t1" "stageAssignment t1 = None" "taskState t1 = taskState t"
    "lastValue t1 = Some v" "acknowledged t1 = acknowledged t @ [stageAssignmentId a]"
proof -
  have c: "completedStages t1 = completedStages t @ [r]" and p: "pipelineStages t1 = pipelineStages t"
    and rep: "pipelineRepeatsUntilDone t1 = pipelineRepeatsUntilDone t"
    by (simp_all add: t1 updated_task_def with_stage_def Let_def)
  show s: "stageAssignment t1 = None" and "taskState t1 = taskState t"
    by (simp_all add: t1 updated_task_def with_stage_def Let_def)
  show k: "acknowledged t1 = acknowledged t @ [stageAssignmentId a]"
    by (simp add: t1 acknowledged_def updated_task_def with_stage_def Let_def)
  show "lastValue t1 = Some v" by (simp add: lastValue_def c r)
  have ids: "attempt_ids t1 = attempt_ids t" by (simp add: t1)
  have n0: "currentStageAttempts t1 = 0" by (simp add: t1 updated_task_def)
  have rev: "1 \<le> taskRevision t1" by (simp add: t1)
  have m: "TaskStore_nextStage t = Some (assignedStage a)"
    "stageAssignmentId a \<in> set (attempt_ids t)" "stageAssignmentId a \<notin> set (acknowledged t)"
    using inv a by (auto simp: task_inv_def assignment_matches_def)
  have old: "in_pipeline_order t" and oldids: "ids_consistent t" using inv by (auto simp: task_inv_def)
  have "in_pipeline_order t1"
    using nextStage_Some [OF m(1)] old
      nth_append_in_order [of "completedStages t" result_name
        "\<lambda>i. stage_sequence t ! (i mod length (stage_sequence t))" r]
    by (simp add: in_pipeline_order_def stage_sequence_def repeats_def c p rep r Suc_le_eq)
  moreover have "ids_consistent t1"
    using oldids m by (simp add: ids_consistent_def ids k c)
  ultimately show "open_task M t1" by (simp add: open_task_def n0 rev [simplified])
qed

lemma inv_completed:
  assumes "open_task M t1" and "stageAssignment t1 = None" and "lastValue t1 = Some v"
    and "TaskStore_nextStage t1 = None"
  shows "task_inv M (updated_task now (complete_with v) t1)" (is "task_inv M ?u")
proof -
  have sp: "same_progress t1 ?u"
    by (simp add: same_progress_def updated_task_def complete_with_def)
  have "completedStages t1 \<noteq> []" using assms(3) by (auto simp: lastValue_def)
  with assms show ?thesis
    by (auto simp: task_inv_def assignment_matches_def ids_consistent_def result_final_def
        open_task_def same_progress_eqs [OF sp])
      (simp_all add: updated_task_def complete_with_def)
qed

lemma task_step_inv:
  assumes "task_step M t l t'" and "task_inv M t"
  shows "task_inv M t'"
  using assms
proof (induction rule: task_step.induct)
  case (moved t t')
  then show ?case by (blast intro: inv_moved task_inv_open)
next
  case (completed t a r v t1 now)
  note after = after_stage [OF completed.prems completed.hyps(2-4)]
  show ?case by (rule inv_completed [OF after(1,2,4) completed.hyps(5)])
next
  case (advanced t a r v t1 now t2)
  note after = after_stage [OF advanced.prems advanced.hyps(2-4)]
  show ?case by (rule inv_moved [OF advanced.hyps(6) after(1)])
qed (auto intro: inv_accepted inv_renewed inv_cancelled inv_failed)

section \<open>A task never forgets\<close>

text \<open>
  The order between an earlier and a later state of one task: who submitted it, what it asks for and
  which pipeline it runs are fixed; the revision never falls; completed stages, acknowledged results,
  assignment attempts and events are only appended to; and a finished task stays finished with the
  same stages and the same result, the only state it may still take being \<open>Cancelled\<close>.
\<close>

definition same_identity :: "task \<Rightarrow> task \<Rightarrow> bool" where
  "same_identity t u \<longleftrightarrow> taskId u = taskId t \<and> taskRequestId u = taskRequestId t
     \<and> consumerDeviceId u = consumerDeviceId t \<and> consumerAuthIdentity u = consumerAuthIdentity t
     \<and> consumerAccountId u = consumerAccountId t \<and> taskInput u = taskInput t
     \<and> createdAt u = createdAt t \<and> submissionDeadlineAt u = submissionDeadlineAt t
     \<and> pipelineId u = pipelineId t \<and> pipelineVersion u = pipelineVersion t
     \<and> pipelineStages u = pipelineStages t
     \<and> pipelineRepeatsUntilDone u = pipelineRepeatsUntilDone t"

definition history_grows :: "task \<Rightarrow> task \<Rightarrow> bool" where
  "history_grows t u \<longleftrightarrow> taskRevision t \<le> taskRevision u
     \<and> prefix (completedStages t) (completedStages u) \<and> prefix (taskEvents t) (taskEvents u)
     \<and> prefix (attempt_ids t) (attempt_ids u) \<and> prefix (acknowledged t) (acknowledged u)"

definition stays_finished :: "task \<Rightarrow> task \<Rightarrow> bool" where
  "stays_finished t u \<longleftrightarrow> (isFinished (taskState t) \<longrightarrow>
     (taskState u = taskState t \<or> taskState u = Cancelled)
     \<and> completedStages u = completedStages t \<and> taskResult u = taskResult t)"

definition task_le :: "task \<Rightarrow> task \<Rightarrow> bool" where
  "task_le t u \<longleftrightarrow> same_identity t u \<and> history_grows t u \<and> stays_finished t u"

lemma task_le_refl: "task_le t t"
  by (simp add: task_le_def same_identity_def history_grows_def stays_finished_def)

lemma same_identity_trans: "same_identity t u \<Longrightarrow> same_identity u w \<Longrightarrow> same_identity t w"
  by (simp add: same_identity_def)

lemma history_grows_trans: "history_grows t u \<Longrightarrow> history_grows u w \<Longrightarrow> history_grows t w"
  unfolding history_grows_def by (meson order_trans prefix_order.order_trans)

lemma stays_finished_trans: "stays_finished t u \<Longrightarrow> stays_finished u w \<Longrightarrow> stays_finished t w"
  by (auto simp: stays_finished_def)

lemma task_le_trans: "task_le t u \<Longrightarrow> task_le u w \<Longrightarrow> task_le t w"
  unfolding task_le_def by (blast intro: same_identity_trans history_grows_trans stays_finished_trans)

lemma identity_of_changes [simp]:
  "same_identity t (updated_task now requeue t)"
  "same_identity t (updated_task now (fail_with e) t)"
  "same_identity t (updated_task now (complete_with v) t)"
  "same_identity t (updated_task now (with_cancellation now' reason) t)"
  "same_identity t (updated_task now (accept_assignment now' a) t)"
  "same_identity t (renew_assignment until a t)"
  "same_identity t (updated_task now (with_assignment now' b) t)"
  "same_identity t (updated_task now (with_stage t r i) t)"
  by (simp_all add: same_identity_def task_change_defs with_stage_def Let_def)

lemma history_of_changes [simp]:
  "history_grows t (updated_task now requeue t)"
  "history_grows t (updated_task now (fail_with e) t)"
  "history_grows t (updated_task now (complete_with v) t)"
  "history_grows t (updated_task now (with_cancellation now' reason) t)"
  "history_grows t (updated_task now (accept_assignment now' a) t)"
  "history_grows t (renew_assignment until a t)"
  "history_grows t (updated_task now (with_assignment now' b) t)"
  "history_grows t (updated_task now (with_stage t r (Some i)) t)"
  unfolding history_grows_def attempt_ids_changes
  by (simp_all add: task_change_defs acknowledged_def with_stage_def Let_def)

lemma task_move_le:
  assumes "task_move M t t'"
  shows "task_le t t'"
  using assms
  by (induction rule: task_move.induct) (auto simp: task_le_def stays_finished_def)

lemma task_step_le:
  assumes "task_step M t l t'" and "task_inv M t"
  shows "task_le t t'"
  using assms
proof (induction rule: task_step.induct)
  case (moved t t')
  then show ?case by (blast intro: task_move_le)
next
  case (completed t a r v t1 now)
  have "same_identity t t1" "history_grows t t1" using completed.hyps(4) by simp_all
  moreover have "same_identity t1 (updated_task now (complete_with v) t1)"
    "history_grows t1 (updated_task now (complete_with v) t1)" by simp_all
  ultimately show ?case
    using completed.hyps(1) unfolding task_le_def stays_finished_def
    by (auto intro: same_identity_trans history_grows_trans)
next
  case (advanced t a r v t1 now t2)
  have "same_identity t t1" "history_grows t t1" using advanced.hyps(4) by simp_all
  with task_move_le [OF advanced.hyps(6)] advanced.hyps(1) show ?case
    unfolding task_le_def stays_finished_def
    by (auto intro: same_identity_trans history_grows_trans)
next
  case (accepted t a now)
  then show ?case by (auto simp: task_le_def stays_finished_def task_inv_def)
next
  case (renewed t a until)
  then show ?case
    by (simp add: task_le_def stays_finished_def) (simp add: renew_assignment_def Let_def)
next
  case (broken t a now e)
  then show ?case by (simp add: task_le_def stays_finished_def)
next
  case (withdrawn t now reason)
  show ?case
    by (simp add: task_le_def stays_finished_def) (simp add: updated_task_def with_cancellation_def)
qed

section \<open>The machine of the whole store\<close>

datatype store_label = Submitted task_id | Changed task_id task_label

definition index_consistent :: "task_store \<Rightarrow> bool" where
  "index_consistent st \<longleftrightarrow>
     (\<forall>tid t. map_get (tasks st) tid = Some t \<longrightarrow>
        map_get (taskIdByConsumerTaskRequest st) (request_key t) = Some tid)"

text \<open>How many unfinished tasks one principal has.\<close>

definition active_tasks :: "string \<Rightarrow> task_store \<Rightarrow> nat" where
  "active_tasks who st = length (filter (\<lambda>t. consumerAuthIdentity t = Some who \<and> \<not> isFinished (taskState t))
     (map_values (tasks st)))"

inductive store_step ::
  "store_settings \<Rightarrow> nat \<Rightarrow> nat \<Rightarrow> task_store \<Rightarrow> store_label \<Rightarrow> task_store \<Rightarrow> bool" for cfg M L where
  submitted: "map_get (tasks st) (taskId t) = None \<Longrightarrow>
     TaskStore_findByTaskRequest st (consumerDeviceId t) (taskRequestId t) = None \<Longrightarrow>
     fresh_task t \<Longrightarrow> (\<And>who. consumerAuthIdentity t = Some who \<Longrightarrow> active_tasks who st < L) \<Longrightarrow>
     durable cfg st' \<Longrightarrow>
     tasks st' = map_set (tasks st) (taskId t) t \<Longrightarrow>
     taskIdByConsumerTaskRequest st' =
       map_set (taskIdByConsumerTaskRequest st) (request_key t) (taskId t) \<Longrightarrow>
     store_step cfg M L st (Submitted (taskId t)) st'"
| changed: "map_get (tasks st) tid = Some t \<Longrightarrow> task_step M t l t' \<Longrightarrow> durable cfg st' \<Longrightarrow>
     tasks st' = map_set (tasks st) tid t' \<Longrightarrow>
     taskIdByConsumerTaskRequest st' = taskIdByConsumerTaskRequest st \<Longrightarrow>
     store_step cfg M L st (Changed tid l) st'"

definition store_inv :: "store_settings \<Rightarrow> nat \<Rightarrow> nat \<Rightarrow> task_store \<Rightarrow> bool" where
  "store_inv cfg M L st \<longleftrightarrow> wf_map (tasks st) \<and> durable cfg st \<and> index_consistent st
     \<and> (\<forall>who. active_tasks who st \<le> L)
     \<and> (\<forall>tid t. map_get (tasks st) tid = Some t \<longrightarrow> taskId t = tid \<and> task_inv M t)"

definition store_le :: "task_store \<Rightarrow> task_store \<Rightarrow> bool" where
  "store_le st st' \<longleftrightarrow> (\<forall>tid t. map_get (tasks st) tid = Some t \<longrightarrow>
     (\<exists>t'. map_get (tasks st') tid = Some t' \<and> task_le t t'))"

definition store_start :: "store_settings \<Rightarrow> task_store \<Rightarrow> bool" where
  "store_start cfg st \<longleftrightarrow> tasks st = [] \<and> taskIdByConsumerTaskRequest st = [] \<and> durable cfg st"

lemma task_le_request_key: "task_le t t' \<Longrightarrow> request_key t' = request_key t"
  by (simp add: task_le_def same_identity_def request_key_def)

lemma active_tasks_set:
  assumes "wf_map (tasks st)" and "tasks st' = map_set (tasks st) k t"
  shows "map_get (tasks st) k = None \<Longrightarrow> active_tasks who st' =
      active_tasks who st + (if consumerAuthIdentity t = Some who \<and> \<not> isFinished (taskState t) then 1 else 0)"
    and "map_get (tasks st) k = Some old \<Longrightarrow> task_le old t \<Longrightarrow> active_tasks who st' \<le> active_tasks who st"
proof -
  let ?f = "\<lambda>t. if consumerAuthIdentity t = Some who \<and> \<not> isFinished (taskState t) then 1 else 0 :: nat"
  have eq: "active_tasks who s = (\<Sum>v\<leftarrow>map_values (tasks s). ?f v)" for s
    unfolding active_tasks_def by (rule length_filter_as_sum)
  show "active_tasks who st' = active_tasks who st + ?f t" if "map_get (tasks st) k = None"
    unfolding eq assms(2) by (rule sum_list_map_set_new [OF that])
  assume old: "map_get (tasks st) k = Some old" and le: "task_le old t"
  have "?f t \<le> ?f old"
    using le by (auto simp: task_le_def same_identity_def stays_finished_def)
  with sum_list_map_set_old [OF assms(1) old, of ?f t] show "active_tasks who st' \<le> active_tasks who st"
    unfolding eq assms(2) by linarith
qed

lemma store_step_inv:
  assumes "store_step cfg M L st l st'" and "store_inv cfg M L st"
  shows "store_inv cfg M L st'"
  using assms
proof (induction rule: store_step.induct)
  case (submitted st t st')
  have "request_key u \<noteq> request_key t" if u: "map_get (tasks st) tid = Some u" for tid u
  proof
    assume "request_key u = request_key t"
    with u submitted.prems have "map_get (taskIdByConsumerTaskRequest st) (request_key t) = Some tid"
      by (force simp: store_inv_def index_consistent_def)
    with u submitted.hyps(2) show False
      by (simp add: TaskStore_findByTaskRequest_def request_key_def)
  qed
  moreover have "active_tasks who st' \<le> L" for who
    using active_tasks_set(1) [OF _ submitted.hyps(6,1), of who] submitted.hyps(4) [of who] submitted.prems
    by (auto simp: store_inv_def Suc_le_eq split: if_splits)
  ultimately show ?case using submitted
    by (auto simp: store_inv_def index_consistent_def fresh_task_inv)
next
  case (changed st tid t l t' st')
  then have inv: "task_inv M t" and id: "taskId t = tid" by (auto simp: store_inv_def)
  have le: "task_le t t'" by (rule task_step_le [OF changed.hyps(2) inv])
  then have "taskId t' = tid" using id by (simp add: task_le_def same_identity_def)
  moreover have "active_tasks who st' \<le> L" for who
    using active_tasks_set(2) [OF _ changed.hyps(4,1) le, of who] changed.prems
    by (auto simp: store_inv_def intro: order_trans)
  ultimately show ?case using changed task_step_inv [OF changed.hyps(2) inv] task_le_request_key [OF le]
    by (auto simp: store_inv_def index_consistent_def)
qed

lemma store_step_le:
  assumes "store_inv cfg M L st" and "store_step cfg M L st l st'"
  shows "store_le st st'"
  using assms(2,1)
proof (induction rule: store_step.induct)
  case (submitted st t st')
  then show ?case by (auto simp: store_le_def intro: task_le_refl)
next
  case (changed st tid t l t' st')
  then have "task_le t t'" by (auto simp: store_inv_def intro: task_step_le)
  with changed show ?case by (auto simp: store_le_def intro: task_le_refl)
qed

lemma store_le_refl: "store_le st st"
  by (auto simp: store_le_def intro: task_le_refl)

lemma store_le_trans: "store_le s t \<Longrightarrow> store_le t u \<Longrightarrow> store_le s u"
  unfolding store_le_def by (meson task_le_trans)

interpretation store: invariant_machine "store_start cfg" "store_step cfg M L" "store_inv cfg M L"
  by unfold_locales
    (simp add: store_start_def store_inv_def index_consistent_def active_tasks_def, blast intro: store_step_inv)

lemma store_run_le:
  assumes "run (store_step cfg M L) st ls st'" and "store_inv cfg M L st"
  shows "store_le st st'"
  using store.run_preorder [of cfg M L, OF assms store_le_refl store_le_trans store_step_le] .

end
