(* ===== verification/Gateway_State.thy ===== *)
theory Gateway_State
  imports Gateway_Messages Account_Identity Liveness_Limits Task_Lifecycle
begin

text \<open>
  The state of a running gateway and the parts every handler uses: the open connections and the one place a
  message is written to one (\<open>src/packages/gateway/src/connection/connection_hub.ts\<close>), and the announcer of
  device changes (\<open>src/packages/gateway/src/device/device_announcer.ts\<close>). The settings, the loaded
  pipelines and the platform are in \<open>env\<close>, which never changes; the rest is in \<open>gateway\<close>. Everything
  written to a socket or to the message log is kept, in order, in the \<open>world\<close> field; random identifiers are
  drawn from the platform's sequence, one per use. A \<open>throw\<close> that leaves a handler is the \<open>raised\<close> field;
  what the source would not run after it is not run here either. One step of the gateway reads one clock
  value. The frame lemmas say which parts each of these operations leaves alone.
\<close>

section \<open>Environment and state\<close>

record 'key env =
  storeSettings :: store_settings
  defaultLeaseMs :: int
  maximumAttempts :: nat
  authToken :: string
  maximumTasksPerPrincipal :: nat
  sessionDurationMs :: int
  challengeDurationMs :: int
  accountFilePath :: "string option"
  pipelineRegistry :: pipeline_registry
  randomUUID :: "nat \<Rightarrow> string"
  randomHex :: "nat \<Rightarrow> string"
  sha256Hex :: "string \<Rightarrow> string"
  platform :: "'key web_platform"

datatype counterpart_role = As_worker | As_consumer | As_observer | As_unknown

record log_counterpart =
  counterpart_role :: counterpart_role
  counterpart_deviceId :: device_id

datatype log_entry =
    Sent log_counterpart "gateway_message envelope"
  | Received log_counterpart "client_message envelope"

record world =
  nonce :: nat
  openSockets :: "socket list"
  outbox :: "(socket \<times> gateway_message envelope) list"
  messageLog :: "log_entry list"

record connection_hub =
  socketMap :: "(device_id, socket) js_map"
  ipAddressMap :: "(device_id, string) js_map"
  observerDeviceIds :: "device_id list"
  deviceSubscriberIds :: "device_id list"
  taskObserverDeviceIds :: "(task_id, device_id list) js_map"

record device_announcer =
  pendingActivityDeviceIds :: "device_id list"
  activityTimer :: bool

text \<open>What an account message still has to do once the platform has answered.\<close>

datatype continuation =
    Finish_register socket device_id signature_algorithm string "string option" "string option" string
  | Finish_authenticate socket device_id account_profile string string string

datatype gateway_exception = Store_exception store_error | Ledger_exception ledger_error

record gateway =
  taskStore :: task_store
  deviceRegistry :: device_registry
  hub :: connection_hub
  announcer :: device_announcer
  sessionRegistry :: session_registry
  challengeRegistry :: challenge_registry
  accountRegistry :: account_registry
  ledgerStore :: ledger_store
  rateLimiter :: rate_limiter
  pending :: "continuation list"
  world :: world
  raised :: "gateway_exception option"

section \<open>Drawing identifiers and sending\<close>

definition draw_uuid :: "'key env \<Rightarrow> gateway \<Rightarrow> string \<times> gateway" where
  "draw_uuid e g = (randomUUID e (nonce (world g)), g\<lparr>world := (world g)\<lparr>nonce := nonce (world g) + 1\<rparr>\<rparr>)"

definition ConnectionHub_counterpartFor :: "gateway \<Rightarrow> device_id \<Rightarrow> client_message option \<Rightarrow> log_counterpart" where
  "ConnectionHub_counterpartFor g did registerMessage =
     \<lparr>counterpart_role =
        (case registerMessage of
           Some (DeviceRegister Worker _ _ _ _) \<Rightarrow> As_worker
         | Some (DeviceRegister Consumer _ _ _ _) \<Rightarrow> As_consumer
         | _ \<Rightarrow>
             if did \<in> set (observerDeviceIds (hub g)) then As_observer
             else (case DeviceRegistry_get (deviceRegistry g) did of
                 None \<Rightarrow> As_unknown
               | Some d \<Rightarrow> (case deviceRole d of Worker \<Rightarrow> As_worker | Consumer \<Rightarrow> As_consumer))),
      counterpart_deviceId = did\<rparr>"

definition ConnectionHub_deviceIdForSocket :: "gateway \<Rightarrow> socket \<Rightarrow> device_id option" where
  "ConnectionHub_deviceIdForSocket g s = map_option fst (find (\<lambda>(_, s'). s' = s) (socketMap (hub g)))"

definition ConnectionHub_send ::
  "'key env \<Rightarrow> int \<Rightarrow> socket \<Rightarrow> gateway_message \<Rightarrow> log_counterpart \<Rightarrow> string option \<Rightarrow> gateway \<Rightarrow> gateway" where
  "ConnectionHub_send e now s m counterpart reply g =
     (let (uuid, g1) = draw_uuid e g;
          frame = Envelope_fromGateway uuid now m reply;
          toObserver = list_ex (\<lambda>did. map_get (socketMap (hub g1)) did = Some s) (observerDeviceIds (hub g1));
          w1 = world g1;
          w2 = (if toObserver then w1 else w1\<lparr>messageLog := messageLog w1 @ [Sent counterpart frame]\<rparr>);
          w3 = (if s \<in> set (openSockets w2) then w2\<lparr>outbox := outbox w2 @ [(s, frame)]\<rparr> else w2)
      in g1\<lparr>world := w3\<rparr>)"

record error_options =
  opt_taskId :: "task_id option"
  opt_taskRequestId :: "string option"
  opt_details :: "error_details option"
  opt_retryable :: "bool option"

definition no_options :: error_options where
  "no_options = \<lparr>opt_taskId = None, opt_taskRequestId = None, opt_details = None, opt_retryable = None\<rparr>"

definition ConnectionHub_sendError ::
  "'key env \<Rightarrow> int \<Rightarrow> socket \<Rightarrow> string option \<Rightarrow> log_counterpart \<Rightarrow> error_code \<Rightarrow> string \<Rightarrow> error_options \<Rightarrow>
   gateway \<Rightarrow> gateway" where
  "ConnectionHub_sendError e now s reply counterpart code txt options g =
     ConnectionHub_send e now s
       (Error_message \<lparr>error_code = code, error_message = txt, error_details = opt_details options,
          error_taskRequestId = opt_taskRequestId options, error_taskId = opt_taskId options,
          error_retryable = Some (coalesce (opt_retryable options) False)\<rparr>)
       counterpart reply g"

text \<open>An error message written without \<open>sendError\<close>: it says nothing about retrying.\<close>

definition plain_error :: "error_code \<Rightarrow> string \<Rightarrow> string option \<Rightarrow> task_id option \<Rightarrow> gateway_message" where
  "plain_error code txt request tid =
     Error_message \<lparr>error_code = code, error_message = txt, error_details = None,
       error_taskRequestId = request, error_taskId = tid, error_retryable = None\<rparr>"

definition ConnectionHub_sendToDeviceSubscribers ::
  "'key env \<Rightarrow> int \<Rightarrow> gateway_message \<Rightarrow> gateway \<Rightarrow> gateway" where
  "ConnectionHub_sendToDeviceSubscribers e now m g =
     foldl (\<lambda>g' did. case map_get (socketMap (hub g')) did of
         None \<Rightarrow> g'
       | Some s \<Rightarrow> ConnectionHub_send e now s m (ConnectionHub_counterpartFor g' did None) None g')
     g (deviceSubscriberIds (hub g))"

definition ConnectionHub_forget :: "device_id \<Rightarrow> connection_hub \<Rightarrow> connection_hub" where
  "ConnectionHub_forget did h =
     h\<lparr>socketMap := map_delete (socketMap h) did,
       ipAddressMap := map_delete (ipAddressMap h) did,
       observerDeviceIds := set_remove (observerDeviceIds h) did,
       deviceSubscriberIds := set_remove (deviceSubscriberIds h) did,
       taskObserverDeviceIds :=
         map (\<lambda>(tid, observers). (tid, set_remove observers did)) (taskObserverDeviceIds h)\<rparr>"

section \<open>Announcing device changes\<close>

definition DeviceAnnouncer_connectedDevices :: "gateway \<Rightarrow> device list" where
  "DeviceAnnouncer_connectedDevices g = DeviceRegistry_list (deviceRegistry g)"

definition DeviceAnnouncer_workerDevices :: "gateway \<Rightarrow> device list" where
  "DeviceAnnouncer_workerDevices g =
     filter (\<lambda>d. deviceRole d = Worker) (DeviceRegistry_list (deviceRegistry g))"

definition DeviceAnnouncer_queueDeviceActivity :: "device_id \<Rightarrow> gateway \<Rightarrow> gateway" where
  "DeviceAnnouncer_queueDeviceActivity did g =
     (if deviceSubscriberIds (hub g) = [] then g
      else g\<lparr>announcer := (announcer g)\<lparr>
               pendingActivityDeviceIds := set_add (pendingActivityDeviceIds (announcer g)) did,
               activityTimer := True\<rparr>\<rparr>)"

definition DeviceAnnouncer_publishChange ::
  "'key env \<Rightarrow> int \<Rightarrow> device_registry_change \<Rightarrow> gateway \<Rightarrow> gateway" where
  "DeviceAnnouncer_publishChange e now change g =
     (case change_kind change of
        Unchanged \<Rightarrow> g
      | Activity_changed \<Rightarrow> DeviceAnnouncer_queueDeviceActivity (deviceId (change_device change)) g
      | Joined \<Rightarrow> ConnectionHub_sendToDeviceSubscribers e now
          (Device_joined (change_device change) (change_deviceListRevision change)) g
      | Stable_changed \<Rightarrow> ConnectionHub_sendToDeviceSubscribers e now
          (Device_updated (change_device change) (change_deviceListRevision change)) g)"

definition DeviceAnnouncer_publishRemoval ::
  "'key env \<Rightarrow> int \<Rightarrow> device_removal option \<Rightarrow> gateway \<Rightarrow> gateway" where
  "DeviceAnnouncer_publishRemoval e now removal g =
     (case removal of
        None \<Rightarrow> g
      | Some r \<Rightarrow>
          ConnectionHub_sendToDeviceSubscribers e now
            (Device_left (removed_deviceId r) (removed_deviceListRevision r))
            (g\<lparr>announcer := (announcer g)\<lparr>pendingActivityDeviceIds :=
                 set_remove (pendingActivityDeviceIds (announcer g)) (removed_deviceId r)\<rparr>\<rparr>))"

text \<open>\<open>publishDevice(deviceRegistry.add(device))\<close>, which several handlers do.\<close>

definition add_and_publish :: "'key env \<Rightarrow> int \<Rightarrow> device \<Rightarrow> gateway \<Rightarrow> gateway" where
  "add_and_publish e now d g =
     (let (change, reg) = DeviceRegistry_add d (deviceRegistry g)
      in DeviceAnnouncer_publishChange e now change (g\<lparr>deviceRegistry := reg\<rparr>))"

definition DeviceAnnouncer_releaseWorkerAssignment ::
  "'key env \<Rightarrow> int \<Rightarrow> device_id \<Rightarrow> gateway \<Rightarrow> gateway" where
  "DeviceAnnouncer_releaseWorkerAssignment e now worker g =
     (case DeviceRegistry_get (deviceRegistry g) worker of
        None \<Rightarrow> g
      | Some d \<Rightarrow>
          if deviceRole d \<noteq> Worker then g
          else add_and_publish e now
            (d\<lparr>activeAssignments := Some (max 0 (coalesce (activeAssignments d) 0 - 1)), lastSeenAt := now\<rparr>) g)"

definition DeviceAnnouncer_occupyWorkerAssignment ::
  "'key env \<Rightarrow> int \<Rightarrow> device_id \<Rightarrow> gateway \<Rightarrow> gateway" where
  "DeviceAnnouncer_occupyWorkerAssignment e now worker g =
     (case DeviceRegistry_get (deviceRegistry g) worker of
        None \<Rightarrow> g
      | Some d \<Rightarrow>
          if deviceRole d \<noteq> Worker then g
          else add_and_publish e now
            (d\<lparr>activeAssignments := Some (coalesce (activeAssignments d) 0 + 1), lastSeenAt := now\<rparr>) g)"

definition DeviceAnnouncer_noteDeviceAnsweredPing :: "int \<Rightarrow> device_id \<Rightarrow> gateway \<Rightarrow> gateway" where
  "DeviceAnnouncer_noteDeviceAnsweredPing now did g =
     (case DeviceRegistry_get (deviceRegistry g) did of
        None \<Rightarrow> g
      | Some d \<Rightarrow>
          DeviceAnnouncer_queueDeviceActivity did
            (g\<lparr>deviceRegistry := snd (DeviceRegistry_add (d\<lparr>lastSeenAt := now\<rparr>) (deviceRegistry g))\<rparr>))"

definition DeviceAnnouncer_deviceActivityOf :: "device \<Rightarrow> device_activity" where
  "DeviceAnnouncer_deviceActivityOf d =
     \<lparr>activity_deviceId = deviceId d, activity_lastSeenAt = lastSeenAt d,
      activity_workerState = workerState d, activity_ready = deviceReady d,
      activity_activeAssignments = activeAssignments d\<rparr>"

definition DeviceAnnouncer_flushDeviceActivity :: "'key env \<Rightarrow> int \<Rightarrow> gateway \<Rightarrow> gateway" where
  "DeviceAnnouncer_flushDeviceActivity e now g =
     (let found = List.map_filter (DeviceRegistry_get (deviceRegistry g)) (pendingActivityDeviceIds (announcer g));
          activities = map DeviceAnnouncer_deviceActivityOf found;
          g1 = g\<lparr>announcer := \<lparr>pendingActivityDeviceIds = [], activityTimer = False\<rparr>\<rparr>
      in if activities = [] \<or> deviceSubscriberIds (hub g1) = [] then g1
         else ConnectionHub_sendToDeviceSubscribers e now
           (Device_activity activities (DeviceRegistry_currentDeviceListRevision (deviceRegistry g1))) g1)"

definition DeviceAnnouncer_stop :: "gateway \<Rightarrow> gateway" where
  "DeviceAnnouncer_stop g = g\<lparr>announcer := (announcer g)\<lparr>activityTimer := False\<rparr>\<rparr>"

section \<open>What sending leaves alone\<close>

text \<open>The world only grows: identifiers are used up, frames and log entries are appended.\<close>

definition world_le :: "world \<Rightarrow> world \<Rightarrow> bool" where
  "world_le w w' \<longleftrightarrow> nonce w \<le> nonce w' \<and> openSockets w' = openSockets w
     \<and> prefix (outbox w) (outbox w') \<and> prefix (messageLog w) (messageLog w')"

lemma world_le_refl [simp]: "world_le w w"
  by (simp add: world_le_def)

lemma world_le_trans: "world_le w v \<Longrightarrow> world_le v u \<Longrightarrow> world_le w u"
  unfolding world_le_def by (auto intro: prefix_order.order_trans)

text \<open>A step that only sends: every part but the world is the same.\<close>

definition only_sends :: "gateway \<Rightarrow> gateway \<Rightarrow> bool" where
  "only_sends g g' \<longleftrightarrow> g' = g\<lparr>world := world g'\<rparr> \<and> world_le (world g) (world g')"

lemma only_sends_refl [simp, intro]: "only_sends g g"
  by (simp add: only_sends_def)

lemma only_sends_trans: "only_sends g h \<Longrightarrow> only_sends h k \<Longrightarrow> only_sends g k"
  unfolding only_sends_def
  by (metis (no_types, lifting) gateway.update_convs(11) gateway.surjective world_le_trans)

lemma send_only_sends [simp, intro]: "only_sends g (ConnectionHub_send e now s m c r g)"
  by (simp add: ConnectionHub_send_def draw_uuid_def only_sends_def Let_def world_le_def)

lemma sendError_only_sends [simp, intro]: "only_sends g (ConnectionHub_sendError e now s r c code txt opts g)"
  by (simp add: ConnectionHub_sendError_def)

lemma foldl_only_sends:
  assumes "\<And>g x. only_sends g (f g x)"
  shows "only_sends g (foldl f g xs)"
  by (induction xs arbitrary: g) (auto intro: only_sends_trans assms)

lemma subscribers_only_sends [simp, intro]:
  "only_sends g (ConnectionHub_sendToDeviceSubscribers e now m g)"
  unfolding ConnectionHub_sendToDeviceSubscribers_def
  by (rule foldl_only_sends) (auto split: option.split)

lemma only_sends_fields:
  assumes "only_sends g g'"
  shows "taskStore g' = taskStore g" "deviceRegistry g' = deviceRegistry g" "hub g' = hub g"
    "announcer g' = announcer g" "sessionRegistry g' = sessionRegistry g"
    "challengeRegistry g' = challengeRegistry g" "accountRegistry g' = accountRegistry g"
    "ledgerStore g' = ledgerStore g" "rateLimiter g' = rateLimiter g" "pending g' = pending g"
    "raised g' = raised g" "world_le (world g) (world g')"
proof -
  have eq: "g' = g\<lparr>world := world g'\<rparr>" and le: "world_le (world g) (world g')"
    using assms by (simp_all add: only_sends_def)
  show "world_le (world g) (world g')" by (rule le)
  show "taskStore g' = taskStore g" "deviceRegistry g' = deviceRegistry g" "hub g' = hub g"
    "announcer g' = announcer g" "sessionRegistry g' = sessionRegistry g"
    "challengeRegistry g' = challengeRegistry g" "accountRegistry g' = accountRegistry g"
    "ledgerStore g' = ledgerStore g" "rateLimiter g' = rateLimiter g" "pending g' = pending g"
    "raised g' = raised g"
    by (subst eq, simp)+
qed

lemmas send_frame [simp, frame_simps] = only_sends_fields [OF send_only_sends]
lemmas sendError_frame [simp, frame_simps] = only_sends_fields [OF sendError_only_sends]
lemmas subscribers_frame [simp, frame_simps] = only_sends_fields [OF subscribers_only_sends]

text \<open>
  Announcing touches the announcer and the world. \<open>same_core\<close> is what every such step leaves alone.
\<close>

definition same_core :: "gateway \<Rightarrow> gateway \<Rightarrow> bool" where
  "same_core g g' \<longleftrightarrow> taskStore g' = taskStore g \<and> hub g' = hub g
     \<and> sessionRegistry g' = sessionRegistry g \<and> challengeRegistry g' = challengeRegistry g
     \<and> accountRegistry g' = accountRegistry g \<and> ledgerStore g' = ledgerStore g
     \<and> rateLimiter g' = rateLimiter g \<and> pending g' = pending g \<and> raised g' = raised g
     \<and> world_le (world g) (world g')"

lemma same_core_refl [simp, intro]: "same_core g g"
  by (simp add: same_core_def)

lemma same_core_trans: "same_core g h \<Longrightarrow> same_core h k \<Longrightarrow> same_core g k"
  unfolding same_core_def by (auto intro: world_le_trans)

lemma only_sends_same_core: "only_sends g g' \<Longrightarrow> same_core g g'"
  by (simp add: same_core_def only_sends_fields)

lemma announcer_same_core: "same_core g (g\<lparr>announcer := a\<rparr>)"
  by (simp add: same_core_def)

lemma announcer_then_subscribers:
  "same_core g (ConnectionHub_sendToDeviceSubscribers e now m (g\<lparr>announcer := a\<rparr>))"
  by (rule same_core_trans [OF announcer_same_core only_sends_same_core [OF subscribers_only_sends]])

lemma queue_same_core [simp, intro]:
  "same_core g (DeviceAnnouncer_queueDeviceActivity did g)"
  "deviceRegistry (DeviceAnnouncer_queueDeviceActivity did g) = deviceRegistry g"
  by (simp_all add: DeviceAnnouncer_queueDeviceActivity_def same_core_def)

lemma publishChange_same_core [simp, intro]:
  "same_core g (DeviceAnnouncer_publishChange e now c g)"
  "deviceRegistry (DeviceAnnouncer_publishChange e now c g) = deviceRegistry g"
  by (simp_all add: DeviceAnnouncer_publishChange_def only_sends_same_core split: change_kind.split)

lemma publishRemoval_same_core [simp, intro]:
  "same_core g (DeviceAnnouncer_publishRemoval e now r g)"
  "deviceRegistry (DeviceAnnouncer_publishRemoval e now r g) = deviceRegistry g"
  by (simp_all add: DeviceAnnouncer_publishRemoval_def announcer_then_subscribers split: option.split)

lemma add_and_publish_same_core [simp, intro]:
  "same_core g (add_and_publish e now d g)"
  "deviceRegistry (add_and_publish e now d g) = snd (DeviceRegistry_add d (deviceRegistry g))"
proof -
  show "deviceRegistry (add_and_publish e now d g) = snd (DeviceRegistry_add d (deviceRegistry g))"
    by (simp add: add_and_publish_def case_prod_beta)
  have "same_core g (g\<lparr>deviceRegistry := snd (DeviceRegistry_add d (deviceRegistry g))\<rparr>)"
    by (simp add: same_core_def)
  then show "same_core g (add_and_publish e now d g)"
    unfolding add_and_publish_def case_prod_beta Let_def by (rule same_core_trans) simp
qed

lemma release_same_core [simp, intro]:
  "same_core g (DeviceAnnouncer_releaseWorkerAssignment e now w g)"
  by (simp add: DeviceAnnouncer_releaseWorkerAssignment_def split: option.split)

lemma occupy_same_core [simp, intro]:
  "same_core g (DeviceAnnouncer_occupyWorkerAssignment e now w g)"
  by (simp add: DeviceAnnouncer_occupyWorkerAssignment_def split: option.split)

lemma notePing_same_core [simp, intro]:
  "same_core g (DeviceAnnouncer_noteDeviceAnsweredPing now did g)"
proof (cases "DeviceRegistry_get (deviceRegistry g) did")
  case None
  then show ?thesis by (simp add: DeviceAnnouncer_noteDeviceAnsweredPing_def)
next
  case (Some d)
  have "same_core g (g\<lparr>deviceRegistry := snd (DeviceRegistry_add (d\<lparr>lastSeenAt := now\<rparr>) (deviceRegistry g))\<rparr>)"
    by (simp add: same_core_def)
  then show ?thesis
    unfolding DeviceAnnouncer_noteDeviceAnsweredPing_def Some option.case by (rule same_core_trans) simp
qed

lemma flush_same_core [simp, intro]:
  "same_core g (DeviceAnnouncer_flushDeviceActivity e now g)"
  "deviceRegistry (DeviceAnnouncer_flushDeviceActivity e now g) = deviceRegistry g"
  by (simp_all add: DeviceAnnouncer_flushDeviceActivity_def Let_def announcer_same_core
      announcer_then_subscribers)

lemma same_core_fields:
  assumes "same_core g g'"
  shows "taskStore g' = taskStore g" "hub g' = hub g" "sessionRegistry g' = sessionRegistry g"
    "challengeRegistry g' = challengeRegistry g" "accountRegistry g' = accountRegistry g"
    "ledgerStore g' = ledgerStore g" "rateLimiter g' = rateLimiter g" "pending g' = pending g"
    "raised g' = raised g" "world_le (world g) (world g')" "nonce (world g) \<le> nonce (world g')"
  using assms by (simp_all add: same_core_def world_le_def)

lemmas queue_frame [simp, frame_simps] = same_core_fields [OF queue_same_core(1)]
lemmas add_and_publish_frame [simp, frame_simps] = same_core_fields [OF add_and_publish_same_core(1)]
lemmas publishRemoval_frame [simp, frame_simps] = same_core_fields [OF publishRemoval_same_core(1)]
lemmas release_frame [simp, frame_simps] = same_core_fields [OF release_same_core]
lemmas occupy_frame [simp, frame_simps] = same_core_fields [OF occupy_same_core]
lemmas notePing_frame [simp, frame_simps] = same_core_fields [OF notePing_same_core]
lemmas flush_frame [simp, frame_simps] = same_core_fields [OF flush_same_core(1)]

lemma wf_release [simp, intro]:
  "wf_devices (deviceRegistry g) \<Longrightarrow>
   wf_devices (deviceRegistry (DeviceAnnouncer_releaseWorkerAssignment e now w g))"
  by (auto simp: DeviceAnnouncer_releaseWorkerAssignment_def split: option.split)

lemma wf_occupy [simp, intro]:
  "wf_devices (deviceRegistry g) \<Longrightarrow>
   wf_devices (deviceRegistry (DeviceAnnouncer_occupyWorkerAssignment e now w g))"
  by (auto simp: DeviceAnnouncer_occupyWorkerAssignment_def split: option.split)

lemma wf_notePing [simp, intro]:
  "wf_devices (deviceRegistry g) \<Longrightarrow>
   wf_devices (deviceRegistry (DeviceAnnouncer_noteDeviceAnsweredPing now did g))"
  by (auto simp: DeviceAnnouncer_noteDeviceAnsweredPing_def split: option.split)

end
