(* ===== verification/Task_Scheduler.thy ===== *)
theory Task_Scheduler
  imports Gateway_State
begin

text \<open>
  \<open>TaskScheduler\<close> (\<open>src/packages/gateway/src/task/task_scheduler.ts\<close>): placing a stage on a worker, putting
  a task back in the queue, failing it, retrying expired and orphaned assignments, and reporting progress.
  The lemmas show that whatever the scheduler does to a task is one move of the machine of
  \<open>Task_Lifecycle\<close>, that it touches nothing else but the devices' counters, that the worker it chooses can
  take the stage, and that a generation is continued only on the device that holds it.
\<close>

section \<open>Reporting\<close>

definition TaskScheduler_broadcastTask :: "'key env \<Rightarrow> int \<Rightarrow> task_id \<Rightarrow> gateway \<Rightarrow> gateway" where
  "TaskScheduler_broadcastTask e now tid g =
     (case TaskStore_get (taskStore g) tid of
        None \<Rightarrow> g
      | Some t \<Rightarrow>
          let update = TaskProjection_update t;
              recipients = set_of_list
                (consumerDeviceId t # coalesce (map_get (taskObserverDeviceIds (hub g)) tid) [])
          in foldl (\<lambda>g' recipient. case map_get (socketMap (hub g')) recipient of
                 None \<Rightarrow> g'
               | Some s \<Rightarrow> ConnectionHub_send e now s (Task_updated update)
                   (ConnectionHub_counterpartFor g' recipient None) None g')
               g recipients)"

definition TaskScheduler_mayReadTask :: "gateway \<Rightarrow> device_id \<Rightarrow> task_id \<Rightarrow> bool" where
  "TaskScheduler_mayReadTask g did tid \<longleftrightarrow>
     map_option consumerDeviceId (TaskStore_get (taskStore g) tid) = Some did
     \<or> (case map_get (taskObserverDeviceIds (hub g)) tid of None \<Rightarrow> False | Some os \<Rightarrow> did \<in> set os)"

fun TaskScheduler_continuesGeneration :: "stage_payload \<Rightarrow> bool" where
  "TaskScheduler_continuesGeneration (Llm p) \<longleftrightarrow> pl_isContinuation p = Some True"
| "TaskScheduler_continuesGeneration (Number _) = False"

section \<open>Placing a stage\<close>

record assign_options =
  excluded :: "device_id list"
  opt_retryReason :: "retry_reason option"
  preferredWorkerDeviceId :: "device_id option"
  isPreviousAssignmentReleased :: bool

definition default_options :: assign_options where
  "default_options = \<lparr>excluded = [], opt_retryReason = None, preferredWorkerDeviceId = None,
     isPreviousAssignmentReleased = False\<rparr>"

text \<open>\<open>preferred ?? (retryReason === undefined ? ... : ...)\<close>\<close>

definition chosen_device :: "device_registry \<Rightarrow> stage_name \<Rightarrow> assign_options \<Rightarrow> device option" where
  "chosen_device reg stage opts =
     (let preferred = Option.bind (preferredWorkerDeviceId opts)
            (\<lambda>w. WorkerPlacement_reusableWorker reg w stage (isPreviousAssignmentReleased opts))
      in coalesce_opt preferred
           (if opt_retryReason opts = None
            then coalesce_opt (DeviceRegistry_findWorker reg stage (excluded opts))
                   (DeviceRegistry_findWorker reg stage [])
            else DeviceRegistry_findWorker reg stage (excluded opts)))"

definition isMisplacedContinuation :: "task \<Rightarrow> stage_name \<Rightarrow> stage_payload \<Rightarrow> device \<Rightarrow> bool" where
  "isMisplacedContinuation existing stage v d \<longleftrightarrow>
     (let holder = Option.bind (stageWorkerDeviceIds existing) (\<lambda>m. map_get m stage)
      in TaskScheduler_continuesGeneration v \<and> holder \<noteq> None \<and> holder \<noteq> Some (deviceId d))"

text \<open>The two early ends of \<open>assign\<close>: an update of the task and a report of it.\<close>

definition update_and_broadcast ::
  "'key env \<Rightarrow> int \<Rightarrow> task_id \<Rightarrow> (task \<Rightarrow> task) \<Rightarrow> gateway \<Rightarrow> gateway" where
  "update_and_broadcast e now tid f g =
     (case TaskStore_update (storeSettings e) now tid f (taskStore g) of
        Inl err \<Rightarrow> g\<lparr>raised := Some (Store_exception err)\<rparr>
      | Inr (_, st) \<Rightarrow> TaskScheduler_broadcastTask e now tid (g\<lparr>taskStore := st\<rparr>))"

definition release_superseded ::
  "'key env \<Rightarrow> int \<Rightarrow> task_id \<Rightarrow> task \<Rightarrow> device \<Rightarrow> retry_reason option \<Rightarrow> gateway \<Rightarrow> gateway" where
  "release_superseded e now tid existing d retry g =
     (case stageAssignment existing of
        None \<Rightarrow> g
      | Some a \<Rightarrow>
          let g1 = DeviceAnnouncer_releaseWorkerAssignment e now (workerDeviceId a) g;
              supersededSocket = (if workerDeviceId a = deviceId d then None
                                  else map_get (socketMap (hub g1)) (workerDeviceId a))
          in (case supersededSocket of
                None \<Rightarrow> g1
              | Some s \<Rightarrow> ConnectionHub_send e now s
                  (Stage_cancel tid (stageAssignmentId a) (attempt a)
                    (coalesce (map_option retry_reason_text retry) ''assignment_superseded''))
                  (ConnectionHub_counterpartFor g1 (workerDeviceId a) None) None g1))"

definition assign_message ::
  "'key env \<Rightarrow> task_id \<Rightarrow> task \<Rightarrow> stage_assignment \<Rightarrow> stage_name \<Rightarrow> stage_payload \<Rightarrow> stage_assign_message" where
  "assign_message e tid existing a stage v =
     \<lparr>sa_taskId = tid, sa_stageAssignmentId = stageAssignmentId a, sa_attempt = attempt a,
      sa_stage = stage,
      sa_computation = coalesce (map_option computation
        (StagePolicyResolver_stageSpecification (pipelineRegistry e) existing stage)) stage,
      sa_stageIndex = coalesce (find_index (\<lambda>s. s = stage) (coalesce (pipelineStages existing) [])) 0,
      sa_value = v, sa_generationSettings = generationSettings (taskInput existing),
      sa_leaseUntil = leaseUntil a\<rparr>"

definition place_stage ::
  "'key env \<Rightarrow> int \<Rightarrow> task_id \<Rightarrow> task \<Rightarrow> stage_payload \<Rightarrow> stage_name \<Rightarrow> assign_options \<Rightarrow> device \<Rightarrow> gateway \<Rightarrow> gateway" where
  "place_stage e now tid existing v stage opts d g =
     (let g1 = release_superseded e now tid existing d (opt_retryReason opts) g;
          leaseMs = policy_leaseMs (StagePolicyResolver_resolve (pipelineRegistry e) (defaultLeaseMs e) existing stage);
          (uuid, g2) = draw_uuid e g1
      in (case TaskStore_assign (storeSettings e) now uuid tid (deviceId d) stage v
                 (opt_retryReason opts) leaseMs (taskStore g2) of
            Inl err \<Rightarrow> g2\<lparr>raised := Some (Store_exception err)\<rparr>
          | Inr (t, st) \<Rightarrow>
              let g3 = DeviceAnnouncer_occupyWorkerAssignment e now (deviceId d) (g2\<lparr>taskStore := st\<rparr>);
                  g4 = (case (map_get (socketMap (hub g3)) (deviceId d), stageAssignment t) of
                      (Some s, Some a) \<Rightarrow>
                        ConnectionHub_send e now s (Stage_assign (assign_message e tid existing a stage v))
                          \<lparr>counterpart_role = (case deviceRole d of Worker \<Rightarrow> As_worker | Consumer \<Rightarrow> As_consumer),
                           counterpart_deviceId = deviceId d\<rparr> None g3
                    | _ \<Rightarrow> g3)
              in TaskScheduler_broadcastTask e now tid g4))"

definition TaskScheduler_assign ::
  "'key env \<Rightarrow> int \<Rightarrow> task_id \<Rightarrow> stage_payload \<Rightarrow> stage_name \<Rightarrow> assign_options \<Rightarrow> gateway \<Rightarrow> gateway" where
  "TaskScheduler_assign e now tid v stage opts g =
     (case TaskStore_get (taskStore g) tid of
        None \<Rightarrow> g
      | Some existing \<Rightarrow>
          if taskState existing = Cancelled \<or> taskState existing = Completed \<or> taskState existing = Failed then g
          else if maximumAttempts e \<le> currentStageAttempts existing then
            update_and_broadcast e now tid
              (\<lambda>t. t\<lparr>taskState := Failed, taskError := Some ''MAX_ATTEMPTS_EXHAUSTED'', stageAssignment := None\<rparr>) g
          else
            (case chosen_device (deviceRegistry g) stage opts of
               None \<Rightarrow> update_and_broadcast e now tid (\<lambda>t. t\<lparr>taskState := Queued, stageAssignment := None\<rparr>) g
             | Some d \<Rightarrow>
                 if isMisplacedContinuation existing stage v d
                 then update_and_broadcast e now tid (\<lambda>t. t\<lparr>taskState := Queued, stageAssignment := None\<rparr>) g
                 else place_stage e now tid existing v stage opts d g))"

section \<open>Sweeps\<close>

text \<open>A loop over a copy of the task list; a \<open>throw\<close> in its body ends it.\<close>

definition for_each :: "(task \<Rightarrow> gateway \<Rightarrow> gateway) \<Rightarrow> task list \<Rightarrow> gateway \<Rightarrow> gateway" where
  "for_each f ts g = foldl (\<lambda>g' t. if raised g' = None then f t g' else g') g ts"

definition schedule_one :: "'key env \<Rightarrow> int \<Rightarrow> task \<Rightarrow> gateway \<Rightarrow> gateway" where
  "schedule_one e now t g =
     (if taskState t \<noteq> Queued then g
      else if submissionDeadlineAt t \<le> now then
        update_and_broadcast e now (taskId t)
          (\<lambda>t. t\<lparr>taskState := Failed, taskError := Some ''SUBMISSION_DEADLINE_EXPIRED''\<rparr>) g
      else
        (case TaskStore_nextStage t of
           None \<Rightarrow> g
         | Some stage \<Rightarrow>
             let policy = StagePolicyResolver_resolve (pipelineRegistry e) (defaultLeaseMs e) t stage;
                 preferred = WorkerPlacement_preferredWorkerDeviceId t stage policy None
             in TaskScheduler_assign e now (taskId t)
                  (coalesce (lastValue t) (StagePayloadFactory_initial (taskInput t))) stage
                  (default_options\<lparr>preferredWorkerDeviceId := preferred,
                     isPreviousAssignmentReleased := True\<rparr>) g))"

definition TaskScheduler_scheduleQueuedTasks :: "'key env \<Rightarrow> int \<Rightarrow> gateway \<Rightarrow> gateway" where
  "TaskScheduler_scheduleQueuedTasks e now g =
     for_each (schedule_one e now) (TaskStore_list (taskStore g)) g"

definition recover_one :: "'key env \<Rightarrow> int \<Rightarrow> task \<Rightarrow> gateway \<Rightarrow> gateway" where
  "recover_one e now t g =
     (case stageAssignment t of
        None \<Rightarrow> g
      | Some a \<Rightarrow>
          if now < leaseUntil a then g
          else
            let policy = StagePolicyResolver_resolve (pipelineRegistry e) (defaultLeaseMs e) t (assignedStage a)
            in if policy_prefersSameWorkerOnRetry policy
               then TaskScheduler_assign e now (taskId t) (assignedValue a) (assignedStage a)
                      (default_options\<lparr>opt_retryReason := Some Lease_expired,
                         preferredWorkerDeviceId := Some (workerDeviceId a)\<rparr>) g
               else TaskScheduler_assign e now (taskId t) (assignedValue a) (assignedStage a)
                      (default_options\<lparr>excluded := [workerDeviceId a],
                         opt_retryReason := Some Lease_expired\<rparr>) g)"

definition TaskScheduler_recoverAssignments :: "'key env \<Rightarrow> int \<Rightarrow> gateway \<Rightarrow> gateway" where
  "TaskScheduler_recoverAssignments e now g =
     for_each (recover_one e now) (TaskStore_list (taskStore g)) g"

definition recover_from :: "'key env \<Rightarrow> int \<Rightarrow> device_id \<Rightarrow> task \<Rightarrow> gateway \<Rightarrow> gateway" where
  "recover_from e now did t g =
     (case stageAssignment t of
        None \<Rightarrow> g
      | Some a \<Rightarrow>
          if workerDeviceId a = did
          then TaskScheduler_assign e now (taskId t) (assignedValue a) (assignedStage a)
                 (default_options\<lparr>excluded := [did], opt_retryReason := Some Worker_disconnected\<rparr>) g
          else g)"

definition TaskScheduler_recoverWorkerAssignments ::
  "'key env \<Rightarrow> int \<Rightarrow> device_id \<Rightarrow> gateway \<Rightarrow> gateway" where
  "TaskScheduler_recoverWorkerAssignments e now did g =
     for_each (recover_from e now did) (TaskStore_list (taskStore g)) g"

section \<open>What the scheduler leaves alone\<close>

definition same_rest :: "gateway \<Rightarrow> gateway \<Rightarrow> bool" where
  "same_rest g g' \<longleftrightarrow> hub g' = hub g \<and> sessionRegistry g' = sessionRegistry g
     \<and> challengeRegistry g' = challengeRegistry g \<and> accountRegistry g' = accountRegistry g
     \<and> ledgerStore g' = ledgerStore g \<and> rateLimiter g' = rateLimiter g \<and> pending g' = pending g
     \<and> raised g' = raised g \<and> world_le (world g) (world g')"

lemma same_rest_refl [simp, intro]: "same_rest g g"
  by (simp add: same_rest_def)

lemma same_rest_trans: "same_rest g h \<Longrightarrow> same_rest h k \<Longrightarrow> same_rest g k"
  unfolding same_rest_def by (auto intro: world_le_trans)

lemma same_core_rest: "same_core g g' \<Longrightarrow> same_rest g g'"
  by (simp add: same_core_def same_rest_def)

lemma same_rest_fields:
  assumes "same_rest g g'"
  shows "hub g' = hub g" "sessionRegistry g' = sessionRegistry g"
    "challengeRegistry g' = challengeRegistry g" "accountRegistry g' = accountRegistry g"
    "ledgerStore g' = ledgerStore g" "rateLimiter g' = rateLimiter g" "pending g' = pending g"
    "raised g' = raised g" "world_le (world g) (world g')" "nonce (world g) \<le> nonce (world g')"
  using assms by (simp_all add: same_rest_def world_le_def)

lemma broadcast_only_sends [simp, intro]: "only_sends g (TaskScheduler_broadcastTask e now tid g)"
proof (cases "TaskStore_get (taskStore g) tid")
  case None
  then show ?thesis by (simp add: TaskScheduler_broadcastTask_def)
next
  case (Some t)
  then show ?thesis
    unfolding TaskScheduler_broadcastTask_def Some option.case Let_def
    by (intro foldl_only_sends) (auto split: option.split)
qed

lemmas broadcast_frame [simp, frame_simps] = only_sends_fields [OF broadcast_only_sends]

lemma release_superseded_core [simp, intro]: "same_core g (release_superseded e now tid t d r g)"
proof (cases "stageAssignment t")
  case None
  then show ?thesis by (simp add: release_superseded_def)
next
  case (Some a)
  show ?thesis
    unfolding release_superseded_def Some option.case Let_def
    by (auto split: option.split
        intro: same_core_trans [OF release_same_core only_sends_same_core [OF send_only_sends]])
qed

lemmas release_superseded_frame [simp, frame_simps] = same_core_fields [OF release_superseded_core]

lemma wf_release_superseded [simp, intro]:
  "wf_devices (deviceRegistry g) \<Longrightarrow> wf_devices (deviceRegistry (release_superseded e now tid t d r g))"
  by (auto simp: release_superseded_def Let_def split: option.split)

lemma draw_uuid_eqs [simp]:
  "fst (draw_uuid e g) = randomUUID e (nonce (world g))"
  "taskStore (snd (draw_uuid e g)) = taskStore g" "deviceRegistry (snd (draw_uuid e g)) = deviceRegistry g"
  "hub (snd (draw_uuid e g)) = hub g" "raised (snd (draw_uuid e g)) = raised g"
  "nonce (world (snd (draw_uuid e g))) = Suc (nonce (world g))"
  "same_core g (snd (draw_uuid e g))"
  by (simp_all add: draw_uuid_def same_core_def world_le_def)

section \<open>One call of the scheduler is one move of the task\<close>

text \<open>The identifiers a task has used were drawn from the platform before.\<close>

definition ids_drawn :: "'key env \<Rightarrow> nat \<Rightarrow> task \<Rightarrow> bool" where
  "ids_drawn e n t \<longleftrightarrow> (\<forall>i \<in> set (attempt_ids t). \<exists>k < n. i = ''stageAssignment-'' @ randomUUID e k)"

lemma undrawn:
  fixes f :: "nat \<Rightarrow> string"
  assumes "inj f" and "\<forall>i \<in> S. \<exists>k < n. i = p @ f k" and "n \<le> m"
  shows "p @ f m \<notin> S"
proof
  assume "p @ f m \<in> S"
  with assms(2) obtain k where "k < n" "f m = f k" by auto
  with assms(1,3) show False by (auto dest: injD)
qed

lemma ids_drawn_mono: "ids_drawn e n t \<Longrightarrow> n \<le> m \<Longrightarrow> ids_drawn e m t"
  unfolding ids_drawn_def by (meson order_less_le_trans)

lemma ids_drawn_same: "attempt_ids u = attempt_ids t \<Longrightarrow> ids_drawn e n u = ids_drawn e n t"
  by (simp add: ids_drawn_def)

text \<open>What a step on one task of the store amounts to: the task replaced, the index and the rest kept.\<close>

definition task_replaced :: "'key env \<Rightarrow> gateway \<Rightarrow> gateway \<Rightarrow> task_id \<Rightarrow> task \<Rightarrow> bool" where
  "task_replaced e g g' tid t' \<longleftrightarrow>
     tasks (taskStore g') = map_set (tasks (taskStore g)) tid t'
     \<and> taskIdByConsumerTaskRequest (taskStore g') = taskIdByConsumerTaskRequest (taskStore g)
     \<and> durable (storeSettings e) (taskStore g')"

lemma update_and_broadcast_replaces:
  assumes "map_get (tasks (taskStore g)) tid = Some t"
  shows "task_replaced e g (update_and_broadcast e now tid f g) tid (updated_task now f t)
    \<and> same_rest g (update_and_broadcast e now tid f g)
    \<and> deviceRegistry (update_and_broadcast e now tid f g) = deviceRegistry g"
proof -
  obtain st where st: "TaskStore_update (storeSettings e) now tid f (taskStore g)
      = Inr (updated_task now f t, st)" "tasks st = map_set (tasks (taskStore g)) tid (updated_task now f t)"
    "taskIdByConsumerTaskRequest st = taskIdByConsumerTaskRequest (taskStore g)"
    using update_found [OF assms] by metis
  have "same_rest g (g\<lparr>taskStore := st\<rparr>)" by (simp add: same_rest_def)
  then have "same_rest g (TaskScheduler_broadcastTask e now tid (g\<lparr>taskStore := st\<rparr>))"
    by (rule same_rest_trans) (intro same_core_rest only_sends_same_core broadcast_only_sends)
  with st durable_update [OF st(1)] show ?thesis
    by (simp add: update_and_broadcast_def task_replaced_def)
qed

lemma place_stage_replaces:
  assumes "map_get (tasks (taskStore g)) tid = Some t" and "wf_devices (deviceRegistry g)"
  shows "\<exists>n. nonce (world g) \<le> n \<and> n < nonce (world (place_stage e now tid t v stage opts d g))
    \<and> task_replaced e g (place_stage e now tid t v stage opts d g) tid (updated_task now (with_assignment now
        (new_assignment now (randomUUID e n) t (deviceId d) stage v (opt_retryReason opts)
          (policy_leaseMs (StagePolicyResolver_resolve (pipelineRegistry e) (defaultLeaseMs e) t stage)))) t)
    \<and> same_rest g (place_stage e now tid t v stage opts d g)
    \<and> wf_devices (deviceRegistry (place_stage e now tid t v stage opts d g))"
proof -
  define g1 where "g1 = release_superseded e now tid t d (opt_retryReason opts) g"
  define lease where "lease =
    policy_leaseMs (StagePolicyResolver_resolve (pipelineRegistry e) (defaultLeaseMs e) t stage)"
  define n where "n = nonce (world g1)"
  define g2 where "g2 = snd (draw_uuid e g1)"
  define t' where "t' = updated_task now (with_assignment now
    (new_assignment now (randomUUID e n) t (deviceId d) stage v (opt_retryReason opts) lease)) t"
  have found: "map_get (tasks (taskStore g2)) tid = Some t" using assms(1) by (simp add: g2_def g1_def)
  obtain st where st: "TaskStore_assign (storeSettings e) now (randomUUID e n) tid (deviceId d) stage v
        (opt_retryReason opts) lease (taskStore g2) = Inr (t', st)"
      "tasks st = map_set (tasks (taskStore g2)) tid t'"
      "taskIdByConsumerTaskRequest st = taskIdByConsumerTaskRequest (taskStore g2)"
    using update_found [OF found] unfolding assign_found [OF found] t'_def by metis
  define g3 where "g3 = DeviceAnnouncer_occupyWorkerAssignment e now (deviceId d) (g2\<lparr>taskStore := st\<rparr>)"
  define g4 where "g4 = (case (map_get (socketMap (hub g3)) (deviceId d), stageAssignment t') of
      (Some s, Some a) \<Rightarrow> ConnectionHub_send e now s (Stage_assign (assign_message e tid t a stage v))
          \<lparr>counterpart_role = (case deviceRole d of Worker \<Rightarrow> As_worker | Consumer \<Rightarrow> As_consumer),
           counterpart_deviceId = deviceId d\<rparr> None g3
    | _ \<Rightarrow> g3)"
  have placed: "place_stage e now tid t v stage opts d g = TaskScheduler_broadcastTask e now tid g4"
    unfolding place_stage_def g1_def [symmetric] lease_def [symmetric] Let_def case_prod_beta
      draw_uuid_eqs(1) n_def [symmetric] g2_def [symmetric] st(1) sum.case prod.case fst_conv snd_conv
      g3_def [symmetric] by (simp add: g4_def)
  have s4: "only_sends g3 g4" unfolding g4_def by (auto split: option.split)
  have r1: "same_rest g g1" unfolding g1_def by (intro same_core_rest release_superseded_core)
  have r2: "same_rest g1 g2" unfolding g2_def by (intro same_core_rest draw_uuid_eqs)
  have r3: "same_rest (g2\<lparr>taskStore := st\<rparr>) g3" unfolding g3_def by (intro same_core_rest occupy_same_core)
  have "same_rest g2 (g2\<lparr>taskStore := st\<rparr>)" by (simp add: same_rest_def)
  note r3' = same_rest_trans [OF this r3]
  have r5: "same_rest g3 (TaskScheduler_broadcastTask e now tid g4)"
    by (rule same_rest_trans [OF same_core_rest [OF only_sends_same_core [OF s4]]])
      (intro same_core_rest only_sends_same_core broadcast_only_sends)
  have rest: "same_rest g (place_stage e now tid t v stage opts d g)" unfolding placed
    by (rule same_rest_trans [OF r1 same_rest_trans [OF r2 same_rest_trans [OF r3' r5]]])
  have store: "taskStore (place_stage e now tid t v stage opts d g) = st"
    unfolding placed by (simp add: only_sends_fields [OF s4]) (simp add: g3_def)
  have "task_replaced e g (place_stage e now tid t v stage opts d g) tid t'"
    unfolding task_replaced_def store using st durable_assign [OF st(1)] by (simp add: g2_def g1_def)
  moreover have "wf_devices (deviceRegistry (place_stage e now tid t v stage opts d g))"
    unfolding placed using assms(2)
    by (simp add: only_sends_fields [OF s4]) (simp add: g3_def g2_def g1_def)
  moreover have "nonce (world g) \<le> n" unfolding n_def by (rule same_rest_fields [OF r1])
  moreover have "n < nonce (world (place_stage e now tid t v stage opts d g))"
    using same_rest_fields(10) [OF same_rest_trans [OF r3' r5]] unfolding placed
    by (simp add: g2_def n_def)
  ultimately show ?thesis using rest unfolding t'_def lease_def by blast
qed

lemma assign_finished:
  assumes "map_get (tasks (taskStore g)) tid = Some t" and "isFinished (taskState t)"
  shows "TaskScheduler_assign e now tid v stage opts g = g"
  using assms by (auto simp: TaskScheduler_assign_def TaskStore_get_def isFinished_def)

lemma assign_cases:
  assumes "map_get (tasks (taskStore g)) tid = Some t" and "\<not> isFinished (taskState t)"
  shows "TaskScheduler_assign e now tid v stage opts g =
    (if maximumAttempts e \<le> currentStageAttempts t
     then update_and_broadcast e now tid (fail_with ''MAX_ATTEMPTS_EXHAUSTED'') g
     else if list_ex (\<lambda>d. \<not> isMisplacedContinuation t stage v d)
       (case chosen_device (deviceRegistry g) stage opts of None \<Rightarrow> [] | Some d \<Rightarrow> [d])
     then place_stage e now tid t v stage opts (the (chosen_device (deviceRegistry g) stage opts)) g
     else update_and_broadcast e now tid requeue g)"
proof -
  have f: "(\<lambda>t. t\<lparr>taskState := Failed, taskError := Some ''MAX_ATTEMPTS_EXHAUSTED'', stageAssignment := None\<rparr>)
      = fail_with ''MAX_ATTEMPTS_EXHAUSTED''" by (simp add: fail_with_def fun_eq_iff)
  have r: "(\<lambda>t. t\<lparr>taskState := Queued, stageAssignment := None\<rparr>) = requeue"
    by (simp add: requeue_def fun_eq_iff)
  show ?thesis
    unfolding TaskScheduler_assign_def f r
    using assms by (auto simp: TaskStore_get_def isFinished_def split: option.split)
qed

lemma assign_moves:
  assumes t: "map_get (tasks (taskStore g)) tid = Some t" and wf: "wf_devices (deviceRegistry g)"
    and inj: "inj (randomUUID e)" and drawn: "ids_drawn e (nonce (world g)) t"
    and "\<not> isFinished (taskState t)" and "TaskStore_nextStage t = Some stage" and "v = next_value t"
  shows "\<exists>t'. task_move (maximumAttempts e) t t'
    \<and> task_replaced e g (TaskScheduler_assign e now tid v stage opts g) tid t'
    \<and> same_rest g (TaskScheduler_assign e now tid v stage opts g)
    \<and> wf_devices (deviceRegistry (TaskScheduler_assign e now tid v stage opts g))
    \<and> ids_drawn e (nonce (world (TaskScheduler_assign e now tid v stage opts g))) t'"
    (is "\<exists>t'. ?P (TaskScheduler_assign e now tid v stage opts g) t'")
proof -
  have upd: "?P (update_and_broadcast e now tid f g) (updated_task now f t)"
    if "task_move (maximumAttempts e) t (updated_task now f t)"
      "attempt_ids (updated_task now f t) = attempt_ids t" for f
    using update_and_broadcast_replaces [OF t, of e now f] that wf
      ids_drawn_mono [OF drawn] ids_drawn_same [OF that(2), of e]
    by (auto dest: same_rest_fields(10))
  show ?thesis
  proof (cases "maximumAttempts e \<le> currentStageAttempts t")
    case True
    then have "TaskScheduler_assign e now tid v stage opts g =
        update_and_broadcast e now tid (fail_with ''MAX_ATTEMPTS_EXHAUSTED'') g"
      by (simp add: assign_cases [OF t assms(5)])
    with upd [OF task_move.exhausted [OF assms(5) True] attempt_ids_changes(2)] show ?thesis by metis
  next
    case False
    consider (none) "TaskScheduler_assign e now tid v stage opts g = update_and_broadcast e now tid requeue g"
      | (some) d where "TaskScheduler_assign e now tid v stage opts g = place_stage e now tid t v stage opts d g"
      using assign_cases [OF t assms(5), of e now v stage opts] False by (auto split: if_splits)
    then show ?thesis
    proof cases
      case none
      with upd [OF task_move.requeued [OF assms(5)] attempt_ids_changes(1)] show ?thesis by metis
    next
      case (some d)
      from place_stage_replaces [OF t wf, of e now v stage opts d]
      obtain n lease where n: "nonce (world g) \<le> n" "n < nonce (world (place_stage e now tid t v stage opts d g))"
        and p: "task_replaced e g (place_stage e now tid t v stage opts d g) tid (updated_task now (with_assignment now
          (new_assignment now (randomUUID e n) t (deviceId d) stage v (opt_retryReason opts) lease)) t)"
          "same_rest g (place_stage e now tid t v stage opts d g)"
          "wf_devices (deviceRegistry (place_stage e now tid t v stage opts d g))" by blast
      have new: "''stageAssignment-'' @ randomUUID e n \<notin> set (attempt_ids t)"
        using undrawn [OF inj drawn [unfolded ids_drawn_def] n(1)] .
      let ?b = "new_assignment now (randomUUID e n) t (deviceId d) stage v (opt_retryReason opts) lease"
      have "stageAssignmentId ?b = ''stageAssignment-'' @ randomUUID e n" by (simp add: new_assignment_def)
      then have "ids_drawn e (nonce (world (place_stage e now tid t v stage opts d g)))
          (updated_task now (with_assignment now ?b) t)"
        using ids_drawn_mono [OF drawn same_rest_fields(10) [OF p(2)]] n(2)
        unfolding ids_drawn_def attempt_ids_changes by auto
      moreover have "task_move (maximumAttempts e) t (updated_task now (with_assignment now ?b) t)"
        by (rule task_move.placed) (use False assms(5-7) new in auto)
      ultimately show ?thesis using some p by metis
    qed
  qed
qed

text \<open>What \<open>assign\<close> made of a task that is not finished, and why.\<close>

lemma assign_outcome:
  assumes t: "map_get (tasks (taskStore g)) tid = Some t" and wf: "wf_devices (deviceRegistry g)"
    and "\<not> isFinished (taskState t)"
  obtains (exhausted) "maximumAttempts e \<le> currentStageAttempts t"
      "task_replaced e g (TaskScheduler_assign e now tid v stage opts g) tid
        (updated_task now (fail_with ''MAX_ATTEMPTS_EXHAUSTED'') t)"
    | (requeued) "currentStageAttempts t < maximumAttempts e"
      "\<And>d. chosen_device (deviceRegistry g) stage opts = Some d \<Longrightarrow> isMisplacedContinuation t stage v d"
      "task_replaced e g (TaskScheduler_assign e now tid v stage opts g) tid (updated_task now requeue t)"
    | (placed) d n where "currentStageAttempts t < maximumAttempts e"
      "chosen_device (deviceRegistry g) stage opts = Some d" "\<not> isMisplacedContinuation t stage v d"
      "task_replaced e g (TaskScheduler_assign e now tid v stage opts g) tid (updated_task now (with_assignment now
        (new_assignment now (randomUUID e n) t (deviceId d) stage v (opt_retryReason opts)
          (policy_leaseMs (StagePolicyResolver_resolve (pipelineRegistry e) (defaultLeaseMs e) t stage)))) t)"
proof (cases "maximumAttempts e \<le> currentStageAttempts t")
  case True
  then show ?thesis
    by (intro exhausted) (simp_all add: assign_cases [OF t assms(3)] update_and_broadcast_replaces [OF t])
next
  case low: False
  show ?thesis
  proof (cases "\<exists>d. chosen_device (deviceRegistry g) stage opts = Some d \<and> \<not> isMisplacedContinuation t stage v d")
    case True
    then obtain d where d: "chosen_device (deviceRegistry g) stage opts = Some d" "\<not> isMisplacedContinuation t stage v d"
      by blast
    then have "TaskScheduler_assign e now tid v stage opts g = place_stage e now tid t v stage opts d g"
      using low by (simp add: assign_cases [OF t assms(3)])
    with place_stage_replaces [OF t wf, of e now v stage opts d] low d show ?thesis by (auto intro: placed)
  next
    case False
    then have "TaskScheduler_assign e now tid v stage opts g = update_and_broadcast e now tid requeue g"
      using low by (auto simp: assign_cases [OF t assms(3)] split: option.split)
    with update_and_broadcast_replaces [OF t, of e now requeue] low False show ?thesis
      by (intro requeued) auto
  qed
qed

lemma chosen_device_sound:
  assumes wf: "wf_devices reg" and "chosen_device reg stage opts = Some d"
  shows "DeviceRegistry_get reg (deviceId d) = Some d \<and> takes_work stage d
    \<and> (preferredWorkerDeviceId opts = Some (deviceId d)
       \<or> has_room d \<and> (opt_retryReason opts \<noteq> None \<longrightarrow> deviceId d \<notin> set (excluded opts)))"
proof -
  consider (preferred) w where "preferredWorkerDeviceId opts = Some w"
      "WorkerPlacement_reusableWorker reg w stage (isPreviousAssignmentReleased opts) = Some d"
    | (fresh) "opt_retryReason opts = None"
      "coalesce_opt (DeviceRegistry_findWorker reg stage (excluded opts)) (DeviceRegistry_findWorker reg stage []) = Some d"
    | (retry) "opt_retryReason opts \<noteq> None" "DeviceRegistry_findWorker reg stage (excluded opts) = Some d"
    using assms(2) unfolding chosen_device_def Let_def
    by (cases "Option.bind (preferredWorkerDeviceId opts)
         (\<lambda>w. WorkerPlacement_reusableWorker reg w stage (isPreviousAssignmentReleased opts))")
      (auto split: if_splits bind_splits)
  then show ?thesis
  proof cases
    case preferred
    then show ?thesis using pool.lookup_id [OF wf] by (auto simp: reusable_iff)
  next
    case fresh
    then show ?thesis using pool.fallback_sound [OF wf fresh(2)] by auto
  next
    case retry
    then show ?thesis using pool.search_sound [OF wf retry(2)] by auto
  qed
qed

section \<open>Steps that refine the machine of the store\<close>

definition core_inv :: "'key env \<Rightarrow> gateway \<Rightarrow> bool" where
  "core_inv e g \<longleftrightarrow> store_inv (storeSettings e) (maximumAttempts e) (maximumTasksPerPrincipal e) (taskStore g)
     \<and> wf_devices (deviceRegistry g) \<and> raised g = None
     \<and> (\<forall>tid t. map_get (tasks (taskStore g)) tid = Some t \<longrightarrow>
          ids_drawn e (nonce (world g)) t \<and> (\<exists>k < nonce (world g). tid = ''task-'' @ randomUUID e k))"

text \<open>
  A step of the gateway that changes the store by a run of the machine, with labels from \<open>A\<close> only, and
  keeps the invariant.
\<close>

definition refines :: "store_label set \<Rightarrow> 'key env \<Rightarrow> gateway \<Rightarrow> gateway \<Rightarrow> bool" where
  "refines A e g g' \<longleftrightarrow> core_inv e g' \<and> nonce (world g) \<le> nonce (world g')
     \<and> (\<exists>ls. run (store_step (storeSettings e) (maximumAttempts e) (maximumTasksPerPrincipal e))
           (taskStore g) ls (taskStore g') \<and> set ls \<subseteq> A)"

definition moves :: "store_label set" where
  "moves = {Changed tid Moved | tid. True}"

lemma refines_core: "refines A e g g' \<Longrightarrow> core_inv e g'"
  by (simp add: refines_def)

lemma refinesI:
  assumes "core_inv e g'" and "nonce (world g) \<le> nonce (world g')" and "set ls \<subseteq> A"
    and "run (store_step (storeSettings e) (maximumAttempts e) (maximumTasksPerPrincipal e))
      (taskStore g) ls (taskStore g')"
  shows "refines A e g g'"
  using assms unfolding refines_def by blast

lemma refines_refl: "core_inv e g \<Longrightarrow> refines A e g g"
  by (rule refinesI [where ls = "[]"]) (simp_all add: run_nil)

lemma refines_mono: "refines A e g g' \<Longrightarrow> A \<subseteq> B \<Longrightarrow> refines B e g g'"
  unfolding refines_def by blast

lemma refines_trans: "refines A e g h \<Longrightarrow> refines A e h k \<Longrightarrow> refines A e g k"
proof -
  let ?step = "store_step (storeSettings e) (maximumAttempts e) (maximumTasksPerPrincipal e)"
  assume a: "refines A e g h" and b: "refines A e h k"
  then obtain ls ls' where ls: "run ?step (taskStore g) ls (taskStore h)" "set ls \<subseteq> A"
    "run ?step (taskStore h) ls' (taskStore k)" "set ls' \<subseteq> A" unfolding refines_def by blast
  show "refines A e g k"
    by (rule refinesI [OF _ _ _ run_append [OF ls(1,3)]]) (use a b ls in \<open>auto simp: refines_def\<close>)
qed

lemma refines_same_store:
  assumes "core_inv e g" and "taskStore g' = taskStore g" and "wf_devices (deviceRegistry g')"
    and "raised g' = None" and "nonce (world g) \<le> nonce (world g')"
  shows "refines A e g g'"
proof -
  have "core_inv e g'"
    using assms unfolding core_inv_def by (metis ids_drawn_mono order_less_le_trans)
  with assms(2,5) show ?thesis by (intro refinesI [where ls = "[]"]) (simp_all add: run_nil)
qed

lemma refines_same_core:
  assumes "core_inv e g" and "same_core g g'" and "wf_devices (deviceRegistry g')"
  shows "refines A e g g'"
  by (rule refines_same_store [OF assms(1)])
    (use assms same_core_fields [OF assms(2)] in \<open>simp_all add: core_inv_def\<close>)

lemma refines_only_sends: "core_inv e g \<Longrightarrow> only_sends g g' \<Longrightarrow> refines A e g g'"
  by (rule refines_same_core)
    (simp_all add: only_sends_same_core only_sends_fields core_inv_def)

lemma core_task:
  assumes "core_inv e g" and "map_get (tasks (taskStore g)) tid = Some t"
  shows "taskId t = tid" "task_inv (maximumAttempts e) t" "ids_drawn e (nonce (world g)) t"
  using assms by (auto simp: core_inv_def store_inv_def)

lemma refines_replaced:
  assumes inv: "core_inv e g" and t: "map_get (tasks (taskStore g)) tid = Some t"
    and step: "task_step (maximumAttempts e) t l t'" and rep: "task_replaced e g g' tid t'"
    and wf: "wf_devices (deviceRegistry g')" and raised: "raised g' = None"
    and nonce: "nonce (world g) \<le> nonce (world g')" and drawn: "ids_drawn e (nonce (world g')) t'"
    and label: "Changed tid l \<in> A"
  shows "refines A e g g'"
proof -
  let ?cfg = "storeSettings e" and ?M = "maximumAttempts e" and ?L = "maximumTasksPerPrincipal e"
  have s: "store_step ?cfg ?M ?L (taskStore g) (Changed tid l) (taskStore g')"
    by (rule store_step.changed [OF t step]) (use rep in \<open>simp_all add: task_replaced_def\<close>)
  have "store_inv ?cfg ?M ?L (taskStore g')"
    by (rule store_step_inv [OF s]) (use inv in \<open>simp add: core_inv_def\<close>)
  moreover have "ids_drawn e (nonce (world g')) u \<and> (\<exists>k < nonce (world g'). tid' = ''task-'' @ randomUUID e k)"
    if u: "map_get (tasks (taskStore g')) tid' = Some u" for tid' u
  proof -
    obtain old where old: "map_get (tasks (taskStore g)) tid' = Some old"
      using u t rep by (auto simp: task_replaced_def split: if_splits)
    with inv nonce have "\<exists>k < nonce (world g'). tid' = ''task-'' @ randomUUID e k"
      unfolding core_inv_def by (meson order_less_le_trans)
    moreover have "ids_drawn e (nonce (world g')) u"
    proof (cases "tid' = tid")
      case True
      with u rep drawn show ?thesis by (simp add: task_replaced_def)
    next
      case False
      with u old rep have "u = old" by (simp add: task_replaced_def)
      then show ?thesis using ids_drawn_mono [OF core_task(3) [OF inv old] nonce] by simp
    qed
    ultimately show ?thesis by blast
  qed
  ultimately have "core_inv e g'" using wf raised by (simp add: core_inv_def)
  moreover have "\<exists>ls. run (store_step ?cfg ?M ?L) (taskStore g) ls (taskStore g') \<and> set ls \<subseteq> A"
    using run_single [of "store_step _ _ _", OF s] label by fastforce
  ultimately show ?thesis using nonce by (simp add: refines_def)
qed

section \<open>The scheduler's operations refine the machine\<close>

text \<open>A step on the task \<open>tid\<close> only: it refines, leaves every other task and every other part alone.\<close>

definition step_on :: "'key env \<Rightarrow> task_id \<Rightarrow> gateway \<Rightarrow> gateway \<Rightarrow> bool" where
  "step_on e tid g g' \<longleftrightarrow> refines {Changed tid Moved} e g g' \<and> same_rest g g'
     \<and> (\<forall>tid'. tid' \<noteq> tid \<longrightarrow> map_get (tasks (taskStore g')) tid' = map_get (tasks (taskStore g)) tid')"

lemma step_on_refl: "core_inv e g \<Longrightarrow> step_on e tid g g"
  by (simp add: step_on_def refines_refl)

lemma assign_step_on:
  assumes inv: "core_inv e g" and inj: "inj (randomUUID e)"
    and t: "map_get (tasks (taskStore g)) tid = Some t"
    and "\<not> isFinished (taskState t) \<Longrightarrow> TaskStore_nextStage t = Some stage \<and> v = next_value t"
  shows "step_on e tid g (TaskScheduler_assign e now tid v stage opts g)"
proof (cases "isFinished (taskState t)")
  case True
  then show ?thesis by (simp add: assign_finished [OF t] step_on_refl [OF inv])
next
  case False
  have wf: "wf_devices (deviceRegistry g)" using inv by (simp add: core_inv_def)
  from assign_moves [OF t wf inj core_task(3) [OF inv t] False, of stage v now opts] assms(4) [OF False]
  obtain t' where t': "task_move (maximumAttempts e) t t'"
    "task_replaced e g (TaskScheduler_assign e now tid v stage opts g) tid t'"
    "same_rest g (TaskScheduler_assign e now tid v stage opts g)"
    "wf_devices (deviceRegistry (TaskScheduler_assign e now tid v stage opts g))"
    "ids_drawn e (nonce (world (TaskScheduler_assign e now tid v stage opts g))) t'" by blast
  have "refines {Changed tid Moved} e g (TaskScheduler_assign e now tid v stage opts g)"
    by (rule refines_replaced [OF inv t task_step.moved [OF t'(1)] t'(2,4)])
      (use inv t' same_rest_fields [OF t'(3)] in \<open>simp_all add: core_inv_def\<close>)
  with t' show ?thesis by (simp add: step_on_def task_replaced_def)
qed

lemma retry_step_on:
  assumes "core_inv e g" and "inj (randomUUID e)" and t: "map_get (tasks (taskStore g)) tid = Some t"
    and a: "stageAssignment t = Some a"
  shows "step_on e tid g (TaskScheduler_assign e now tid (assignedValue a) (assignedStage a) opts g)"
  by (rule assign_step_on [OF assms(1-3)])
    (use core_task(2) [OF assms(1) t] a in \<open>auto simp: task_inv_def assignment_matches_def\<close>)

lemma fail_queued_step_on:
  assumes inv: "core_inv e g" and t: "map_get (tasks (taskStore g)) tid = Some t"
    and q: "taskState t = Queued" and deadline: "submissionDeadlineAt t \<le> now"
  shows "step_on e tid g (update_and_broadcast e now tid
    (\<lambda>t. t\<lparr>taskState := Failed, taskError := Some ''SUBMISSION_DEADLINE_EXPIRED''\<rparr>) g)"
proof -
  have none: "stageAssignment t = None" using core_task(2) [OF inv t] q by (auto simp: task_inv_def)
  have eq: "updated_task now (\<lambda>t. t\<lparr>taskState := Failed, taskError := Some ''SUBMISSION_DEADLINE_EXPIRED''\<rparr>) t
      = updated_task now (fail_with ''SUBMISSION_DEADLINE_EXPIRED'') t" using none by (simp add: updated_task_def fail_with_def)
  have mv: "task_step (maximumAttempts e) t Moved (updated_task now (fail_with ''SUBMISSION_DEADLINE_EXPIRED'') t)"
    by (intro task_step.moved task_move.expired q deadline)
  let ?g = "update_and_broadcast e now tid (\<lambda>t. t\<lparr>taskState := Failed, taskError := Some ''SUBMISSION_DEADLINE_EXPIRED''\<rparr>) g"
  have u: "task_replaced e g ?g tid (updated_task now (fail_with ''SUBMISSION_DEADLINE_EXPIRED'') t)"
    "same_rest g ?g" "deviceRegistry ?g = deviceRegistry g"
    using update_and_broadcast_replaces [OF t, of e now "\<lambda>t. t\<lparr>taskState := Failed, taskError := Some ''SUBMISSION_DEADLINE_EXPIRED''\<rparr>"]
    unfolding eq by auto
  have "ids_drawn e (nonce (world ?g)) (updated_task now (fail_with ''SUBMISSION_DEADLINE_EXPIRED'') t)"
    using ids_drawn_mono [OF core_task(3) [OF inv t] same_rest_fields(10) [OF u(2)]]
    by (simp add: ids_drawn_def)
  then have "refines {Changed tid Moved} e g ?g"
    using refines_replaced [OF inv t mv u(1)] inv u(3) same_rest_fields [OF u(2)]
    by (simp add: core_inv_def)
  with u show ?thesis by (simp add: step_on_def task_replaced_def)
qed

lemma schedule_one_step_on:
  assumes "core_inv e g" and "inj (randomUUID e)" and "map_get (tasks (taskStore g)) (taskId t) = Some t"
  shows "step_on e (taskId t) g (schedule_one e now t g)"
  using step_on_refl [OF assms(1)] fail_queued_step_on [OF assms(1,3)]
  by (auto simp: schedule_one_def Let_def next_value_def split: option.split
      intro!: assign_step_on [OF assms])

lemma recover_one_step_on:
  assumes "core_inv e g" and "inj (randomUUID e)" and "map_get (tasks (taskStore g)) (taskId t) = Some t"
  shows "step_on e (taskId t) g (recover_one e now t g)"
  using step_on_refl [OF assms(1)] retry_step_on [OF assms]
  by (auto simp: recover_one_def Let_def split: option.split)

lemma recover_from_step_on:
  assumes "core_inv e g" and "inj (randomUUID e)" and "map_get (tasks (taskStore g)) (taskId t) = Some t"
  shows "step_on e (taskId t) g (recover_from e now did t g)"
  using step_on_refl [OF assms(1)] retry_step_on [OF assms]
  by (auto simp: recover_from_def split: option.split)

text \<open>
  A sweep works through a copy of the task list. Each step changes its own task only, so the copy of a task
  not yet reached is still the stored task.
\<close>

lemma moves_label: "{Changed tid Moved} \<subseteq> moves"
  by (simp add: moves_def)

lemma for_each_refines:
  assumes step: "\<And>g t. core_inv e g \<Longrightarrow> map_get (tasks (taskStore g)) (taskId t) = Some t \<Longrightarrow>
      step_on e (taskId t) g (f t g)"
    and "core_inv e g" and "distinct (map taskId ts)"
    and "\<forall>t \<in> set ts. map_get (tasks (taskStore g)) (taskId t) = Some t"
  shows "refines moves e g (for_each f ts g) \<and> same_rest g (for_each f ts g)"
  using assms(2-4)
proof (induction ts arbitrary: g)
  case Nil
  then show ?case by (simp add: for_each_def refines_refl)
next
  case (Cons t ts)
  have on: "step_on e (taskId t) g (f t g)" using step Cons.prems by simp
  have raised: "raised g = None" using Cons.prems(1) by (simp add: core_inv_def)
  have inv: "core_inv e (f t g)" using on by (auto simp: step_on_def refines_core)
  have "\<forall>u \<in> set ts. map_get (tasks (taskStore (f t g))) (taskId u) = Some u"
    using on Cons.prems by (auto simp: step_on_def image_iff)
  with Cons.IH [OF inv] Cons.prems(2)
  have "refines moves e (f t g) (for_each f ts (f t g)) \<and> same_rest (f t g) (for_each f ts (f t g))" by simp
  with on have "refines moves e g (for_each f ts (f t g)) \<and> same_rest g (for_each f ts (f t g))"
    unfolding step_on_def by (blast intro: refines_trans same_rest_trans refines_mono [OF _ moves_label])
  then show ?case using raised by (simp add: for_each_def)
qed

lemma stored_tasks:
  assumes "core_inv e g"
  shows "distinct (map taskId (TaskStore_list (taskStore g)))"
    "\<forall>t \<in> set (TaskStore_list (taskStore g)). map_get (tasks (taskStore g)) (taskId t) = Some t"
proof -
  have wf: "wf_map (tasks (taskStore g))"
    and id: "\<And>tid t. map_get (tasks (taskStore g)) tid = Some t \<Longrightarrow> taskId t = tid"
    using assms by (auto simp: core_inv_def store_inv_def)
  show "\<forall>t \<in> set (TaskStore_list (taskStore g)). map_get (tasks (taskStore g)) (taskId t) = Some t"
    using wf_map_values [OF wf] id by (metis TaskStore_list_def)
  have "map fst (tasks (taskStore g)) = map taskId (TaskStore_list (taskStore g))"
    using id wf by (auto simp: TaskStore_list_def map_of_eq_Some_iff)
  then show "distinct (map taskId (TaskStore_list (taskStore g)))" using wf by metis
qed

lemma sweeps_refine:
  assumes "core_inv e g" and "inj (randomUUID e)"
  shows "refines moves e g (TaskScheduler_scheduleQueuedTasks e now g)
      \<and> same_rest g (TaskScheduler_scheduleQueuedTasks e now g)"
    and "refines moves e g (TaskScheduler_recoverAssignments e now g)
      \<and> same_rest g (TaskScheduler_recoverAssignments e now g)"
    and "refines moves e g (TaskScheduler_recoverWorkerAssignments e now did g)
      \<and> same_rest g (TaskScheduler_recoverWorkerAssignments e now did g)"
  unfolding TaskScheduler_scheduleQueuedTasks_def TaskScheduler_recoverAssignments_def
    TaskScheduler_recoverWorkerAssignments_def
  by (rule for_each_refines [OF _ assms(1) stored_tasks [OF assms(1)]],
      blast intro: schedule_one_step_on recover_one_step_on recover_from_step_on assms(2))+

end
