(* ===== verification/Message_Handler.thy ===== *)
theory Message_Handler
  imports Task_Scheduler
begin

text \<open>
  What the gateway does with each message: the account messages
  (\<open>src/packages/gateway/src/accounting/account_message_handler.ts\<close>), the accounting reads
  (\<open>accounting_query_handler.ts\<close>, \<open>accounting_summary_handler.ts\<close>), and everything else
  (\<open>src/packages/gateway/src/task/client_message_handler.ts\<close>). One definition per method, with the
  source's order of checks. Verifying a signature and deriving an account identifier are asynchronous in the
  source: the handler leaves a continuation in \<open>pending\<close>, which a later step of the gateway runs, in any
  order and with any other message in between.
\<close>

section \<open>Account messages\<close>

definition reply_error ::
  "'key env \<Rightarrow> int \<Rightarrow> socket \<Rightarrow> device_id \<Rightarrow> string \<Rightarrow> error_code \<Rightarrow> string \<Rightarrow> error_options \<Rightarrow> gateway \<Rightarrow> gateway" where
  "reply_error e now s did reply code txt options g =
     ConnectionHub_sendError e now s (Some reply) (ConnectionHub_counterpartFor g did None) code txt options g"

definition reply_with ::
  "'key env \<Rightarrow> int \<Rightarrow> socket \<Rightarrow> device_id \<Rightarrow> string \<Rightarrow> gateway_message \<Rightarrow> gateway \<Rightarrow> gateway" where
  "reply_with e now s did reply m g =
     ConnectionHub_send e now s m (ConnectionHub_counterpartFor g did None) (Some reply) g"

definition AccountMessageHandler_handle ::
  "'key env \<Rightarrow> int \<Rightarrow> socket \<Rightarrow> device_id \<Rightarrow> client_message \<Rightarrow> string \<Rightarrow> gateway \<Rightarrow> gateway" where
  "AccountMessageHandler_handle e now s did m reply g =
     (case m of
        Account_register algorithm key email name \<Rightarrow>
          g\<lparr>pending := pending g @ [Finish_register s did algorithm key email name reply]\<rparr>
      | Account_challenge_request \<Rightarrow>
          (let hex = randomHex e (nonce (world g));
               g1 = g\<lparr>world := (world g)\<lparr>nonce := nonce (world g) + 1\<rparr>\<rparr>;
               (issued, reg) = ChallengeRegistry_issue (challengeDurationMs e) did hex now (challengeRegistry g1)
           in reply_with e now s did reply
                (Account_challenge (challenge_text issued) (challenge_expiresAt issued))
                (g1\<lparr>challengeRegistry := reg\<rparr>))
      | Account_authenticate aid signature \<Rightarrow>
          (case AccountRegistry_get (accountRegistry g) aid of
             None \<Rightarrow> reply_error e now s did reply ACCOUNT_NOT_FOUND
               ''Register this account before authenticating as it'' (no_options\<lparr>opt_retryable := Some False\<rparr>) g
           | Some account \<Rightarrow>
               (let (verdict, reg) = ChallengeRegistry_consume did now (challengeRegistry g);
                    g1 = g\<lparr>challengeRegistry := reg\<rparr>
                in case verdict of
                     Verdict_accepted challenge \<Rightarrow>
                       g1\<lparr>pending := pending g1 @ [Finish_authenticate s did account challenge signature reply]\<rparr>
                   | Verdict_expired \<Rightarrow> reply_error e now s did reply ACCOUNT_CHALLENGE_INVALID
                       ''The challenge has expired. Ask for another one and sign that.''
                       (no_options\<lparr>opt_retryable := Some True\<rparr>) g1
                   | Verdict_unknown \<Rightarrow> reply_error e now s did reply ACCOUNT_CHALLENGE_INVALID
                       ''There is no challenge outstanding on this connection. Ask for one and sign that.''
                       (no_options\<lparr>opt_retryable := Some True\<rparr>) g1))
      | _ \<Rightarrow> g)"

definition AccountMessageHandler_registerAccount ::
  "'key env \<Rightarrow> int \<Rightarrow> socket \<Rightarrow> device_id \<Rightarrow> signature_algorithm \<Rightarrow> string \<Rightarrow> string option \<Rightarrow> string option \<Rightarrow>
   string \<Rightarrow> gateway \<Rightarrow> gateway" where
  "AccountMessageHandler_registerAccount e now s did algorithm key email name reply g =
     (case AccountIdentity_accountIdFor (platform e) key of
        None \<Rightarrow> reply_error e now s did reply UNSUPPORTED ''The account message could not be answered''
          (no_options\<lparr>opt_retryable := Some False\<rparr>) g
      | Some aid \<Rightarrow>
          (let (registered, reg) = AccountRegistry_register (accountFilePath e) now
                 \<lparr>reg_accountId = aid, reg_signatureAlgorithmName = algorithm,
                  reg_publicKeySpkiBase64 = key, reg_emailAddress = coalesce email [],
                  reg_displayName = coalesce name []\<rparr> (accountRegistry g)
           in reply_with e now s did reply
                (Account_registered (registered_account registered) (isNewAccount registered))
                (g\<lparr>accountRegistry := reg\<rparr>)))"

definition AccountMessageHandler_authenticateAccount ::
  "'key env \<Rightarrow> int \<Rightarrow> socket \<Rightarrow> device_id \<Rightarrow> account_profile \<Rightarrow> string \<Rightarrow> string \<Rightarrow> string \<Rightarrow> gateway \<Rightarrow> gateway" where
  "AccountMessageHandler_authenticateAccount e now s did account challenge signature reply g =
     (if \<not> AccountIdentity_verifyChallengeSignature (platform e)
            \<lparr>check_signatureAlgorithmName = signatureAlgorithmName account,
             check_publicKeySpkiBase64 = publicKeySpkiBase64 account,
             check_challenge = challenge, check_signatureBase64 = signature\<rparr>
      then reply_error e now s did reply ACCOUNT_SIGNATURE_REJECTED
        ''The signature was not produced over this challenge by this account''
        (no_options\<lparr>opt_retryable := Some False\<rparr>) g
      else
        let (attached, reg) = SessionRegistry_attachAccount did (profile_accountId account) now (sessionRegistry g);
            g1 = g\<lparr>sessionRegistry := reg\<rparr>
        in case attached of
             None \<Rightarrow> reply_error e now s did reply AUTHENTICATION_REQUIRED
               ''The connection's session ran out. Authenticate the connection again, then authenticate the account.''
               (no_options\<lparr>opt_retryable := Some True\<rparr>) g1
           | Some session \<Rightarrow> reply_with e now s did reply
               (Account_authenticated (profile_accountId account) (session_expiresAt session)) g1)"

fun run_continuation :: "'key env \<Rightarrow> int \<Rightarrow> continuation \<Rightarrow> gateway \<Rightarrow> gateway" where
  "run_continuation e now (Finish_register s did algorithm key email name reply) g =
     AccountMessageHandler_registerAccount e now s did algorithm key email name reply g"
| "run_continuation e now (Finish_authenticate s did account challenge signature reply) g =
     AccountMessageHandler_authenticateAccount e now s did account challenge signature reply g"

section \<open>Accounting reads\<close>

text \<open>The account a connection may read, or the refusal already sent.\<close>

definition AccountingQueryHandler_readableAccountId ::
  "'key env \<Rightarrow> int \<Rightarrow> socket \<Rightarrow> device_id \<Rightarrow> account_id option \<Rightarrow> string \<Rightarrow> gateway \<Rightarrow> account_id option \<times> gateway" where
  "AccountingQueryHandler_readableAccountId e now s did requested reply g =
     (let (session, reg) = SessionRegistry_active did now (sessionRegistry g);
          g1 = g\<lparr>sessionRegistry := reg\<rparr>
      in case Option.bind session session_accountId of
           None \<Rightarrow> (None, reply_error e now s did reply ACCOUNT_REQUIRED
             ''Authenticate an account on this connection before reading accounting information''
             (no_options\<lparr>opt_retryable := Some True\<rparr>) g1)
         | Some own \<Rightarrow>
             if requested \<noteq> None \<and> requested \<noteq> Some own
             then (None, reply_error e now s did reply AUTHORISATION
               ''A connection may read its own account and no other''
               (no_options\<lparr>opt_retryable := Some False, opt_details := Some (Authenticated_account own)\<rparr>) g1)
             else (Some own, g1))"

definition AccountingQueryHandler_handle ::
  "'key env \<Rightarrow> int \<Rightarrow> socket \<Rightarrow> device_id \<Rightarrow> client_message \<Rightarrow> string \<Rightarrow> gateway \<Rightarrow> gateway" where
  "AccountingQueryHandler_handle e now s did m reply g =
     (case m of
        Account_get requested \<Rightarrow>
          (case AccountingQueryHandler_readableAccountId e now s did requested reply g of
             (None, g1) \<Rightarrow> g1
           | (Some aid, g1) \<Rightarrow>
               (case AccountRegistry_get (accountRegistry g1) aid of
                  None \<Rightarrow> reply_error e now s did reply ACCOUNT_NOT_FOUND
                    ''This gateway holds no account with that identifier''
                    (no_options\<lparr>opt_retryable := Some False\<rparr>) g1
                | Some account \<Rightarrow> reply_with e now s did reply (Account_profile account) g1))
      | Account_balance_get requested \<Rightarrow>
          (case AccountingQueryHandler_readableAccountId e now s did requested reply g of
             (None, g1) \<Rightarrow> g1
           | (Some aid, g1) \<Rightarrow> reply_with e now s did reply
               (Account_balance (LedgerStore_summaryFor (ledgerStore g1) aid)) g1)
      | Account_ledger_get requested direction limit before \<Rightarrow>
          (case AccountingQueryHandler_readableAccountId e now s did requested reply g of
             (None, g1) \<Rightarrow> g1
           | (Some aid, g1) \<Rightarrow>
               (let dir = coalesce direction Both
                in case LedgerStore_entriesFor (ledgerStore g1) aid (Some dir) limit before of
                     Inl err \<Rightarrow> g1\<lparr>raised := Some (Ledger_exception err)\<rparr>
                   | Inr page \<Rightarrow> reply_with e now s did reply
                       (Account_ledger aid dir (page_entries page) (nextCursor page)) g1))
      | _ \<Rightarrow> g)"

text \<open>
  The sort compares balances, highest first, and breaks ties by the account identifier. Account identifiers
  are made of lower-case letters, digits and hyphens, on which \<open>localeCompare\<close> is the order of the character
  codes, \<open>string_le\<close>.
\<close>

definition row_le :: "(account_id \<Rightarrow> account_id \<Rightarrow> bool) \<Rightarrow> account_summary_row \<Rightarrow> account_summary_row \<Rightarrow> bool" where
  "row_le leq l r \<longleftrightarrow> balance r < balance l
     \<or> balance l = balance r \<and> leq (summary_accountId l) (summary_accountId r)"

fun insert_row :: "(account_id \<Rightarrow> account_id \<Rightarrow> bool) \<Rightarrow> account_summary_row \<Rightarrow> account_summary_row list \<Rightarrow> account_summary_row list" where
  "insert_row leq r [] = [r]"
| "insert_row leq r (x # xs) = (if row_le leq r x then r # x # xs else x # insert_row leq r xs)"

definition AccountingSummaryHandler_summaries ::
  "(account_id \<Rightarrow> account_id \<Rightarrow> bool) \<Rightarrow> gateway \<Rightarrow> account_summary_row list" where
  "AccountingSummaryHandler_summaries leq g =
     (let ids = set_of_list (map profile_accountId (AccountRegistry_list (accountRegistry g))
            @ map summary_accountId (LedgerStore_summaries (ledgerStore g)));
          row = (\<lambda>aid.
            let profile = AccountRegistry_get (accountRegistry g) aid;
                summary = LedgerStore_summaryFor (ledgerStore g) aid
            in \<lparr>summary_accountId = summary_accountId summary, balance = balance summary,
                earnedStageCount = earnedStageCount summary, spentStageCount = spentStageCount summary,
                row_displayName = coalesce (map_option displayName profile) [],
                row_createdAt = map_option profile_createdAt profile\<rparr>)
      in foldr (insert_row leq) (map row ids) [])"

fun string_le :: "string \<Rightarrow> string \<Rightarrow> bool" where
  "string_le [] ys = True"
| "string_le (x # xs) [] = False"
| "string_le (x # xs) (y # ys) \<longleftrightarrow>
     (of_char x :: nat) < of_char y \<or> x = y \<and> string_le xs ys"

definition AccountingSummaryHandler_handle ::
  "'key env \<Rightarrow> int \<Rightarrow> socket \<Rightarrow> device_id \<Rightarrow> string \<Rightarrow> gateway \<Rightarrow> gateway" where
  "AccountingSummaryHandler_handle e now s did reply g =
     (if did \<notin> set (observerDeviceIds (hub g))
      then reply_error e now s did reply AUTHORISATION
        ''Only an observer connection may read the accounting summary of every account''
        (no_options\<lparr>opt_retryable := Some False\<rparr>) g
      else reply_with e now s did reply
        (Accounting_summaries (AccountingSummaryHandler_summaries string_le g)) g)"

section \<open>Before registration\<close>

definition ClientMessageHandler_sendDeviceList ::
  "'key env \<Rightarrow> int \<Rightarrow> socket \<Rightarrow> device_id \<Rightarrow> string \<Rightarrow> gateway \<Rightarrow> gateway" where
  "ClientMessageHandler_sendDeviceList e now s did reply g =
     reply_with e now s did reply
       (Devices (DeviceAnnouncer_connectedDevices g)
         (DeviceRegistry_currentDeviceListRevision (deviceRegistry g))) g"

definition ClientMessageHandler_sendTaskNotFound ::
  "'key env \<Rightarrow> int \<Rightarrow> socket \<Rightarrow> device_id \<Rightarrow> string \<Rightarrow> task_id \<Rightarrow> gateway \<Rightarrow> gateway" where
  "ClientMessageHandler_sendTaskNotFound e now s did reply tid g =
     reply_error e now s did reply TASK_NOT_FOUND ''Task was not found''
       (no_options\<lparr>opt_taskId := Some tid\<rparr>) g"

definition registered_device ::
  "'key env \<Rightarrow> int \<Rightarrow> gateway \<Rightarrow> device_id \<Rightarrow> device_role \<Rightarrow> string \<Rightarrow> stage_name list option \<Rightarrow> bool option \<Rightarrow>
   int option \<Rightarrow> session option \<Rightarrow> device" where
  "registered_device e now g did role name stages ready maximum session =
     \<lparr>deviceId = did, deviceName = name, deviceRole = role,
      stageNames = (if role = Worker
        then coalesce stages (PipelineRegistry_stageNames (pipelineRegistry e)) else []),
      connectedAt = now, lastSeenAt = now,
      ipAddress = map_get (ipAddressMap (hub g)) did,
      workerState = (if role = Worker then Some (if ready = Some False then Draining else Ready) else None),
      device_authIdentity = Some (coalesce (map_option authIdentity session) []),
      deviceReady = (if role = Worker then Some (coalesce ready True) else None),
      maxConcurrentAssignments = (if role = Worker then Some (coalesce maximum 1) else None),
      activeAssignments = (if role = Worker then Some 0 else None),
      device_listRevision = None\<rparr>"

definition ClientMessageHandler_register ::
  "'key env \<Rightarrow> int \<Rightarrow> socket \<Rightarrow> device_id \<Rightarrow> device_role \<Rightarrow> string \<Rightarrow> stage_name list option \<Rightarrow> bool option \<Rightarrow>
   int option \<Rightarrow> string \<Rightarrow> session option \<Rightarrow> gateway \<Rightarrow> gateway" where
  "ClientMessageHandler_register e now s did role name stages ready maximum reply session g =
     (let undefinedStageNames = filter (\<lambda>stage. \<not> PipelineRegistry_definesStage (pipelineRegistry e) stage)
            (coalesce stages [])
      in if role = Worker \<and> undefinedStageNames \<noteq> []
         then reply_error e now s did reply VALIDATION ''No loaded pipeline defines these stages''
           (no_options\<lparr>opt_retryable := Some False,
              opt_details := Some (Undefined_stage_names undefinedStageNames
                (PipelineRegistry_stageNames (pipelineRegistry e)))\<rparr>) g
         else
           let device = registered_device e now g did role name stages ready maximum session;
               (change, reg) = DeviceRegistry_add device (deviceRegistry g);
               g1 = g\<lparr>deviceRegistry := reg\<rparr>;
               g2 = ConnectionHub_send e now s (DeviceRegistered did)
                      (ConnectionHub_counterpartFor g1 did (Some (DeviceRegister role name stages ready maximum)))
                      (Some reply) g1;
               g3 = DeviceAnnouncer_publishChange e now change g2
           in TaskScheduler_scheduleQueuedTasks e now g3)"

text \<open>\<open>Some\<close> is the source's \<open>true\<close>: the message was one of the group and has been dealt with.\<close>

definition ClientMessageHandler_handleBeforeRegistration ::
  "'key env \<Rightarrow> int \<Rightarrow> socket \<Rightarrow> device_id \<Rightarrow> client_message \<Rightarrow> string \<Rightarrow> session option \<Rightarrow> gateway \<Rightarrow> gateway option" where
  "ClientMessageHandler_handleBeforeRegistration e now s did m reply session g =
     (case m of
        Account_get _ \<Rightarrow> Some (AccountingQueryHandler_handle e now s did m reply g)
      | Account_balance_get _ \<Rightarrow> Some (AccountingQueryHandler_handle e now s did m reply g)
      | Account_ledger_get _ _ _ _ \<Rightarrow> Some (AccountingQueryHandler_handle e now s did m reply g)
      | Accounting_summaries_get \<Rightarrow> Some (AccountingSummaryHandler_handle e now s did reply g)
      | Account_register _ _ _ _ \<Rightarrow> Some (AccountMessageHandler_handle e now s did m reply g)
      | Account_challenge_request \<Rightarrow> Some (AccountMessageHandler_handle e now s did m reply g)
      | Account_authenticate _ _ \<Rightarrow> Some (AccountMessageHandler_handle e now s did m reply g)
      | Observe \<Rightarrow> Some (ClientMessageHandler_sendDeviceList e now s did reply
          (g\<lparr>hub := (hub g)\<lparr>observerDeviceIds := set_add (observerDeviceIds (hub g)) did,
                           deviceSubscriberIds := set_add (deviceSubscriberIds (hub g)) did\<rparr>\<rparr>))
      | Devices_subscribe \<Rightarrow> Some (ClientMessageHandler_sendDeviceList e now s did reply
          (g\<lparr>hub := (hub g)\<lparr>deviceSubscriberIds := set_add (deviceSubscriberIds (hub g)) did\<rparr>\<rparr>))
      | Devices_unsubscribe \<Rightarrow> Some
          (g\<lparr>hub := (hub g)\<lparr>deviceSubscriberIds := set_remove (deviceSubscriberIds (hub g)) did\<rparr>\<rparr>)
      | DeviceAuthenticate token \<Rightarrow> Some
          (if token \<noteq> authToken e
           then reply_error e now s did reply AUTHENTICATION_REQUIRED ''Credentials were rejected''
             (no_options\<lparr>opt_retryable := Some False\<rparr>) g
           else
             let (opened, reg) = SessionRegistry_open (sha256Hex e) (sessionDurationMs e) did token now
                   (sessionRegistry g)
             in reply_with e now s did reply
                  (DeviceAuthenticated (authIdentity opened) (session_expiresAt opened))
                  (g\<lparr>sessionRegistry := reg\<rparr>))
      | Pipelines_get \<Rightarrow> Some (reply_with e now s did reply
          (Pipelines (filter (\<lambda>sp. spec_retired sp \<noteq> Some True) (PipelineRegistry_list (pipelineRegistry e)))) g)
      | DeviceRegister role name stages ready maximum \<Rightarrow> Some
          (ClientMessageHandler_register e now s did role name stages ready maximum reply session g)
      | _ \<Rightarrow> None)"

section \<open>Reading tasks and devices\<close>

definition observers_of :: "gateway \<Rightarrow> task_id \<Rightarrow> device_id list" where
  "observers_of g tid = coalesce (map_get (taskObserverDeviceIds (hub g)) tid) []"

definition set_observers :: "task_id \<Rightarrow> device_id list \<Rightarrow> gateway \<Rightarrow> gateway" where
  "set_observers tid os g =
     g\<lparr>hub := (hub g)\<lparr>taskObserverDeviceIds := map_set (taskObserverDeviceIds (hub g)) tid os\<rparr>\<rparr>"

definition not_allowed_to_read ::
  "'key env \<Rightarrow> int \<Rightarrow> socket \<Rightarrow> device_id \<Rightarrow> string \<Rightarrow> task_id \<Rightarrow> gateway \<Rightarrow> gateway" where
  "not_allowed_to_read e now s did reply tid g =
     reply_error e now s did reply AUTHORISATION ''This connection is not allowed to read the task''
       (no_options\<lparr>opt_taskId := Some tid\<rparr>) g"

definition manage_observer ::
  "'key env \<Rightarrow> int \<Rightarrow> socket \<Rightarrow> device_id \<Rightarrow> string \<Rightarrow> task_id \<Rightarrow> device_id \<Rightarrow> bool \<Rightarrow> gateway \<Rightarrow> gateway" where
  "manage_observer e now s did reply tid consumer isGrant g =
     (case TaskStore_get (taskStore g) tid of
        None \<Rightarrow> ClientMessageHandler_sendTaskNotFound e now s did reply tid g
      | Some t \<Rightarrow>
          if consumerDeviceId t \<noteq> did
          then reply_error e now s did reply AUTHORISATION ''Only the task owner may manage observers''
            (no_options\<lparr>opt_taskId := Some (taskId t)\<rparr>) g
          else
            (case DeviceRegistry_get (deviceRegistry g) consumer of
               None \<Rightarrow> reply_error e now s did reply VALIDATION ''An observer must be a connected consumer''
                 (no_options\<lparr>opt_taskId := Some (taskId t)\<rparr>) g
             | Some observer \<Rightarrow>
                 if deviceRole observer \<noteq> Consumer
                 then reply_error e now s did reply VALIDATION ''An observer must be a connected consumer''
                   (no_options\<lparr>opt_taskId := Some (taskId t)\<rparr>) g
                 else if isGrant
                 then set_observers (taskId t) (set_add (observers_of g (taskId t)) consumer) g
                 else set_observers (taskId t) (set_remove (observers_of g (taskId t)) consumer) g))"

definition ClientMessageHandler_handleTaskReads ::
  "'key env \<Rightarrow> int \<Rightarrow> socket \<Rightarrow> device_id \<Rightarrow> client_message \<Rightarrow> string \<Rightarrow> gateway \<Rightarrow> gateway option" where
  "ClientMessageHandler_handleTaskReads e now s did m reply g =
     (case m of
        Task_observe tid \<Rightarrow> Some
          (case TaskStore_get (taskStore g) tid of
             None \<Rightarrow> ClientMessageHandler_sendTaskNotFound e now s did reply tid g
           | Some t \<Rightarrow>
               if map_option deviceRole (DeviceRegistry_get (deviceRegistry g) did) \<noteq> Some Consumer
                  \<or> (consumerDeviceId t \<noteq> did \<and> did \<notin> set (observers_of g (taskId t)))
               then reply_error e now s did reply AUTHORISATION ''Task observation requires an owner grant''
                 (no_options\<lparr>opt_taskId := Some (taskId t)\<rparr>) g
               else reply_with e now s did reply (Task_snapshot_message (TaskProjection_snapshot t))
                 (set_observers (taskId t) (set_add (observers_of g (taskId t)) did) g))
      | Task_unobserve tid \<Rightarrow> Some
          (case TaskStore_get (taskStore g) tid of
             None \<Rightarrow> ClientMessageHandler_sendTaskNotFound e now s did reply tid g
           | Some t \<Rightarrow>
               (case map_get (taskObserverDeviceIds (hub g)) (taskId t) of
                  None \<Rightarrow> g
                | Some os \<Rightarrow> set_observers (taskId t) (set_remove os did) g))
      | Task_resync tid \<Rightarrow> Some
          (case TaskStore_get (taskStore g) tid of
             None \<Rightarrow> ClientMessageHandler_sendTaskNotFound e now s did reply tid g
           | Some t \<Rightarrow>
               if \<not> TaskScheduler_mayReadTask g did (taskId t)
               then not_allowed_to_read e now s did reply (taskId t) g
               else reply_with e now s did reply (Task_snapshot_message (TaskProjection_snapshot t)) g)
      | Task_history_get tid \<Rightarrow> Some
          (case TaskStore_get (taskStore g) tid of
             None \<Rightarrow> ClientMessageHandler_sendTaskNotFound e now s did reply tid g
           | Some t \<Rightarrow>
               if \<not> TaskScheduler_mayReadTask g did (taskId t)
               then not_allowed_to_read e now s did reply (taskId t) g
               else reply_with e now s did reply (Task_history (taskId t) (taskEvents t)) g)
      | Task_observer_grant tid consumer \<Rightarrow> Some (manage_observer e now s did reply tid consumer True g)
      | Task_observer_revoke tid consumer \<Rightarrow> Some (manage_observer e now s did reply tid consumer False g)
      | Devices_resync \<Rightarrow> Some (ClientMessageHandler_sendDeviceList e now s did reply g)
      | _ \<Rightarrow> None)"

section \<open>Changing tasks and worker state\<close>

definition active_task_count :: "gateway \<Rightarrow> string \<Rightarrow> nat" where
  "active_task_count g who =
     length (filter (\<lambda>t. consumerAuthIdentity t = Some who \<and> \<not> isFinished (taskState t))
       (TaskStore_list (taskStore g)))"

definition pipeline_choice :: "pipeline_specification \<Rightarrow> task_pipeline" where
  "pipeline_choice p =
     \<lparr>chosen_pipelineId = spec_pipelineId p, chosen_pipelineVersion = spec_version p,
      chosen_pipelineStages = map stageName (spec_stages p),
      chosen_repeatsUntilDone = (if spec_repeatsUntilDone p = Some True then Some True else None)\<rparr>"

definition create_and_assign ::
  "'key env \<Rightarrow> int \<Rightarrow> socket \<Rightarrow> device_id \<Rightarrow> string \<Rightarrow> string \<Rightarrow> task_input \<Rightarrow> string \<Rightarrow> session option \<Rightarrow>
   pipeline_specification \<Rightarrow> gateway \<Rightarrow> gateway" where
  "create_and_assign e now s did reply request input' who session pipeline g =
     (let (uuid, g1) = draw_uuid e g;
          (t, st) = TaskStore_create (storeSettings e) now uuid input' did request
            (Some \<lparr>submitter_authIdentity = Some who,
                   submitter_accountId = Option.bind session session_accountId\<rparr>)
            (Some (pipeline_choice pipeline)) (taskStore g1);
          g2 = reply_with e now s did reply (Task_accepted request (TaskProjection_snapshot t))
                 (g1\<lparr>taskStore := st\<rparr>)
      in case TaskStore_nextStage t of
           None \<Rightarrow> g2
         | Some stage \<Rightarrow> TaskScheduler_assign e now (taskId t) (StagePayloadFactory_initial input') stage
             default_options g2)"

definition submit_task ::
  "'key env \<Rightarrow> int \<Rightarrow> socket \<Rightarrow> device_id \<Rightarrow> string \<Rightarrow> string \<Rightarrow> task_input \<Rightarrow> string option \<Rightarrow> int option \<Rightarrow>
   session option \<Rightarrow> gateway \<Rightarrow> gateway" where
  "submit_task e now s did reply request input' pid version session g =
     (if map_option deviceRole (DeviceRegistry_get (deviceRegistry g) did) \<noteq> Some Consumer
      then reply_with e now s did reply
        (plain_error CONSUMER_REQUIRED ''Only consumer browser tabs may submit tasks'' (Some request) None) g
      else
        (case TaskStore_findByTaskRequest (taskStore g) did request of
           Some existing \<Rightarrow>
             if taskInput existing \<noteq> input'
             then reply_with e now s did reply
               (plain_error TASK_REQUEST_ID_CONFLICT
                 ''taskRequestId was already used with different task contents'' (Some request)
                 (Some (taskId existing))) g
             else reply_with e now s did reply (Task_accepted request (TaskProjection_snapshot existing)) g
         | None \<Rightarrow>
             (let who = coalesce (map_option authIdentity session) []
              in if maximumTasksPerPrincipal e \<le> active_task_count g who
                 then reply_error e now s did reply RATE_LIMITED ''The principal has reached its active-task limit''
                   (no_options\<lparr>opt_taskRequestId := Some request, opt_retryable := Some True,
                      opt_details := Some (Active_task_limit (maximumTasksPerPrincipal e))\<rparr>) g
                 else
                   (case PipelineRegistry_select (pipelineRegistry e) input' pid version of
                      None \<Rightarrow> reply_error e now s did reply NO_COMPATIBLE_WORKER
                        ''No active compatible pipeline specification exists''
                        (no_options\<lparr>opt_taskRequestId := Some request, opt_retryable := Some False\<rparr>) g
                    | Some pipeline \<Rightarrow>
                        (let missing = filter
                               (\<lambda>stage. \<not> DeviceRegistry_hasWorkerForStage (deviceRegistry g) stage)
                               (map stageName (spec_stages pipeline))
                         in if missing \<noteq> []
                            then reply_error e now s did reply CAPACITY_EXHAUSTED
                              ''One or more stages this task requires have no connected worker''
                              (no_options\<lparr>opt_taskRequestId := Some request, opt_retryable := Some True,
                                 opt_details := Some (Missing_stage_names missing)\<rparr>) g
                            else create_and_assign e now s did reply request input' who session pipeline g)))))"

definition get_task ::
  "'key env \<Rightarrow> int \<Rightarrow> socket \<Rightarrow> device_id \<Rightarrow> string \<Rightarrow> task_id \<Rightarrow> gateway \<Rightarrow> gateway" where
  "get_task e now s did reply tid g =
     (case TaskStore_get (taskStore g) tid of
        None \<Rightarrow> reply_with e now s did reply (plain_error TASK_NOT_FOUND ''Task was not found'' None (Some tid)) g
      | Some t \<Rightarrow>
          if TaskScheduler_mayReadTask g did (taskId t)
          then reply_with e now s did reply (Task_snapshot_message (TaskProjection_snapshot t)) g
          else not_allowed_to_read e now s did reply tid g)"

definition change_worker_state ::
  "'key env \<Rightarrow> int \<Rightarrow> socket \<Rightarrow> device_id \<Rightarrow> string \<Rightarrow> worker_state \<Rightarrow> int option \<Rightarrow> gateway \<Rightarrow> gateway" where
  "change_worker_state e now s did reply ws maximum g =
     (let refused = reply_with e now s did reply
            (plain_error WORKER_REQUIRED ''Only worker browser tabs may change worker state'' None None) g
      in case DeviceRegistry_get (deviceRegistry g) did of
           None \<Rightarrow> refused
         | Some d \<Rightarrow>
             if deviceRole d \<noteq> Worker then refused
             else
               let g1 = add_and_publish e now
                     (d\<lparr>workerState := Some ws, deviceReady := Some (ws = Ready),
                        maxConcurrentAssignments := coalesce_opt maximum (maxConcurrentAssignments d),
                        lastSeenAt := now\<rparr>) g
               in if ws = Ready then TaskScheduler_scheduleQueuedTasks e now g1 else g1)"

definition cancel_task ::
  "'key env \<Rightarrow> int \<Rightarrow> socket \<Rightarrow> device_id \<Rightarrow> string \<Rightarrow> task_id \<Rightarrow> string \<Rightarrow> gateway \<Rightarrow> gateway" where
  "cancel_task e now s did reply tid reason g =
     (case TaskStore_get (taskStore g) tid of
        None \<Rightarrow> reply_with e now s did reply (plain_error TASK_NOT_FOUND ''Task was not found'' None (Some tid)) g
      | Some t \<Rightarrow>
          if consumerDeviceId t \<noteq> did
          then reply_with e now s did reply
            (plain_error TASK_OWNER_MISMATCH ''Only the task owner may cancel this task'' None (Some tid)) g
          else
            (case TaskStore_cancel (storeSettings e) now (taskId t) reason (taskStore g) of
               Inl err \<Rightarrow> g\<lparr>raised := Some (Store_exception err)\<rparr>
             | Inr (cancelled, st) \<Rightarrow>
                 let g1 = g\<lparr>taskStore := st\<rparr>;
                     g2 = (case stageAssignment t of
                         None \<Rightarrow> g1
                       | Some a \<Rightarrow>
                           let g' = DeviceAnnouncer_releaseWorkerAssignment e now (workerDeviceId a) g1
                           in (case map_get (socketMap (hub g')) (workerDeviceId a) of
                                 None \<Rightarrow> g'
                               | Some ws \<Rightarrow> ConnectionHub_send e now ws
                                   (Stage_cancel (taskId t) (stageAssignmentId a) (attempt a) reason)
                                   (ConnectionHub_counterpartFor g' (workerDeviceId a) None) None g'))
                 in TaskScheduler_broadcastTask e now (taskId cancelled) g2))"

definition ClientMessageHandler_handleTaskChanges ::
  "'key env \<Rightarrow> int \<Rightarrow> socket \<Rightarrow> device_id \<Rightarrow> client_message \<Rightarrow> string \<Rightarrow> session option \<Rightarrow> gateway \<Rightarrow> gateway option" where
  "ClientMessageHandler_handleTaskChanges e now s did m reply session g =
     (case m of
        Task_submit request input' pid version \<Rightarrow>
          Some (submit_task e now s did reply request input' pid version session g)
      | Task_get tid \<Rightarrow> Some (get_task e now s did reply tid g)
      | Worker_state ws maximum \<Rightarrow> Some (change_worker_state e now s did reply ws maximum g)
      | Task_cancel tid reason \<Rightarrow> Some (cancel_task e now s did reply tid reason g)
      | _ \<Rightarrow> None)"

section \<open>Stage messages from workers\<close>

definition is_worker :: "gateway \<Rightarrow> device_id \<Rightarrow> bool" where
  "is_worker g did \<longleftrightarrow>
     (case DeviceRegistry_get (deviceRegistry g) did of None \<Rightarrow> False | Some d \<Rightarrow> deviceRole d = Worker)"

text \<open>The current assignment of a task, when it is the one the message names.\<close>

definition current_assignment :: "task \<Rightarrow> string \<Rightarrow> nat \<Rightarrow> stage_assignment option" where
  "current_assignment t aid n =
     (case stageAssignment t of
        None \<Rightarrow> None
      | Some a \<Rightarrow> if stageAssignmentId a \<noteq> aid \<or> attempt a \<noteq> n then None else Some a)"

definition held_assignment :: "gateway \<Rightarrow> device_id \<Rightarrow> task_id \<Rightarrow> string \<Rightarrow> nat \<Rightarrow> (task \<times> stage_assignment) option" where
  "held_assignment g did tid aid n =
     (case TaskStore_get (taskStore g) tid of
        None \<Rightarrow> None
      | Some t \<Rightarrow>
          (case current_assignment t aid n of
             None \<Rightarrow> None
           | Some a \<Rightarrow> if workerDeviceId a \<noteq> did then None else Some (t, a)))"

definition extend_lease ::
  "'key env \<Rightarrow> int \<Rightarrow> socket \<Rightarrow> device_id \<Rightarrow> string \<Rightarrow> task_id \<Rightarrow> string \<Rightarrow> nat \<Rightarrow> gateway \<Rightarrow> gateway" where
  "extend_lease e now s did reply tid aid n g =
     (if \<not> is_worker g did
      then reply_with e now s did reply
        (plain_error WORKER_REQUIRED ''Only worker browser tabs may extend an assignment lease'' None None) g
      else
        (case held_assignment g did tid aid n of
           None \<Rightarrow> reply_with e now s did reply (Stage_cancel tid aid n ''assignment_superseded'') g
         | Some (t, a) \<Rightarrow>
             (let leaseMs = policy_leaseMs (StagePolicyResolver_resolve (pipelineRegistry e) (defaultLeaseMs e)
                    t (assignedStage a));
                  (until, st) = TaskStore_renewLease (storeSettings e) now (taskId t) leaseMs (taskStore g);
                  g1 = g\<lparr>taskStore := st\<rparr>
              in case until of
                   None \<Rightarrow> g1
                 | Some u \<Rightarrow> reply_with e now s did reply
                     (Stage_lease_extended (taskId t) (stageAssignmentId a) (attempt a) u) g1)))"

definition update_assignment ::
  "'key env \<Rightarrow> int \<Rightarrow> socket \<Rightarrow> device_id \<Rightarrow> string \<Rightarrow> bool \<Rightarrow> task_id \<Rightarrow> string \<Rightarrow> nat \<Rightarrow> gateway \<Rightarrow> gateway" where
  "update_assignment e now s did reply isAcceptance tid aid n g =
     (if \<not> is_worker g did
      then reply_with e now s did reply
        (plain_error WORKER_REQUIRED ''Only worker browser tabs may update assignments'' None None) g
      else
        (case held_assignment g did tid aid n of
           None \<Rightarrow> reply_with e now s did reply
             (plain_error STALE_ASSIGNMENT ''The stage assignment is no longer current'' None (Some tid)) g
         | Some (t, a) \<Rightarrow>
             if isAcceptance
             then (case TaskStore_acceptAssignment (storeSettings e) now (taskId t) (taskStore g) of
                     Inl err \<Rightarrow> g\<lparr>raised := Some (Store_exception err)\<rparr>
                   | Inr (_, st) \<Rightarrow> TaskScheduler_broadcastTask e now (taskId t) (g\<lparr>taskStore := st\<rparr>))
             else TaskScheduler_assign e now (taskId t) (assignedValue a) (assignedStage a)
                    (default_options\<lparr>excluded := [did], opt_retryReason := Some Worker_relinquished\<rparr>) g))"

text \<open>The checks a result and a failure share, in the source's order: the refusal, or the task and assignment.\<close>

definition check_stage_report ::
  "'key env \<Rightarrow> int \<Rightarrow> socket \<Rightarrow> device_id \<Rightarrow> string \<Rightarrow> string \<Rightarrow> string \<Rightarrow> string \<Rightarrow> string \<Rightarrow>
   (task \<Rightarrow> gateway \<Rightarrow> gateway option) \<Rightarrow> task_id \<Rightarrow> string \<Rightarrow> nat \<Rightarrow> stage_name \<Rightarrow> gateway \<Rightarrow>
   gateway + task \<times> stage_assignment" where
  "check_stage_report e now s did reply whoText ownerText stageText acceptText answered tid aid n stage g =
     (let refuse = (\<lambda>code txt task'. Inl (reply_with e now s did reply (plain_error code txt None task') g))
      in if \<not> is_worker g did then refuse WORKER_REQUIRED whoText None
         else
           (case TaskStore_get (taskStore g) tid of
              None \<Rightarrow> refuse TASK_NOT_FOUND ''Task was not found'' (Some tid)
            | Some t \<Rightarrow>
                (case current_assignment t aid n of
                   None \<Rightarrow>
                     (case answered t g of
                        Some g' \<Rightarrow> Inl g'
                      | None \<Rightarrow> refuse STALE_ASSIGNMENT ''The stage assignment is no longer current'' (Some tid))
                 | Some a \<Rightarrow>
                     if workerDeviceId a \<noteq> did then refuse ASSIGNMENT_OWNER_MISMATCH ownerText (Some tid)
                     else if assignedStage a \<noteq> stage then refuse ASSIGNMENT_STAGE_MISMATCH stageText (Some tid)
                     else if taskState t \<noteq> Running then refuse ASSIGNMENT_NOT_ACCEPTED acceptText (Some tid)
                     else Inr (t, a))))"

definition record_stage ::
  "'key env \<Rightarrow> int \<Rightarrow> device_id \<Rightarrow> task \<Rightarrow> stage_name \<Rightarrow> string \<Rightarrow> stage_assignment \<Rightarrow> gateway \<Rightarrow> gateway" where
  "record_stage e now did updated stage aid a g =
     (let (u1, g1) = draw_uuid e g;
          (u2, g2) = draw_uuid e g1;
          (_, sessions, led) = AccountingRecorder_recordCompletedStage (u1, u2) now
            \<lparr>completed_task = updated, completed_stageName = stage, completed_stageAssignmentId = aid,
             completed_workerDeviceId = did,
             completed_stageDurationMs = map_option (\<lambda>accepted. max 0 (now - accepted)) (acceptedAt a)\<rparr>
            (sessionRegistry g2) (ledgerStore g2)
      in g2\<lparr>sessionRegistry := sessions, ledgerStore := led\<rparr>)"

text \<open>What follows a recorded result: the task is completed, or its next stage is placed.\<close>

definition advance_task ::
  "'key env \<Rightarrow> int \<Rightarrow> socket \<Rightarrow> device_id \<Rightarrow> string \<Rightarrow> task \<Rightarrow> string \<Rightarrow> nat \<Rightarrow> stage_payload \<Rightarrow> gateway \<Rightarrow> gateway" where
  "advance_task e now s did reply updated aid n v g =
     (case TaskStore_nextStage updated of
        None \<Rightarrow>
          (case TaskStore_update (storeSettings e) now (taskId updated)
                  (\<lambda>t. t\<lparr>taskState := Completed, taskResult := Some v\<rparr>) (taskStore g) of
             Inl err \<Rightarrow> g\<lparr>raised := Some (Store_exception err)\<rparr>
           | Inr (completed, st) \<Rightarrow>
               reply_with e now s did reply
                 (Stage_result_accepted (taskId completed) aid n (taskRevision completed) Status_completed)
                 (TaskScheduler_broadcastTask e now (taskId updated) (g\<lparr>taskStore := st\<rparr>)))
      | Some upcoming \<Rightarrow>
          let policy = StagePolicyResolver_resolve (pipelineRegistry e) (defaultLeaseMs e) updated upcoming;
              g1 = TaskScheduler_assign e now (taskId updated) v upcoming
                \<lparr>excluded = (if policy_prefersSameWorkerOnRetry policy then [] else [did]),
                 opt_retryReason = None,
                 preferredWorkerDeviceId =
                   WorkerPlacement_preferredWorkerDeviceId updated upcoming policy (Some did),
                 isPreviousAssignmentReleased = True\<rparr> g
          in if raised g1 \<noteq> None then g1
             else (case TaskStore_get (taskStore g1) (taskId updated) of
                     None \<Rightarrow> g1
                   | Some assigned \<Rightarrow> reply_with e now s did reply
                       (Stage_result_accepted (taskId assigned) aid n (taskRevision assigned) Status_assigned) g1))"

definition already_acknowledged ::
  "'key env \<Rightarrow> int \<Rightarrow> socket \<Rightarrow> device_id \<Rightarrow> string \<Rightarrow> string \<Rightarrow> nat \<Rightarrow> task \<Rightarrow> gateway \<Rightarrow> gateway option" where
  "already_acknowledged e now s did reply aid n t g =
     (if aid \<in> set (coalesce (acknowledgedStageAssignmentIds t) [])
      then Some (reply_with e now s did reply
        (Stage_result_accepted (taskId t) aid n (taskRevision t)
          (if taskState t = Completed then Status_completed else Status_assigned)) g)
      else None)"

definition check_result ::
  "'key env \<Rightarrow> int \<Rightarrow> socket \<Rightarrow> device_id \<Rightarrow> string \<Rightarrow> task_id \<Rightarrow> string \<Rightarrow> nat \<Rightarrow> stage_name \<Rightarrow> gateway \<Rightarrow>
   gateway + task \<times> stage_assignment" where
  "check_result e now s did reply tid aid n stage g =
     check_stage_report e now s did reply
       ''Only worker browser tabs may return stage results''
       ''Only the assigned worker may return this stage result''
       ''The stage result does not match the current assignment''
       ''A stage assignment must be accepted before returning a result''
       (already_acknowledged e now s did reply aid n) tid aid n stage g"

definition ClientMessageHandler_acceptStageResult ::
  "'key env \<Rightarrow> int \<Rightarrow> socket \<Rightarrow> device_id \<Rightarrow> string \<Rightarrow> task_id \<Rightarrow> string \<Rightarrow> nat \<Rightarrow> stage_name \<Rightarrow> stage_payload \<Rightarrow>
   gateway \<Rightarrow> gateway" where
  "ClientMessageHandler_acceptStageResult e now s did reply tid aid n stage v g =
     (case check_result e now s did reply tid aid n stage g of
        Inl g' \<Rightarrow> g'
      | Inr (t, a) \<Rightarrow>
          (case TaskStore_addStage (storeSettings e) now (taskId t)
                  \<lparr>result_name = stage, result_value = v\<rparr> (Some aid) (taskStore g) of
             Inl err \<Rightarrow> g\<lparr>raised := Some (Store_exception err)\<rparr>
           | Inr (updated, st) \<Rightarrow>
               let g1 = record_stage e now did updated stage aid a (g\<lparr>taskStore := st\<rparr>);
                   g2 = (if newText updated \<noteq> None
                         then TaskScheduler_broadcastTask e now (taskId updated) g1 else g1);
                   g3 = DeviceAnnouncer_releaseWorkerAssignment e now did g2
               in advance_task e now s did reply updated aid n v g3))"

definition check_failure ::
  "'key env \<Rightarrow> int \<Rightarrow> socket \<Rightarrow> device_id \<Rightarrow> string \<Rightarrow> task_id \<Rightarrow> string \<Rightarrow> nat \<Rightarrow> stage_name \<Rightarrow> gateway \<Rightarrow>
   gateway + task \<times> stage_assignment" where
  "check_failure e now s did reply tid aid n stage g =
     check_stage_report e now s did reply
       ''Only worker browser tabs may fail a stage''
       ''Only the assigned worker may fail this stage''
       ''The stage failure does not match the current assignment''
       ''A stage assignment must be accepted before failing''
       (\<lambda>_ _. None) tid aid n stage g"

definition ClientMessageHandler_acceptStageFailure ::
  "'key env \<Rightarrow> int \<Rightarrow> socket \<Rightarrow> device_id \<Rightarrow> string \<Rightarrow> task_id \<Rightarrow> string \<Rightarrow> nat \<Rightarrow> stage_name \<Rightarrow> string \<Rightarrow>
   gateway \<Rightarrow> gateway" where
  "ClientMessageHandler_acceptStageFailure e now s did reply tid aid n stage err g =
     (case check_failure e now s did reply tid aid n stage g of
        Inl g' \<Rightarrow> g'
      | Inr (t, a) \<Rightarrow>
          (case TaskStore_update (storeSettings e) now tid
                  (\<lambda>t. t\<lparr>taskState := Failed, taskError := Some err, stageAssignment := None\<rparr>) (taskStore g) of
             Inl x \<Rightarrow> g\<lparr>raised := Some (Store_exception x)\<rparr>
           | Inr (_, st) \<Rightarrow>
               TaskScheduler_broadcastTask e now tid
                 (DeviceAnnouncer_releaseWorkerAssignment e now did (g\<lparr>taskStore := st\<rparr>))))"

definition ClientMessageHandler_handleStageMessages ::
  "'key env \<Rightarrow> int \<Rightarrow> socket \<Rightarrow> device_id \<Rightarrow> client_message \<Rightarrow> string \<Rightarrow> gateway \<Rightarrow> gateway option" where
  "ClientMessageHandler_handleStageMessages e now s did m reply g =
     (case m of
        Stage_heartbeat tid aid n \<Rightarrow> Some (extend_lease e now s did reply tid aid n g)
      | Stage_accepted tid aid n \<Rightarrow> Some (update_assignment e now s did reply True tid aid n g)
      | Stage_relinquish tid aid n \<Rightarrow> Some (update_assignment e now s did reply False tid aid n g)
      | Stage_result tid aid n stage v \<Rightarrow>
          Some (ClientMessageHandler_acceptStageResult e now s did reply tid aid n stage v g)
      | Stage_failed tid aid n stage err \<Rightarrow>
          Some (ClientMessageHandler_acceptStageFailure e now s did reply tid aid n stage err g)
      | _ \<Rightarrow> None)"

section \<open>One message\<close>

definition relay_signal ::
  "'key env \<Rightarrow> int \<Rightarrow> device_id \<Rightarrow> client_message \<Rightarrow> gateway \<Rightarrow> gateway" where
  "relay_signal e now did m g =
     (case m of
        Signal_to to data \<Rightarrow>
          (case map_get (socketMap (hub g)) to of
             None \<Rightarrow> g
           | Some target \<Rightarrow> ConnectionHub_send e now target (Signal_from did data)
               (ConnectionHub_counterpartFor g to None) None g)
      | _ \<Rightarrow> g)"

definition is_authentication :: "client_message \<Rightarrow> bool" where
  "is_authentication m = (case m of DeviceAuthenticate _ \<Rightarrow> True | _ \<Rightarrow> False)"

definition ClientMessageHandler_handle ::
  "'key env \<Rightarrow> int \<Rightarrow> socket \<Rightarrow> device_id \<Rightarrow> client_message \<Rightarrow> string \<Rightarrow> gateway \<Rightarrow> gateway" where
  "ClientMessageHandler_handle e now s did m reply g0 =
     (let (session, reg) = SessionRegistry_active did now (sessionRegistry g0);
          g = g0\<lparr>sessionRegistry := reg\<rparr>
      in if \<not> is_authentication m \<and> session = None
         then reply_error e now s did reply AUTHENTICATION_REQUIRED ''Authenticate before using the protocol''
           (no_options\<lparr>opt_retryable := Some True\<rparr>) g
         else
           (case ClientMessageHandler_handleBeforeRegistration e now s did m reply session g of
              Some g' \<Rightarrow> g'
            | None \<Rightarrow>
                (case DeviceRegistry_get (deviceRegistry g) did of
                   None \<Rightarrow> reply_error e now s did reply NOT_REGISTERED ''Register before sending this message''
                     no_options g
                 | Some d \<Rightarrow>
                     (let g1 = g\<lparr>deviceRegistry :=
                            snd (DeviceRegistry_add (d\<lparr>lastSeenAt := now\<rparr>) (deviceRegistry g))\<rparr>
                      in case ClientMessageHandler_handleTaskReads e now s did m reply g1 of
                           Some g' \<Rightarrow> g'
                         | None \<Rightarrow>
                             (case ClientMessageHandler_handleTaskChanges e now s did m reply session g1 of
                                Some g' \<Rightarrow> g'
                              | None \<Rightarrow>
                                  (case ClientMessageHandler_handleStageMessages e now s did m reply g1 of
                                     Some g' \<Rightarrow> g'
                                   | None \<Rightarrow> relay_signal e now did m g1))))))"

end
