(* ===== verification/Websocket_Router.thy ===== *)
theory Websocket_Router
  imports Message_Handler
begin

text \<open>
  The outermost layer of the gateway (\<open>src/packages/gateway/src/connection/websocket_router.ts\<close>, and the
  timers \<open>src/packages/gateway/src/cli.ts\<close> starts): opening a connection, checking a frame before anything
  acts on it, closing a connection, the recovery sweep, the activity flush, an answered ping. Everything that
  can happen to a gateway is a \<open>gateway_event\<close> with the time it happens at; \<open>gateway_step\<close> is one of them,
  and a run of the gateway is a run of \<open>gateway_step\<close>.
\<close>

section \<open>Frames\<close>

text \<open>
  What arrived on a connection: the number of bytes, and what the parsers make of them. \<open>Json\<close> carries the
  parsed value and the wrapper the schema library reads from it, when it has that shape; the bounds the
  schema states are \<open>valid_ClientEnvelope\<close>.
\<close>

datatype frame_content = Not_json | Json json "client_message envelope option"

definition valid_ClientEnvelope :: "client_message envelope \<Rightarrow> bool" where
  "valid_ClientEnvelope f \<longleftrightarrow> 0 < env_v f \<and> valid_Identifier (env_id f)
     \<and> opt_all valid_Identifier (env_inReplyToMessageId f) \<and> valid_ClientMessage (env_body f)"

definition maximumInboundMessageBytes :: nat where
  "maximumInboundMessageBytes = 8500000"

definition push_error ::
  "'key env \<Rightarrow> int \<Rightarrow> socket \<Rightarrow> device_id \<Rightarrow> error_code \<Rightarrow> string \<Rightarrow> error_details option \<Rightarrow> gateway \<Rightarrow> gateway" where
  "push_error e now s did code txt details g =
     ConnectionHub_send e now s
       (Error_message \<lparr>error_code = code, error_message = txt, error_details = details,
          error_taskRequestId = None, error_taskId = None, error_retryable = None\<rparr>)
       (ConnectionHub_counterpartFor g did None) None g"

definition log_received :: "device_id \<Rightarrow> client_message envelope \<Rightarrow> gateway \<Rightarrow> gateway" where
  "log_received did f g =
     (if env_body f = Observe then g
      else g\<lparr>world := (world g)\<lparr>messageLog := messageLog (world g) @
             [Received (ConnectionHub_counterpartFor g did (Some (env_body f))) f]\<rparr>\<rparr>)"

text \<open>\<open>catch\<close>: whatever a handler threw, the client is told its message is not valid JSON.\<close>

definition catch_exception ::
  "'key env \<Rightarrow> int \<Rightarrow> socket \<Rightarrow> device_id \<Rightarrow> gateway \<Rightarrow> gateway" where
  "catch_exception e now s did g =
     (if raised g = None then g
      else push_error e now s did INVALID_MESSAGE ''Message is not valid JSON'' None (g\<lparr>raised := None\<rparr>))"

definition WebsocketRouter_readFrame ::
  "'key env \<Rightarrow> int \<Rightarrow> socket \<Rightarrow> device_id \<Rightarrow> nat \<Rightarrow> frame_content \<Rightarrow> gateway \<Rightarrow> gateway" where
  "WebsocketRouter_readFrame e now s did byteCount content g =
     (if maximumInboundMessageBytes < byteCount
      then push_error e now s did MESSAGE_TOO_LARGE ''Message exceeds the maximum allowed size'' None g
      else
        (case content of
           Not_json \<Rightarrow> push_error e now s did INVALID_MESSAGE ''Message is not valid JSON'' None g
         | Json received parsed \<Rightarrow>
             if Envelope_isUnwrappedMessage received
             then push_error e now s did UNSUPPORTED
               (''This gateway speaks protocol version '' @ show_int protocolVersion @
                '', in which every message travels inside a wrapper carrying v, id, ts, and body'')
               (Some (Supported_protocol_versions supportedProtocolVersions)) g
             else
               (case parsed of
                  None \<Rightarrow> push_error e now s did INVALID_MESSAGE
                    ''Message does not match the supported protocol'' None g
                | Some f \<Rightarrow>
                    if \<not> valid_ClientEnvelope f
                    then push_error e now s did INVALID_MESSAGE
                      ''Message does not match the supported protocol'' None g
                    else if \<not> Envelope_supportsVersion (env_v f)
                    then reply_error e now s did (env_id f) UNSUPPORTED
                      (''This gateway does not speak protocol version '' @ show_int (env_v f))
                      (no_options\<lparr>opt_retryable := Some False,
                         opt_details := Some (Supported_protocol_versions supportedProtocolVersions)\<rparr>) g
                    else catch_exception e now s did
                      (ClientMessageHandler_handle e now s did (env_body f) (env_id f) (log_received did f g)))))"

section \<open>Connections\<close>

definition WebsocketRouter_acceptConnection ::
  "'key env \<Rightarrow> socket \<Rightarrow> string option \<Rightarrow> gateway \<Rightarrow> gateway" where
  "WebsocketRouter_acceptConnection e s ip g =
     (let (uuid, g1) = draw_uuid e g;
          did = ''device-'' @ uuid;
          h = hub g1;
          h1 = h\<lparr>socketMap := map_set (socketMap h) did s\<rparr>;
          h2 = (case ip of None \<Rightarrow> h1 | Some a \<Rightarrow> h1\<lparr>ipAddressMap := map_set (ipAddressMap h1) did a\<rparr>)
      in g1\<lparr>hub := h2, world := (world g1)\<lparr>openSockets := set_add (openSockets (world g1)) s\<rparr>\<rparr>)"

definition WebsocketRouter_connectionClosed :: "'key env \<Rightarrow> int \<Rightarrow> device_id \<Rightarrow> gateway \<Rightarrow> gateway" where
  "WebsocketRouter_connectionClosed e now did g =
     (let g1 = g\<lparr>hub := ConnectionHub_forget did (hub g),
                 sessionRegistry := SessionRegistry_close did (sessionRegistry g),
                 challengeRegistry := ChallengeRegistry_close did (challengeRegistry g),
                 rateLimiter := DiagnosticsRateLimiter_forget did (rateLimiter g)\<rparr>;
          (removal, reg) = DeviceRegistry_remove did (deviceRegistry g1);
          g2 = DeviceAnnouncer_publishRemoval e now removal (g1\<lparr>deviceRegistry := reg\<rparr>)
      in TaskScheduler_recoverWorkerAssignments e now did g2)"

section \<open>Events\<close>

datatype gateway_event =
    Connection_opened socket "string option"
  | Frame_arrived device_id nat frame_content
  | Socket_closing socket
  | Connection_closed device_id
  | Account_answered nat
  | Recovery_tick
  | Activity_flush
  | Pong_received socket

text \<open>The recovery timer: retry what expired, then place what waits.\<close>

definition recovery_sweep :: "'key env \<Rightarrow> int \<Rightarrow> gateway \<Rightarrow> gateway" where
  "recovery_sweep e now g =
     (let g1 = TaskScheduler_recoverAssignments e now g
      in if raised g1 \<noteq> None then g1 else TaskScheduler_scheduleQueuedTasks e now g1)"

text \<open>Removing a finished continuation keeps the others in order.\<close>

definition remove_nth :: "nat \<Rightarrow> 'a list \<Rightarrow> 'a list" where
  "remove_nth i xs = take i xs @ drop (Suc i) xs"

fun enabled :: "gateway \<Rightarrow> gateway_event \<Rightarrow> bool" where
  "enabled g (Frame_arrived did _ _) = map_has (socketMap (hub g)) did"
| "enabled g (Connection_closed did) = map_has (socketMap (hub g)) did"
| "enabled g (Account_answered i) = (i < length (pending g))"
| "enabled g Activity_flush = activityTimer (announcer g)"
| "enabled g _ = True"

fun gateway_next :: "'key env \<Rightarrow> int \<Rightarrow> gateway_event \<Rightarrow> gateway \<Rightarrow> gateway" where
  "gateway_next e now (Connection_opened s ip) g = WebsocketRouter_acceptConnection e s ip g"
| "gateway_next e now (Frame_arrived did n content) g =
     (case map_get (socketMap (hub g)) did of
        None \<Rightarrow> g
      | Some s \<Rightarrow> WebsocketRouter_readFrame e now s did n content g)"
| "gateway_next e now (Socket_closing s) g =
     g\<lparr>world := (world g)\<lparr>openSockets := set_remove (openSockets (world g)) s\<rparr>\<rparr>"
| "gateway_next e now (Connection_closed did) g = WebsocketRouter_connectionClosed e now did g"
| "gateway_next e now (Account_answered i) g =
     (if i < length (pending g)
      then run_continuation e now (pending g ! i) (g\<lparr>pending := remove_nth i (pending g)\<rparr>) else g)"
| "gateway_next e now Recovery_tick g = recovery_sweep e now g"
| "gateway_next e now Activity_flush g = DeviceAnnouncer_flushDeviceActivity e now g"
| "gateway_next e now (Pong_received s) g =
     (case ConnectionHub_deviceIdForSocket g s of
        None \<Rightarrow> g
      | Some did \<Rightarrow> DeviceAnnouncer_noteDeviceAnsweredPing now did g)"

inductive gateway_step :: "'key env \<Rightarrow> gateway \<Rightarrow> int \<times> gateway_event \<Rightarrow> gateway \<Rightarrow> bool" for e where
  step: "enabled g ev \<Longrightarrow> raised g = None \<Longrightarrow> gateway_step e g (now, ev) (gateway_next e now ev g)"

inductive_cases gateway_stepE: "gateway_step e g l g'"
inductive_simps gateway_step_iff: "gateway_step e g (now, ev) g'"

text \<open>The state in which a gateway starts to serve, from what its three files hold.\<close>

definition initial_gateway :: "task_store \<Rightarrow> account_registry \<Rightarrow> ledger_store \<Rightarrow> gateway" where
  "initial_gateway store accounts led =
     \<lparr>taskStore = store, deviceRegistry = empty_device_registry,
      hub = \<lparr>socketMap = [], ipAddressMap = [], observerDeviceIds = [], deviceSubscriberIds = [],
             taskObserverDeviceIds = []\<rparr>,
      announcer = \<lparr>pendingActivityDeviceIds = [], activityTimer = False\<rparr>,
      sessionRegistry = \<lparr>sessionsByDeviceId = []\<rparr>, challengeRegistry = \<lparr>challengesByDeviceId = []\<rparr>,
      accountRegistry = accounts, ledgerStore = led, rateLimiter = \<lparr>acceptedTimestamps = []\<rparr>,
      pending = [], world = \<lparr>nonce = 0, openSockets = [], outbox = [], messageLog = []\<rparr>,
      raised = None\<rparr>"

end
