(* ===== verification/Gateway_Refinement.thy ===== *)
theory Gateway_Refinement
  imports Websocket_Router
begin

text \<open>
  The whole gateway refines the task machine of \<open>Task_Lifecycle\<close>. Every handler of
  \<open>client_message_handler.ts\<close>, every account message, every continuation, every timer and every opening or
  closing of a connection changes the task store by a run of \<open>store_step\<close> and keeps the invariant
  \<open>core_inv\<close>; so what the machine promises about tasks holds of the gateway in every reachable state. The
  last part interprets the locale of invariant machines on \<open>gateway_step\<close>.
\<close>

section \<open>Replies and other quiet steps\<close>

lemma reply_only_sends [simp, intro]:
  "only_sends g (reply_with e now s did r m g)"
  "only_sends g (reply_error e now s did r code txt opts g)"
  "only_sends g (ClientMessageHandler_sendDeviceList e now s did r g)"
  "only_sends g (ClientMessageHandler_sendTaskNotFound e now s did r tid g)"
  "only_sends g (not_allowed_to_read e now s did r tid g)"
  "only_sends g (push_error e now s did code txt d g)"
  by (simp_all add: reply_with_def reply_error_def ClientMessageHandler_sendDeviceList_def
      ClientMessageHandler_sendTaskNotFound_def not_allowed_to_read_def push_error_def)

lemmas reply_frame [simp, frame_simps] =
  only_sends_fields [OF reply_only_sends(1)] only_sends_fields [OF reply_only_sends(2)]
  only_sends_fields [OF reply_only_sends(3)] only_sends_fields [OF reply_only_sends(4)]
  only_sends_fields [OF reply_only_sends(5)] only_sends_fields [OF reply_only_sends(6)]

lemma send_nonce [simp]:
  "nonce (world (ConnectionHub_send e now s m c r g)) = Suc (nonce (world g))"
  by (simp add: ConnectionHub_send_def draw_uuid_def Let_def)

lemma reply_nonce [simp]:
  "nonce (world (reply_with e now s did r m g)) = Suc (nonce (world g))"
  "nonce (world (reply_error e now s did r code txt opts g)) = Suc (nonce (world g))"
  "nonce (world (ClientMessageHandler_sendDeviceList e now s did r g)) = Suc (nonce (world g))"
  "nonce (world (ClientMessageHandler_sendTaskNotFound e now s did r tid g)) = Suc (nonce (world g))"
  "nonce (world (not_allowed_to_read e now s did r tid g)) = Suc (nonce (world g))"
  "nonce (world (push_error e now s did code txt d g)) = Suc (nonce (world g))"
  by (simp_all add: reply_with_def reply_error_def ClientMessageHandler_sendDeviceList_def
      ClientMessageHandler_sendTaskNotFound_def not_allowed_to_read_def push_error_def
      ConnectionHub_sendError_def)

text \<open>A quiet step leaves the tasks and the devices alone.\<close>

definition quiet :: "gateway \<Rightarrow> gateway \<Rightarrow> bool" where
  "quiet g g' \<longleftrightarrow> taskStore g' = taskStore g \<and> deviceRegistry g' = deviceRegistry g
     \<and> raised g' = raised g \<and> nonce (world g) \<le> nonce (world g')"

lemma quiet_refl [simp, intro]: "quiet g g"
  by (simp add: quiet_def)

lemma quiet_trans: "quiet g h \<Longrightarrow> quiet h k \<Longrightarrow> quiet g k"
  by (simp add: quiet_def)

lemma refines_quiet: "core_inv e g \<Longrightarrow> quiet g g' \<Longrightarrow> refines A e g g'"
  by (rule refines_same_store) (auto simp: quiet_def core_inv_def)

lemma account_quiet: "quiet g (AccountMessageHandler_handle e now s did m reply g)"
  by (cases m) (simp_all add: AccountMessageHandler_handle_def quiet_def Let_def case_prod_beta
      split: option.split challenge_verdict.split)

lemma continuation_quiet: "quiet g (run_continuation e now c g)"
  by (cases c) (simp_all add: AccountMessageHandler_registerAccount_def
      AccountMessageHandler_authenticateAccount_def quiet_def Let_def case_prod_beta split: option.split)

lemma summary_quiet: "quiet g (AccountingSummaryHandler_handle e now s did reply g)"
  by (simp add: AccountingSummaryHandler_handle_def quiet_def)

lemma set_observers_frame [simp]:
  "taskStore (set_observers tid os g) = taskStore g" "deviceRegistry (set_observers tid os g) = deviceRegistry g"
  "raised (set_observers tid os g) = raised g" "world (set_observers tid os g) = world g"
  by (simp_all add: set_observers_def)

lemma manage_observer_quiet: "quiet g (manage_observer e now s did reply tid c b g)"
  by (simp add: manage_observer_def quiet_def split: option.split)

lemma task_reads_quiet:
  "ClientMessageHandler_handleTaskReads e now s did m reply g = Some g' \<Longrightarrow> quiet g g'"
  by (cases m) (auto simp: ClientMessageHandler_handleTaskReads_def quiet_def
      manage_observer_quiet [unfolded quiet_def] split: option.splits if_splits)

text \<open>
  The one exception that can leave a handler: reading a ledger file that does not parse. Whatever it did
  before is quiet too.
\<close>

definition settles :: "store_label set \<Rightarrow> 'key env \<Rightarrow> gateway \<Rightarrow> gateway \<Rightarrow> bool" where
  "settles A e g g' \<longleftrightarrow> refines A e g (g'\<lparr>raised := None\<rparr>)
     \<and> (raised g' = None \<or> (\<exists>err. raised g' = Some (Ledger_exception err) \<and> LedgerStore_readAll (ledgerStore g) = Inl err))"

lemma raised_None_update: "raised g = None \<Longrightarrow> g\<lparr>raised := None\<rparr> = g"
  by simp

lemma refines_settles: "refines A e g g' \<Longrightarrow> settles A e g g'"
proof -
  assume r: "refines A e g g'"
  then have n: "raised g' = None" by (simp add: refines_def core_inv_def)
  with r show "settles A e g g'" unfolding settles_def raised_None_update [OF n] by simp
qed

lemma readable_quiet:
  "AccountingQueryHandler_readableAccountId e now s did requested reply g = (r, g') \<Longrightarrow>
   quiet g g' \<and> ledgerStore g' = ledgerStore g"
  by (auto simp: AccountingQueryHandler_readableAccountId_def quiet_def Let_def case_prod_beta
      split: option.splits if_splits)
lemma query_settles:
  assumes inv: "core_inv e g"
  shows "settles A e g (AccountingQueryHandler_handle e now s did m reply g)"
proof -
  have q: "settles A e g h" if "quiet g h" for h using refines_settles [OF refines_quiet [OF inv that]] .
  show ?thesis
  proof (cases m)
    case (Account_ledger_get requested direction limit before)
    obtain r h where h: "AccountingQueryHandler_readableAccountId e now s did requested reply g = (r, h)"
      by fastforce
    note rq = readable_quiet [OF h]
    show ?thesis
    proof (cases r)
      case None
      with h rq Account_ledger_get show ?thesis by (simp add: AccountingQueryHandler_handle_def q)
    next
      case (Some aid)
      have "quiet g (reply_with e now s did reply x h)" for x using rq by (simp add: quiet_def)
      moreover have "settles A e g (h\<lparr>raised := Some (Ledger_exception err)\<rparr>)"
        if "LedgerStore_readAll (ledgerStore g) = Inl err" for err
        using refines_quiet [OF inv, of "h\<lparr>raised := None\<rparr>"] rq that inv
        by (auto simp: settles_def quiet_def core_inv_def)
      ultimately show ?thesis using h Some Account_ledger_get rq
        by (auto simp: AccountingQueryHandler_handle_def LedgerStore_entriesFor_def Let_def q split: sum.split)
    qed
  qed (auto simp: AccountingQueryHandler_handle_def quiet_def intro!: q
      split: option.split prod.split dest!: readable_quiet)
qed

section \<open>Who may change what\<close>

text \<open>
  The changes of the store a message may cause, in the machine's labels: a submission creates and places a
  task that did not exist; a cancellation withdraws a task of its sender; a report about an assignment
  changes the one task whose current assignment its sender holds, under the identifier and attempt it
  names; a worker that registers or becomes ready lets the scheduler place what waits; nothing else changes
  anything.
\<close>

definition holds :: "gateway \<Rightarrow> device_id \<Rightarrow> task_id \<Rightarrow> string \<Rightarrow> nat \<Rightarrow> bool" where
  "holds g did tid aid n \<longleftrightarrow> is_worker g did \<and> held_assignment g did tid aid n \<noteq> None"

definition owns :: "gateway \<Rightarrow> device_id \<Rightarrow> task_id \<Rightarrow> bool" where
  "owns g did tid \<longleftrightarrow> map_option consumerDeviceId (map_get (tasks (taskStore g)) tid) = Some did"

definition creations :: "gateway \<Rightarrow> store_label set" where
  "creations g = {l. \<exists>tid. map_get (tasks (taskStore g)) tid = None \<and> (l = Submitted tid \<or> l = Changed tid Moved)}"

definition authorised :: "gateway \<Rightarrow> device_id \<Rightarrow> client_message \<Rightarrow> store_label set" where
  "authorised g did m = (case m of
       DeviceRegister _ _ _ _ _ \<Rightarrow> moves
     | Worker_state _ _ \<Rightarrow> (if is_worker g did then moves else {})
     | Task_submit _ _ _ _ \<Rightarrow>
         (if map_option deviceRole (DeviceRegistry_get (deviceRegistry g) did) = Some Consumer then creations g else {})
     | Task_cancel tid _ \<Rightarrow> (if owns g did tid then {Changed tid Withdrawn} else {})
     | Stage_heartbeat tid aid n \<Rightarrow> (if holds g did tid aid n then {Changed tid Renewed} else {})
     | Stage_accepted tid aid n \<Rightarrow> (if holds g did tid aid n then {Changed tid Accepted} else {})
     | Stage_relinquish tid aid n \<Rightarrow> (if holds g did tid aid n then {Changed tid Moved} else {})
     | Stage_result tid aid n _ _ \<Rightarrow> (if holds g did tid aid n then {Changed tid (Advanced aid)} else {})
     | Stage_failed tid aid n _ _ \<Rightarrow> (if holds g did tid aid n then {Changed tid (Broken aid)} else {})
     | _ \<Rightarrow> {})"

lemma authorised_cong:
  assumes "taskStore g' = taskStore g"
    and "map_option deviceRole (DeviceRegistry_get (deviceRegistry g') did) =
      map_option deviceRole (DeviceRegistry_get (deviceRegistry g) did)"
  shows "authorised g' did m = authorised g did m"
proof -
  have "is_worker g' did = is_worker g did"
    using assms(2) by (auto simp: is_worker_def split: option.splits)
  with assms show ?thesis
    by (cases m) (auto simp: authorised_def holds_def owns_def creations_def held_assignment_def)
qed

text \<open>With the two gates in front of the handlers: a live session, and registration.\<close>

fun is_registration :: "client_message \<Rightarrow> bool" where
  "is_registration (DeviceRegister _ _ _ _ _) = True"
| "is_registration _ = False"

definition message_authority :: "int \<Rightarrow> gateway \<Rightarrow> device_id \<Rightarrow> client_message \<Rightarrow> store_label set" where
  "message_authority now g did m =
     (if live_session (sessionRegistry g) did now = None then {}
      else if is_registration m then moves
      else if DeviceRegistry_get (deviceRegistry g) did = None then {}
      else authorised g did m)"

section \<open>Changes of one task\<close>

text \<open>A handler that replaces one task by a step of the machine and otherwise only sends or announces.\<close>

lemma step_refines:
  assumes inv: "core_inv e g" and t: "map_get (tasks (taskStore g)) tid = Some t"
    and step: "task_step (maximumAttempts e) t l t'"
    and store: "tasks (taskStore g') = map_set (tasks (taskStore g)) tid t'"
      "taskIdByConsumerTaskRequest (taskStore g') = taskIdByConsumerTaskRequest (taskStore g)"
      "durable (storeSettings e) (taskStore g')"
    and "wf_devices (deviceRegistry g')" and "raised g' = None"
    and nonce: "nonce (world g) \<le> nonce (world g')" and ids: "attempt_ids t' = attempt_ids t"
    and label: "Changed tid l \<in> A"
  shows "refines A e g g'"
proof (rule refines_replaced [OF inv t step _ assms(7,8) nonce _ label])
  show "task_replaced e g g' tid t'" using store by (simp add: task_replaced_def)
  show "ids_drawn e (nonce (world g')) t'"
    using ids_drawn_mono [OF core_task(3) [OF inv t] nonce] ids_drawn_same [OF ids] by blast
qed

lemma cancel_refines:
  assumes inv: "core_inv e g"
  shows "refines (authorised g did (Task_cancel tid reason)) e g (cancel_task e now s did reply tid reason g)"
proof (cases "TaskStore_get (taskStore g) tid")
  case None
  then show ?thesis by (simp add: cancel_task_def refines_only_sends [OF inv])
next
  case (Some t)
  then have t: "map_get (tasks (taskStore g)) tid = Some t" by (simp add: TaskStore_get_def)
  have id: "taskId t = tid" by (rule core_task(1) [OF inv t])
  show ?thesis
  proof (cases "consumerDeviceId t = did")
    case False
    with Some show ?thesis by (simp add: cancel_task_def refines_only_sends [OF inv])
  next
    case True
    let ?t' = "updated_task now (with_cancellation now reason) t"
    obtain st where st: "TaskStore_cancel (storeSettings e) now tid reason (taskStore g) = Inr (?t', st)"
      "tasks st = map_set (tasks (taskStore g)) tid ?t'"
      "taskIdByConsumerTaskRequest st = taskIdByConsumerTaskRequest (taskStore g)"
      using update_found [OF t] unfolding cancel_found [OF t] by metis
    define g2 where "g2 = (case stageAssignment t of
        None \<Rightarrow> g\<lparr>taskStore := st\<rparr>
      | Some a \<Rightarrow>
          let g' = DeviceAnnouncer_releaseWorkerAssignment e now (workerDeviceId a) (g\<lparr>taskStore := st\<rparr>)
          in (case map_get (socketMap (hub g')) (workerDeviceId a) of
                None \<Rightarrow> g'
              | Some ws \<Rightarrow> ConnectionHub_send e now ws
                  (Stage_cancel (taskId t) (stageAssignmentId a) (attempt a) reason)
                  (ConnectionHub_counterpartFor g' (workerDeviceId a) None) None g'))"
    have eq: "cancel_task e now s did reply tid reason g = TaskScheduler_broadcastTask e now (taskId ?t') g2"
      using Some True by (simp add: cancel_task_def id st(1) g2_def Let_def)
    have core: "same_core (g\<lparr>taskStore := st\<rparr>) g2"
      unfolding g2_def Let_def
      by (auto split: option.split intro: same_core_trans [OF release_same_core only_sends_same_core])
    have wf: "wf_devices (deviceRegistry g2)"
      using inv by (auto simp: g2_def Let_def core_inv_def split: option.split)
    have "same_core (g\<lparr>taskStore := st\<rparr>) (TaskScheduler_broadcastTask e now (taskId ?t') g2)"
      by (rule same_core_trans [OF core only_sends_same_core]) simp
    from same_core_fields [OF this] wf inv durable_cancel [OF st(1)] st(2,3)
    show ?thesis unfolding eq
      by (intro step_refines [OF inv t task_step.withdrawn])
        (use True t in \<open>simp_all add: core_inv_def authorised_def owns_def\<close>)
  qed
qed

lemma held_assignment_Some:
  assumes "core_inv e g" and "held_assignment g did tid aid n = Some (t, a)"
  shows "map_get (tasks (taskStore g)) tid = Some t" "taskId t = tid" "stageAssignment t = Some a"
    "stageAssignmentId a = aid" "attempt a = n" "workerDeviceId a = did"
  using assms core_task(1) [OF assms(1), of tid t]
  by (auto simp: held_assignment_def current_assignment_def TaskStore_get_def split: option.splits if_splits)

lemma accept_found:
  assumes "map_get (tasks st) tid = Some t" and "stageAssignment t = Some a"
  shows "TaskStore_acceptAssignment cfg now tid st = TaskStore_update cfg now tid (accept_assignment now a) st"
  using assms by (simp add: TaskStore_acceptAssignment_def TaskStore_get_def accept_assignment_def [abs_def] Let_def)

lemma renew_found:
  assumes "map_get (tasks st) tid = Some t" and "stageAssignment t = Some a"
  shows "TaskStore_renewLease cfg now tid lease st = (Some (now + lease),
    TaskStore_persist cfg (st\<lparr>tasks := map_set (tasks st) tid (renew_assignment (now + lease) a t)\<rparr>))"
  using assms by (simp add: TaskStore_renewLease_def TaskStore_get_def renew_assignment_def Let_def)

lemma extend_lease_refines:
  assumes inv: "core_inv e g"
  shows "refines (authorised g did (Stage_heartbeat tid aid n)) e g (extend_lease e now s did reply tid aid n g)"
proof (cases "is_worker g did \<and> held_assignment g did tid aid n \<noteq> None")
  case False
  then consider "\<not> is_worker g did" | "held_assignment g did tid aid n = None" by blast
  then show ?thesis by cases (simp_all add: extend_lease_def refines_only_sends [OF inv])
next
  case True
  then obtain t a where h: "held_assignment g did tid aid n = Some (t, a)" by auto
  note t = held_assignment_Some [OF inv h]
  show ?thesis
    by (rule step_refines [OF inv t(1) task_step.renewed [OF t(3)]])
      (use True h inv in \<open>simp_all add: extend_lease_def t(2) renew_found [OF t(1,3)] Let_def core_inv_def
        authorised_def holds_def\<close>)
qed

lemma update_assignment_refines:
  assumes inv: "core_inv e g" and inj: "inj (randomUUID e)"
  shows "refines (authorised g did (if b then Stage_accepted tid aid n else Stage_relinquish tid aid n)) e g
    (update_assignment e now s did reply b tid aid n g)"
proof (cases "is_worker g did \<and> held_assignment g did tid aid n \<noteq> None")
  case False
  then consider "\<not> is_worker g did" | "held_assignment g did tid aid n = None" by blast
  then show ?thesis by cases (simp_all add: update_assignment_def refines_only_sends [OF inv])
next
  case True
  then obtain t a where h: "held_assignment g did tid aid n = Some (t, a)" by auto
  note t = held_assignment_Some [OF inv h]
  show ?thesis
  proof (cases b)
    case False
    with True h retry_step_on [OF inv inj t(1,3)] show ?thesis
      by (simp add: update_assignment_def t(2) step_on_def authorised_def holds_def)
  next
    case b: True
    let ?t' = "updated_task now (accept_assignment now a) t"
    obtain st where st: "TaskStore_update (storeSettings e) now tid (accept_assignment now a) (taskStore g)
        = Inr (?t', st)" "tasks st = map_set (tasks (taskStore g)) tid ?t'"
      "taskIdByConsumerTaskRequest st = taskIdByConsumerTaskRequest (taskStore g)"
      using update_found [OF t(1)] by metis
    have eq: "update_assignment e now s did reply b tid aid n g
        = TaskScheduler_broadcastTask e now tid (g\<lparr>taskStore := st\<rparr>)"
      using True b h by (simp add: update_assignment_def t(2) accept_found [OF t(1,3)] st(1))
    have w: "world_le (world g) (world (TaskScheduler_broadcastTask e now tid (g\<lparr>taskStore := st\<rparr>)))"
      using only_sends_fields(12) [OF broadcast_only_sends, of "g\<lparr>taskStore := st\<rparr>" e now tid] by simp
    show ?thesis unfolding eq
      by (rule step_refines [OF inv t(1) task_step.accepted [OF t(3)]])
        (use True b h inv st durable_update [OF st(1)] w in
          \<open>simp_all add: core_inv_def world_le_def authorised_def holds_def\<close>)
  qed
qed

text \<open>What \<open>check_stage_report\<close> lets through is a running assignment of the worker that reports.\<close>

lemma check_stage_report_cases:
  assumes inv: "core_inv e g"
    and answered: "\<forall>t g g'. answered t g = Some g' \<longrightarrow> only_sends g g'"
  shows "(\<exists>g'. check_stage_report e now s did reply w x y z answered tid aid n stage g = Inl g' \<and> only_sends g g')
    \<or> (\<exists>t a. check_stage_report e now s did reply w x y z answered tid aid n stage g = Inr (t, a)
         \<and> map_get (tasks (taskStore g)) tid = Some t \<and> taskId t = tid \<and> stageAssignment t = Some a
         \<and> stageAssignmentId a = aid \<and> attempt a = n \<and> workerDeviceId a = did \<and> assignedStage a = stage
         \<and> taskState t = Running \<and> is_worker g did)"
proof (cases "TaskStore_get (taskStore g) tid")
  case None
  then show ?thesis by (simp add: check_stage_report_def Let_def)
next
  case (Some t)
  then have t: "map_get (tasks (taskStore g)) tid = Some t" by (simp add: TaskStore_get_def)
  show ?thesis
  proof (cases "current_assignment t aid n")
    case None
    with Some answered show ?thesis
      by (cases "answered t g") (auto simp: check_stage_report_def Let_def)
  next
    case (Some a)
    then have "stageAssignment t = Some a" "stageAssignmentId a = aid" "attempt a = n"
      by (auto simp: current_assignment_def split: option.splits if_splits)
    with \<open>TaskStore_get (taskStore g) tid = Some t\<close> t Some core_task(1) [OF inv t] show ?thesis
      by (auto simp: check_stage_report_def Let_def)
  qed
qed

lemma already_acknowledged_sends: "already_acknowledged e now s did reply aid n t g = Some g' \<Longrightarrow> only_sends g g'"
  by (auto simp: already_acknowledged_def split: if_splits)

lemma check_resultE:
  assumes "core_inv e g"
  obtains (refused) g' where "check_result e now s did reply tid aid n stage g = Inl g'" "only_sends g g'"
    | (checked) t a where "check_result e now s did reply tid aid n stage g = Inr (t, a)"
      "map_get (tasks (taskStore g)) tid = Some t" "taskId t = tid" "stageAssignment t = Some a"
      "stageAssignmentId a = aid" "attempt a = n" "workerDeviceId a = did" "assignedStage a = stage"
      "taskState t = Running" "is_worker g did"
proof -
  have "\<forall>t g g'. already_acknowledged e now s did reply aid n t g = Some g' \<longrightarrow> only_sends g g'"
    using already_acknowledged_sends by blast
  from check_stage_report_cases [OF assms this] that show ?thesis
    unfolding check_result_def by blast
qed

lemma check_failureE:
  assumes "core_inv e g"
  obtains (refused) g' where "check_failure e now s did reply tid aid n stage g = Inl g'" "only_sends g g'"
    | (checked) t a where "check_failure e now s did reply tid aid n stage g = Inr (t, a)"
      "map_get (tasks (taskStore g)) tid = Some t" "taskId t = tid" "stageAssignment t = Some a"
      "stageAssignmentId a = aid" "attempt a = n" "workerDeviceId a = did" "assignedStage a = stage"
      "taskState t = Running" "is_worker g did"
proof -
  have "\<forall>t g g'. (\<lambda>_ _. None) t g = Some g' \<longrightarrow> only_sends g g'" by simp
  from check_stage_report_cases [OF assms this] that show ?thesis
    unfolding check_failure_def by blast
qed

lemma checked_holds:
  assumes "map_get (tasks (taskStore g)) tid = Some t" and "taskId t = tid" and "stageAssignment t = Some a"
    and "stageAssignmentId a = aid" and "attempt a = n" and "workerDeviceId a = did" and "assignedStage a = stage"
    and "taskState t = Running" and "is_worker g did"
  shows "holds g did tid aid n"
  using assms by (auto simp: holds_def held_assignment_def current_assignment_def TaskStore_get_def)

lemma failure_refines:
  assumes inv: "core_inv e g"
  shows "refines (authorised g did (Stage_failed tid aid n stage err)) e g
    (ClientMessageHandler_acceptStageFailure e now s did reply tid aid n stage err g)"
proof (cases rule: check_failureE [OF inv, of now s did reply tid aid n stage, case_names refused checked])
  case refused
  then show ?thesis by (simp add: ClientMessageHandler_acceptStageFailure_def refines_only_sends [OF inv])
next
  case (checked t a)
  let ?t' = "updated_task now (fail_with err) t"
  obtain st where st: "TaskStore_update (storeSettings e) now tid (fail_with err) (taskStore g) = Inr (?t', st)"
    "tasks st = map_set (tasks (taskStore g)) tid ?t'"
    "taskIdByConsumerTaskRequest st = taskIdByConsumerTaskRequest (taskStore g)"
    using update_found [OF checked(2)] by metis
  define g1 where "g1 = DeviceAnnouncer_releaseWorkerAssignment e now did (g\<lparr>taskStore := st\<rparr>)"
  have eq: "ClientMessageHandler_acceptStageFailure e now s did reply tid aid n stage err g
      = TaskScheduler_broadcastTask e now tid g1"
    using st(1) checked(1) by (simp add: ClientMessageHandler_acceptStageFailure_def fail_with_def [abs_def] g1_def)
  have core: "same_core (g\<lparr>taskStore := st\<rparr>) (TaskScheduler_broadcastTask e now tid g1)"
    unfolding g1_def
    by (rule same_core_trans [OF release_same_core only_sends_same_core]) (rule broadcast_only_sends)
  have mv: "task_step (maximumAttempts e) t (Broken aid) ?t'"
    using task_step.broken [OF checked(9,4)] checked(5) by simp
  show ?thesis unfolding eq
    by (rule step_refines [OF inv checked(2) mv])
      (use inv st durable_update [OF st(1)] same_core_fields [OF core] checked_holds [OF checked(2-)] in
        \<open>simp_all add: core_inv_def g1_def authorised_def\<close>)
qed

section \<open>Stage results\<close>

lemma record_stage_frame [simp]:
  "taskStore (record_stage e now did t stage aid a g) = taskStore g"
  "deviceRegistry (record_stage e now did t stage aid a g) = deviceRegistry g"
  "raised (record_stage e now did t stage aid a g) = raised g"
  "hub (record_stage e now did t stage aid a g) = hub g"
  "nonce (world (record_stage e now did t stage aid a g)) = Suc (Suc (nonce (world g)))"
  by (simp_all add: record_stage_def draw_uuid_def Let_def case_prod_beta)

text \<open>The state in which \<open>advance_task\<close> runs: the result stored, the credit recorded, the worker released.\<close>

definition after_record ::
  "'key env \<Rightarrow> int \<Rightarrow> device_id \<Rightarrow> task \<Rightarrow> stage_name \<Rightarrow> string \<Rightarrow> stage_assignment \<Rightarrow> gateway \<Rightarrow> gateway" where
  "after_record e now did updated stage aid a g =
     DeviceAnnouncer_releaseWorkerAssignment e now did
       (if newText updated \<noteq> None
        then TaskScheduler_broadcastTask e now (taskId updated) (record_stage e now did updated stage aid a g)
        else record_stage e now did updated stage aid a g)"

lemma after_record_frame:
  assumes "wf_devices (deviceRegistry g)"
  shows "taskStore (after_record e now did t stage aid a g) = taskStore g"
    "raised (after_record e now did t stage aid a g) = raised g"
    "wf_devices (deviceRegistry (after_record e now did t stage aid a g))"
    "nonce (world g) \<le> nonce (world (after_record e now did t stage aid a g))"
proof -
  let ?g1 = "record_stage e now did t stage aid a g"
  define g2 where "g2 = (if newText t \<noteq> None then TaskScheduler_broadcastTask e now (taskId t) ?g1 else ?g1)"
  have eq: "after_record e now did t stage aid a g = DeviceAnnouncer_releaseWorkerAssignment e now did g2"
    by (simp add: after_record_def g2_def)
  have g2: "only_sends ?g1 g2" by (simp add: g2_def)
  have "nonce (world ?g1) \<le> nonce (world g2)" using only_sends_fields(12) [OF g2] by (simp add: world_le_def)
  then have "nonce (world g) \<le> nonce (world g2)" by simp
  also have "\<dots> \<le> nonce (world (DeviceAnnouncer_releaseWorkerAssignment e now did g2))"
    by (rule same_core_fields(11) [OF release_same_core])
  finally show "nonce (world g) \<le> nonce (world (after_record e now did t stage aid a g))" unfolding eq .
  show "taskStore (after_record e now did t stage aid a g) = taskStore g"
    "raised (after_record e now did t stage aid a g) = raised g"
    "wf_devices (deviceRegistry (after_record e now did t stage aid a g))"
    unfolding eq using only_sends_fields [OF g2] assms by simp_all
qed

lemma result_eq:
  assumes checked: "check_result e now s did reply tid aid n stage g = Inr (t, a)"
    and t: "map_get (tasks (taskStore g)) tid = Some t" "taskId t = tid"
  obtains st where
    "tasks st = map_set (tasks (taskStore g)) tid
       (updated_task now (with_stage t \<lparr>result_name = stage, result_value = v\<rparr> (Some aid)) t)"
    "taskIdByConsumerTaskRequest st = taskIdByConsumerTaskRequest (taskStore g)"
    "durable (storeSettings e) st"
    "ClientMessageHandler_acceptStageResult e now s did reply tid aid n stage v g =
       advance_task e now s did reply
         (updated_task now (with_stage t \<lparr>result_name = stage, result_value = v\<rparr> (Some aid)) t) aid n v
         (after_record e now did
           (updated_task now (with_stage t \<lparr>result_name = stage, result_value = v\<rparr> (Some aid)) t) stage aid a
           (g\<lparr>taskStore := st\<rparr>))"
proof -
  let ?t1 = "updated_task now (with_stage t \<lparr>result_name = stage, result_value = v\<rparr> (Some aid)) t"
  obtain st where st: "TaskStore_addStage (storeSettings e) now tid
        \<lparr>result_name = stage, result_value = v\<rparr> (Some aid) (taskStore g) = Inr (?t1, st)"
      "tasks st = map_set (tasks (taskStore g)) tid ?t1"
      "taskIdByConsumerTaskRequest st = taskIdByConsumerTaskRequest (taskStore g)"
    using update_found [OF t(1)] unfolding addStage_found [OF t(1)] by metis
  show ?thesis
    by (rule that [of st])
      (use st durable_addStage [OF st(1)] checked in
        \<open>simp_all add: ClientMessageHandler_acceptStageResult_def after_record_def t(2) Let_def\<close>)
qed

lemma map_set_again: "map_set (map_set m k a) k b = map_set m k b"
  by simp

lemma result_refines:
  assumes inv: "core_inv e g" and inj: "inj (randomUUID e)"
  shows "refines (authorised g did (Stage_result tid aid n stage v)) e g
      (ClientMessageHandler_acceptStageResult e now s did reply tid aid n stage v g)" (is "refines ?A e g ?h")
proof (cases rule: check_resultE [OF inv, of now s did reply tid aid n stage, case_names refused checked])
  case refused
  then show ?thesis by (simp add: ClientMessageHandler_acceptStageResult_def refines_only_sends [OF inv])
next
  case (checked t a)
  have label: "Changed tid (Advanced (stageAssignmentId a)) \<in> ?A"
    using checked_holds [OF checked(2-)] checked(5) by (simp add: authorised_def)
  let ?M = "maximumAttempts e" and ?r = "\<lparr>result_name = stage, result_value = v\<rparr>"
  define t1 where "t1 = updated_task now (with_stage t ?r (Some aid)) t"
  obtain st where st: "tasks st = map_set (tasks (taskStore g)) tid t1"
    "taskIdByConsumerTaskRequest st = taskIdByConsumerTaskRequest (taskStore g)"
    "durable (storeSettings e) st"
    and h: "?h = advance_task e now s did reply t1 aid n v
      (after_record e now did t1 stage aid a (g\<lparr>taskStore := st\<rparr>))"
    by (rule result_eq [OF checked(1-3), of v, folded t1_def])
  define g3 where "g3 = after_record e now did t1 stage aid a (g\<lparr>taskStore := st\<rparr>)"
  have wf: "wf_devices (deviceRegistry g)" and raised: "raised g = None" using inv by (simp_all add: core_inv_def)
  have g3: "taskStore g3 = st" "raised g3 = None" "wf_devices (deviceRegistry g3)"
    "nonce (world g) \<le> nonce (world g3)"
    using after_record_frame [of "g\<lparr>taskStore := st\<rparr>" e now did t1 stage aid a] wf raised
    by (simp_all add: g3_def)
  have t1_eq: "t1 = updated_task now (with_stage t \<lparr>result_name = assignedStage a, result_value = v\<rparr>
      (Some (stageAssignmentId a))) t" using checked by (simp add: t1_def)
  note after = after_stage [OF core_task(2) [OF inv checked(2)] checked(4) refl t1_eq]
  have id1: "taskId t1 = tid" using checked(3) by (simp add: t1_def updated_task_def with_stage_def Let_def)
  have ids1: "attempt_ids t1 = attempt_ids t" by (simp add: t1_def)
  have in3: "map_get (tasks (taskStore g3)) tid = Some t1" by (simp add: g3 st)
  show ?thesis
  proof (cases "TaskStore_nextStage t1")
    case None
    let ?t2 = "updated_task now (complete_with v) t1"
    obtain st2 where st2: "TaskStore_update (storeSettings e) now tid (complete_with v) (taskStore g3) = Inr (?t2, st2)"
      "tasks st2 = map_set (tasks (taskStore g3)) tid ?t2"
      "taskIdByConsumerTaskRequest st2 = taskIdByConsumerTaskRequest (taskStore g3)"
      using update_found [OF in3] by metis
    have step: "task_step ?M t (Advanced (stageAssignmentId a)) ?t2"
      by (rule task_step.completed [OF checked(9,4) refl t1_eq None])
    define g5 where "g5 = TaskScheduler_broadcastTask e now tid (g3\<lparr>taskStore := st2\<rparr>)"
    have g5: "only_sends (g3\<lparr>taskStore := st2\<rparr>) g5" by (simp add: g5_def)
    have hh: "?h = reply_with e now s did reply
        (Stage_result_accepted (taskId ?t2) aid n (taskRevision ?t2) Status_completed) g5"
      using st2(1) None unfolding h g3_def [symmetric]
      by (simp add: advance_task_def id1 complete_with_def [abs_def] g5_def)
    have "nonce (world g) \<le> nonce (world g5)"
      using g3(4) only_sends_fields(12) [OF g5] by (simp add: world_le_def)
    then show ?thesis unfolding hh
      by (intro step_refines [OF inv checked(2) step])
        (use st st2 g3 only_sends_fields [OF g5] durable_update [OF st2(1)] ids1 label in \<open>simp_all add: map_set_again\<close>)
  next
    case (Some upcoming)
    define opts where "opts = \<lparr>excluded = (if policy_prefersSameWorkerOnRetry
          (StagePolicyResolver_resolve (pipelineRegistry e) (defaultLeaseMs e) t1 upcoming) then [] else [did]),
        opt_retryReason = None,
        preferredWorkerDeviceId = WorkerPlacement_preferredWorkerDeviceId t1 upcoming
          (StagePolicyResolver_resolve (pipelineRegistry e) (defaultLeaseMs e) t1 upcoming) (Some did),
        isPreviousAssignmentReleased = True\<rparr>"
    define g4 where "g4 = TaskScheduler_assign e now tid v upcoming opts g3"
    have drawn: "ids_drawn e (nonce (world g3)) t1"
      using ids_drawn_mono [OF core_task(3) [OF inv checked(2)] g3(4)] ids_drawn_same [OF ids1] by blast
    have open1: "\<not> isFinished (taskState t1)" using after(3) checked(9) by simp
    have nv: "v = next_value t1" by (simp add: next_value_def after(4))
    from assign_moves [OF in3 g3(3) inj drawn open1 Some nv, of now opts]
    obtain t2 where t2: "task_move ?M t1 t2" "task_replaced e g3 g4 tid t2" "same_rest g3 g4"
      "wf_devices (deviceRegistry g4)" "ids_drawn e (nonce (world g4)) t2" unfolding g4_def by blast
    have step: "task_step ?M t (Advanced (stageAssignmentId a)) t2"
      by (rule task_step.advanced [OF checked(9,4) refl t1_eq _ t2(1)]) (simp add: Some)
    have nonce: "nonce (world g) \<le> nonce (world g4)" using g3(4) same_rest_fields(10) [OF t2(3)] by simp
    have rep: "task_replaced e g g4 tid t2"
      using t2(2) unfolding task_replaced_def g3(1) st(1,2) by (simp add: map_set_again)
    have ref: "refines ?A e g g4"
      by (rule refines_replaced [OF inv checked(2) step rep t2(4) _ nonce t2(5) label])
        (use same_rest_fields [OF t2(3)] g3(2) in simp)
    have hh: "?h = (if raised g4 \<noteq> None then g4
        else case TaskStore_get (taskStore g4) tid of None \<Rightarrow> g4
           | Some assigned \<Rightarrow> reply_with e now s did reply
               (Stage_result_accepted (taskId assigned) aid n (taskRevision assigned) Status_assigned) g4)"
      unfolding h g3_def [symmetric] advance_task_def Some option.case Let_def id1 opts_def [symmetric]
        g4_def [symmetric] by (rule refl)
    have "only_sends g4 ?h" unfolding hh by (simp split: option.split)
    then show ?thesis by (rule refines_trans [OF ref refines_only_sends [OF refines_core [OF ref]]])
  qed
qed

section \<open>Submission\<close>

lemma task_id_unused:
  assumes inv: "core_inv e g" and inj: "inj (randomUUID e)"
  shows "map_get (tasks (taskStore g)) (''task-'' @ randomUUID e (nonce (world g))) = None"
proof (rule ccontr)
  assume "map_get (tasks (taskStore g)) (''task-'' @ randomUUID e (nonce (world g))) \<noteq> None"
  then obtain u where "map_get (tasks (taskStore g)) (''task-'' @ randomUUID e (nonce (world g))) = Some u" by blast
  with inv obtain k where k: "k < nonce (world g)"
    "''task-'' @ randomUUID e (nonce (world g)) = ''task-'' @ randomUUID e k" unfolding core_inv_def by blast
  then have "randomUUID e (nonce (world g)) = randomUUID e k" by simp
  with injD [OF inj this] k(1) show False by simp
qed

lemma refines_submitted:
  assumes inv: "core_inv e g" and inj: "inj (randomUUID e)"
    and t: "fresh_task t" "taskId t = ''task-'' @ randomUUID e (nonce (world g))"
    and new: "TaskStore_findByTaskRequest (taskStore g) (consumerDeviceId t) (taskRequestId t) = None"
    and st: "tasks (taskStore g') = map_set (tasks (taskStore g)) (taskId t) t"
      "taskIdByConsumerTaskRequest (taskStore g') =
         map_set (taskIdByConsumerTaskRequest (taskStore g)) (request_key t) (taskId t)"
      "durable (storeSettings e) (taskStore g')"
    and limit: "\<And>who. consumerAuthIdentity t = Some who \<Longrightarrow>
      active_tasks who (taskStore g) < maximumTasksPerPrincipal e"
    and rest: "wf_devices (deviceRegistry g')" "raised g' = None" "nonce (world g) < nonce (world g')"
  shows "refines (creations g) e g g'"
proof -
  let ?cfg = "storeSettings e" and ?M = "maximumAttempts e" and ?L = "maximumTasksPerPrincipal e"
  have unused: "map_get (tasks (taskStore g)) (taskId t) = None"
    unfolding t(2) by (rule task_id_unused [OF inv inj])
  have s: "store_step ?cfg ?M ?L (taskStore g) (Submitted (taskId t)) (taskStore g')"
    by (rule store_step.submitted [OF unused new t(1) limit st(3,1,2)])
  have "store_inv ?cfg ?M ?L (taskStore g')"
    by (rule store_step_inv [OF s]) (use inv in \<open>simp add: core_inv_def\<close>)
  moreover have "ids_drawn e (nonce (world g')) u \<and> (\<exists>k < nonce (world g'). tid = ''task-'' @ randomUUID e k)"
    if u: "map_get (tasks (taskStore g')) tid = Some u" for tid u
  proof (cases "tid = taskId t")
    case True
    with u st(1) have "u = t" by simp
    with t rest(3) True show ?thesis by (auto simp: ids_drawn_def attempt_ids_def fresh_task_def)
  next
    case False
    with u st(1) have u: "map_get (tasks (taskStore g)) tid = Some u" by simp
    obtain k where k: "k < nonce (world g)" "tid = ''task-'' @ randomUUID e k"
      using inv u unfolding core_inv_def by blast
    have "k < nonce (world g')" using k(1) rest(3) by simp
    with k(2) have "\<exists>k < nonce (world g'). tid = ''task-'' @ randomUUID e k" by blast
    moreover have "ids_drawn e (nonce (world g')) u"
      using ids_drawn_mono [OF core_task(3) [OF inv u]] rest(3) by simp
    ultimately show ?thesis by blast
  qed
  ultimately have "core_inv e g'" using rest by (simp add: core_inv_def)
  then show ?thesis
    by (rule refinesI [OF _ _ _ run_single [of "store_step _ _ _", OF s]]) (use rest(3) unused in \<open>auto simp: creations_def\<close>)
qed

lemma create_fst: "fst (TaskStore_create cfg now u i c r sb p st) = new_task cfg now u i c r sb p"
  by (simp add: TaskStore_create_def Let_def)

lemma create_and_assign_refines:
  assumes inv: "core_inv e g" and inj: "inj (randomUUID e)"
    and new: "TaskStore_findByTaskRequest (taskStore g) did request = None"
    and stages: "spec_stages p \<noteq> []" and limit: "active_task_count g who < maximumTasksPerPrincipal e"
  shows "refines (creations g) e g (create_and_assign e now s did reply request i who session p g)"
    (is "refines ?A e g ?h")
proof -
  define t where "t = new_task (storeSettings e) now (randomUUID e (nonce (world g))) i did request
    (Some \<lparr>submitter_authIdentity = Some who, submitter_accountId = Option.bind session session_accountId\<rparr>)
    (Some (pipeline_choice p))"
  define st where "st = snd (TaskStore_create (storeSettings e) now (randomUUID e (nonce (world g))) i did request
    (Some \<lparr>submitter_authIdentity = Some who, submitter_accountId = Option.bind session session_accountId\<rparr>)
    (Some (pipeline_choice p)) (taskStore g))"
  define g2 where "g2 = reply_with e now s did reply (Task_accepted request (TaskProjection_snapshot t))
    ((snd (draw_uuid e g))\<lparr>taskStore := st\<rparr>)"
  have hh: "?h = (case TaskStore_nextStage t of None \<Rightarrow> g2
      | Some stage \<Rightarrow> TaskScheduler_assign e now (taskId t) (StagePayloadFactory_initial i) stage default_options g2)"
    unfolding create_and_assign_def Let_def case_prod_beta draw_uuid_eqs(1,2) create_fst
      t_def [symmetric] st_def [symmetric] g2_def [symmetric] by (rule refl)
  have st: "tasks st = map_set (tasks (taskStore g)) (taskId t) t"
    "taskIdByConsumerTaskRequest st = map_set (taskIdByConsumerTaskRequest (taskStore g)) (request_key t) (taskId t)"
    "durable (storeSettings e) st"
    by (simp_all add: st_def t_def TaskStore_create_def request_key_def Let_def)
      (simp_all add: new_task_def)
  have fresh: "fresh_task t"
    using stages by (simp add: fresh_task_def t_def new_task_def stage_sequence_def pipeline_choice_def)
  have id: "taskId t = ''task-'' @ randomUUID e (nonce (world g))" "consumerDeviceId t = did"
    "taskRequestId t = request" "taskInput t = i" "consumerAuthIdentity t = Some who" by (simp_all add: t_def new_task_def)
  have ref: "refines ?A e g g2"
    by (rule refines_submitted [OF inv inj fresh id(1)])
      (use new id st inv limit in \<open>simp_all add: g2_def core_inv_def active_task_count_def active_tasks_def
        TaskStore_list_def\<close>)
  have unused: "map_get (tasks (taskStore g)) (taskId t) = None"
    using task_id_unused [OF inv inj] by (simp add: id)
  show ?thesis
  proof (cases "TaskStore_nextStage t")
    case None
    with ref show ?thesis by (simp add: hh)
  next
    case (Some stage)
    have stored: "map_get (tasks (taskStore g2)) (taskId t) = Some t" by (simp add: g2_def st)
    have "lastValue t = None" using fresh by (simp add: fresh_task_def lastValue_def)
    then have "StagePayloadFactory_initial i = next_value t" by (simp add: next_value_def id)
    with Some have "step_on e (taskId t) g2
        (TaskScheduler_assign e now (taskId t) (StagePayloadFactory_initial i) stage default_options g2)"
      by (intro assign_step_on [OF refines_core [OF ref] inj stored]) simp
    then have "refines ?A e g2
        (TaskScheduler_assign e now (taskId t) (StagePayloadFactory_initial i) stage default_options g2)"
      unfolding step_on_def by (elim conjE refines_mono) (use unused in \<open>auto simp: creations_def\<close>)
    with ref Some show ?thesis by (auto simp: hh intro: refines_trans)
  qed
qed

lemma submit_refines:
  assumes inv: "core_inv e g" and inj: "inj (randomUUID e)" and wf: "wf_registry (pipelineRegistry e)"
  shows "refines (authorised g did (Task_submit request i pid version)) e g
    (submit_task e now s did reply request i pid version session g)"
proof -
  have stages: "spec_stages p \<noteq> []" if "PipelineRegistry_select (pipelineRegistry e) i pid version = Some p" for p
    using selected_valid [OF wf that] by (auto simp: valid_PipelineSpecification_def)
  show ?thesis
    by (auto simp: submit_task_def Let_def refines_only_sends [OF inv] authorised_def not_le split: option.split
        intro!: create_and_assign_refines [OF inv inj] stages)
qed

section \<open>Devices\<close>

lemma refines_devices:
  assumes "core_inv e g" and "same_core g g'" and "wf_devices (deviceRegistry g')" and "inj (randomUUID e)"
  shows "refines moves e g (TaskScheduler_scheduleQueuedTasks e now g')"
proof -
  have r: "refines moves e g g'" by (rule refines_same_core [OF assms(1-3)])
  from sweeps_refine(1) [OF refines_core [OF r] assms(4), of now] have
    "refines moves e g' (TaskScheduler_scheduleQueuedTasks e now g')" ..
  with r show ?thesis by (rule refines_trans)
qed

lemma worker_state_refines:
  assumes inv: "core_inv e g" and inj: "inj (randomUUID e)"
  shows "refines (authorised g did (Worker_state ws maximum)) e g (change_worker_state e now s did reply ws maximum g)"
proof -
  have wf: "wf_devices (deviceRegistry g)" using inv by (simp add: core_inv_def)
  have c: "same_core g (add_and_publish e now d g)" "wf_devices (deviceRegistry (add_and_publish e now d g))" for d
    using wf by (auto simp: wf_devices_add)
  show ?thesis
    by (auto simp: change_worker_state_def Let_def refines_only_sends [OF inv] authorised_def is_worker_def
        split: option.split
        intro!: refines_devices [OF inv c inj] refines_same_core [OF inv c])
qed

lemma register_refines:
  assumes inv: "core_inv e g" and inj: "inj (randomUUID e)"
  shows "refines moves e g (ClientMessageHandler_register e now s did role name stages ready maximum reply session g)"
    (is "refines moves e g ?h")
proof (cases "role = Worker \<and> filter (\<lambda>stage. \<not> PipelineRegistry_definesStage (pipelineRegistry e) stage)
    (coalesce stages []) \<noteq> []")
  case True
  then show ?thesis
    unfolding ClientMessageHandler_register_def Let_def by (simp add: refines_only_sends [OF inv])
next
  case False
  define d where "d = registered_device e now g did role name stages ready maximum session"
  define g1 where "g1 = g\<lparr>deviceRegistry := snd (DeviceRegistry_add d (deviceRegistry g))\<rparr>"
  define g2 where "g2 = ConnectionHub_send e now s (DeviceRegistered did)
    (ConnectionHub_counterpartFor g1 did (Some (DeviceRegister role name stages ready maximum))) (Some reply) g1"
  define g3 where "g3 = DeviceAnnouncer_publishChange e now (fst (DeviceRegistry_add d (deviceRegistry g))) g2"
  have hh: "?h = TaskScheduler_scheduleQueuedTasks e now g3"
    using False unfolding ClientMessageHandler_register_def Let_def case_prod_beta
      d_def [symmetric] g1_def [symmetric] g2_def [symmetric] g3_def [symmetric] by (simp only: if_False)
  have c1: "same_core g g1" by (simp add: same_core_def g1_def)
  have c2: "same_core g1 g2" by (simp add: g2_def only_sends_same_core)
  have c3: "same_core g2 g3" by (simp add: g3_def)
  have "wf_devices (deviceRegistry g3)"
    using inv by (simp add: g3_def g2_def g1_def core_inv_def wf_devices_add)
  then show ?thesis unfolding hh
    by (rule refines_devices [OF inv same_core_trans [OF c1 same_core_trans [OF c2 c3]] _ inj])
qed

section \<open>One message\<close>

lemma task_changes_refine:
  assumes "core_inv e g" and "inj (randomUUID e)" and "wf_registry (pipelineRegistry e)"
    and "ClientMessageHandler_handleTaskChanges e now s did m reply session g = Some g'"
  shows "refines (authorised g did m) e g g'"
proof -
  have "refines A e g (get_task e now s did reply tid g)" for A tid
    by (auto simp: get_task_def refines_only_sends [OF assms(1)] split: option.split)
  with assms(4) submit_refines [OF assms(1-3)] worker_state_refines [OF assms(1,2)] cancel_refines [OF assms(1)]
  show ?thesis by (cases m) (auto simp: ClientMessageHandler_handleTaskChanges_def)
qed

lemma stage_messages_refine:
  assumes "core_inv e g" and "inj (randomUUID e)"
    and "ClientMessageHandler_handleStageMessages e now s did m reply g = Some g'"
  shows "refines (authorised g did m) e g g'"
  using assms(3) extend_lease_refines [OF assms(1)] update_assignment_refines [OF assms(1,2), where b = True]
    update_assignment_refines [OF assms(1,2), where b = False] result_refines [OF assms(1,2)] failure_refines [OF assms(1)]
  by (cases m) (auto simp: ClientMessageHandler_handleStageMessages_def)

lemma before_registration_settles:
  assumes inv: "core_inv e g" and inj: "inj (randomUUID e)"
    and h: "ClientMessageHandler_handleBeforeRegistration e now s did m reply session g = Some g'"
  shows "settles (if is_registration m then moves else {}) e g g'"
proof -
  have q: "settles A e g h" if "quiet g h" for A h using refines_settles [OF refines_quiet [OF inv that]] .
  have u: "quiet g (reply_with e now s did reply x (g\<lparr>sessionRegistry := r\<rparr>))"
    "quiet g (reply_error e now s did reply c y o' g)" "quiet g (reply_with e now s did reply x g)"
    "quiet g (g\<lparr>hub := hb\<rparr>)" "quiet g (ClientMessageHandler_sendDeviceList e now s did reply (g\<lparr>hub := hb\<rparr>))"
    for x r c y o' hb by (simp_all add: quiet_def)
  show ?thesis
    using h query_settles [OF inv] q [OF account_quiet] q [OF summary_quiet]
      refines_settles [OF register_refines [OF inv inj]]
    by (cases m) (auto simp: ClientMessageHandler_handleBeforeRegistration_def case_prod_beta Let_def
        intro!: q [OF u(1)] q [OF u(2)] q [OF u(3)] q [OF u(4)] q [OF u(5)] split: if_splits)
qed

lemma relay_only_sends: "only_sends g (relay_signal e now did m g)"
  by (cases m) (auto simp: relay_signal_def split: option.split)

text \<open>The state in which a message is looked at, and the state once its sender was seen.\<close>

definition looked_up :: "int \<Rightarrow> device_id \<Rightarrow> gateway \<Rightarrow> gateway" where
  "looked_up now did g = g\<lparr>sessionRegistry := snd (SessionRegistry_active did now (sessionRegistry g))\<rparr>"

definition seen :: "int \<Rightarrow> device \<Rightarrow> gateway \<Rightarrow> gateway" where
  "seen now d g = g\<lparr>deviceRegistry := snd (DeviceRegistry_add (d\<lparr>lastSeenAt := now\<rparr>) (deviceRegistry g))\<rparr>"

lemma handle_cases:
  obtains (unauthenticated) "\<not> is_authentication m" "fst (SessionRegistry_active did now (sessionRegistry g)) = None"
      "only_sends (looked_up now did g) (ClientMessageHandler_handle e now s did m reply g)"
    | (early) "is_authentication m \<or> fst (SessionRegistry_active did now (sessionRegistry g)) \<noteq> None"
      "ClientMessageHandler_handleBeforeRegistration e now s did m reply
         (fst (SessionRegistry_active did now (sessionRegistry g))) (looked_up now did g)
       = Some (ClientMessageHandler_handle e now s did m reply g)"
    | (unregistered) "is_authentication m \<or> fst (SessionRegistry_active did now (sessionRegistry g)) \<noteq> None"
      "DeviceRegistry_get (deviceRegistry g) did = None"
      "only_sends (looked_up now did g) (ClientMessageHandler_handle e now s did m reply g)"
    | (reads) d where "is_authentication m \<or> fst (SessionRegistry_active did now (sessionRegistry g)) \<noteq> None"
      "DeviceRegistry_get (deviceRegistry g) did = Some d"
      "ClientMessageHandler_handleTaskReads e now s did m reply (seen now d (looked_up now did g))
       = Some (ClientMessageHandler_handle e now s did m reply g)"
    | (changes) d where "is_authentication m \<or> fst (SessionRegistry_active did now (sessionRegistry g)) \<noteq> None"
      "DeviceRegistry_get (deviceRegistry g) did = Some d"
      "ClientMessageHandler_handleTaskChanges e now s did m reply
         (fst (SessionRegistry_active did now (sessionRegistry g))) (seen now d (looked_up now did g))
       = Some (ClientMessageHandler_handle e now s did m reply g)"
    | (stages) d where "is_authentication m \<or> fst (SessionRegistry_active did now (sessionRegistry g)) \<noteq> None"
      "DeviceRegistry_get (deviceRegistry g) did = Some d"
      "ClientMessageHandler_handleStageMessages e now s did m reply (seen now d (looked_up now did g))
       = Some (ClientMessageHandler_handle e now s did m reply g)"
    | (signal) d where "is_authentication m \<or> fst (SessionRegistry_active did now (sessionRegistry g)) \<noteq> None"
      "DeviceRegistry_get (deviceRegistry g) did = Some d"
      "only_sends (seen now d (looked_up now did g)) (ClientMessageHandler_handle e now s did m reply g)"
proof -
  let ?s = "fst (SessionRegistry_active did now (sessionRegistry g))" and ?g0 = "looked_up now did g"
  have dev: "deviceRegistry ?g0 = deviceRegistry g" by (simp add: looked_up_def)
  note eq = ClientMessageHandler_handle_def [of e now s did m reply g, unfolded Let_def case_prod_beta,
    folded looked_up_def seen_def, unfolded dev]
  show ?thesis
  proof (cases "\<not> is_authentication m \<and> ?s = None")
    case True
    then show ?thesis by (intro unauthenticated) (simp_all add: eq)
  next
    case auth: False
    show ?thesis
    proof (cases "ClientMessageHandler_handleBeforeRegistration e now s did m reply ?s ?g0")
      case (Some h)
      then show ?thesis by (intro early) (use auth in \<open>auto simp: eq\<close>)
    next
      case b: None
      show ?thesis
      proof (cases "DeviceRegistry_get (deviceRegistry g) did")
        case None
        then show ?thesis by (intro unregistered) (use auth b in \<open>auto simp: eq\<close>)
      next
        case (Some d)
        let ?g1 = "seen now d ?g0"
        consider h where "ClientMessageHandler_handleTaskReads e now s did m reply ?g1 = Some h"
          | h where "ClientMessageHandler_handleTaskReads e now s did m reply ?g1 = None"
              "ClientMessageHandler_handleTaskChanges e now s did m reply ?s ?g1 = Some h"
          | h where "ClientMessageHandler_handleTaskReads e now s did m reply ?g1 = None"
              "ClientMessageHandler_handleTaskChanges e now s did m reply ?s ?g1 = None"
              "ClientMessageHandler_handleStageMessages e now s did m reply ?g1 = Some h"
          | "ClientMessageHandler_handleTaskReads e now s did m reply ?g1 = None"
              "ClientMessageHandler_handleTaskChanges e now s did m reply ?s ?g1 = None"
              "ClientMessageHandler_handleStageMessages e now s did m reply ?g1 = None" by fastforce
        then show ?thesis
        proof cases
          case 1
          then show ?thesis by (intro reads) (use auth b Some in \<open>auto simp: eq\<close>)
        next
          case 2
          then show ?thesis by (intro changes) (use auth b Some in \<open>auto simp: eq\<close>)
        next
          case 3
          then show ?thesis by (intro stages) (use auth b Some in \<open>auto simp: eq\<close>)
        next
          case 4
          then show ?thesis by (intro signal) (use auth b Some in \<open>auto simp: eq relay_only_sends\<close>)
        qed
      qed
    qed
  qed
qed

lemma settles_mono: "settles A e g g' \<Longrightarrow> A \<subseteq> B \<Longrightarrow> settles B e g g'"
  unfolding settles_def by (blast intro: refines_mono)

lemma settles_after:
  "refines A e g h \<Longrightarrow> settles A e h k \<Longrightarrow> ledgerStore h = ledgerStore g \<Longrightarrow> settles A e g k"
  unfolding settles_def by (metis refines_trans)

lemma handle_settles:
  assumes inv: "core_inv e g" and inj: "inj (randomUUID e)" and wf: "wf_registry (pipelineRegistry e)"
  shows "settles (message_authority now g did m) e g (ClientMessageHandler_handle e now s did m reply g)"
    (is "settles ?A e g ?h")
proof -
  let ?g0 = "looked_up now did g"
  have r0: "refines A e g ?g0" for A by (rule refines_quiet [OF inv]) (simp add: looked_up_def quiet_def)
  have r1: "refines A e g (seen now d ?g0)" for A d
    by (rule refines_same_store [OF inv]) (use inv in \<open>auto simp: core_inv_def seen_def looked_up_def wf_devices_add\<close>)
  note inv0 = refines_core [OF r0] and inv1 = refines_core [OF r1]
  have late: "settles ?A e g ?h" if "refines ?A e ?g0 ?h \<or> (\<exists>d. refines ?A e (seen now d ?g0) ?h)"
    using that r0 r1 by (blast intro: refines_settles refines_trans)
  have auth: "authorised (seen now d ?g0) did m \<subseteq> ?A"
    if d: "DeviceRegistry_get (deviceRegistry g) did = Some d" and "fst (SessionRegistry_active did now (sessionRegistry g)) \<noteq> None"
    for d
  proof -
    have "deviceId d = did" using pool.lookup_id d inv by (auto simp: core_inv_def)
    then have "authorised (seen now d ?g0) did m = authorised g did m"
      using d add_get [of "d\<lparr>lastSeenAt := now\<rparr>" "deviceRegistry g" did]
      by (intro authorised_cong) (auto simp: seen_def looked_up_def)
    with that show ?thesis by (cases m) (auto simp: message_authority_def authorised_def)
  qed
  show ?thesis
  proof (cases rule: handle_cases [of m did now g e s reply, case_names unauthenticated early unregistered reads
        changes stages signal])
    case early
    have "settles (if is_registration m then moves else {}) e ?g0 ?h"
      by (rule before_registration_settles [OF inv0 inj early(2)])
    then have "settles (if is_registration m then moves else {}) e g ?h"
      by (rule settles_after [OF r0]) (simp add: looked_up_def)
    then show ?thesis
      by (rule settles_mono) (use early(1) in \<open>cases m; auto simp: message_authority_def is_authentication_def\<close>)
  next
    case (reads d)
    then show ?thesis using late refines_quiet [OF inv1 task_reads_quiet] by blast
  next
    case (changes d)
    have "\<not> is_authentication m"
      using changes(3) by (cases m) (simp_all add: is_authentication_def ClientMessageHandler_handleTaskChanges_def)
    with changes late auth [OF changes(2)] refines_mono [OF task_changes_refine [OF inv1 inj wf changes(3)]]
    show ?thesis by blast
  next
    case (stages d)
    have "\<not> is_authentication m"
      using stages(3) by (cases m) (simp_all add: is_authentication_def ClientMessageHandler_handleStageMessages_def)
    with stages late auth [OF stages(2)] refines_mono [OF stage_messages_refine [OF inv1 inj stages(3)]]
    show ?thesis by blast
  next
    case (signal d)
    then show ?thesis using late refines_only_sends [OF inv1] by blast
  qed (use late refines_only_sends [OF inv0] in blast)+
qed

section \<open>One event, and every run\<close>

lemma catch_refines:
  assumes "settles A e g g'"
  shows "refines A e g (catch_exception e now s did g')"
proof (cases "raised g' = None")
  case True
  with assms show ?thesis
    unfolding settles_def raised_None_update [OF True] by (simp add: catch_exception_def)
next
  case False
  from assms have r: "refines A e g (g'\<lparr>raised := None\<rparr>)" by (simp add: settles_def)
  with False show ?thesis
    by (auto simp: catch_exception_def refines_trans [OF r refines_only_sends [OF refines_core [OF r]]])
qed

lemma log_quiet: "quiet g (log_received did f g)"
  by (simp add: log_received_def quiet_def)

text \<open>The changes an event may cause.\<close>

fun frame_authority :: "int \<Rightarrow> gateway \<Rightarrow> device_id \<Rightarrow> frame_content \<Rightarrow> store_label set" where
  "frame_authority now g did (Json _ (Some f)) = message_authority now g did (env_body f)"
| "frame_authority now g did _ = {}"

fun event_authority :: "int \<Rightarrow> gateway \<Rightarrow> gateway_event \<Rightarrow> store_label set" where
  "event_authority now g (Frame_arrived did _ content) = frame_authority now g did content"
| "event_authority now g (Connection_closed _) = moves"
| "event_authority now g Recovery_tick = moves"
| "event_authority now g _ = {}"

lemma readFrame_refines:
  assumes inv: "core_inv e g" and inj: "inj (randomUUID e)" and wf: "wf_registry (pipelineRegistry e)"
  shows "refines (frame_authority now g did content) e g (WebsocketRouter_readFrame e now s did n content g)"
proof -
  have r: "refines A e g (log_received did f g)" for A f by (rule refines_quiet [OF inv log_quiet])
  have same: "message_authority now (log_received did f g) did m = message_authority now g did m" for f m
  proof -
    have "taskStore (log_received did f g) = taskStore g" "deviceRegistry (log_received did f g) = deviceRegistry g"
      "sessionRegistry (log_received did f g) = sessionRegistry g" by (simp_all add: log_received_def)
    with authorised_cong [of "log_received did f g" g did m] show ?thesis by (simp add: message_authority_def)
  qed
  have "refines (message_authority now g did (env_body f)) e g (catch_exception e now s did
      (ClientMessageHandler_handle e now s did (env_body f) (env_id f) (log_received did f g)))" for f
    unfolding same [of f, symmetric]
    by (rule refines_trans [OF r catch_refines [OF handle_settles [OF refines_core [OF r] inj wf]]])
  then show ?thesis
    by (auto simp: WebsocketRouter_readFrame_def refines_only_sends [OF inv] split: frame_content.split option.split)
qed

text \<open>Everything a closing connection does before its assignments are recovered leaves the tasks alone.\<close>

lemma closed_recovers:
  assumes inv: "core_inv e g"
  obtains h where "WebsocketRouter_connectionClosed e now did g = TaskScheduler_recoverWorkerAssignments e now did h"
    "refines moves e g h"
proof -
  define g1 where "g1 = g\<lparr>hub := ConnectionHub_forget did (hub g),
       sessionRegistry := SessionRegistry_close did (sessionRegistry g),
       challengeRegistry := ChallengeRegistry_close did (challengeRegistry g),
       rateLimiter := DiagnosticsRateLimiter_forget did (rateLimiter g)\<rparr>"
  define g2 where "g2 = g1\<lparr>deviceRegistry := snd (DeviceRegistry_remove did (deviceRegistry g))\<rparr>"
  define g3 where "g3 = DeviceAnnouncer_publishRemoval e now (fst (DeviceRegistry_remove did (deviceRegistry g))) g2"
  have eq: "WebsocketRouter_connectionClosed e now did g = TaskScheduler_recoverWorkerAssignments e now did g3"
    by (simp add: WebsocketRouter_connectionClosed_def g3_def g2_def g1_def Let_def case_prod_beta)
  have r2: "refines moves e g g2"
    by (rule refines_same_store [OF inv])
      (use inv in \<open>auto simp: g2_def g1_def core_inv_def wf_devices_remove\<close>)
  have r3: "refines moves e g2 g3"
    by (rule refines_same_core [OF refines_core [OF r2]])
      (use refines_core [OF r2] in \<open>simp_all add: g3_def core_inv_def\<close>)
  show ?thesis by (rule that [OF eq refines_trans [OF r2 r3]])
qed

lemma closed_refines:
  assumes inv: "core_inv e g" and inj: "inj (randomUUID e)"
  shows "refines moves e g (WebsocketRouter_connectionClosed e now did g)"
proof -
  obtain h where h: "WebsocketRouter_connectionClosed e now did g = TaskScheduler_recoverWorkerAssignments e now did h"
    "refines moves e g h" by (rule closed_recovers [OF inv])
  from sweeps_refine(3) [OF refines_core [OF h(2)] inj, of now did] show ?thesis
    unfolding h(1) by (blast intro: refines_trans [OF h(2)])
qed

definition env_ok :: "'key env \<Rightarrow> bool" where
  "env_ok e \<longleftrightarrow> inj (randomUUID e) \<and> wf_registry (pipelineRegistry e)"

lemma event_refines:
  assumes inv: "core_inv e g" and ok: "env_ok e"
  shows "refines (event_authority now g ev) e g (gateway_next e now ev g)"
proof -
  have inj: "inj (randomUUID e)" and wf: "wf_registry (pipelineRegistry e)" using ok by (auto simp: env_ok_def)
  show ?thesis
  proof (cases ev)
    case (Connection_opened s ip)
    have "quiet g (WebsocketRouter_acceptConnection e s ip g)"
      by (simp add: WebsocketRouter_acceptConnection_def draw_uuid_def quiet_def Let_def)
    with Connection_opened show ?thesis by (simp add: refines_quiet [OF inv])
  next
    case (Frame_arrived did n content)
    then show ?thesis by (simp add: refines_refl [OF inv] readFrame_refines [OF inv inj wf] split: option.split)
  next
    case (Socket_closing s)
    then show ?thesis by (simp add: refines_quiet [OF inv] quiet_def)
  next
    case (Connection_closed did)
    then show ?thesis by (simp add: closed_refines [OF inv inj])
  next
    case (Account_answered i)
    have "quiet g (g\<lparr>pending := remove_nth i (pending g)\<rparr>)" by (simp add: quiet_def)
    then have "quiet g (run_continuation e now (pending g ! i) (g\<lparr>pending := remove_nth i (pending g)\<rparr>))"
      by (rule quiet_trans) (rule continuation_quiet)
    with Account_answered show ?thesis by (simp add: refines_refl [OF inv] refines_quiet [OF inv])
  next
    case Recovery_tick
    have r: "refines moves e g (TaskScheduler_recoverAssignments e now g)" using sweeps_refine(2) [OF inv inj] by blast
    with sweeps_refine(1) [OF refines_core [OF r] inj] Recovery_tick show ?thesis
      by (auto simp: recovery_sweep_def Let_def intro: refines_trans)
  next
    case Activity_flush
    then show ?thesis
      by (simp add: refines_same_core [OF inv flush_same_core(1)] inv [unfolded core_inv_def])
  next
    case (Pong_received s)
    have "refines {} e g (DeviceAnnouncer_noteDeviceAnsweredPing now did g)" for did
      by (rule refines_same_core [OF inv notePing_same_core]) (use inv in \<open>auto simp: core_inv_def\<close>)
    with Pong_received show ?thesis by (simp add: refines_refl [OF inv] split: option.split)
  qed
qed

definition gateway_start :: "'key env \<Rightarrow> gateway \<Rightarrow> bool" where
  "gateway_start e g \<longleftrightarrow> (\<exists>st accounts led. store_start (storeSettings e) st \<and> g = initial_gateway st accounts led)"

lemma start_core: "gateway_start e g \<Longrightarrow> core_inv e g"
  using store.inv_start
  by (auto simp: gateway_start_def core_inv_def initial_gateway_def store_start_def wf_devices_empty)

interpretation gw: invariant_machine "\<lambda>g. env_ok e \<and> gateway_start e g" "gateway_step e"
  "\<lambda>g. env_ok e \<and> core_inv e g"
  by unfold_locales (blast intro: start_core, auto elim!: gateway_stepE intro: refines_core event_refines)

lemma step_refines_event:
  "gateway_step e g (now, ev) g' \<Longrightarrow> env_ok e \<Longrightarrow> core_inv e g \<Longrightarrow> refines (event_authority now g ev) e g g'"
  by (auto simp: gateway_step_iff intro: event_refines)

lemma run_refines:
  assumes "run (gateway_step e) g evs g'" and "env_ok e" and "core_inv e g"
  shows "refines UNIV e g g'"
  using assms
proof (induction rule: run.induct)
  case (run_nil g)
  then show ?case by (simp add: refines_refl)
next
  case (run_cons g ev g1 evs g')
  then have "refines UNIV e g g1" by (cases ev) (blast intro: refines_mono [OF step_refines_event])
  with run_cons show ?case by (blast intro: refines_trans refines_core)
qed

end
