(* ===== verification/Gateway_History.thy ===== *)
theory Gateway_History
  imports Gateway_Refinement
begin

text \<open>
  The life of a gateway, restarts included: it starts on empty files, serves events
  (\<open>gateway_step\<close>), and may stop at any moment and start again from the state file it wrote
  (\<open>src/packages/gateway/src/cli.ts\<close> builds the same objects from the same files). A restart loses every
  connection, session and registered device; the accounts and the ledger are whatever their own files give
  back. The random source goes on drawing. The invariant of \<open>Task_Scheduler\<close> holds throughout, so what
  follows from it holds at every moment of every life.
\<close>

section \<open>A restart keeps the invariant\<close>

lemma store_inv_wf_store:
  assumes "store_inv cfg M L st"
  shows "wf_store st" and "distinct (map request_key (TaskStore_list st))"
proof -
  have wf: "wf_map (tasks st)" and each: "\<And>tid t. map_get (tasks st) tid = Some t \<Longrightarrow> taskId t = tid \<and> task_inv M t"
    and index: "index_consistent st" using assms by (auto simp: store_inv_def)
  have "\<not> TaskStore_isUnadvanceable t" if "map_get (tasks st) tid = Some t" for tid t
  proof -
    have "stage_sequence t \<noteq> []" using each [OF that] by (simp add: task_inv_def in_pipeline_order_def)
    then show ?thesis by (cases "pipelineStages t") (simp_all add: stage_sequence_def TaskStore_isUnadvanceable_def)
  qed
  with wf each show "wf_store st" by (auto simp: wf_store_def)
  have "inj_on (request_key \<circ> snd) (set (tasks st))"
  proof (rule inj_onI)
    fix p q assume pq: "p \<in> set (tasks st)" "q \<in> set (tasks st)" "(request_key \<circ> snd) p = (request_key \<circ> snd) q"
    then have p: "map_get (tasks st) (fst p) = Some (snd p)" and q: "map_get (tasks st) (fst q) = Some (snd q)"
      using wf by (auto simp: map_of_eq_Some_iff)
    then have "fst p = fst q" using index pq(3) unfolding index_consistent_def by (metis comp_apply option.inject)
    with p q show "p = q" by (simp add: prod_eq_iff)
  qed
  moreover have "distinct (tasks st)" using wf by (simp add: distinct_map)
  ultimately have "distinct (map (request_key \<circ> snd) (tasks st))" by (simp add: distinct_map)
  then show "distinct (map request_key (TaskStore_list st))" by (simp add: TaskStore_list_def)
qed

lemma store_inv_start: "store_start cfg st \<Longrightarrow> store_inv cfg M L st"
  by (rule store.inv_start)

text \<open>What a restart reads: the same tasks when the gateway keeps a state file, an empty store otherwise.\<close>

lemma restore_inv:
  assumes inv: "store_inv cfg M L st" and read: "TaskStore_restore cfg (stateFile st) = Inr st'"
  shows "store_inv cfg M L st' \<and> (if isDurable cfg then tasks st' = tasks st else tasks st' = [])"
proof (cases "isDurable cfg")
  case False
  then have "st' = \<lparr>tasks = [], taskIdByConsumerTaskRequest = [], stateFile = stateFile st\<rparr>"
    using read by (simp add: TaskStore_restore_def)
  with False show ?thesis by (simp add: store_inv_start store_start_def durable_def)
next
  case True
  have dur: "durable cfg st" using inv by (simp add: store_inv_def)
  from restore_durable [OF True dur store_inv_wf_store [OF inv]] read
  have same: "tasks st' = tasks st" "stateFile st' = stateFile st" and index:
    "\<forall>t \<in> set (TaskStore_list st). map_get (taskIdByConsumerTaskRequest st') (request_key t) = Some (taskId t)"
    by auto
  have "index_consistent st'"
    unfolding index_consistent_def same
  proof (intro allI impI)
    fix tid t assume t: "map_get (tasks st) tid = Some t"
    then have "t \<in> set (TaskStore_list st)" by (auto simp: TaskStore_list_def dest: map_of_SomeD intro: rev_image_eqI)
    moreover have "taskId t = tid" using t inv by (auto simp: store_inv_def)
    ultimately show "map_get (taskIdByConsumerTaskRequest st') (request_key t) = Some tid" using index by auto
  qed
  with inv True same show ?thesis
    by (simp add: store_inv_def active_tasks_def durable_def TaskStore_list_def)
qed

section \<open>Every life\<close>

definition restarted_gateway :: "nat \<Rightarrow> task_store \<Rightarrow> account_registry \<Rightarrow> ledger_store \<Rightarrow> gateway" where
  "restarted_gateway n st accounts led =
     (initial_gateway st accounts led)\<lparr>world := (world (initial_gateway st accounts led))\<lparr>nonce := n\<rparr>\<rparr>"

inductive life :: "'key env \<Rightarrow> gateway \<Rightarrow> bool" for e where
  started: "gateway_start e g \<Longrightarrow> life e g"
| served: "life e g \<Longrightarrow> gateway_step e g ev g' \<Longrightarrow> life e g'"
| restarted: "life e g \<Longrightarrow> TaskStore_restore (storeSettings e) (stateFile (taskStore g)) = Inr st \<Longrightarrow>
    life e (restarted_gateway (nonce (world g)) st accounts led)"

lemma core_restarted:
  assumes inv: "core_inv e g" and read: "TaskStore_restore (storeSettings e) (stateFile (taskStore g)) = Inr st"
  shows "core_inv e (restarted_gateway (nonce (world g)) st accounts led)"
proof -
  from inv have "store_inv (storeSettings e) (maximumAttempts e) (maximumTasksPerPrincipal e) (taskStore g)"
    by (simp add: core_inv_def)
  from restore_inv [OF this read] inv show ?thesis
    by (auto simp: core_inv_def restarted_gateway_def initial_gateway_def wf_devices_empty split: if_splits)
qed

lemma life_core: "life e g \<Longrightarrow> env_ok e \<Longrightarrow> core_inv e g"
proof (induction rule: life.induct)
  case (served g ev g')
  then show ?case using gw.inv_step by blast
qed (auto intro: start_core core_restarted)

lemma life_run: "run (gateway_step e) g evs g' \<Longrightarrow> life e g \<Longrightarrow> life e g'"
  by (induction rule: run.induct) (auto intro: life.served)

text \<open>Every task of a life meets the invariant of the machine.\<close>

lemma life_task:
  assumes "life e g" and "env_ok e" and "map_get (tasks (taskStore g)) tid = Some t"
  shows "task_inv (maximumAttempts e) t" and "taskId t = tid"
  using core_task [OF life_core [OF assms(1,2)] assms(3)] by auto

lemma life_step_refines:
  "life e g \<Longrightarrow> env_ok e \<Longrightarrow> gateway_step e g (now, ev) g' \<Longrightarrow> refines (event_authority now g ev) e g g'"
  by (blast intro: step_refines_event life_core)

lemma life_run_le:
  assumes "life e g" and "env_ok e" and "run (gateway_step e) g evs g'"
  shows "store_le (taskStore g) (taskStore g')"
proof -
  have inv: "core_inv e g" by (rule life_core [OF assms(1,2)])
  then obtain ls where "run (store_step (storeSettings e) (maximumAttempts e) (maximumTasksPerPrincipal e))
      (taskStore g) ls (taskStore g')" using run_refines [OF assms(3,2)] by (auto simp: refines_def)
  with inv show ?thesis by (auto simp: core_inv_def intro: store_run_le)
qed

end
