(* ===== verification/Scheduler_Progress.thy ===== *)
theory Scheduler_Progress
  imports Gateway_History
begin

text \<open>
  What a sweep of the scheduler achieves. \<open>for_each_establishes\<close> is the loop rule: when the step for a task
  establishes a fact about that task and steps only touch their own task, the fact holds of every task after
  the loop. With it, the recovery sweep leaves no expired lease and no overdue queued task, and a worker
  that leaves is left with no assignment.
\<close>

section \<open>The loop rule\<close>

lemma for_each_establishes:
  assumes step: "\<And>g t. core_inv e g \<Longrightarrow> map_get (tasks (taskStore g)) (taskId t) = Some t \<Longrightarrow>
      step_on e (taskId t) g (f t g)"
    and post: "\<And>g t t'. core_inv e g \<Longrightarrow> map_get (tasks (taskStore g)) (taskId t) = Some t \<Longrightarrow>
      map_get (tasks (taskStore (f t g))) (taskId t) = Some t' \<Longrightarrow> Q t t'"
    and "core_inv e g" and "distinct (map taskId ts)"
    and "\<forall>t \<in> set ts. map_get (tasks (taskStore g)) (taskId t) = Some t"
  shows "(\<forall>t \<in> set ts. \<forall>t'. map_get (tasks (taskStore (for_each f ts g))) (taskId t) = Some t' \<longrightarrow> Q t t')
    \<and> (\<forall>tid. tid \<notin> taskId ` set ts \<longrightarrow>
         map_get (tasks (taskStore (for_each f ts g))) tid = map_get (tasks (taskStore g)) tid)"
  using assms(3-5)
proof (induction ts arbitrary: g)
  case Nil
  then show ?case by (simp add: for_each_def)
next
  case (Cons t ts)
  have on: "step_on e (taskId t) g (f t g)" using step Cons.prems by simp
  have inv: "core_inv e (f t g)" using on by (auto simp: step_on_def refines_core)
  have go: "for_each f (t # ts) g = for_each f ts (f t g)"
    using Cons.prems(1) by (simp add: for_each_def core_inv_def)
  have others: "\<forall>u \<in> set ts. map_get (tasks (taskStore (f t g))) (taskId u) = Some u"
    using on Cons.prems by (auto simp: step_on_def image_iff)
  note IH = Cons.IH [OF inv _ others]
  have own: "Q t t'" if "map_get (tasks (taskStore (for_each f ts (f t g)))) (taskId t) = Some t'" for t'
    using that IH Cons.prems post [OF Cons.prems(1)] by auto
  have rest: "map_get (tasks (taskStore (f t g))) tid = map_get (tasks (taskStore g)) tid" if "tid \<noteq> taskId t" for tid
    using on that by (simp add: step_on_def)
  show ?case unfolding go using own rest IH Cons.prems(2) by auto
qed

lemma sweep_establishes:
  assumes step: "\<And>g t. core_inv e g \<Longrightarrow> map_get (tasks (taskStore g)) (taskId t) = Some t \<Longrightarrow>
      step_on e (taskId t) g (f t g)"
    and post: "\<And>g t t'. core_inv e g \<Longrightarrow> map_get (tasks (taskStore g)) (taskId t) = Some t \<Longrightarrow>
      map_get (tasks (taskStore (f t g))) (taskId t) = Some t' \<Longrightarrow> Q t t'"
    and inv: "core_inv e g"
    and t': "map_get (tasks (taskStore (for_each f (TaskStore_list (taskStore g)) g))) tid = Some t'"
  shows "\<exists>t. map_get (tasks (taskStore g)) tid = Some t \<and> Q t t'"
proof -
  let ?ts = "TaskStore_list (taskStore g)"
  have each: "(\<forall>t \<in> set ?ts. \<forall>t'. map_get (tasks (taskStore (for_each f ?ts g))) (taskId t) = Some t' \<longrightarrow> Q t t')
    \<and> (\<forall>tid. tid \<notin> taskId ` set ?ts \<longrightarrow>
         map_get (tasks (taskStore (for_each f ?ts g))) tid = map_get (tasks (taskStore g)) tid)"
    by (rule for_each_establishes [where f = f and Q = Q, OF _ _ inv stored_tasks [OF inv]]) (fact step, fact post)
  have "\<exists>t. map_get (tasks (taskStore g)) tid = Some t"
  proof (cases "tid \<in> taskId ` set (TaskStore_list (taskStore g))")
    case True
    then show ?thesis using stored_tasks(2) [OF inv] by auto
  next
    case False
    then show ?thesis using each t' by auto
  qed
  then obtain t where t: "map_get (tasks (taskStore g)) tid = Some t" ..
  then have "t \<in> set (TaskStore_list (taskStore g))" "taskId t = tid"
    using inv core_task(1) [OF inv t] by (auto simp: TaskStore_list_def dest: map_of_SomeD intro: rev_image_eqI)
  with each t' t show ?thesis by blast
qed

section \<open>What each step establishes\<close>

lemma lease_positive:
  assumes "wf_registry (pipelineRegistry e)" and "0 < defaultLeaseMs e"
  shows "0 < policy_leaseMs (StagePolicyResolver_resolve (pipelineRegistry e) (defaultLeaseMs e) t stage)"
proof -
  have "0 < ms" if found: "StagePolicyResolver_stageSpecification (pipelineRegistry e) t stage = Some st"
    and ms: "stageLeaseMs st = Some ms" for st ms
  proof -
    obtain pid version spec where "PipelineRegistry_get (pipelineRegistry e) pid version = Some spec"
      "st \<in> set (spec_stages spec)"
      using found by (auto simp: StagePolicyResolver_stageSpecification_def find_Some_iff split: option.splits)
    then have "valid_PipelineStage st"
      using assms(1) by (auto simp: wf_registry_def PipelineRegistry_get_def valid_PipelineSpecification_def list_all_iff)
    with ms show ?thesis by (simp add: valid_PipelineStage_def)
  qed
  with assms(2) show ?thesis
    by (cases "StagePolicyResolver_stageSpecification (pipelineRegistry e) t stage")
      (auto simp: StagePolicyResolver_resolve_def Let_def split: option.split bind_split)
qed

definition lease_live :: "int \<Rightarrow> task \<Rightarrow> bool" where
  "lease_live now t \<longleftrightarrow> (\<forall>a. stageAssignment t = Some a \<longrightarrow> now < leaseUntil a)"

definition in_time :: "int \<Rightarrow> task \<Rightarrow> bool" where
  "in_time now t \<longleftrightarrow> (taskState t = Queued \<longrightarrow> now < submissionDeadlineAt t)"

lemma move_outcome_lease:
  "lease_live now (updated_task now (fail_with x) t)" "lease_live now (updated_task now requeue t)"
  "0 < lease \<Longrightarrow> lease_live now (updated_task now (with_assignment now (new_assignment now u t w s v r lease)) t)"
  by (simp_all add: lease_live_def task_change_defs)

lemma move_outcome_time:
  "in_time now (updated_task now (fail_with x) t)"
  "now < submissionDeadlineAt t \<Longrightarrow> in_time now (updated_task now requeue t)"
  "in_time now (updated_task now (with_assignment now (new_assignment now u t w s v r lease)) t)"
  by (simp_all add: in_time_def task_change_defs)

lemma assign_lease_live:
  assumes inv: "core_inv e g" and t: "map_get (tasks (taskStore g)) tid = Some t" and "\<not> isFinished (taskState t)"
    and ok: "wf_registry (pipelineRegistry e)" "0 < defaultLeaseMs e"
    and t': "map_get (tasks (taskStore (TaskScheduler_assign e now tid v stage opts g))) tid = Some t'"
  shows "lease_live now t'" and "now < submissionDeadlineAt t \<Longrightarrow> in_time now t'"
proof -
  have wf: "wf_devices (deviceRegistry g)" using inv by (simp add: core_inv_def)
  note lease = lease_positive [OF ok, of t stage]
  have "lease_live now t' \<and> (now < submissionDeadlineAt t \<longrightarrow> in_time now t')"
    by (cases rule: assign_outcome [OF t wf assms(3), of e now v stage opts])
      (use t' lease in \<open>auto simp: task_replaced_def move_outcome_lease move_outcome_time\<close>)
  then show "lease_live now t'" "now < submissionDeadlineAt t \<Longrightarrow> in_time now t'" by blast+
qed

lemma recover_one_lease:
  assumes inv: "core_inv e g" and t: "map_get (tasks (taskStore g)) (taskId t) = Some t"
    and ok: "wf_registry (pipelineRegistry e)" "0 < defaultLeaseMs e"
    and t': "map_get (tasks (taskStore (recover_one e now t g))) (taskId t) = Some t'"
  shows "lease_live now t'"
proof (cases "lease_live now t")
  case True
  then have "recover_one e now t g = g" by (auto simp: recover_one_def lease_live_def split: option.split)
  with t t' True show ?thesis by simp
next
  case False
  then obtain a where a: "stageAssignment t = Some a" "\<not> now < leaseUntil a" by (auto simp: lease_live_def)
  then have "\<not> isFinished (taskState t)" using core_task(2) [OF inv t] by (auto simp: task_inv_def isFinished_def)
  from assign_lease_live(1) [OF inv t this ok] t' a show ?thesis
    by (auto simp: recover_one_def Let_def split: if_splits)
qed

lemma schedule_one_done:
  assumes inv: "core_inv e g" and t: "map_get (tasks (taskStore g)) (taskId t) = Some t"
    and ok: "wf_registry (pipelineRegistry e)" "0 < defaultLeaseMs e"
    and t': "map_get (tasks (taskStore (schedule_one e now t g))) (taskId t) = Some t'"
  shows "in_time now t' \<and> (lease_live now t \<longrightarrow> lease_live now t')"
proof (cases "taskState t = Queued")
  case False
  with t t' show ?thesis by (simp add: schedule_one_def in_time_def)
next
  case queued: True
  then have live: "\<not> isFinished (taskState t)" by (simp add: isFinished_def)
  have none: "stageAssignment t = None" using core_task(2) [OF inv t] queued by (auto simp: task_inv_def)
  show ?thesis
  proof (cases "submissionDeadlineAt t \<le> now")
    case True
    let ?f = "\<lambda>t. t\<lparr>taskState := Failed, taskError := Some ''SUBMISSION_DEADLINE_EXPIRED''\<rparr>"
    from True queued t' none update_and_broadcast_replaces [OF t, of e now ?f] show ?thesis
      by (auto simp: schedule_one_def task_replaced_def updated_task_def in_time_def lease_live_def)
  next
    case False
    with queued t t' assign_lease_live [OF inv t live ok] show ?thesis
      by (auto simp: schedule_one_def Let_def in_time_def split: option.splits)
  qed
qed

section \<open>The sweeps\<close>

lemma recovery_sweep_done:
  assumes inv: "core_inv e g" and ok: "env_ok e" "0 < defaultLeaseMs e"
    and t': "map_get (tasks (taskStore (recovery_sweep e now g))) tid = Some t'"
  shows "in_time now t' \<and> lease_live now t'"
proof -
  have inj: "inj (randomUUID e)" and wf: "wf_registry (pipelineRegistry e)" using ok(1) by (auto simp: env_ok_def)
  define g1 where "g1 = TaskScheduler_recoverAssignments e now g"
  have inv1: "core_inv e g1" unfolding g1_def using sweeps_refine(2) [OF inv inj] by (blast intro: refines_core)
  have live: "lease_live now t" if t: "map_get (tasks (taskStore g1)) tid = Some t" for tid t
  proof -
    have "\<exists>t0. map_get (tasks (taskStore g)) tid = Some t0 \<and> lease_live now t"
      by (rule sweep_establishes [where f = "recover_one e now", OF _ _ inv
            t [unfolded g1_def TaskScheduler_recoverAssignments_def]])
        (blast intro: recover_one_step_on inj recover_one_lease wf ok(2))+
    then show ?thesis by blast
  qed
  have eq: "recovery_sweep e now g = for_each (schedule_one e now) (TaskStore_list (taskStore g1)) g1"
    using inv1 by (simp add: recovery_sweep_def Let_def g1_def [symmetric] core_inv_def
        TaskScheduler_scheduleQueuedTasks_def)
  have "\<exists>t. map_get (tasks (taskStore g1)) tid = Some t \<and> in_time now t' \<and> (lease_live now t \<longrightarrow> lease_live now t')"
    by (rule sweep_establishes [where f = "schedule_one e now", OF _ _ inv1 t' [unfolded eq]])
      (fact schedule_one_step_on [OF _ inj], fact schedule_one_done [OF _ _ wf ok(2)])
  with live show ?thesis by blast
qed

text \<open>A worker that leaves holds nothing afterwards.\<close>

definition held_by :: "device_id \<Rightarrow> task \<Rightarrow> bool" where
  "held_by did t \<longleftrightarrow> map_option workerDeviceId (stageAssignment t) = Some did"

lemma recover_from_frees:
  assumes inv: "core_inv e g" and t: "map_get (tasks (taskStore g)) (taskId t) = Some t"
    and t': "map_get (tasks (taskStore (recover_from e now did t g))) (taskId t) = Some t'"
  shows "\<not> held_by did t'"
proof (cases "held_by did t")
  case False
  then have "recover_from e now did t g = g" by (auto simp: recover_from_def held_by_def split: option.split)
  with t t' False show ?thesis by simp
next
  case True
  then obtain a where a: "stageAssignment t = Some a" "workerDeviceId a = did" by (auto simp: held_by_def)
  have wf: "wf_devices (deviceRegistry g)" using inv by (simp add: core_inv_def)
  have live: "\<not> isFinished (taskState t)" using a core_task(2) [OF inv t] by (auto simp: task_inv_def isFinished_def)
  let ?o = "default_options\<lparr>excluded := [did], opt_retryReason := Some Worker_disconnected\<rparr>"
  have eq: "recover_from e now did t g = TaskScheduler_assign e now (taskId t) (assignedValue a) (assignedStage a) ?o g"
    using a by (simp add: recover_from_def)
  show ?thesis
  proof (cases rule: assign_outcome [OF t wf live, of e now "assignedValue a" "assignedStage a" ?o,
        case_names exhausted requeued placed])
    case (placed d n)
    have "deviceId d \<noteq> did" using chosen_device_sound [OF wf placed(2)] by (auto simp: default_options_def)
    with placed(4) t' show ?thesis unfolding eq
      by (auto simp: task_replaced_def held_by_def task_change_defs)
  qed (use t' in \<open>auto simp: eq task_replaced_def held_by_def task_change_defs\<close>)
qed

lemma closed_worker_frees:
  assumes inv: "core_inv e g" and inj: "inj (randomUUID e)"
    and t': "map_get (tasks (taskStore (TaskScheduler_recoverWorkerAssignments e now did g))) tid = Some t'"
  shows "\<not> held_by did t'"
proof -
  have "\<exists>t. map_get (tasks (taskStore g)) tid = Some t \<and> \<not> held_by did t'"
    by (rule sweep_establishes [where f = "recover_from e now did", OF _ _ inv
          t' [unfolded TaskScheduler_recoverWorkerAssignments_def]])
      (fact recover_from_step_on [OF _ inj], fact recover_from_frees)
  then show ?thesis by blast
qed

lemma connection_closed_frees:
  assumes inv: "core_inv e g" and ok: "env_ok e"
    and t': "map_get (tasks (taskStore (WebsocketRouter_connectionClosed e now did g))) tid = Some t'"
  shows "\<not> held_by did t'"
proof -
  obtain h where h: "WebsocketRouter_connectionClosed e now did g = TaskScheduler_recoverWorkerAssignments e now did h"
    "refines moves e g h" by (rule closed_recovers [OF inv])
  show ?thesis
    by (rule closed_worker_frees [OF refines_core [OF h(2)] _ t' [unfolded h(1)]]) (use ok in \<open>simp add: env_ok_def\<close>)
qed

end
