(* ===== verification/Gateway_Scenario.thy ===== *)
theory Gateway_Scenario
  imports Scheduler_Progress "HOL-Library.Code_Target_Numeral"
begin

text \<open>
  A concrete gateway and a concrete history of it, on which the properties of the whole gateway are
  applied: a worker and a consumer connect, authenticate and register, the consumer submits a formula, the
  worker accepts its first stage and returns it, and is given the second. Names are kept short because the kernel evaluates every
  event of the history.
\<close>

fun play :: "'key env \<Rightarrow> (int \<times> gateway_event) list \<Rightarrow> gateway \<Rightarrow> gateway option" where
  "play e [] g = Some g"
| "play e ((now, ev) # evs) g =
     (if enabled g ev \<and> raised g = None then play e evs (gateway_next e now ev g) else None)"

lemma play_run: "play e evs g = Some g' \<Longrightarrow> run (gateway_step e) g evs g'"
  by (induction e evs g rule: play.induct) (auto split: if_splits intro: run.intros gateway_step.step)

definition example_pipeline :: pipeline_specification where
  "example_pipeline = \<lparr>spec_pipelineId = ''p'', spec_version = 1, spec_taskType = task_type_dev_formula,
     spec_stages = [formula_stage ''m'' ''x'', formula_stage ''a'' ''x''],
     spec_repeatsUntilDone = None, spec_retired = None\<rparr>"

definition example_registry :: pipeline_registry where
  "example_registry = \<lparr>specifications = [(PipelineRegistry_key ''p'' 1, example_pipeline)]\<rparr>"

definition example_env :: "nat env" where
  "example_env = \<lparr>storeSettings = \<lparr>submissionTimeoutMs = 30000, stateFilePath = None\<rparr>, defaultLeaseMs = 15000, maximumAttempts = 3,
     authToken = ''s'', maximumTasksPerPrincipal = 2, sessionDurationMs = 3600000,
     challengeDurationMs = 60000, accountFilePath = None, pipelineRegistry = example_registry,
     randomUUID = (\<lambda>n. replicate n (CHR ''u'')), randomHex = (\<lambda>n. replicate n (CHR ''h'')),
     sha256Hex = id, platform = example_platform\<rparr>"

text \<open>A gateway started for the first time: no file holds anything yet.\<close>

definition example_start :: gateway where
  "example_start = initial_gateway \<lparr>tasks = [], taskIdByConsumerTaskRequest = [],
     stateFile = None\<rparr> no_accounts empty_ledger"

definition frame :: "device_id \<Rightarrow> client_message \<Rightarrow> gateway_event" where
  "frame did m = Frame_arrived did 100 (Json JNull (Some (Envelope_fromClient ''m'' 0 m)))"

definition joining :: "(int \<times> gateway_event) list" where
  "joining =
    [(1, Connection_opened 1 None),
     (2, Connection_opened 2 None),
     (3, frame ''device-'' (DeviceAuthenticate ''s'')),
     (4, frame ''device-'' (DeviceRegister Worker ''t'' (Some [''m'', ''a'']) None None)),
     (5, frame ''device-u'' (DeviceAuthenticate ''s'')),
     (6, frame ''device-u'' (DeviceRegister Consumer ''c'' None None None)),
     (7, frame ''device-u'' (Task_submit ''r'' (Dev_formula 3 None) None None))]"


definition working :: "(int \<times> gateway_event) list" where
  "working =
    [(8, frame ''device-'' (Stage_accepted ''task-uuuuuu'' ''stageAssignment-uuuuuuuu'' 1)),
     (9, frame ''device-'' (Stage_result ''task-uuuuuu'' ''stageAssignment-uuuuuuuu'' 1 ''m'' (Number 6)))]"

definition example_task :: task_id where
  "example_task = ''task-uuuuuu''"

definition joined_gateway :: gateway where
  "joined_gateway = the (play example_env joining example_start)"

definition worked_gateway :: gateway where
  "worked_gateway = the (play example_env (joining @ working) example_start)"

definition is_joined :: "gateway \<Rightarrow> bool" where
  "is_joined g \<longleftrightarrow> map_has (socketMap (hub g)) ''device-'' \<and> map_has (socketMap (hub g)) ''device-u''
     \<and> map_option (\<lambda>t. (taskState t, map_option (\<lambda>a. (stageAssignmentId a, workerDeviceId a)) (stageAssignment t)))
         (map_get (tasks (taskStore g)) example_task)
       = Some (Assigned, Some (''stageAssignment-uuuuuuuu'', ''device-''))"

definition is_worked :: "gateway \<Rightarrow> bool" where
  "is_worked g \<longleftrightarrow> map_option deviceRole (DeviceRegistry_get (deviceRegistry g) ''device-u'') = Some Consumer
     \<and> map_option (\<lambda>t. (taskState t, map result_value (completedStages t), acknowledged t,
           consumerDeviceId t, taskRequestId t, taskInput t))
         (map_get (tasks (taskStore g)) example_task)
       = Some (Assigned, [Number 6], [''stageAssignment-uuuuuuuu''], ''device-u'', ''r'', Dev_formula 3 None)"

lemma joined_played: "case_option False is_joined (play example_env joining example_start)"
  by code_simp

lemma worked_played: "case_option False is_worked (play example_env (joining @ working) example_start)"
  by code_simp

lemma joined: "run (gateway_step example_env) example_start joining joined_gateway" "is_joined joined_gateway"
  using joined_played by (auto simp: joined_gateway_def intro: play_run split: option.splits)

lemma worked: "run (gateway_step example_env) example_start (joining @ working) worked_gateway"
  "is_worked worked_gateway"
  using worked_played by (auto simp: worked_gateway_def intro: play_run split: option.splits)

text \<open>The same history on a gateway that keeps a state file.\<close>

definition durable_env :: "nat env" where
  "durable_env = example_env\<lparr>storeSettings := example_store_settings\<rparr>"

definition durable_gateway :: gateway where
  "durable_gateway = the (play durable_env joining example_start)"

lemma durable_played: "case_option False is_joined (play durable_env joining example_start)"
  by code_simp

lemma durable_joined: "run (gateway_step durable_env) example_start joining durable_gateway" "is_joined durable_gateway"
  using durable_played by (auto simp: durable_gateway_def intro: play_run split: option.splits)

section \<open>The scenario is one of the lives the properties speak about\<close>

lemma example_env_ok: "env_ok example_env" "env_ok durable_env"
proof -
  have "inj (\<lambda>n. replicate n (CHR ''u''))" by (rule injI) (metis length_replicate)
  moreover have "PipelineRegistry_constructor [example_pipeline] = Inr example_registry" by code_simp
  then have "wf_registry example_registry" by (rule wf_constructor)
  ultimately show "env_ok example_env" "env_ok durable_env"
    by (simp_all add: env_ok_def example_env_def durable_env_def)
qed

lemma example_gateway_start: "gateway_start e example_start"
  unfolding gateway_start_def example_start_def
  by (intro exI conjI, rule_tac [2] refl) (simp add: store_start_def durable_def)

lemma example_life: "life e example_start"
  by (rule life.started [OF example_gateway_start])

lemma joined_life: "life example_env joined_gateway"
  by (rule life_run [OF joined(1) example_life])

lemma worked_life: "life example_env worked_gateway"
  by (rule life_run [OF worked(1) example_life])

lemma durable_life: "life durable_env durable_gateway"
  by (rule life_run [OF durable_joined(1) example_life])

text \<open>One more event of the scenario: the worker leaves.\<close>

lemma joined_worker_leaves:
  "gateway_step example_env joined_gateway (8, Connection_closed ''device-'')
     (gateway_next example_env 8 (Connection_closed ''device-'') joined_gateway)"
  using joined(2) life_core [OF joined_life example_env_ok(1)]
  by (intro gateway_step.step) (simp_all add: is_joined_def core_inv_def)

end
