(* ===== verification/Account_Safety.thy ===== *)
theory Account_Safety
  imports Gateway_Refinement
begin

text \<open>
  Who a connection is. A session carries an account only after a signature over a challenge of that very
  connection was verified; everything else the gateway does may end a session or open a plain one, and
  leaves the accounts of the others alone. \<open>kept\<close> is what every step but a verified signature satisfies.
\<close>

section \<open>What the scheduler leaves alone\<close>

definition account_of :: "gateway \<Rightarrow> device_id \<Rightarrow> account_id option" where
  "account_of g did = Option.bind (map_get (sessionsByDeviceId (sessionRegistry g)) did) session_accountId"

definition signed_by :: "gateway \<Rightarrow> continuation set" where
  "signed_by g = {c \<in> set (pending g). \<exists>s did account challenge sig reply. c = Finish_authenticate s did account challenge sig reply}"

definition kept :: "gateway \<Rightarrow> gateway \<Rightarrow> bool" where
  "kept g g' \<longleftrightarrow> signed_by g' \<subseteq> signed_by g \<and> (\<forall>did aid. account_of g' did = Some aid \<longrightarrow> account_of g did = Some aid)"

lemma kept_refl [simp, intro]: "kept g g"
  by (simp add: kept_def)

lemma kept_trans: "kept g h \<Longrightarrow> kept h k \<Longrightarrow> kept g k"
  unfolding kept_def by blast

lemma kept_same: "sessionRegistry g' = sessionRegistry g \<Longrightarrow> pending g' = pending g \<Longrightarrow> kept g g'"
  by (simp add: kept_def account_of_def signed_by_def)

lemma kept_only_sends: "only_sends g g' \<Longrightarrow> kept g g'"
  by (rule kept_same) (simp_all add: only_sends_fields)

lemma draw_people [simp]:
  "sessionRegistry (snd (draw_uuid e g)) = sessionRegistry g" "pending (snd (draw_uuid e g)) = pending g"
  by (simp_all add: draw_uuid_def)

lemma update_people [simp]:
  "sessionRegistry (update_and_broadcast e now tid f g) = sessionRegistry g"
  "pending (update_and_broadcast e now tid f g) = pending g"
  by (simp_all add: update_and_broadcast_def split: sum.split)

lemma place_people [simp]:
  "sessionRegistry (place_stage e now tid t v stage opts d g) = sessionRegistry g"
  "pending (place_stage e now tid t v stage opts d g) = pending g"
  by (simp_all add: place_stage_def Let_def case_prod_beta split: sum.split option.split)

lemma assign_people [simp]:
  "sessionRegistry (TaskScheduler_assign e now tid v stage opts g) = sessionRegistry g"
  "pending (TaskScheduler_assign e now tid v stage opts g) = pending g"
  by (simp_all add: TaskScheduler_assign_def split: option.split)

lemma for_each_people:
  assumes "\<And>t g. sessionRegistry (f t g) = sessionRegistry g \<and> pending (f t g) = pending g"
  shows "sessionRegistry (for_each f ts g) = sessionRegistry g \<and> pending (for_each f ts g) = pending g"
  unfolding for_each_def by (induction ts arbitrary: g) (simp_all add: assms)

lemma sweep_people [simp]:
  "sessionRegistry (TaskScheduler_scheduleQueuedTasks e now g) = sessionRegistry g"
  "pending (TaskScheduler_scheduleQueuedTasks e now g) = pending g"
  "sessionRegistry (TaskScheduler_recoverAssignments e now g) = sessionRegistry g"
  "pending (TaskScheduler_recoverAssignments e now g) = pending g"
  "sessionRegistry (TaskScheduler_recoverWorkerAssignments e now did g) = sessionRegistry g"
  "pending (TaskScheduler_recoverWorkerAssignments e now did g) = pending g"
proof -
  have a: "sessionRegistry (schedule_one e now t g) = sessionRegistry g \<and> pending (schedule_one e now t g) = pending g" for t g
    by (simp add: schedule_one_def Let_def split: option.split)
  have b: "sessionRegistry (recover_one e now t g) = sessionRegistry g \<and> pending (recover_one e now t g) = pending g" for t g
    by (simp add: recover_one_def Let_def split: option.split)
  have c: "sessionRegistry (recover_from e now did t g) = sessionRegistry g \<and> pending (recover_from e now did t g) = pending g" for t g
    by (simp add: recover_from_def split: option.split)
  show "sessionRegistry (TaskScheduler_scheduleQueuedTasks e now g) = sessionRegistry g"
    "pending (TaskScheduler_scheduleQueuedTasks e now g) = pending g"
    "sessionRegistry (TaskScheduler_recoverAssignments e now g) = sessionRegistry g"
    "pending (TaskScheduler_recoverAssignments e now g) = pending g"
    "sessionRegistry (TaskScheduler_recoverWorkerAssignments e now did g) = sessionRegistry g"
    "pending (TaskScheduler_recoverWorkerAssignments e now did g) = pending g"
    using for_each_people [of "schedule_one e now", OF a] for_each_people [of "recover_one e now", OF b]
      for_each_people [of "recover_from e now did", OF c]
    by (simp_all add: TaskScheduler_scheduleQueuedTasks_def TaskScheduler_recoverAssignments_def
        TaskScheduler_recoverWorkerAssignments_def)
qed

section \<open>What the handlers leave alone\<close>

lemma active_kept: "kept g (g\<lparr>sessionRegistry := snd (SessionRegistry_active did now (sessionRegistry g))\<rparr>)"
  by (auto simp: kept_def account_of_def signed_by_def SessionRegistry_active_def split: option.splits if_splits)

lemma opened_kept: "kept g (g\<lparr>sessionRegistry := snd (SessionRegistry_open h d did token now (sessionRegistry g))\<rparr>)"
  by (auto simp: kept_def account_of_def signed_by_def SessionRegistry_open_def Let_def split: if_splits)

lemma closed_kept: "sessionRegistry g' = SessionRegistry_close did (sessionRegistry g) \<Longrightarrow> pending g' = pending g \<Longrightarrow> kept g g'"
  by (auto simp: kept_def account_of_def signed_by_def SessionRegistry_close_def split: if_splits)

lemma record_stage_kept: "kept g (record_stage e now did u stage aid a g)"
proof -
  have "kept g (g\<lparr>sessionRegistry := snd (SessionRegistry_active did now (sessionRegistry g))\<rparr>)" by (rule active_kept)
  then show ?thesis
    by (simp add: record_stage_def AccountingRecorder_recordCompletedStage_def AccountingRecorder_workerAccountId_def
        Let_def case_prod_beta kept_def account_of_def signed_by_def)
qed

lemma advance_people [simp]:
  "sessionRegistry (advance_task e now s did reply u aid n v g) = sessionRegistry g"
  "pending (advance_task e now s did reply u aid n v g) = pending g"
  by (simp_all add: advance_task_def reply_with_def Let_def split: option.split sum.split)

lemma check_report_people:
  assumes "check_stage_report e now s did reply w ow st ac answered tid aid n stage g = Inl g'"
    and "\<And>t h. answered t g = Some h \<Longrightarrow> kept g h"
  shows "kept g g'"
  using assms
  by (auto simp: check_stage_report_def Let_def reply_with_def intro!: kept_only_sends split: if_splits option.splits)

lemma result_kept: "kept g (ClientMessageHandler_acceptStageResult e now s did reply tid aid n stage v g)"
proof (cases "check_result e now s did reply tid aid n stage g")
  case (Inl h)
  then have "kept g h" unfolding check_result_def
    by (rule check_report_people) (auto simp: already_acknowledged_def reply_with_def intro: kept_only_sends split: if_splits)
  with Inl show ?thesis by (simp add: ClientMessageHandler_acceptStageResult_def)
next
  case (Inr p)
  obtain t a where p: "p = (t, a)" by fastforce
  show ?thesis
  proof (cases "TaskStore_addStage (storeSettings e) now (taskId t) \<lparr>result_name = stage, result_value = v\<rparr>
      (Some aid) (taskStore g)")
    case (Inl err)
    with Inr p show ?thesis by (simp add: ClientMessageHandler_acceptStageResult_def kept_same)
  next
    case (Inr q)
    obtain u st where q: "q = (u, st)" by fastforce
    have "kept g (g\<lparr>taskStore := st\<rparr>)" by (simp add: kept_same)
    note k = kept_trans [OF this record_stage_kept [of _ e now did u stage aid a]]
    show ?thesis
      by (rule kept_trans [OF k kept_same])
        (simp_all add: ClientMessageHandler_acceptStageResult_def \<open>check_result e now s did reply tid aid n stage g = Inr p\<close> p Inr q Let_def)
  qed
qed

lemma failure_kept: "kept g (ClientMessageHandler_acceptStageFailure e now s did reply tid aid n stage err g)"
proof (cases "check_failure e now s did reply tid aid n stage g")
  case (Inl h)
  then have "kept g h" unfolding check_failure_def by (rule check_report_people) simp
  with Inl show ?thesis by (simp add: ClientMessageHandler_acceptStageFailure_def)
next
  case (Inr p)
  then show ?thesis
    by (auto simp: ClientMessageHandler_acceptStageFailure_def intro!: kept_same split: sum.split)
qed

lemma reply_people [simp]:
  "sessionRegistry (reply_with e now s did reply m g) = sessionRegistry g" "pending (reply_with e now s did reply m g) = pending g"
  "sessionRegistry (reply_error e now s did reply c x o' g) = sessionRegistry g" "pending (reply_error e now s did reply c x o' g) = pending g"
  "sessionRegistry (not_allowed_to_read e now s did reply tid g) = sessionRegistry g"
  "pending (not_allowed_to_read e now s did reply tid g) = pending g"
  "sessionRegistry (ClientMessageHandler_sendTaskNotFound e now s did reply tid g) = sessionRegistry g"
  "pending (ClientMessageHandler_sendTaskNotFound e now s did reply tid g) = pending g"
  "sessionRegistry (ClientMessageHandler_sendDeviceList e now s did reply g) = sessionRegistry g"
  "pending (ClientMessageHandler_sendDeviceList e now s did reply g) = pending g"
  by (simp_all add: reply_with_def reply_error_def not_allowed_to_read_def
      ClientMessageHandler_sendTaskNotFound_def ClientMessageHandler_sendDeviceList_def)

lemma lease_kept: "kept g (extend_lease e now s did reply tid aid n g)"
  by (rule kept_same) (simp_all add: extend_lease_def Let_def case_prod_beta split: option.split)

lemma assignment_kept: "kept g (update_assignment e now s did reply b tid aid n g)"
  by (rule kept_same) (simp_all add: update_assignment_def case_prod_beta split: option.split sum.split)

lemma create_kept: "kept g (create_and_assign e now s did reply r i who session p g)"
  by (rule kept_same) (simp_all add: create_and_assign_def Let_def case_prod_beta split: option.split)

lemma submit_kept: "kept g (submit_task e now s did reply r i p v session g)"
  by (auto simp: submit_task_def create_kept Let_def intro: kept_same split: option.split)

lemma get_kept: "kept g (get_task e now s did reply tid g)"
  by (rule kept_same) (simp_all add: get_task_def split: option.split)

lemma state_kept: "kept g (change_worker_state e now s did reply ws n g)"
  by (rule kept_same) (simp_all add: change_worker_state_def Let_def split: option.split)

lemma cancel_kept: "kept g (cancel_task e now s did reply tid r g)"
  by (rule kept_same) (simp_all add: cancel_task_def Let_def case_prod_beta split: option.split sum.split)

lemma observer_kept: "kept g (manage_observer e now s did reply tid c b g)"
  by (rule kept_same) (simp_all add: manage_observer_def set_observers_def split: option.split)

lemma stage_messages_kept: "ClientMessageHandler_handleStageMessages e now s did m reply g = Some g' \<Longrightarrow> kept g g'"
  by (cases m) (auto simp: ClientMessageHandler_handleStageMessages_def
      result_kept failure_kept lease_kept assignment_kept)

lemma task_changes_kept: "ClientMessageHandler_handleTaskChanges e now s did m reply session g = Some g' \<Longrightarrow> kept g g'"
  by (cases m) (auto simp: ClientMessageHandler_handleTaskChanges_def submit_kept get_kept state_kept cancel_kept)

lemma task_reads_kept: "ClientMessageHandler_handleTaskReads e now s did m reply g = Some g' \<Longrightarrow> kept g g'"
  by (cases m) (auto simp: ClientMessageHandler_handleTaskReads_def observer_kept set_observers_def
      intro: kept_same split: option.splits if_splits)

section \<open>Where a signature enters\<close>

text \<open>
  The one message that puts a signature up for verification: it names a registered account and uses up the
  challenge issued to the connection it arrived on.
\<close>

definition claims :: "int \<Rightarrow> gateway \<Rightarrow> device_id \<Rightarrow> client_message \<Rightarrow> continuation \<Rightarrow> bool" where
  "claims now g did m c \<longleftrightarrow> (\<exists>s aid account challenge sig reply.
     c = Finish_authenticate s did account challenge sig reply \<and> m = Account_authenticate aid sig
     \<and> AccountRegistry_get (accountRegistry g) aid = Some account
     \<and> fst (ChallengeRegistry_consume did now (challengeRegistry g)) = Verdict_accepted challenge)"

definition admits :: "(continuation \<Rightarrow> bool) \<Rightarrow> gateway \<Rightarrow> gateway \<Rightarrow> bool" where
  "admits P g g' \<longleftrightarrow> (\<forall>c \<in> signed_by g'. c \<in> signed_by g \<or> P c)
     \<and> (\<forall>did aid. account_of g' did = Some aid \<longrightarrow> account_of g did = Some aid)"

lemma kept_admits: "kept g g' \<Longrightarrow> admits P g g'"
  by (auto simp: kept_def admits_def)

lemma admits_after: "kept g h \<Longrightarrow> admits P h k \<Longrightarrow> admits P g k"
  unfolding kept_def admits_def by blast

lemma admits_before: "admits P g h \<Longrightarrow> kept h k \<Longrightarrow> admits P g k"
  unfolding kept_def admits_def by blast

lemma account_message_admits:
  "admits (claims now g did m) g (AccountMessageHandler_handle e now s did m reply g)"
proof -
  have same: "admits P g h" if "sessionRegistry h = sessionRegistry g" "pending h = pending g" for P h
    by (rule kept_admits [OF kept_same [OF that]])
  show ?thesis
  proof (cases m)
    case (Account_register algorithm key email name)
    then show ?thesis
      by (auto simp: AccountMessageHandler_handle_def admits_def signed_by_def account_of_def)
  next
    case Account_challenge_request
    then show ?thesis by (auto simp: AccountMessageHandler_handle_def Let_def case_prod_beta intro!: same)
  next
    case (Account_authenticate aid sig)
    show ?thesis
    proof (cases "AccountRegistry_get (accountRegistry g) aid")
      case None
      then show ?thesis using Account_authenticate by (auto simp: AccountMessageHandler_handle_def intro!: same)
    next
      case (Some account)
      then show ?thesis using Account_authenticate
        by (cases "fst (ChallengeRegistry_consume did now (challengeRegistry g))")
          (auto simp: AccountMessageHandler_handle_def Let_def case_prod_beta claims_def admits_def
            signed_by_def account_of_def intro!: same)
    qed
  qed (auto simp: AccountMessageHandler_handle_def intro!: same)
qed

lemma readable_kept:
  "kept g (snd (AccountingQueryHandler_readableAccountId e now s did requested reply g))"
proof -
  have "kept g (g\<lparr>sessionRegistry := snd (SessionRegistry_active did now (sessionRegistry g))\<rparr>)" by (rule active_kept)
  then show ?thesis
    by (auto simp: AccountingQueryHandler_readableAccountId_def Let_def case_prod_beta kept_def account_of_def
        signed_by_def split: option.split)
qed

lemma query_kept: "kept g (AccountingQueryHandler_handle e now s did m reply g)"
proof -
  have r: "kept g h" if "sessionRegistry h = sessionRegistry (snd (AccountingQueryHandler_readableAccountId e now s did x reply g))"
    "pending h = pending (snd (AccountingQueryHandler_readableAccountId e now s did x reply g))" for x h
    by (rule kept_trans [OF readable_kept kept_same [OF that]])
  show ?thesis
    by (cases m) (auto simp: AccountingQueryHandler_handle_def case_prod_beta Let_def readable_kept intro: r
        split: option.split sum.split)
qed

lemma before_registration_admits:
  assumes "ClientMessageHandler_handleBeforeRegistration e now s did m reply session g = Some g'"
  shows "admits (claims now g did m) g g'"
proof -
  have reg: "kept g (ClientMessageHandler_register e now s did role name stages ready maximum reply session g)"
    for role name stages ready maximum
    by (rule kept_same) (simp_all add: ClientMessageHandler_register_def Let_def case_prod_beta
        same_core_fields [OF publishChange_same_core(1)])
  have summary: "kept g (AccountingSummaryHandler_handle e now s did reply g)"
    by (rule kept_same) (simp_all add: AccountingSummaryHandler_handle_def)
  have auth: "kept g (reply_with e now s did reply x (g\<lparr>sessionRegistry :=
      snd (SessionRegistry_open (sha256Hex e) (sessionDurationMs e) did token now (sessionRegistry g))\<rparr>))" for x token
    by (rule kept_trans [OF opened_kept kept_same]) simp_all
  show ?thesis
    using assms account_message_admits [of now g did m e s reply] reg summary query_kept auth
    by (cases m) (auto simp: ClientMessageHandler_handleBeforeRegistration_def case_prod_beta Let_def
        intro!: kept_admits intro: kept_same split: if_splits)
qed

lemma looked_up_kept: "kept g (looked_up now did g)"
  unfolding looked_up_def by (rule active_kept)

lemma seen_kept: "kept g (seen now d g)"
  by (rule kept_same) (simp_all add: seen_def)

lemma handle_admits: "admits (claims now g did m) g (ClientMessageHandler_handle e now s did m reply g)"
proof -
  have same: "claims now (looked_up now did g) did m = claims now g did m"
    by (simp add: claims_def looked_up_def fun_eq_iff)
  have late: "admits P g k" if "kept (looked_up now did g) k" for P k
    using kept_admits [OF kept_trans [OF looked_up_kept that]] .
  show ?thesis
  proof (cases rule: handle_cases [of m did now g e s reply, case_names unauthenticated early unregistered reads
        changes stages signal])
    case early
    from before_registration_admits [OF this(2)] show ?thesis unfolding same by (rule admits_after [OF looked_up_kept])
  qed (blast intro: late kept_only_sends kept_trans [OF seen_kept] task_reads_kept task_changes_kept
      stage_messages_kept)+
qed

lemma frame_admits:
  "admits (\<lambda>c. \<exists>r f. content = Json r (Some f) \<and> claims now g did (env_body f) c) g
     (WebsocketRouter_readFrame e now s did n content g)"
proof -
  have sends: "admits P g h" if "only_sends g h" for P h by (rule kept_admits [OF kept_only_sends [OF that]])
  have log: "kept g (log_received did f g)" for f by (rule kept_same) (simp_all add: log_received_def)
  have same: "claims now (log_received did f g) did m = claims now g did m" for f m
    by (simp add: claims_def log_received_def fun_eq_iff)
  have caught: "kept h (catch_exception e now s did h)" for h
    by (rule kept_same) (simp_all add: catch_exception_def push_error_def)
  have "admits (claims now g did (env_body f)) g (catch_exception e now s did
      (ClientMessageHandler_handle e now s did (env_body f) (env_id f) (log_received did f g)))" for f
    using admits_before [OF admits_after [OF log handle_admits [of now "log_received did f g" did "env_body f"]]
        caught] unfolding same .
  then show ?thesis
    by (auto simp: WebsocketRouter_readFrame_def sends split: frame_content.split option.split)
qed

lemma continuation_accounts:
  "signed_by (run_continuation e now c g) = signed_by g"
  "account_of (run_continuation e now c g) did = Some aid \<Longrightarrow> account_of g did \<noteq> Some aid \<Longrightarrow>
     \<exists>s account challenge sig reply. c = Finish_authenticate s did account challenge sig reply
       \<and> profile_accountId account = aid
       \<and> AccountIdentity_verifyChallengeSignature (platform e)
            \<lparr>check_signatureAlgorithmName = signatureAlgorithmName account,
             check_publicKeySpkiBase64 = publicKeySpkiBase64 account,
             check_challenge = challenge, check_signatureBase64 = sig\<rparr>"
proof -
  show "signed_by (run_continuation e now c g) = signed_by g"
    by (cases c) (simp_all add: AccountMessageHandler_registerAccount_def signed_by_def
        AccountMessageHandler_authenticateAccount_def Let_def case_prod_beta split: option.split)
  assume a: "account_of (run_continuation e now c g) did = Some aid" and b: "account_of g did \<noteq> Some aid"
  show "\<exists>s account challenge sig reply. c = Finish_authenticate s did account challenge sig reply
       \<and> profile_accountId account = aid
       \<and> AccountIdentity_verifyChallengeSignature (platform e)
            \<lparr>check_signatureAlgorithmName = signatureAlgorithmName account,
             check_publicKeySpkiBase64 = publicKeySpkiBase64 account,
             check_challenge = challenge, check_signatureBase64 = sig\<rparr>"
  proof (cases c)
    case (Finish_register s did' algorithm key email name reply)
    with a b show ?thesis
      by (simp add: AccountMessageHandler_registerAccount_def account_of_def Let_def case_prod_beta split: option.splits)
  next
    case (Finish_authenticate s did' account challenge sig reply)
    with a b show ?thesis
      by (auto simp: AccountMessageHandler_authenticateAccount_def account_of_def Let_def case_prod_beta
          SessionRegistry_attachAccount_def SessionRegistry_active_def split: if_splits option.splits)
  qed
qed

section \<open>One event\<close>

lemma event_admits:
  assumes "\<And>i. ev \<noteq> Account_answered i"
  shows "admits (\<lambda>c. \<exists>did n r f. ev = Frame_arrived did n (Json r (Some f)) \<and> claims now g did (env_body f) c)
    g (gateway_next e now ev g)"
proof -
  have same: "admits P g h" if "sessionRegistry h = sessionRegistry g" "pending h = pending g" for P h
    by (rule kept_admits [OF kept_same [OF that]])
  show ?thesis
  proof (cases ev)
    case (Frame_arrived did n content)
    show ?thesis
    proof (cases "map_get (socketMap (hub g)) did")
      case None
      with Frame_arrived show ?thesis by (simp add: same)
    next
      case (Some s)
      with Frame_arrived frame_admits [of content now g did e s n] show ?thesis by (auto simp: admits_def)
    qed
  next
    case (Connection_closed did)
    have "kept g (WebsocketRouter_connectionClosed e now did g)"
      by (rule closed_kept [of _ did])
        (simp_all add: WebsocketRouter_connectionClosed_def Let_def case_prod_beta)
    with Connection_closed show ?thesis by (simp add: kept_admits)
  qed (use assms in \<open>auto simp: WebsocketRouter_acceptConnection_def Let_def case_prod_beta recovery_sweep_def
      intro!: same split: option.split\<close>)
qed

lemma event_accounts:
  assumes "account_of (gateway_next e now ev g) did = Some aid" and "account_of g did \<noteq> Some aid"
  shows "\<exists>i s account challenge sig reply. ev = Account_answered i \<and> i < length (pending g)
    \<and> pending g ! i = Finish_authenticate s did account challenge sig reply
    \<and> profile_accountId account = aid
    \<and> AccountIdentity_verifyChallengeSignature (platform e)
         \<lparr>check_signatureAlgorithmName = signatureAlgorithmName account,
          check_publicKeySpkiBase64 = publicKeySpkiBase64 account,
          check_challenge = challenge, check_signatureBase64 = sig\<rparr>"
proof -
  from event_admits [of ev now g e] assms obtain i where i: "ev = Account_answered i" unfolding admits_def by blast
  with assms have n: "i < length (pending g)" by (auto split: if_splits)
  let ?h = "g\<lparr>pending := remove_nth i (pending g)\<rparr>"
  have "account_of ?h did = account_of g did" by (simp add: account_of_def)
  with continuation_accounts(2) [of e now "pending g ! i" ?h did aid] assms i n show ?thesis by auto
qed

lemma event_claims:
  assumes "c \<in> signed_by (gateway_next e now ev g)" and "c \<notin> signed_by g"
  shows "\<exists>did n r f. ev = Frame_arrived did n (Json r (Some f)) \<and> claims now g did (env_body f) c"
proof (cases "\<exists>i. ev = Account_answered i")
  case False
  with event_admits [of ev now g e] assms show ?thesis unfolding admits_def by blast
next
  case True
  then obtain i where i: "ev = Account_answered i" ..
  have "signed_by (g\<lparr>pending := remove_nth i (pending g)\<rparr>) \<subseteq> signed_by g"
    by (auto simp: signed_by_def remove_nth_def dest: in_set_takeD in_set_dropD)
  with assms i show ?thesis by (auto simp: continuation_accounts split: if_splits)
qed

end
