(* ===== verification/Js_Strings.thy ===== *)
theory Js_Strings
  imports Prelude "HOL-Library.Sublist"
begin

text \<open>
  The string operations the workers and the OpenAI-compatible programs are written with: \<open>indexOf\<close>,
  \<open>startsWith\<close>, \<open>slice\<close>, \<open>trim\<close>. A string is a list of characters (searching and slicing are the same on the code units of a text); white space is what \<open>\\s\<close> and \<open>trim\<close>
  take for it among them. The lemmas say where a first occurrence is when a text is taken apart or grows at its
  end, which is what every reader of a growing text relies on.
\<close>

section \<open>Searching\<close>

fun indexOf :: "'c list \<Rightarrow> 'c list \<Rightarrow> nat option" where
  "indexOf pat [] = (if pat = [] then Some 0 else None)"
| "indexOf pat (c # cs) = (if prefix pat (c # cs) then Some 0 else map_option Suc (indexOf pat cs))"

definition indexOf_from :: "string \<Rightarrow> nat \<Rightarrow> string \<Rightarrow> nat option" where
  "indexOf_from pat from s = map_option (\<lambda>i. from + i) (indexOf pat (drop from s))"

definition startsWith_at :: "string \<Rightarrow> nat \<Rightarrow> string \<Rightarrow> bool" where
  "startsWith_at pat i s \<longleftrightarrow> prefix pat (drop i s)"

definition includes_text :: "string \<Rightarrow> string \<Rightarrow> bool" where
  "includes_text pat s \<longleftrightarrow> indexOf pat s \<noteq> None"

definition slice :: "nat \<Rightarrow> nat \<Rightarrow> 'c list \<Rightarrow> 'c list" where
  "slice a b s = take (b - a) (drop a s)"

lemma indexOf_Some:
  "indexOf pat s = Some i \<Longrightarrow> i \<le> length s \<and> prefix pat (drop i s) \<and> (\<forall>j < i. \<not> prefix pat (drop j s))"
proof (induction s arbitrary: i)
  case Nil
  then show ?case by (simp split: if_splits)
next
  case (Cons c s)
  show ?case
  proof (cases "prefix pat (c # s)")
    case True
    with Cons.prems show ?thesis by simp
  next
    case False
    with Cons.prems obtain k where k: "i = Suc k" "indexOf pat s = Some k" by auto
    have "\<not> prefix pat (drop j (c # s))" if "j < i" for j
      using that False Cons.IH [OF k(2)] k(1) by (cases j) auto
    with Cons.IH [OF k(2)] k(1) show ?thesis by auto
  qed
qed

lemma indexOf_None: "indexOf pat s = None \<longleftrightarrow> (\<forall>j \<le> length s. \<not> prefix pat (drop j s))"
proof (induction s)
  case Nil
  then show ?case by simp
next
  case (Cons c s)
  have "(\<forall>j \<le> length (c # s). \<not> prefix pat (drop j (c # s))) \<longleftrightarrow>
      \<not> prefix pat (c # s) \<and> (\<forall>j \<le> length s. \<not> prefix pat (drop j s))"
    by (metis (no_types, lifting) Suc_le_mono drop0 drop_Suc_Cons le_zero_eq length_Cons nat.exhaust zero_le)
  with Cons show ?case by auto
qed

lemma indexOf_eqI:
  assumes "i \<le> length s" and "prefix pat (drop i s)" and "\<And>j. j < i \<Longrightarrow> \<not> prefix pat (drop j s)"
  shows "indexOf pat s = Some i"
proof (cases "indexOf pat s")
  case None
  with assms show ?thesis by (simp add: indexOf_None)
next
  case (Some k)
  with indexOf_Some [OF Some] assms show ?thesis by (metis linorder_neqE_nat)
qed

lemma indexOf_bounds: "indexOf pat s = Some i \<Longrightarrow> i + length pat \<le> length s"
  using indexOf_Some [of pat s i] by (auto dest: prefix_length_le)

lemma indexOf_split: "indexOf pat s = Some i \<Longrightarrow> s = take i s @ pat @ drop (i + length pat) s"
  using indexOf_Some [of pat s i]
  by (metis add.commute append_take_drop_id drop_drop prefix_def append_eq_conv_conj)

lemma prefix_drop_append:
  "prefix pat (drop j s) \<Longrightarrow> j \<le> length s \<Longrightarrow> prefix pat (drop j (s @ t))"
  by (simp add: prefix_prefix)

lemma indexOf_append: "indexOf pat s = Some i \<Longrightarrow> indexOf pat (s @ t) = Some i"
proof -
  assume a: "indexOf pat s = Some i"
  note i = indexOf_Some [OF a] and le = indexOf_bounds [OF a]
  show ?thesis
  proof (rule indexOf_eqI)
    show "i \<le> length (s @ t)" using i by simp
    show "prefix pat (drop i (s @ t))" using i by (auto intro: prefix_drop_append)
    fix j assume "j < i"
    then have "\<not> prefix pat (drop j s)" and "length pat \<le> length (drop j s)" using i le by auto
    moreover have "drop j (s @ t) = drop j s @ t" using \<open>j < i\<close> i by simp
    ultimately show "\<not> prefix pat (drop j (s @ t))" by (metis prefixI prefix_length_prefix)
  qed
qed

text \<open>An occurrence that was not there before the text grew reaches past the old end.\<close>

lemma indexOf_new:
  assumes "indexOf pat s = None" and "indexOf pat (s @ t) = Some i"
  shows "length s < i + length pat"
proof (rule ccontr)
  assume "\<not> length s < i + length pat"
  then have le: "i + length pat \<le> length s" by simp
  from indexOf_Some [OF assms(2)] have "prefix pat (drop i (s @ t))" by simp
  then have "take (length pat) (drop i (s @ t)) = pat" by (metis append_eq_conv_conj prefix_def)
  with le have "take (length pat) (drop i s) = pat" by simp
  then have "prefix pat (drop i s)" by (metis take_is_prefix)
  with assms(1) le show False by (simp add: indexOf_None)
qed

lemma indexOf_skip:
  assumes "k \<le> length s" and "\<And>j. j < k \<Longrightarrow> \<not> prefix pat (drop j s)"
  shows "indexOf pat s = map_option (\<lambda>i. k + i) (indexOf pat (drop k s))"
proof (cases "indexOf pat (drop k s)")
  case None
  have "\<not> prefix pat (drop j s)" if "j \<le> length s" for j
  proof (cases "j < k")
    case False
    with that have "j - k \<le> length (drop k s)" by simp
    with None have "\<not> prefix pat (drop (j - k) (drop k s))" unfolding indexOf_None by blast
    with False show ?thesis by simp
  qed (rule assms(2))
  then have "indexOf pat s = None" by (simp add: indexOf_None)
  with None show ?thesis by simp
next
  case (Some i)
  note i = indexOf_Some [OF Some]
  have "indexOf pat s = Some (k + i)"
  proof (rule indexOf_eqI)
    show "k + i \<le> length s" using i assms(1) by auto
    show "prefix pat (drop (k + i) s)" using i by (simp add: add.commute)
    fix j assume "j < k + i"
    show "\<not> prefix pat (drop j s)"
    proof (cases "j < k")
      case False
      with \<open>j < k + i\<close> have "j - k < i" by simp
      with i have "\<not> prefix pat (drop (j - k) (drop k s))" by blast
      with False show ?thesis by simp
    qed (rule assms(2))
  qed
  with Some show ?thesis by simp
qed

text \<open>A marker cannot begin where its first character does not stand.\<close>

lemma indexOf_past:
  assumes "c \<notin> set u"
  shows "indexOf (c # cs) (u @ s) = map_option (\<lambda>i. length u + i) (indexOf (c # cs) s)"
proof -
  have "\<not> prefix (c # cs) (drop j (u @ s))" if "j < length u" for j
  proof -
    have "drop j (u @ s) = u ! j # drop (Suc j) (u @ s)"
      using that by (simp add: Cons_nth_drop_Suc nth_append)
    with assms that show ?thesis by (metis Cons_prefix_Cons nth_mem)
  qed
  from indexOf_skip [of "length u" "u @ s", OF _ this] show ?thesis by simp
qed

lemma indexOf_here [simp]: "indexOf pat (pat @ s) = Some 0"
  by (rule indexOf_eqI) auto

lemma indexOf_marker: "c \<notin> set u \<Longrightarrow> indexOf (c # cs) (u @ (c # cs) @ s) = Some (length u)"
  using indexOf_past [of c u cs "(c # cs) @ s"] indexOf_here [of "c # cs" s] by (simp del: indexOf.simps)

lemma indexOf_absent: "c \<notin> set u \<Longrightarrow> indexOf (c # cs) u = None"
  using indexOf_past [of c u cs "[]"] by simp

section \<open>Texts between markers\<close>

text \<open>\<open>([\\s\\S]*?)(?:END|$)\<close>: the text before the end marker and the text after it.\<close>

definition up_to :: "string \<Rightarrow> string \<Rightarrow> string \<times> string" where
  "up_to marker s = (case indexOf marker s of None \<Rightarrow> (s, []) | Some i \<Rightarrow> (take i s, drop (i + length marker) s))"

lemma up_to_length: "length (snd (up_to marker s)) \<le> length s"
  by (simp add: up_to_def split: option.split)

lemma up_to_marker: "c \<notin> set u \<Longrightarrow> up_to (c # cs) (u @ (c # cs) @ s) = (u, s)"
  using indexOf_marker [of c u cs s] by (simp add: up_to_def)

text \<open>The texts between an opening marker and the next closing one, or the end, from left to right.\<close>

function blocks_between :: "string \<Rightarrow> string \<Rightarrow> string \<Rightarrow> string list" where
  "blocks_between opening closing s =
     (if opening = [] then []
      else (case indexOf opening s of
              None \<Rightarrow> []
            | Some i \<Rightarrow>
                let (body, rest) = up_to closing (drop (i + length opening) s)
                in body # blocks_between opening closing rest))"
  by pat_completeness auto
termination
proof (relation "measure (\<lambda>(_, _, s). length s)", simp)
  fix opn cls s :: string and i x body rest
  assume "opn \<noteq> []" and i: "indexOf opn s = Some i"
    and x: "x = up_to cls (drop (i + length opn) s)" "(body, rest) = x"
  from x have "length rest \<le> length (drop (i + length opn) s)" by (metis snd_conv up_to_length)
  also have "\<dots> < length s" using indexOf_bounds [OF i] \<open>opn \<noteq> []\<close> by (cases opn) auto
  finally show "((opn, cls, rest), (opn, cls, s)) \<in> measure (\<lambda>(_, _, s). length s)" by simp
qed

declare blocks_between.simps [simp del]

lemma blocks_between_absent: "indexOf opening s = None \<Longrightarrow> blocks_between opening closing s = []"
  by (subst blocks_between.simps) simp

lemma blocks_between_started: "indexOf opening s \<noteq> None \<Longrightarrow> opening \<noteq> [] \<Longrightarrow> blocks_between opening closing s \<noteq> []"
  by (subst blocks_between.simps) (auto simp: case_prod_beta)

lemma blocks_between_block:
  assumes "indexOf opening (u @ opening @ s) = Some (length u)" and "up_to closing s = (body, rest)" and "opening \<noteq> []"
  shows "blocks_between opening closing (u @ opening @ s) = body # blocks_between opening closing rest"
  using assms by (subst blocks_between.simps) simp

section \<open>White space\<close>

definition is_space :: "char \<Rightarrow> bool" where
  "is_space c \<longleftrightarrow> c \<in> {CHR 0x09, CHR 0x0A, CHR 0x0B, CHR 0x0C, CHR 0x0D, CHR '' '', CHR 0xA0}"

definition trimStart :: "string \<Rightarrow> string" where
  "trimStart s = dropWhile is_space s"

definition trim :: "string \<Rightarrow> string" where
  "trim s = rev (dropWhile is_space (rev (dropWhile is_space s)))"

text \<open>A text that neither begins nor ends with white space.\<close>

definition trimmed :: "string \<Rightarrow> bool" where
  "trimmed s \<longleftrightarrow> (s = [] \<or> \<not> is_space (hd s) \<and> \<not> is_space (last s))"

lemma dropWhile_spaces: "list_all P u \<Longrightarrow> dropWhile P (u @ s) = dropWhile P s"
  by (induction u) auto

lemma trim_padded:
  assumes "trimmed s" and "list_all is_space u" and "list_all is_space v"
  shows "trim (u @ s @ v) = s"
proof (cases "s = []")
  case True
  have "dropWhile is_space (u @ v) = []"
    using assms(2,3) dropWhile_eq_Nil_conv [of is_space "u @ v"] by (auto simp: list_all_iff)
  with True show ?thesis unfolding trim_def by (simp only: append_Nil rev.simps dropWhile.simps)
next
  case False
  with assms(1) have h: "\<not> is_space (hd s)" "\<not> is_space (last s)" by (auto simp: trimmed_def)
  have "dropWhile is_space (u @ s @ v) = s @ v"
    using dropWhile_spaces [OF assms(2), of "s @ v"] h(1) False by (cases s) auto
  moreover have "dropWhile is_space (rev v @ rev s) = rev s"
    using dropWhile_spaces [of is_space "rev v" "rev s"] assms(3) h(2) False
    by (cases "rev s") (auto simp: list_all_iff last_rev hd_rev)
  ultimately show ?thesis by (simp add: trim_def)
qed

lemma trim_trimmed [simp]: "trimmed s \<Longrightarrow> trim s = s"
  using trim_padded [of s "[]" "[]"] by simp

lemma trimmed_trim: "trimmed (trim s)"
proof -
  define d where "d = dropWhile is_space s"
  have "trim s = [] \<or> \<not> is_space (last (trim s))"
    unfolding trim_def by (metis Nil_is_rev_conv hd_dropWhile last_rev)
  moreover have "trim s = [] \<or> \<not> is_space (hd (trim s))"
  proof (cases "trim s = []")
    case False
    have "prefix (trim s) d"
      unfolding trim_def d_def by (metis rev_rev_ident suffix_dropWhile suffix_to_prefix)
    with False have "hd (trim s) = hd d" "d \<noteq> []" by (auto simp: prefix_def)
    then show ?thesis unfolding d_def by (simp add: hd_dropWhile)
  qed simp
  ultimately show ?thesis by (auto simp: trimmed_def)
qed

end
