(* ===== verification/Worker_Text.thy ===== *)
theory Worker_Text
  imports Js_Strings Protocol_Types
begin

text \<open>
  What a browser worker does with a text while a model is still writing it
  (\<open>src/packages/worker_webpage/web/src/stages\<close>): \<open>StopSequenceWatcher\<close> ends an answer at a stop sequence,
  \<open>ThinkingBlockCut\<close> and \<open>ThoughtChannelCut\<close> take a model's thinking out of it, \<open>EmptyAnswerRefusal\<close> refuses an
  answer that never began, \<open>SampledTokenForwarder\<close> announces every sampled token to the grammar once. The text
  comes in chunks of the model's choosing and a chunk already forwarded cannot be taken back; the properties
  say that what is forwarded does not depend on the chunks: it is what cutting the whole text would give.
\<close>

section \<open>Stop sequences\<close>

record 'c stop_watcher =
  stopSequences :: "'c list list"
  heldBackLength :: int
  generatedSoFar :: "'c list"
  forwardedLength :: int
  stopped :: bool

definition StopSequenceWatcher_constructor :: "'c list list \<Rightarrow> 'c stop_watcher" where
  "StopSequenceWatcher_constructor stops =
     \<lparr>stopSequences = stops,
      heldBackLength = (if stops = [] then 0 else int (Max (set (map length stops))) - 1),
      generatedSoFar = [], forwardedLength = 0, stopped = False\<rparr>"

definition StopSequenceWatcher_forwardUpTo :: "int \<Rightarrow> 'c stop_watcher \<Rightarrow> 'c list \<times> 'c stop_watcher" where
  "StopSequenceWatcher_forwardUpTo position w =
     (if position \<le> forwardedLength w then ([], w)
      else (slice (nat (forwardedLength w)) (nat position) (generatedSoFar w), w\<lparr>forwardedLength := position\<rparr>))"

text \<open>The loop over the stop sequences, in the order they were asked for.\<close>

fun listed_stop :: "'c list list \<Rightarrow> 'c list \<Rightarrow> nat option" where
  "listed_stop [] s = None"
| "listed_stop (p # ps) s = (case indexOf p s of None \<Rightarrow> listed_stop ps s | Some i \<Rightarrow> Some i)"

definition StopSequenceWatcher_accept :: "'c list \<Rightarrow> 'c stop_watcher \<Rightarrow> 'c list \<times> 'c stop_watcher" where
  "StopSequenceWatcher_accept chunk w =
     (if stopSequences w = [] then (chunk, w)
      else if stopped w then ([], w)
      else
        let w1 = w\<lparr>generatedSoFar := generatedSoFar w @ chunk\<rparr>
        in case listed_stop (stopSequences w1) (generatedSoFar w1) of
             Some stopIndex \<Rightarrow> StopSequenceWatcher_forwardUpTo (int stopIndex) (w1\<lparr>stopped := True\<rparr>)
           | None \<Rightarrow> StopSequenceWatcher_forwardUpTo
               (max 0 (int (length (generatedSoFar w1)) - heldBackLength w1)) w1)"

definition StopSequenceWatcher_flush :: "'c stop_watcher \<Rightarrow> 'c list \<times> 'c stop_watcher" where
  "StopSequenceWatcher_flush w =
     (if stopped w then ([], w) else StopSequenceWatcher_forwardUpTo (int (length (generatedSoFar w))) w)"

text \<open>A whole generation: every chunk, then what is still held back.\<close>

fun accept_all :: "'c list list \<Rightarrow> 'c stop_watcher \<Rightarrow> 'c list \<times> 'c stop_watcher" where
  "accept_all [] w = ([], w)"
| "accept_all (c # cs) w =
     (let (out, w1) = StopSequenceWatcher_accept c w; (rest, w2) = accept_all cs w1 in (out @ rest, w2))"

definition watched_answer :: "'c list list \<Rightarrow> 'c list list \<Rightarrow> 'c list" where
  "watched_answer stops chunks =
     (let (out, w) = accept_all chunks (StopSequenceWatcher_constructor stops)
      in out @ fst (StopSequenceWatcher_flush w))"

text \<open>The same without holding anything back: where the text is cut, chunk by chunk.\<close>

fun first_stop :: "'c list list \<Rightarrow> 'c list \<Rightarrow> 'c list list \<Rightarrow> nat option" where
  "first_stop stops s [] = None"
| "first_stop stops s (c # cs) =
     (case listed_stop stops (s @ c) of Some i \<Rightarrow> Some i | None \<Rightarrow> first_stop stops (s @ c) cs)"

lemma listed_stop_None: "listed_stop ps s = None \<longleftrightarrow> (\<forall>p \<in> set ps. indexOf p s = None)"
  by (induction ps) (auto split: option.splits)

lemma listed_stop_Some: "listed_stop ps s = Some i \<Longrightarrow> \<exists>p \<in> set ps. indexOf p s = Some i"
  by (induction ps) (auto split: option.splits)

lemma stop_lengths:
  assumes "listed_stop stops s = None" and "stops \<noteq> []"
  shows "1 \<le> Max (set (map length stops))"
proof -
  have "\<forall>p \<in> set stops. p \<noteq> []" using assms(1) by (cases s) (auto simp: listed_stop_None)
  moreover obtain p where "p \<in> set stops" using assms(2) by (cases stops) auto
  ultimately have "1 \<le> length p" by (cases p) auto
  also have "\<dots> \<le> Max (set (map length stops))" using \<open>p \<in> set stops\<close> by (intro Max_ge) auto
  finally show ?thesis .
qed

text \<open>The state after chunks that hold no stop sequence: everything but the tail held back was forwarded.\<close>

definition watching :: "'c list list \<Rightarrow> 'c list \<Rightarrow> 'c stop_watcher \<Rightarrow> bool" where
  "watching stops s w \<longleftrightarrow> stopSequences w = stops \<and> generatedSoFar w = s \<and> \<not> stopped w
     \<and> heldBackLength w = int (Max (set (map length stops))) - 1
     \<and> forwardedLength w = max 0 (int (length s) - heldBackLength w)"

lemma watching_accept:
  assumes w: "watching stops s w" and none: "listed_stop stops (s @ c) = None" and "stops \<noteq> []"
  shows "fst (StopSequenceWatcher_accept c w) =
      slice (nat (forwardedLength w)) (nat (forwardedLength (snd (StopSequenceWatcher_accept c w)))) (s @ c)
    \<and> watching stops (s @ c) (snd (StopSequenceWatcher_accept c w))
    \<and> forwardedLength w \<le> forwardedLength (snd (StopSequenceWatcher_accept c w))"
  using assms
  by (auto simp: StopSequenceWatcher_accept_def StopSequenceWatcher_forwardUpTo_def watching_def Let_def slice_def)

lemma slice_join:
  assumes "a \<le> b" and "b \<le> d"
  shows "slice a b s @ slice b d s = slice a d s"
proof -
  have "d - a = (b - a) + (d - b)" "drop (b - a) (drop a s) = drop b s" using assms by simp_all
  then show ?thesis unfolding slice_def by (metis take_add)
qed

text \<open>Wherever the text is cut in the end, nothing after that place was forwarded before.\<close>

lemma first_stop_reaches:
  assumes "watching stops s w" and "listed_stop stops s = None" and "first_stop stops s cs = Some i"
  shows "nat (forwardedLength w) \<le> i"
proof -
  have held: "int (length s) - int i < int (Max (set (map length stops)))"
    using assms(2,3)
  proof (induction cs arbitrary: s)
    case Nil
    then show ?case by simp
  next
    case (Cons c cs)
    show ?case
    proof (cases "listed_stop stops (s @ c)")
      case None
      with Cons.IH [OF None] Cons.prems(2) show ?thesis by simp
    next
      case (Some k)
      from listed_stop_Some [OF Some] obtain p where p: "p \<in> set stops" "indexOf p (s @ c) = Some k" by blast
      have "length s < k + length p" using indexOf_new [OF _ p(2)] Cons.prems(1) p(1) by (auto simp: listed_stop_None)
      moreover have "length p \<le> Max (set (map length stops))" using p(1) by (intro Max_ge) auto
      ultimately show ?thesis using Some Cons.prems(2) by simp
    qed
  qed
  then show ?thesis using assms(1) by (simp add: watching_def)
qed

lemma stopped_all: "stopped w \<Longrightarrow> stopSequences w \<noteq> [] \<Longrightarrow> accept_all cs w = ([], w)"
  by (induction cs) (simp_all add: StopSequenceWatcher_accept_def)

lemma slice_take: "i \<le> length s \<Longrightarrow> slice a i (s @ t) = slice a i s"
  by (auto simp: slice_def)

lemma watching_answer:
  assumes "watching stops s w" and "listed_stop stops s = None" and "stops \<noteq> []" and "forwardedLength w \<le> int (length s)"
  shows "(let (out, w') = accept_all cs w in out @ fst (StopSequenceWatcher_flush w')) =
    (case first_stop stops s cs of
       None \<Rightarrow> drop (nat (forwardedLength w)) (s @ concat cs)
     | Some i \<Rightarrow> slice (nat (forwardedLength w)) i (s @ concat cs))"
  using assms
proof (induction cs arbitrary: s w)
  case Nil
  then show ?case
    by (auto simp: StopSequenceWatcher_flush_def StopSequenceWatcher_forwardUpTo_def watching_def slice_def)
next
  case (Cons c cs)
  let ?w = "snd (StopSequenceWatcher_accept c w)" and ?f = "nat (forwardedLength w)"
  show ?case
  proof (cases "listed_stop stops (s @ c)")
    case (Some i)
    from listed_stop_Some [OF Some] obtain p where "indexOf p (s @ c) = Some i" by blast
    then have len: "i \<le> length (s @ c)" using indexOf_Some by blast
    have reach: "forwardedLength w \<le> int i"
      using first_stop_reaches [OF Cons.prems(1,2), of "[c]" i] Some by simp
    have out: "fst (StopSequenceWatcher_accept c w) = slice ?f i (s @ c)" and ended: "stopped ?w" "stopSequences ?w \<noteq> []"
      using Cons.prems Some reach
      by (auto simp: StopSequenceWatcher_accept_def StopSequenceWatcher_forwardUpTo_def watching_def Let_def slice_def)
    show ?thesis
      using stopped_all [OF ended] ended(1) slice_take [OF len, of ?f "concat cs"] Some
      by (simp add: case_prod_beta Let_def out StopSequenceWatcher_flush_def)
  next
    case None
    note step = watching_accept [OF Cons.prems(1) None Cons.prems(3)]
    have bound: "forwardedLength ?w \<le> int (length (s @ c))"
      using step stop_lengths [OF None Cons.prems(3)] by (auto simp: watching_def)
    let ?g = "nat (forwardedLength ?w)"
    have fg: "?f \<le> ?g" using step by (simp add: nat_mono)
    have IH: "(let (out, w') = accept_all cs ?w in out @ fst (StopSequenceWatcher_flush w')) =
        (case first_stop stops (s @ c) cs of None \<Rightarrow> drop ?g (s @ concat (c # cs)) | Some i \<Rightarrow> slice ?g i (s @ concat (c # cs)))"
      using Cons.IH [OF _ None Cons.prems(3) bound] step by (simp add: append_assoc split: option.split)
    have out: "fst (StopSequenceWatcher_accept c w) = slice ?f ?g (s @ concat (c # cs))"
      using step bound slice_take [of ?g "s @ c" ?f "concat cs"] by simp
    have whole: "slice ?f ?g t @ drop ?g t = drop ?f t" for t
      using fg by (metis slice_def append_take_drop_id drop_drop le_add_diff_inverse2)
    have reach: "?g \<le> i" if "first_stop stops (s @ c) cs = Some i" for i
      using first_stop_reaches [OF _ None that] step by blast
    show ?thesis
      using IH out None whole slice_join [OF fg reach, of _ "s @ concat (c # cs)"]
      by (auto simp: case_prod_beta Let_def simp del: drop_append split: option.splits)
  qed
qed

lemma watched_answer_cut:
  assumes "stops \<noteq> []" and "[] \<notin> set stops"
  shows "watched_answer stops chunks =
    (case first_stop stops [] chunks of None \<Rightarrow> concat chunks | Some i \<Rightarrow> take i (concat chunks))"
proof -
  let ?w = "StopSequenceWatcher_constructor stops"
  have none: "listed_stop stops [] = None" using assms(2) by (auto simp: listed_stop_None)
  have w: "watching stops [] ?w" and f: "forwardedLength ?w = 0"
    using assms(1) stop_lengths [OF none assms(1)] by (simp_all add: watching_def StopSequenceWatcher_constructor_def)
  show ?thesis
    using watching_answer [OF w none assms(1), of chunks] f
    by (simp add: watched_answer_def slice_def case_prod_beta Let_def split: option.split)
qed

text \<open>With one stop sequence, where a chunk ends makes no difference.\<close>

lemma first_stop_single:
  "first_stop [p] s cs = (if cs = [] then None else
     case indexOf p s of None \<Rightarrow> indexOf p (s @ concat cs) | Some i \<Rightarrow> Some i)"
proof (induction cs arbitrary: s)
  case Nil
  then show ?case by simp
next
  case (Cons c cs)
  show ?case
  proof (cases "indexOf p (s @ c)")
    case None
    then have "indexOf p s = None" using indexOf_append [of p s _ c] by (cases "indexOf p s") auto
    with None Cons.IH [of "s @ c"] show ?thesis by (cases cs) auto
  next
    case (Some i)
    have "indexOf p (s @ c @ concat cs) = Some i" using indexOf_append [OF Some, of "concat cs"] by simp
    moreover have "indexOf p s = None \<or> indexOf p s = Some i"
      using indexOf_append [of p s _ c] Some by (cases "indexOf p s") auto
    ultimately show ?thesis using Some by auto
  qed
qed

lemma first_stop_None:
  "first_stop ps s cs = None \<Longrightarrow> \<forall>p \<in> set ps. indexOf p s = None \<Longrightarrow> \<forall>p \<in> set ps. indexOf p (s @ concat cs) = None"
proof (induction cs arbitrary: s)
  case (Cons c cs)
  then have "first_stop ps (s @ c) cs = None" "\<forall>p \<in> set ps. indexOf p (s @ c) = None"
    by (auto simp: listed_stop_None split: option.splits)
  from Cons.IH [OF this] show ?case by simp
qed simp

lemma first_stop_Some:
  "first_stop ps s cs = Some i \<Longrightarrow> \<exists>p \<in> set ps. \<exists>n. indexOf p (s @ concat cs) = Some n"
proof (induction cs arbitrary: s)
  case (Cons c cs)
  show ?case
  proof (cases "listed_stop ps (s @ c)")
    case None
    with Cons.IH [of "s @ c"] Cons.prems show ?thesis by simp
  next
    case (Some k)
    then obtain p where p: "p \<in> set ps" "indexOf p (s @ c) = Some k" using listed_stop_Some by blast
    from indexOf_append [OF p(2), of "concat cs"] p(1) show ?thesis by auto
  qed
qed simp

section \<open>Thinking blocks\<close>

definition THINKING_CLOSE_MARKER :: string where
  "THINKING_CLOSE_MARKER = ''</think>''"

record thinking_cut =
  isThinkingEnabled :: bool
  hasLeftThinking :: bool
  heldBackTail :: string
  isDroppingLeadingNewlines :: bool

definition ThinkingBlockCut_constructor :: "bool \<Rightarrow> thinking_cut" where
  "ThinkingBlockCut_constructor enabled' =
     \<lparr>isThinkingEnabled = enabled', hasLeftThinking = False, heldBackTail = [], isDroppingLeadingNewlines = True\<rparr>"

definition ThinkingBlockCut_hasBegunTheAnswer :: "thinking_cut \<Rightarrow> bool" where
  "ThinkingBlockCut_hasBegunTheAnswer k \<longleftrightarrow> \<not> isThinkingEnabled k \<or> hasLeftThinking k"

definition newline :: char where
  "newline = CHR 0x0A"

definition ThinkingBlockCut_withoutLeadingNewlines :: "string \<Rightarrow> thinking_cut \<Rightarrow> string \<times> thinking_cut" where
  "ThinkingBlockCut_withoutLeadingNewlines txt k =
     (if \<not> isDroppingLeadingNewlines k then (txt, k)
      else
        let remaining = dropWhile (\<lambda>c. c = newline) txt
        in (remaining, if remaining \<noteq> [] then k\<lparr>isDroppingLeadingNewlines := False\<rparr> else k))"

definition ThinkingBlockCut_accept :: "string \<Rightarrow> thinking_cut \<Rightarrow> string \<times> thinking_cut" where
  "ThinkingBlockCut_accept chunk k =
     (if \<not> isThinkingEnabled k then (chunk, k)
      else if hasLeftThinking k then ThinkingBlockCut_withoutLeadingNewlines chunk k
      else
        let seenSoFar = heldBackTail k @ chunk
        in case indexOf THINKING_CLOSE_MARKER seenSoFar of
             None \<Rightarrow> ([], k\<lparr>heldBackTail :=
               drop (length seenSoFar - (length THINKING_CLOSE_MARKER - 1)) seenSoFar\<rparr>)
           | Some markerIndex \<Rightarrow> ThinkingBlockCut_withoutLeadingNewlines
               (drop (markerIndex + length THINKING_CLOSE_MARKER) seenSoFar)
               (k\<lparr>hasLeftThinking := True, heldBackTail := []\<rparr>))"

fun cut_all :: "string list \<Rightarrow> thinking_cut \<Rightarrow> string \<times> thinking_cut" where
  "cut_all [] k = ([], k)"
| "cut_all (c # cs) k =
     (let (out, k1) = ThinkingBlockCut_accept c k; (rest, k2) = cut_all cs k1 in (out @ rest, k2))"

text \<open>The same on the whole text.\<close>

definition answer_after_thinking :: "string \<Rightarrow> string" where
  "answer_after_thinking s = (case indexOf THINKING_CLOSE_MARKER s of
       None \<Rightarrow> []
     | Some i \<Rightarrow> dropWhile (\<lambda>c. c = newline) (drop (i + length THINKING_CLOSE_MARKER) s))"

lemma left_all:
  assumes "isThinkingEnabled k" and "hasLeftThinking k"
  shows "fst (cut_all cs k) =
    (if isDroppingLeadingNewlines k then dropWhile (\<lambda>c. c = newline) (concat cs) else concat cs)
    \<and> hasLeftThinking (snd (cut_all cs k)) \<and> isThinkingEnabled (snd (cut_all cs k))"
  using assms
proof (induction cs arbitrary: k)
  case Nil
  then show ?case by simp
next
  case (Cons c cs)
  let ?k = "snd (ThinkingBlockCut_accept c k)" and ?P = "\<lambda>c. c = newline"
  have k: "isThinkingEnabled ?k" "hasLeftThinking ?k"
    using Cons.prems by (auto simp: ThinkingBlockCut_accept_def ThinkingBlockCut_withoutLeadingNewlines_def Let_def)
  show ?case
  proof (cases "isDroppingLeadingNewlines k \<and> dropWhile ?P c = []")
    case True
    then have c: "list_all ?P c" by (simp add: list_all_iff)
    have "ThinkingBlockCut_accept c k = ([], k)"
      using True Cons.prems by (simp add: ThinkingBlockCut_accept_def ThinkingBlockCut_withoutLeadingNewlines_def Let_def)
    with True Cons.IH [OF Cons.prems] dropWhile_spaces [OF c, of "concat cs"] show ?thesis by (simp add: Let_def)
  next
    case False
    then have "fst (ThinkingBlockCut_accept c k) = (if isDroppingLeadingNewlines k then dropWhile ?P c else c)"
      "\<not> isDroppingLeadingNewlines ?k"
      using Cons.prems
      by (auto simp: ThinkingBlockCut_accept_def ThinkingBlockCut_withoutLeadingNewlines_def Let_def)
    moreover have "dropWhile ?P (c @ concat cs) = dropWhile ?P c @ concat cs" if "isDroppingLeadingNewlines k"
      using False that by (auto simp: dropWhile_append)
    ultimately show ?thesis using Cons.IH [OF k] by (simp add: case_prod_beta Let_def)
  qed
qed

text \<open>While the model thinks, the tail kept is as much of the text as the beginning of a marker can be.\<close>

definition thinking :: "string \<Rightarrow> thinking_cut \<Rightarrow> bool" where
  "thinking s k \<longleftrightarrow> isThinkingEnabled k \<and> \<not> hasLeftThinking k \<and> isDroppingLeadingNewlines k
     \<and> heldBackTail k = drop (length s - (length THINKING_CLOSE_MARKER - 1)) s
     \<and> indexOf THINKING_CLOSE_MARKER s = None"

lemma tail_search:
  assumes "indexOf pat s = None"
  shows "indexOf pat (s @ t) = map_option (\<lambda>i. (length s - (length pat - 1)) + i)
    (indexOf pat (drop (length s - (length pat - 1)) s @ t))"
proof -
  let ?k = "length s - (length pat - 1)"
  have "\<not> prefix pat (drop j (s @ t))" if "j < ?k" for j
  proof
    assume a: "prefix pat (drop j (s @ t))"
    with that have "j \<le> length (s @ t)" by simp
    with a obtain i where i: "indexOf pat (s @ t) = Some i" "i \<le> j"
      by (metis indexOf_None indexOf_Some linorder_not_less option.exhaust)
    from indexOf_new [OF assms i(1)] i(2) that show False by linarith
  qed
  from indexOf_skip [of ?k "s @ t", OF _ this] show ?thesis by simp
qed

lemma thinking_accept:
  assumes "thinking s k"
  shows "case indexOf THINKING_CLOSE_MARKER (s @ c) of
      None \<Rightarrow> fst (ThinkingBlockCut_accept c k) = [] \<and> thinking (s @ c) (snd (ThinkingBlockCut_accept c k))
    | Some i \<Rightarrow> ThinkingBlockCut_accept c k =
        ThinkingBlockCut_withoutLeadingNewlines (drop (i + length THINKING_CLOSE_MARKER) (s @ c))
          (k\<lparr>hasLeftThinking := True, heldBackTail := []\<rparr>)"
proof -
  let ?m = "THINKING_CLOSE_MARKER" and ?d = "length s - (length THINKING_CLOSE_MARKER - 1)"
  have none: "indexOf ?m s = None" and tail: "heldBackTail k = drop ?d s" using assms by (simp_all add: thinking_def)
  note search = tail_search [OF none, of c]
  have "drop (length (drop ?d s @ c) - (length ?m - 1)) (drop ?d s @ c) =
      drop (length (s @ c) - (length ?m - 1)) (s @ c)"
    by (cases "length s \<le> length ?m - 1") (auto simp: THINKING_CLOSE_MARKER_def add.commute)
  moreover have "drop (i + length ?m) (drop ?d s @ c) = drop (?d + i + length ?m) (s @ c)" for i
  proof -
    have "drop ?d s @ c = drop ?d (s @ c)" by simp
    then show ?thesis by (simp only: drop_drop) (simp only: add.commute add.left_commute add.assoc)
  qed
  ultimately show ?thesis
    using assms search
    by (cases "indexOf ?m (drop ?d s @ c)")
      (auto simp: ThinkingBlockCut_accept_def thinking_def tail Let_def simp del: drop_append)
qed

lemma thinking_all:
  assumes "thinking s k"
  shows "fst (cut_all cs k) = answer_after_thinking (s @ concat cs)
    \<and> (ThinkingBlockCut_hasBegunTheAnswer (snd (cut_all cs k)) \<longleftrightarrow>
        indexOf THINKING_CLOSE_MARKER (s @ concat cs) \<noteq> None)"
  using assms
proof (induction cs arbitrary: s k)
  case Nil
  then show ?case by (simp add: thinking_def answer_after_thinking_def ThinkingBlockCut_hasBegunTheAnswer_def)
next
  case (Cons c cs)
  let ?m = "THINKING_CLOSE_MARKER"
  show ?case
  proof (cases "indexOf ?m (s @ c)")
    case None
    with thinking_accept [OF Cons.prems, of c] Cons.IH [of "s @ c" "snd (ThinkingBlockCut_accept c k)"]
    show ?thesis by (simp add: case_prod_beta Let_def)
  next
    case (Some i)
    let ?k = "k\<lparr>hasLeftThinking := True, heldBackTail := []\<rparr>" and ?r = "drop (i + length ?m) (s @ c)"
    have acc: "ThinkingBlockCut_accept c k = ThinkingBlockCut_withoutLeadingNewlines ?r ?k"
      using thinking_accept [OF Cons.prems, of c] Some by simp
    have k: "isThinkingEnabled ?k" "hasLeftThinking ?k" "isDroppingLeadingNewlines ?k"
      using Cons.prems by (simp_all add: thinking_def)
    have same: "cut_all (c # cs) k = cut_all (?r # cs) ?k"
      using k acc by (simp add: ThinkingBlockCut_accept_def)
    have "indexOf ?m (s @ c @ concat cs) = Some i" using indexOf_append [OF Some, of "concat cs"] by simp
    moreover have "drop (i + length ?m) (s @ c @ concat cs) = ?r @ concat cs"
      using indexOf_bounds [OF Some] by simp
    ultimately show ?thesis
      using left_all [OF k(1,2), of "?r # cs"] k(3)
      unfolding same by (simp add: answer_after_thinking_def ThinkingBlockCut_hasBegunTheAnswer_def)
  qed
qed

section \<open>Thought channels\<close>

definition CHANNEL_OPEN_TOKEN :: string where
  "CHANNEL_OPEN_TOKEN = ''<|channel>''"

definition CHANNEL_CLOSE_TOKEN :: string where
  "CHANNEL_CLOSE_TOKEN = ''<channel|>''"

text \<open>\<open>decode\<close> is the tokenizer's decoding of one token with its special tokens kept.\<close>

fun outside_channels :: "(nat \<Rightarrow> string) \<Rightarrow> bool \<Rightarrow> nat list \<Rightarrow> nat list" where
  "outside_channels decode isInsideAChannel [] = []"
| "outside_channels decode isInsideAChannel (tokenId # ids) =
     (let tokenText = decode tokenId
      in if tokenText = CHANNEL_OPEN_TOKEN then outside_channels decode True ids
         else if tokenText = CHANNEL_CLOSE_TOKEN then outside_channels decode False ids
         else if \<not> isInsideAChannel then tokenId # outside_channels decode isInsideAChannel ids
         else outside_channels decode isInsideAChannel ids)"

definition ThoughtChannelCut_outsideEveryChannel :: "(nat \<Rightarrow> string) \<Rightarrow> nat list \<Rightarrow> nat list" where
  "ThoughtChannelCut_outsideEveryChannel decode tokenIds = outside_channels decode False tokenIds"

lemma channel_dropped:
  assumes "\<forall>i \<in> set inside. decode i \<noteq> CHANNEL_OPEN_TOKEN \<and> decode i \<noteq> CHANNEL_CLOSE_TOKEN"
  shows "outside_channels decode True (inside @ rest) = outside_channels decode True rest"
  using assms by (induction inside) (auto simp: Let_def)

lemma outside_channels_append:
  "\<exists>b. outside_channels decode a (xs @ ys) = outside_channels decode a xs @ outside_channels decode b ys"
  by (induction xs arbitrary: a) (auto simp: Let_def)

section \<open>Answers that never began\<close>

definition thinking_advice :: string where
  "thinking_advice = '' This run let the model think before it answered, and a model that thinks can do this by never finishing thinking; asking for a reasoningEffort of \"none\" stops it.''"

definition EmptyAnswerRefusal_refuseAnswerThatRanOutBeforeItBegan ::
  "string \<Rightarrow> stop_reason option \<Rightarrow> nat option \<Rightarrow> bool \<Rightarrow> string + unit" where
  "EmptyAnswerRefusal_refuseAnswerThatRanOutBeforeItBegan answerText stopReason completionTokenCount thinks =
     (if answerText \<noteq> [] then Inr ()
      else if stopReason \<noteq> Some Max_new_tokens then Inr ()
      else
        let generated = (case completionTokenCount of
                None \<Rightarrow> ''every token it was allowed''
              | Some n \<Rightarrow> ''all '' @ decimal n @ '' tokens it was allowed'');
            thinkingAdvice = (if thinks then thinking_advice else [])
        in Inl (''The model generated '' @ generated @
             '' without writing any answer text, and stopped because it ran out of room rather than because it had finished.''
             @ thinkingAdvice))"

section \<open>Announcing sampled tokens\<close>

record token_forwarder =
  promptLength :: "nat option"
  announcedCount :: nat

definition new_forwarder :: token_forwarder where
  "new_forwarder = \<lparr>promptLength = None, announcedCount = 0\<rparr>"

text \<open>The tokens announced, in order, and the forwarder after it.\<close>

definition SampledTokenForwarder_announceNewTokens ::
  "nat list list \<Rightarrow> token_forwarder \<Rightarrow> nat list \<times> token_forwarder" where
  "SampledTokenForwarder_announceNewTokens inputIds f =
     (case inputIds of
        [] \<Rightarrow> ([], f)
      | seq # _ \<Rightarrow>
          (case promptLength f of
             None \<Rightarrow> ([], f\<lparr>promptLength := Some (length seq)\<rparr>)
           | Some p \<Rightarrow>
               let new = drop (p + announcedCount f) seq
               in (new, f\<lparr>announcedCount := announcedCount f + length new\<rparr>)))"

fun announce_all :: "nat list list \<Rightarrow> token_forwarder \<Rightarrow> nat list \<times> token_forwarder" where
  "announce_all [] f = ([], f)"
| "announce_all (seq # seqs) f =
     (let (new, f1) = SampledTokenForwarder_announceNewTokens [seq] f; (rest, f2) = announce_all seqs f1
      in (new @ rest, f2))"

lemma announce_all_from:
  assumes "promptLength f = Some p" and "p + announcedCount f = length s"
    and "sorted_wrt prefix (s # seqs)"
  shows "fst (announce_all seqs f) = drop (length s) (last (s # seqs))"
  using assms
proof (induction seqs arbitrary: f s)
  case Nil
  then show ?case by simp
next
  case (Cons x seqs)
  then have x: "prefix s x" "sorted_wrt prefix (x # seqs)" and l: "prefix x (last (x # seqs))" by auto
  let ?f = "snd (SampledTokenForwarder_announceNewTokens [x] f)"
  have f: "promptLength ?f = Some p" "p + announcedCount ?f = length x"
    using Cons.prems(1,2) prefix_length_le [OF x(1)]
    by (auto simp: SampledTokenForwarder_announceNewTokens_def Let_def)
  from Cons.IH [OF f x(2)] Cons.prems(1,2)
  have "fst (announce_all (x # seqs) f) = drop (length s) x @ drop (length x) (last (x # seqs))"
    by (simp add: case_prod_beta Let_def) (simp add: SampledTokenForwarder_announceNewTokens_def Let_def)
  also have "\<dots> = drop (length s) (last (x # seqs))"
    using l prefix_length_le [OF x(1)] by (auto simp: prefix_def simp del: last.simps)
  finally show ?case by simp
qed

section \<open>Properties\<close>

text \<open>
  C35: However a model's answer is split into chunks, the consumer receives exactly the text before the first
  occurrence of its stop sequence in the whole answer, and the whole answer when there is none (for several
  stop sequences too): the tail held back is always long enough, and nothing is lost at the end.
\<close>

theorem stop_sequence_cuts_whole_answer:
  assumes "[] \<notin> set stops"
  shows "((\<forall>p \<in> set stops. indexOf p (concat chunks) = None) \<longrightarrow> watched_answer stops chunks = concat chunks)
    \<and> (\<forall>p. stops = [p] \<longrightarrow> watched_answer stops chunks =
         (case indexOf p (concat chunks) of None \<Rightarrow> concat chunks | Some i \<Rightarrow> take i (concat chunks)))"
proof (cases "stops = []")
  case True
  have "accept_all chunks (StopSequenceWatcher_constructor []) = (concat chunks, StopSequenceWatcher_constructor [])"
    by (induction chunks) (simp_all add: StopSequenceWatcher_accept_def StopSequenceWatcher_constructor_def)
  then have "watched_answer [] chunks = concat chunks"
    by (simp add: watched_answer_def StopSequenceWatcher_flush_def StopSequenceWatcher_forwardUpTo_def
        StopSequenceWatcher_constructor_def)
  with True show ?thesis by simp
next
  case False
  note cut = watched_answer_cut [OF False assms, of chunks]
  have "first_stop stops [] chunks = None" if none: "\<forall>p \<in> set stops. indexOf p (concat chunks) = None"
  proof (rule ccontr)
    assume "first_stop stops [] chunks \<noteq> None"
    then obtain i where i: "first_stop stops [] chunks = Some i" by blast
    from first_stop_Some [OF i] none show False by auto
  qed
  moreover have "first_stop [p] [] chunks = indexOf p (concat chunks)" if "stops = [p]" for p
    using assms that by (auto simp: first_stop_single)
  ultimately show ?thesis using cut by (auto split: option.splits)
qed

theorem stop_sequence_cuts_whole_answer_witness:
  "watched_answer [''User:''] [''Paris.'', ''\<newline>Us'', ''er: and''] = ''Paris.\<newline>''"
proof -
  have "indexOf ''User:'' (concat [''Paris.'', ''\<newline>Us'', ''er: and'']) = Some 7" by code_simp
  with stop_sequence_cuts_whole_answer [of "[''User:'']" "[''Paris.'', ''\<newline>Us'', ''er: and'']"]
  show ?thesis by simp
qed

text \<open>
  With several stop sequences the watcher looks for them in the order they were asked for, not in the order
  they occur: when two of them come in one chunk, an answer is cut at the one asked for first although the other
  stands before it, so a stop sequence is forwarded to the consumer.
\<close>

theorem earlier_stop_sequence_forwarded:
  "watched_answer [''END'', ''STOP''] [''yes STOP no END''] = ''yes STOP no ''
   \<and> indexOf ''STOP'' (watched_answer [''END'', ''STOP''] [''yes STOP no END'']) = Some 4
   \<and> watched_answer [''STOP'', ''END''] [''yes STOP no END''] = ''yes ''"
  by code_simp


text \<open>
  Every token the sampler chooses is announced to the grammar exactly once and in order: however often and at
  whatever moments the growing sequence is looked at, the tokens announced are all those after the prompt.
\<close>

theorem sampled_tokens_announced_once:
  assumes "sorted_wrt prefix (prompt # seqs)"
  shows "fst (announce_all (prompt # seqs) new_forwarder) = drop (length prompt) (last (prompt # seqs))"
proof -
  have "SampledTokenForwarder_announceNewTokens [prompt] new_forwarder =
      ([], \<lparr>promptLength = Some (length prompt), announcedCount = 0\<rparr>)"
    by (simp add: SampledTokenForwarder_announceNewTokens_def new_forwarder_def)
  with announce_all_from [OF _ _ assms, of "\<lparr>promptLength = Some (length prompt), announcedCount = 0\<rparr>"]
  show ?thesis by (simp add: case_prod_beta Let_def)
qed

theorem sampled_tokens_announced_once_witness:
  "fst (announce_all ([1, 2] # [[1, 2], [1, 2, 7], [1, 2, 7, 8, 9], [1, 2, 7, 8, 9]]) new_forwarder) = [7, 8, 9]"
  using sampled_tokens_announced_once [of "[1, 2]" "[[1, 2], [1, 2, 7], [1, 2, 7, 8, 9], [1, 2, 7, 8, 9]]"] by simp

end
