(* ===== verification/Js_Json.thy ===== *)
theory Js_Json
  imports Js_Strings
begin

text \<open>
  Objects and JSON text, as the tool-call readers and the OpenAI-compatible programs use them. An object built by
  assigning properties lists its array-index keys first, in numeric order, then the others in the order they were
  first assigned; an assignment to \<open>__proto__\<close> makes no property. \<open>JSON.stringify\<close> is spelled out. How a number is
  read and written (the ECMAScript conversions between binary floating point and decimal text) and \<open>JSON.parse\<close> are
  fields of \<open>js_platform\<close>; what the programs rely on about them is stated where it is used: a number is read back
  from its own text, and \<open>JSON.parse\<close> reads what \<open>JSON.stringify\<close> wrote.
\<close>

section \<open>Objects\<close>

definition index_key :: "string \<Rightarrow> bool" where
  "index_key k \<longleftrightarrow> k = decimal (undigits k) \<and> undigits k < 2 ^ 32 - 1"

fun insert_index :: "(string \<times> 'v) list \<Rightarrow> string \<Rightarrow> 'v \<Rightarrow> (string \<times> 'v) list" where
  "insert_index [] k v = [(k, v)]"
| "insert_index ((k', v') # ps) k v =
     (if index_key k' \<and> undigits k' < undigits k then (k', v') # insert_index ps k v else (k, v) # (k', v') # ps)"

definition object_put :: "(string \<times> 'v) list \<Rightarrow> string \<Rightarrow> 'v \<Rightarrow> (string \<times> 'v) list" where
  "object_put obj k v =
     (if k = ''__proto__'' then obj
      else if index_key k \<and> map_get obj k = None then insert_index obj k v
      else map_set obj k v)"

text \<open>A key that is an ordinary property, listed in the order of assignment.\<close>

definition ordinary_key :: "string \<Rightarrow> bool" where
  "ordinary_key k \<longleftrightarrow> k \<noteq> ''__proto__'' \<and> \<not> index_key k"

lemma object_put_fresh: "ordinary_key k \<Longrightarrow> map_get obj k = None \<Longrightarrow> object_put obj k v = obj @ [(k, v)]"
  by (simp add: object_put_def ordinary_key_def map_set_fresh)

lemma ordinary_keyI: "k \<noteq> [] \<Longrightarrow> \<not> (48 \<le> (of_char (hd k) :: nat) \<and> (of_char (hd k) :: nat) < 58) \<Longrightarrow>
    k \<noteq> ''__proto__'' \<Longrightarrow> ordinary_key k"
  using decimal_digits [of "hd k" "undigits k"] by (auto simp: ordinary_key_def index_key_def)

lemma set_insert_index: "set (insert_index obj k v) = insert (k, v) (set obj)"
  by (induction obj) (auto split: if_splits)

lemma map_get_insert_index: "map_get obj k = None \<Longrightarrow>
    map_get (insert_index obj k v) k' = (if k' = k then Some v else map_get obj k')"
  by (induction obj) (auto split: if_splits)

lemma map_get_object_put:
  "k \<noteq> ''__proto__'' \<Longrightarrow> map_get (object_put obj k v) k' = (if k' = k then Some v else map_get obj k')"
  by (simp add: object_put_def map_get_insert_index)

lemma keys_object_put: "fst ` set (object_put obj k v) \<subseteq> insert k (fst ` set obj)"
  by (auto simp: object_put_def set_insert_index dom_update)

section \<open>Numbers and JSON text\<close>

datatype js_number = NaN | Infinite | Finite rat

record js_platform =
  Number_of :: "string \<Rightarrow> js_number"
  Number_text :: "rat \<Rightarrow> string"
  JSON_parse :: "string \<Rightarrow> json option"

fun join_with :: "string \<Rightarrow> string list \<Rightarrow> string" where
  "join_with sep [] = []"
| "join_with sep [s] = s"
| "join_with sep (s # t # ts) = s @ sep @ join_with sep (t # ts)"

definition json_escape :: "char \<Rightarrow> string" where
  "json_escape c =
     (let n = of_char c :: nat in
      if c = CHR 0x22 then [CHR 0x5C, CHR 0x22]
      else if c = CHR 0x5C then [CHR 0x5C, CHR 0x5C]
      else if n = 8 then [CHR 0x5C, CHR ''b'']
      else if n = 9 then [CHR 0x5C, CHR ''t'']
      else if n = 10 then [CHR 0x5C, CHR ''n'']
      else if n = 12 then [CHR 0x5C, CHR ''f'']
      else if n = 13 then [CHR 0x5C, CHR ''r'']
      else if n < 32 then [CHR 0x5C, CHR ''u'', CHR ''0'', CHR ''0'', ''01'' ! (n div 16), ''0123456789abcdef'' ! (n mod 16)]
      else [c])"

definition json_string :: "string \<Rightarrow> string" where
  "json_string s = [CHR 0x22] @ concat (map json_escape s) @ [CHR 0x22]"

fun stringify :: "js_platform \<Rightarrow> json \<Rightarrow> string" where
  "stringify p JNull = ''null''"
| "stringify p (JBool b) = (if b then ''true'' else ''false'')"
| "stringify p (JNumber n) = Number_text p n"
| "stringify p (JString s) = json_string s"
| "stringify p (JArray vs) = ''['' @ join_with '','' (map (stringify p) vs) @ '']''"
| "stringify p (JObject ms) =
     ''{'' @ join_with '','' (map (\<lambda>(k, v). json_string k @ '':'' @ stringify p v) ms) @ ''}''"

text \<open>\<open>typeof value === 'string' ? value : JSON.stringify(value)\<close>: how an argument becomes text.\<close>

definition argument_text :: "js_platform \<Rightarrow> json \<Rightarrow> string" where
  "argument_text p v = (case v of JString s \<Rightarrow> s | _ \<Rightarrow> stringify p v)"

end
