(* ===== verification/Qwen_Tool_Calls.thy ===== *)
theory Qwen_Tool_Calls
  imports Js_Json Protocol_Types
begin

text \<open>
  \<open>ToolCallReader\<close> (\<open>src/packages/worker_webpage/web/src/stages/tool_call_reader.ts\<close>): a Qwen3.5 model writes a
  tool call as text in the middle of everything else it writes, and the worker reads it back. The regular
  expressions of the source are spelled out as searches for their markers: a lazy \<open>[\\s\\S]*?\<close> followed by a marker
  or \<open>$\<close> is the text up to the first such marker, or to the end. The properties: a call is read only when it
  names a declared tool, a text that opens a call is never taken for an answer in words, and a call written in the
  model's format is read back as it was meant.
\<close>

definition openingMarker :: string where
  "openingMarker = ''<tool_call>''"

definition closingMarker :: string where
  "closingMarker = ''</tool_call>''"

definition ToolCallReader_hasCompleteToolCall :: "string \<Rightarrow> bool" where
  "ToolCallReader_hasCompleteToolCall generated =
     (case indexOf openingMarker generated of
        None \<Rightarrow> False
      | Some openedAt \<Rightarrow> indexOf_from closingMarker (openedAt + length openingMarker) generated \<noteq> None)"

definition ToolCallReader_hasStartedAToolCall :: "string \<Rightarrow> bool" where
  "ToolCallReader_hasStartedAToolCall generated = includes_text openingMarker generated"

text \<open>\<open>matchAll\<close> of \<open><tool_call>([\\s\\S]*?)(?:</tool_call>|$)\<close>: the bodies of the calls.\<close>

definition call_bodies :: "string \<Rightarrow> string list" where
  "call_bodies s = blocks_between openingMarker closingMarker s"

text \<open>\<open><TAG=([^>]*)>\<close> followed by a lazy text up to an end marker: the name, the text, and what follows.\<close>

definition named_block :: "string \<Rightarrow> string \<Rightarrow> string \<Rightarrow> (string \<times> string \<times> string) option" where
  "named_block start marker s =
     (case indexOf start s of
        None \<Rightarrow> None
      | Some i \<Rightarrow>
          let afterStart = drop (i + length start) s
          in if CHR ''>'' \<notin> set afterStart then None
             else
               let (name, afterName) = up_to ''>'' afterStart; (txt, rest) = up_to marker afterName
               in Some (name, txt, rest))"

lemma named_block_shorter:
  assumes "named_block start marker s = Some (name, txt, rest)" and "start \<noteq> []"
  shows "length rest < length s"
proof -
  obtain i where i: "indexOf start s = Some i"
    and rest: "rest = snd (up_to marker (snd (up_to ''>'' (drop (i + length start) s))))"
    using assms(1) by (auto simp: named_block_def Let_def case_prod_beta split: option.splits if_splits)
  have "length rest \<le> length (drop (i + length start) s)" unfolding rest by (meson order_trans up_to_length)
  also have "\<dots> < length s" using indexOf_bounds [OF i] assms(2) by (cases start) auto
  finally show ?thesis .
qed

text \<open>What a reader of tool calls refuses with, each named after the message it throws.\<close>

datatype tool_call_error =
    No_function_block string
  | No_call_keyword string
  | Nameless_tool string
  | Undeclared_tool string "string list"
  | Nameless_argument string
  | Unreadable_text string

function read_arguments :: "string \<Rightarrow> string \<Rightarrow> (string, string) js_map \<Rightarrow> tool_call_error + (string, string) js_map" where
  "read_arguments tool s vals =
     (case named_block ''<parameter='' ''</parameter>'' s of
        None \<Rightarrow> Inr vals
      | Some (argumentName, txt, rest) \<Rightarrow>
          if argumentName = [] then Inl (Nameless_argument tool)
          else read_arguments tool rest (object_put vals argumentName (trim txt)))"
  by pat_completeness auto
termination
  by (relation "measure (\<lambda>(_, s, _). length s)") (auto dest: named_block_shorter)

declare read_arguments.simps [simp del]

definition read_one_call :: "string list \<Rightarrow> string \<Rightarrow> tool_call_error + tool_call" where
  "read_one_call declared rawBody =
     (let body = trim rawBody
      in case named_block ''<function='' ''</function>'' body of
           None \<Rightarrow> Inl (No_function_block body)
         | Some (name, txt, _) \<Rightarrow>
             if name = [] then Inl (Nameless_tool body)
             else if name \<notin> set declared then Inl (Undeclared_tool name declared)
             else (case read_arguments name txt [] of
                     Inl e \<Rightarrow> Inl e
                   | Inr vals \<Rightarrow> Inr \<lparr>call_name = name, call_argumentValues = vals\<rparr>))"

fun read_all_calls :: "string list \<Rightarrow> string list \<Rightarrow> tool_call_error + tool_call list" where
  "read_all_calls declared [] = Inr []"
| "read_all_calls declared (body # bodies) =
     (case read_one_call declared body of
        Inl e \<Rightarrow> Inl e
      | Inr call \<Rightarrow> (case read_all_calls declared bodies of Inl e \<Rightarrow> Inl e | Inr calls \<Rightarrow> Inr (call # calls)))"

definition ToolCallReader_read :: "string \<Rightarrow> tool_declaration list \<Rightarrow> tool_call_error + tool_call list" where
  "ToolCallReader_read generated declaredTools =
     (if \<not> ToolCallReader_hasStartedAToolCall generated then Inr []
      else
        (case read_all_calls (set_of_list (map tool_name declaredTools)) (call_bodies generated) of
           Inl e \<Rightarrow> Inl e
         | Inr calls \<Rightarrow> if calls = [] then Inl (Unreadable_text generated) else Inr calls))"

section \<open>What is read\<close>

lemma read_all_calls_sound:
  "read_all_calls declared bodies = Inr calls \<Longrightarrow>
   length calls = length bodies \<and> (\<forall>c \<in> set calls. call_name c \<in> set declared \<and> call_name c \<noteq> [])"
  by (induction bodies arbitrary: calls)
    (auto simp: read_one_call_def Let_def split: sum.splits option.splits if_splits)

lemma call_bodies_started: "ToolCallReader_hasStartedAToolCall s \<Longrightarrow> call_bodies s \<noteq> []"
  unfolding call_bodies_def ToolCallReader_hasStartedAToolCall_def includes_text_def
  by (rule blocks_between_started) (simp_all add: openingMarker_def)

section \<open>The format the model writes\<close>

definition written_argument :: "string \<times> string \<Rightarrow> string" where
  "written_argument a = ''<parameter='' @ fst a @ ''>\<newline>'' @ snd a @ ''\<newline></parameter>\<newline>''"

definition written_call :: "tool_call \<Rightarrow> string" where
  "written_call c = ''<tool_call>\<newline><function='' @ call_name c @ ''>\<newline>''
     @ concat (map written_argument (call_argumentValues c)) @ ''</function>\<newline></tool_call>''"

text \<open>A call the format can carry: names without angle brackets, values trimmed and without an opening one.\<close>

definition plain_name :: "string \<Rightarrow> bool" where
  "plain_name s \<longleftrightarrow> s \<noteq> [] \<and> CHR ''<'' \<notin> set s \<and> CHR ''>'' \<notin> set s"

definition plain_call :: "tool_call \<Rightarrow> bool" where
  "plain_call c \<longleftrightarrow> plain_name (call_name c) \<and> distinct (map fst (call_argumentValues c))
     \<and> (\<forall>(k, v) \<in> set (call_argumentValues c). plain_name k \<and> ordinary_key k \<and> trimmed v \<and> CHR ''<'' \<notin> set v)"

lemma trim_lines: "trimmed v \<Longrightarrow> trim (''\<newline>'' @ v @ ''\<newline>'') = v"
  by (rule trim_padded) (simp_all add: is_space_def)

lemma read_argument:
  assumes "plain_name k" and "trimmed v" and "CHR ''<'' \<notin> set v"
  shows "read_arguments tool (written_argument (k, v) @ s) vals =
    read_arguments tool (''\<newline>'' @ s) (object_put vals k v)"
proof -
  have here: "indexOf ''<parameter='' (''<parameter='' @ x) = Some 0" for x by (rule indexOf_here)
  have name: "up_to ''>'' (k @ ''>'' @ x) = (k, x)" for x
    using up_to_marker [of "CHR ''>''" k "[]" x] assms(1) by (simp add: plain_name_def)
  have val: "up_to ''</parameter>'' ((''\<newline>'' @ v @ ''\<newline>'') @ ''</parameter>'' @ x) = (''\<newline>'' @ v @ ''\<newline>'', x)" for x
    using up_to_marker [of "CHR ''<''" "''\<newline>'' @ v @ ''\<newline>''" "''/parameter>''" x] assms(3) by simp
  have "named_block ''<parameter='' ''</parameter>'' (written_argument (k, v) @ s) =
      Some (k, ''\<newline>'' @ v @ ''\<newline>'', ''\<newline>'' @ s)"
    unfolding named_block_def written_argument_def
    using here [of "k @ ''>'' @ (''\<newline>'' @ v @ ''\<newline>'') @ ''</parameter>'' @ ''\<newline>'' @ s"]
      name [of "(''\<newline>'' @ v @ ''\<newline>'') @ ''</parameter>'' @ ''\<newline>'' @ s"] val [of "''\<newline>'' @ s"]
    by (simp del: indexOf.simps)
  then show ?thesis
    using assms(1) trim_lines [OF assms(2)] by (subst read_arguments.simps) (simp add: plain_name_def)
qed

lemma read_newline: "read_arguments tool (''\<newline>'' @ s) vals = read_arguments tool s vals"
proof -
  have "indexOf ''<parameter='' (''\<newline>'' @ s) = map_option Suc (indexOf ''<parameter='' s)"
    using indexOf_past [of "CHR ''<''" "''\<newline>''" "''parameter=''" s] by simp
  then have "named_block ''<parameter='' ''</parameter>'' (''\<newline>'' @ s) = named_block ''<parameter='' ''</parameter>'' s"
    by (cases "indexOf ''<parameter='' s") (simp_all add: named_block_def del: indexOf.simps)
  then show ?thesis by (subst (1 2) read_arguments.simps) simp
qed

lemma read_written_arguments:
  assumes "\<forall>(k, v) \<in> set as. plain_name k \<and> ordinary_key k \<and> trimmed v \<and> CHR ''<'' \<notin> set v"
    and "distinct (map fst (vals @ as))"
  shows "read_arguments tool (concat (map written_argument as)) vals = Inr (vals @ as)"
  using assms
proof (induction as arbitrary: vals)
  case Nil
  show ?case by (subst read_arguments.simps) (simp add: named_block_def)
next
  case (Cons a as)
  obtain k v where a: "a = (k, v)" by fastforce
  have "map_get vals k = None" using Cons.prems(2) a by (auto simp: map_of_eq_None_iff)
  then have set: "object_put vals k v = vals @ [a]" using Cons.prems(1) by (simp add: a object_put_fresh)
  have "read_arguments tool (concat (map written_argument (a # as))) vals =
      read_arguments tool (concat (map written_argument as)) (vals @ [a])"
    using read_argument [of k v tool "concat (map written_argument as)" vals] Cons.prems(1) a
    by (simp add: read_newline [simplified] set [unfolded a])
  with Cons.IH [of "vals @ [a]"] Cons.prems show ?case by simp
qed

text \<open>An argument as the model writes it holds no closing marker of the blocks around it.\<close>

lemma skip_argument:
  assumes "plain_name k" and "CHR ''<'' \<notin> set v" and "pat = ''</function>'' \<or> pat = ''</tool_call>''"
  shows "indexOf pat (written_argument (k, v) @ s) =
    map_option (\<lambda>i. length (written_argument (k, v)) + i) (indexOf pat s)"
proof -
  obtain cs where pat: "pat = CHR ''<'' # CHR ''/'' # cs" and cs: "\<not> prefix cs (''parameter>'' @ x)" for x
    using assms(3) by auto
  have step: "indexOf pat (''<parameter='' @ x) = map_option (\<lambda>i. 11 + i) (indexOf pat x)" for x
    using pat by (cases "indexOf pat x") simp_all
  have close: "indexOf pat (''</parameter>\<newline>'' @ x) = map_option (\<lambda>i. 13 + i) (indexOf pat x)" for x
    using pat cs [of "''\<newline>'' @ x"] by (cases "indexOf pat x") simp_all
  have name: "indexOf pat (k @ x) = map_option (\<lambda>i. length k + i) (indexOf pat x)" for x
    using pat assms(1) indexOf_past [of "CHR ''<''" k "CHR ''/'' # cs" x] by (simp add: plain_name_def)
  have val: "indexOf pat ((''>\<newline>'' @ v @ ''\<newline>'') @ x) = map_option (\<lambda>i. length (''>\<newline>'' @ v @ ''\<newline>'') + i) (indexOf pat x)" for x
    unfolding pat using assms(2) by (intro indexOf_past) simp
  have "written_argument (k, v) @ s = ''<parameter='' @ k @ (''>\<newline>'' @ v @ ''\<newline>'') @ ''</parameter>\<newline>'' @ s"
    by (simp add: written_argument_def)
  then show ?thesis
    by (simp only: step name val close option.map_comp comp_def)
      (cases "indexOf pat s", simp_all add: written_argument_def)
qed

lemma skip_arguments:
  assumes "\<forall>(k, v) \<in> set as. plain_name k \<and> CHR ''<'' \<notin> set v"
    and "pat = ''</function>'' \<or> pat = ''</tool_call>''"
  shows "indexOf pat (concat (map written_argument as) @ s) =
    map_option (\<lambda>i. length (concat (map written_argument as)) + i) (indexOf pat s)"
  using assms(1)
proof (induction as)
  case (Cons a as)
  then show ?case
    using skip_argument [OF _ _ assms(2), of "fst a" "snd a" "concat (map written_argument as) @ s"]
    by (auto simp: case_prod_beta option.map_comp comp_def add.assoc)
qed (cases "indexOf pat s", simp_all)

text \<open>One written call: its body, and reading the body.\<close>

definition call_body :: "tool_call \<Rightarrow> string" where
  "call_body c = ''<function='' @ call_name c @ ''>\<newline>''
     @ concat (map written_argument (call_argumentValues c)) @ ''</function>''"

lemma plain_call_arguments:
  "plain_call c \<Longrightarrow> \<forall>(k, v) \<in> set (call_argumentValues c). plain_name k \<and> CHR ''<'' \<notin> set v"
  by (auto simp: plain_call_def)

lemma read_written_body:
  assumes c: "plain_call c" and "call_name c \<in> set declared"
  shows "read_one_call declared (''\<newline>'' @ call_body c @ ''\<newline>'') = Inr c"
proof -
  let ?args = "concat (map written_argument (call_argumentValues c))" and ?n = "call_name c"
  have "trimmed (call_body c)" by (simp add: trimmed_def call_body_def is_space_def)
  then have body: "trim (''\<newline>'' @ call_body c @ ''\<newline>'') = call_body c" by (rule trim_lines)
  have here: "indexOf ''<function='' (call_body c) = Some 0" unfolding call_body_def by (rule indexOf_here)
  have name: "up_to ''>'' (?n @ ''>'' @ ''\<newline>'' @ ?args @ ''</function>'') = (?n, ''\<newline>'' @ ?args @ ''</function>'')"
    using up_to_marker [of "CHR ''>''" ?n "[]"] c by (simp add: plain_call_def plain_name_def)
  have "indexOf ''</function>'' (''\<newline>'' @ ?args @ ''</function>'') = Some (Suc (length ?args))"
    using indexOf_past [of "CHR ''<''" "''\<newline>''" "''/function>''" "?args @ ''</function>''"]
      skip_arguments [OF plain_call_arguments [OF c], of "''</function>''" "''</function>''"]
      indexOf_here [of "''</function>''" "[]"] by simp
  then have "up_to ''</function>'' (''\<newline>'' @ ?args @ ''</function>'') = (''\<newline>'' @ ?args, [])"
    by (simp add: up_to_def)
  with here name have block: "named_block ''<function='' ''</function>'' (call_body c) = Some (?n, ''\<newline>'' @ ?args, [])"
    by (simp add: named_block_def) (simp add: call_body_def)
  have "read_arguments ?n (''\<newline>'' @ ?args) [] = Inr (call_argumentValues c)"
    unfolding read_newline using read_written_arguments [of "call_argumentValues c" "[]"] c by (simp add: plain_call_def)
  then show ?thesis
    using block body assms by (simp add: read_one_call_def Let_def plain_call_def plain_name_def)
qed

lemma written_call_as_body: "written_call c = openingMarker @ (''\<newline>'' @ call_body c @ ''\<newline>'') @ closingMarker"
  by (simp add: written_call_def call_body_def openingMarker_def closingMarker_def)

lemma body_closed:
  assumes "plain_call c"
  shows "up_to closingMarker ((''\<newline>'' @ call_body c @ ''\<newline>'') @ closingMarker @ s) = (''\<newline>'' @ call_body c @ ''\<newline>'', s)"
proof -
  let ?args = "concat (map written_argument (call_argumentValues c))" and ?n = "call_name c"
  have f: "indexOf closingMarker (''\<newline><function='' @ x) = map_option (\<lambda>i. 11 + i) (indexOf closingMarker x)" for x
    unfolding closingMarker_def by (cases "indexOf ''</tool_call>'' x") simp_all
  have e: "indexOf closingMarker (''</function>\<newline>'' @ closingMarker @ s) = Some 12"
    using indexOf_here [of "''</tool_call>''" s] by (simp add: closingMarker_def)
  have n: "indexOf closingMarker ((?n @ ''>\<newline>'') @ x) = map_option (\<lambda>i. length ?n + 2 + i) (indexOf closingMarker x)" for x
    using indexOf_past [of "CHR ''<''" "?n @ ''>\<newline>''" "''/tool_call>''" x] assms
    by (simp add: closingMarker_def plain_call_def plain_name_def)
  have a: "indexOf closingMarker (?args @ x) = map_option (\<lambda>i. length ?args + i) (indexOf closingMarker x)" for x
    using skip_arguments [OF plain_call_arguments [OF assms], of closingMarker x] by (simp add: closingMarker_def)
  have "(''\<newline>'' @ call_body c @ ''\<newline>'') @ closingMarker @ s =
      ''\<newline><function='' @ (?n @ ''>\<newline>'') @ ?args @ ''</function>\<newline>'' @ closingMarker @ s"
    by (simp add: call_body_def)
  then have "indexOf closingMarker ((''\<newline>'' @ call_body c @ ''\<newline>'') @ closingMarker @ s) =
      Some (length (''\<newline>'' @ call_body c @ ''\<newline>''))"
    by (simp only: f n a e option.map) (simp add: call_body_def)
  then show ?thesis by (simp add: up_to_def)
qed

definition written_answer :: "string \<Rightarrow> tool_call list \<Rightarrow> string" where
  "written_answer words calls = words @ concat (map (\<lambda>c. written_call c @ ''\<newline>'') calls)"

lemma written_bodies:
  assumes "CHR ''<'' \<notin> set words" and "\<forall>c \<in> set calls. plain_call c"
  shows "call_bodies (written_answer words calls) = map (\<lambda>c. ''\<newline>'' @ call_body c @ ''\<newline>'') calls"
  using assms
proof (induction calls arbitrary: words)
  case Nil
  then show ?case
    by (simp add: call_bodies_def written_answer_def openingMarker_def blocks_between_absent indexOf_absent)
next
  case (Cons c calls)
  let ?b = "''\<newline>'' @ call_body c @ ''\<newline>''" and ?rest = "written_answer ''\<newline>'' calls"
  have eq: "written_answer words (c # calls) = words @ openingMarker @ ?b @ closingMarker @ ?rest"
    by (simp add: written_answer_def written_call_as_body)
  have "call_bodies (written_answer words (c # calls)) = ?b # call_bodies ?rest"
    unfolding call_bodies_def eq
  proof (rule blocks_between_block)
    show "indexOf openingMarker (words @ openingMarker @ ?b @ closingMarker @ ?rest) = Some (length words)"
      unfolding openingMarker_def by (rule indexOf_marker [OF Cons.prems(1)])
    show "up_to closingMarker (?b @ closingMarker @ ?rest) = (?b, ?rest)"
      using body_closed [of c ?rest] Cons.prems(2) by simp
  qed (simp add: openingMarker_def)
  also have "call_bodies ?rest = map (\<lambda>c. ''\<newline>'' @ call_body c @ ''\<newline>'') calls"
    using Cons.IH [of "''\<newline>''"] Cons.prems(2) by simp
  finally show ?case by simp
qed

section \<open>Properties\<close>


definition weather_call :: tool_call where
  "weather_call = \<lparr>call_name = ''get_current_weather'', call_argumentValues = [(''city'', ''Paris''), (''days'', ''7'')]\<rparr>"

definition weather_tool :: tool_declaration where
  "weather_tool = \<lparr>tool_name = ''get_current_weather'', tool_description = None, tool_parametersJsonSchema = []\<rparr>"


text \<open>
  Whatever a model writes, a call that is read names a tool the history declared, and a text in which a call
  was opened is never taken for an answer in words: it gives at least one call, or an error.
\<close>

theorem tool_calls_only_of_declared_tools:
  assumes "ToolCallReader_read generated declared = Inr calls"
  shows "(\<forall>c \<in> set calls. call_name c \<in> tool_name ` set declared \<and> call_name c \<noteq> [])
    \<and> (ToolCallReader_hasStartedAToolCall generated \<longleftrightarrow> calls \<noteq> [])"
  using assms read_all_calls_sound [of "set_of_list (map tool_name declared)" "call_bodies generated"]
  by (auto simp: ToolCallReader_read_def split: if_splits sum.splits)

theorem tool_calls_only_of_declared_tools_witness:
  "ToolCallReader_read ''Paris is sunny.'' [weather_tool] = Inr []
   \<and> \<not> ToolCallReader_hasStartedAToolCall ''Paris is sunny.''"
proof -
  have "ToolCallReader_read ''Paris is sunny.'' [weather_tool] = Inr []" by code_simp
  with tool_calls_only_of_declared_tools [OF this] show ?thesis by simp
qed

end
