(* ===== verification/Gemma_Tool_Calls.thy ===== *)
theory Gemma_Tool_Calls
  imports Qwen_Tool_Calls
begin

text \<open>
  \<open>Gemma4E2bToolCallReader\<close> (\<open>src/packages/worker_webpage/web/src/stages/gemma_4_e2b_tool_call_reader.ts\<close>): the
  recursive reader of the tool calls Gemma 4 E2B writes. A position in a text is the text from there on, so
  \<open>indexOf(x, position)\<close>, \<open>startsWith(x, position)\<close> and \<open>charAt(position)\<close> look at that suffix, and a value is read
  together with the suffix that follows it. The loop over the elements of a list may run for ever, so the readers
  take fuel and \<open>None\<close> means it ran out: a written call is read back with enough fuel, and one short text is shown
  for which no fuel is enough. A number that is not finite is written by \<open>JSON.stringify\<close> as \<open>null\<close>, which is the
  only use of a number that was read, so it is read as \<open>JNull\<close>.
\<close>

definition gemma_openingMarker :: string where
  "gemma_openingMarker = ''<|tool_call>''"

definition gemma_closingMarker :: string where
  "gemma_closingMarker = ''<tool_call|>''"

definition stringValueMarker :: string where
  "stringValueMarker = [CHR ''<'', CHR ''|'', CHR 0x22, CHR ''|'', CHR ''>'']"

definition callKeyword :: string where
  "callKeyword = ''call:''"

definition Gemma4E2bToolCallReader_hasStartedAToolCall :: "string \<Rightarrow> bool" where
  "Gemma4E2bToolCallReader_hasStartedAToolCall generated = includes_text gemma_openingMarker generated"

definition pastSpaces :: "string \<Rightarrow> string" where
  "pastSpaces s = dropWhile is_space s"

function matchingBracketOf :: "char \<Rightarrow> char \<Rightarrow> int \<Rightarrow> string \<Rightarrow> nat option" where
  "matchingBracketOf opn cls depth s =
     (if s = [] then None
      else if prefix stringValueMarker s then
        (case indexOf stringValueMarker (drop 5 s) of
           None \<Rightarrow> None
         | Some i \<Rightarrow> map_option (\<lambda>j. i + 10 + j) (matchingBracketOf opn cls depth (drop (i + 10) s)))
      else if hd s = opn then map_option Suc (matchingBracketOf opn cls (depth + 1) (tl s))
      else if hd s = cls then
        (if depth - 1 = 0 then Some 0 else map_option Suc (matchingBracketOf opn cls (depth - 1) (tl s)))
      else map_option Suc (matchingBracketOf opn cls depth (tl s)))"
  by pat_completeness auto
termination by (relation "measure (\<lambda>(_, _, _, s). length s)") auto

declare matchingBracketOf.simps [simp del]

text \<open>The text inside the brackets that open here, and what follows them.\<close>

definition bracketed :: "char \<Rightarrow> char \<Rightarrow> string \<Rightarrow> string \<times> string" where
  "bracketed opn cls s =
     (case matchingBracketOf opn cls 0 s of
        None \<Rightarrow> (drop 1 s, [])
      | Some closedAt \<Rightarrow> (take (closedAt - 1) (drop 1 s), drop (closedAt + 1) s))"

definition readBareValue :: "js_platform \<Rightarrow> string \<Rightarrow> json" where
  "readBareValue p txt =
     (if txt = ''true'' then JBool True
      else if txt = ''false'' then JBool False
      else if txt \<noteq> [] then (case Number_of p txt of NaN \<Rightarrow> JString txt | Infinite \<Rightarrow> JNull | Finite n \<Rightarrow> JNumber n)
      else JString txt)"

text \<open>What the three loops do after a value: step over spaces, one comma, and spaces again.\<close>

definition past_comma :: "string \<Rightarrow> string" where
  "past_comma s = (let r = pastSpaces s in case r of [] \<Rightarrow> r | c # t \<Rightarrow> if c = CHR '','' then pastSpaces t else r)"

definition bare_end :: "char \<Rightarrow> bool" where
  "bare_end c \<longleftrightarrow> c = CHR '','' \<or> c = CHR ''}'' \<or> c = CHR '']''"

fun readValue :: "js_platform \<Rightarrow> nat \<Rightarrow> string \<Rightarrow> (json \<times> string) option"
  and readMapping :: "js_platform \<Rightarrow> nat \<Rightarrow> string \<Rightarrow> (string \<times> json) list \<Rightarrow> (string \<times> json) list option"
  and readList :: "js_platform \<Rightarrow> nat \<Rightarrow> string \<Rightarrow> json list \<Rightarrow> json list option"
where
  "readValue p 0 body = None"
| "readValue p (Suc n) body =
     (let s = pastSpaces body in
      if prefix stringValueMarker s then
        (let (txt, rest) = up_to stringValueMarker (drop 5 s) in Some (JString txt, rest))
      else if s \<noteq> [] \<and> hd s = CHR ''{'' then
        (let (inside, rest) = bracketed (CHR ''{'') (CHR ''}'') s
         in map_option (\<lambda>named. (JObject named, rest)) (readMapping p n (pastSpaces inside) []))
      else if s \<noteq> [] \<and> hd s = CHR ''['' then
        (let (inside, rest) = bracketed (CHR ''['') (CHR '']'') s
         in map_option (\<lambda>vs. (JArray vs, rest)) (readList p n (pastSpaces inside) []))
      else Some (readBareValue p (trim (takeWhile (\<lambda>c. \<not> bare_end c) s)), dropWhile (\<lambda>c. \<not> bare_end c) s))"
| "readMapping p 0 s named = None"
| "readMapping p (Suc n) s named =
     (if s = [] then Some named
      else (case indexOf '':'' s of
              None \<Rightarrow> Some named
            | Some colonAt \<Rightarrow>
                (case readValue p n (drop (colonAt + 1) s) of
                   None \<Rightarrow> None
                 | Some (v, rest) \<Rightarrow> readMapping p n (past_comma rest) (object_put named (trim (take colonAt s)) v))))"
| "readList p 0 s vs = None"
| "readList p (Suc n) s vs =
     (if s = [] then Some vs
      else (case readValue p n s of
              None \<Rightarrow> None
            | Some (v, rest) \<Rightarrow> readList p n (past_comma rest) (vs @ [v])))"

fun readArgumentValues ::
  "js_platform \<Rightarrow> nat \<Rightarrow> string \<Rightarrow> string \<Rightarrow> (string \<times> string) list \<Rightarrow> (tool_call_error + (string \<times> string) list) option"
where
  "readArgumentValues p 0 tool s vals = None"
| "readArgumentValues p (Suc n) tool s vals =
     (if s = [] then Some (Inr vals)
      else (case indexOf '':'' s of
              None \<Rightarrow> Some (Inr vals)
            | Some colonAt \<Rightarrow>
                let argumentName = trim (take colonAt s)
                in if argumentName = [] then Some (Inl (Nameless_argument tool))
                   else (case readValue p n (drop (colonAt + 1) s) of
                           None \<Rightarrow> None
                         | Some (v, rest) \<Rightarrow>
                             readArgumentValues p n tool (past_comma rest)
                               (object_put vals argumentName (argument_text p v)))))"

definition gemma_readOneCall ::
  "js_platform \<Rightarrow> nat \<Rightarrow> string list \<Rightarrow> string \<Rightarrow> (tool_call_error + tool_call) option" where
  "gemma_readOneCall p n declared body =
     (let trimmedBody = trim body
      in if \<not> prefix callKeyword trimmedBody then Some (Inl (No_call_keyword body))
         else
           let afterKeyword = drop (length callKeyword) trimmedBody;
             argumentsOpenAt = indexOf ''{'' afterKeyword;
             name = trim (case argumentsOpenAt of None \<Rightarrow> afterKeyword | Some i \<Rightarrow> take i afterKeyword)
           in if name = [] then Some (Inl (Nameless_tool body))
              else if name \<notin> set declared then Some (Inl (Undeclared_tool name declared))
              else (case argumentsOpenAt of
                      None \<Rightarrow> Some (Inr \<lparr>call_name = name, call_argumentValues = []\<rparr>)
                    | Some i \<Rightarrow>
                        let (argumentsBody, _) = bracketed (CHR ''{'') (CHR ''}'') (drop i afterKeyword)
                        in map_option
                             (\<lambda>r. case r of Inl e \<Rightarrow> Inl e
                                          | Inr vals \<Rightarrow> Inr \<lparr>call_name = name, call_argumentValues = vals\<rparr>)
                             (readArgumentValues p n name (pastSpaces argumentsBody) [])))"

fun gemma_readCalls ::
  "js_platform \<Rightarrow> nat \<Rightarrow> string list \<Rightarrow> string list \<Rightarrow> (tool_call_error + tool_call list) option" where
  "gemma_readCalls p n declared [] = Some (Inr [])"
| "gemma_readCalls p n declared (body # bodies) =
     (case gemma_readOneCall p n declared body of
        None \<Rightarrow> None
      | Some (Inl e) \<Rightarrow> Some (Inl e)
      | Some (Inr call) \<Rightarrow>
          (case gemma_readCalls p n declared bodies of
             None \<Rightarrow> None
           | Some (Inl e) \<Rightarrow> Some (Inl e)
           | Some (Inr calls) \<Rightarrow> Some (Inr (call # calls))))"

definition Gemma4E2bToolCallReader_read ::
  "js_platform \<Rightarrow> nat \<Rightarrow> string \<Rightarrow> tool_declaration list \<Rightarrow> (tool_call_error + tool_call list) option" where
  "Gemma4E2bToolCallReader_read p n generated declaredTools =
     (if \<not> Gemma4E2bToolCallReader_hasStartedAToolCall generated then Some (Inr [])
      else
        (case gemma_readCalls p n (set_of_list (map tool_name declaredTools))
                (blocks_between gemma_openingMarker gemma_closingMarker generated) of
           None \<Rightarrow> None
         | Some (Inl e) \<Rightarrow> Some (Inl e)
         | Some (Inr calls) \<Rightarrow> Some (if calls = [] then Inl (Unreadable_text generated) else Inr calls)))"

section \<open>Texts the scan for a bracket steps over\<close>

definition brackets :: "char \<Rightarrow> char \<Rightarrow> bool" where
  "brackets opn cls \<longleftrightarrow> (opn = CHR ''{'' \<and> cls = CHR ''}'' \<or> opn = CHR ''['' \<and> cls = CHR '']'')"

definition skips :: "char \<Rightarrow> char \<Rightarrow> string \<Rightarrow> bool" where
  "skips opn cls u \<longleftrightarrow>
     (\<forall>d > 0. \<forall>s. matchingBracketOf opn cls d (u @ s) = map_option ((+) (length u)) (matchingBracketOf opn cls d s))"

lemma skipsD: "skips opn cls u \<Longrightarrow> 0 < d \<Longrightarrow>
    matchingBracketOf opn cls d (u @ s) = map_option ((+) (length u)) (matchingBracketOf opn cls d s)"
  by (simp add: skips_def)

lemma map_option_add: "map_option ((+) m) (map_option ((+) n) x) = map_option ((+) (m + n)) (x :: nat option)"
  by (cases x) simp_all

lemma map_option_Suc: "map_option Suc x = map_option ((+) 1) x"
  by (cases x) simp_all

lemma skips_append: "skips opn cls u \<Longrightarrow> skips opn cls v \<Longrightarrow> skips opn cls (u @ v)"
  by (simp add: skips_def map_option_add)

lemma skips_Nil: "skips opn cls []"
proof -
  have "x = map_option ((+) 0) (x :: nat option)" for x by (cases x) simp_all
  then show ?thesis by (simp add: skips_def)
qed

lemma skips_char: "c \<noteq> opn \<Longrightarrow> c \<noteq> cls \<Longrightarrow> c \<noteq> CHR ''<'' \<Longrightarrow> skips opn cls [c]"
  unfolding skips_def by (subst matchingBracketOf.simps) (simp add: stringValueMarker_def map_option_Suc)

lemma skips_plain: "\<forall>c \<in> set u. c \<noteq> opn \<and> c \<noteq> cls \<and> c \<noteq> CHR ''<'' \<Longrightarrow> skips opn cls u"
proof (induction u)
  case (Cons c u)
  then have "skips opn cls ([c] @ u)" by (intro skips_append skips_char) simp_all
  then show ?case by simp
qed (rule skips_Nil)

lemma skips_string:
  assumes "CHR ''<'' \<notin> set t"
  shows "skips opn cls (stringValueMarker @ t @ stringValueMarker)"
proof -
  have "indexOf stringValueMarker (t @ stringValueMarker @ s) = Some (length t)" for s
    unfolding stringValueMarker_def by (rule indexOf_marker [OF assms])
  moreover have "length stringValueMarker = 5" "stringValueMarker \<noteq> []" by (simp_all add: stringValueMarker_def)
  ultimately show ?thesis
    unfolding skips_def by (subst (1) matchingBracketOf.simps) (simp add: ac_simps)
qed

lemma skips_brackets:
  assumes "skips opn cls u" and "brackets opn cls" and "brackets o' c'"
  shows "skips opn cls ([o'] @ u @ [c'])"
proof (cases "o' = opn")
  case True
  with assms have neq: "c' = cls" "opn \<noteq> cls" "opn \<noteq> CHR ''<''" "cls \<noteq> CHR ''<''" by (auto simp: brackets_def)
  have close: "matchingBracketOf opn cls (d + 1) (cls # s) = map_option ((+) 1) (matchingBracketOf opn cls d s)"
    if "0 < d" for d s
    using that neq by (subst matchingBracketOf.simps) (simp add: stringValueMarker_def map_option_Suc)
  have "matchingBracketOf opn cls d (opn # u @ cls # s) = map_option ((+) (2 + length u)) (matchingBracketOf opn cls d s)"
    if "0 < d" for d s
    using that neq skipsD [OF assms(1), of "d + 1" "cls # s"] close [OF that, of s]
    by (subst matchingBracketOf.simps) (simp add: stringValueMarker_def map_option_Suc map_option_add)
  with True neq(1) show ?thesis by (simp add: skips_def)
next
  case False
  with assms(2,3) have "\<forall>c \<in> set [o', c']. c \<noteq> opn \<and> c \<noteq> cls \<and> c \<noteq> CHR ''<''" by (auto simp: brackets_def)
  then show ?thesis by (intro skips_append skips_char assms(1)) simp_all
qed

lemma bracketed_skips:
  assumes "skips opn cls u" and "brackets opn cls"
  shows "bracketed opn cls ([opn] @ u @ [cls] @ s) = (u, s)"
proof -
  from assms(2) have neq: "opn \<noteq> cls" "opn \<noteq> CHR ''<''" "cls \<noteq> CHR ''<''" by (auto simp: brackets_def)
  have "matchingBracketOf opn cls 1 (cls # s) = Some 0"
    using neq by (subst matchingBracketOf.simps) (simp add: stringValueMarker_def)
  then have "matchingBracketOf opn cls 0 ([opn] @ u @ [cls] @ s) = Some (Suc (length u))"
    using neq skipsD [OF assms(1), of 1 "cls # s"] by (subst matchingBracketOf.simps) (simp add: stringValueMarker_def)
  then show ?thesis by (simp add: bracketed_def)
qed

section \<open>The format the model writes\<close>

fun gemma_value :: "js_platform \<Rightarrow> json \<Rightarrow> string" where
  "gemma_value p JNull = ''null''"
| "gemma_value p (JBool b) = (if b then ''true'' else ''false'')"
| "gemma_value p (JNumber n) = Number_text p n"
| "gemma_value p (JString s) = stringValueMarker @ s @ stringValueMarker"
| "gemma_value p (JArray vs) = ''['' @ join_with '','' (map (gemma_value p) vs) @ '']''"
| "gemma_value p (JObject ms) = ''{'' @ join_with '','' (map (\<lambda>(k, v). k @ '':'' @ gemma_value p v) ms) @ ''}''"

text \<open>
  What the format can carry: strings without an opening angle bracket, numbers whose own text is read back as the
  number, names that are ordinary property names without spaces around them or punctuation in them.
\<close>

definition bare_char :: "char \<Rightarrow> bool" where
  "bare_char c \<longleftrightarrow> c \<notin> set ''<{}[],:''"

definition gemma_name :: "string \<Rightarrow> bool" where
  "gemma_name k \<longleftrightarrow> k \<noteq> [] \<and> trimmed k \<and> ordinary_key k \<and> list_all bare_char k"

definition gemma_number :: "js_platform \<Rightarrow> rat \<Rightarrow> bool" where
  "gemma_number p n \<longleftrightarrow> Number_of p (Number_text p n) = Finite n \<and> Number_text p n \<notin> {[], ''true'', ''false''}
     \<and> trimmed (Number_text p n) \<and> list_all bare_char (Number_text p n)"

fun gemma_plain :: "js_platform \<Rightarrow> json \<Rightarrow> bool" where
  "gemma_plain p JNull = False"
| "gemma_plain p (JBool b) = True"
| "gemma_plain p (JNumber n) = gemma_number p n"
| "gemma_plain p (JString s) = (CHR ''<'' \<notin> set s)"
| "gemma_plain p (JArray vs) = (\<forall>v \<in> set vs. gemma_plain p v)"
| "gemma_plain p (JObject ms) =
     (distinct (map fst ms) \<and> (\<forall>m \<in> set ms. gemma_name (fst m) \<and> gemma_plain p (snd m)))"

lemma gemma_name_chars: "gemma_name k \<Longrightarrow> c \<in> set ''<{}[],:'' \<Longrightarrow> c \<notin> set k"
  by (auto simp: gemma_name_def bare_char_def list_all_iff)

lemma skips_join: "\<forall>u \<in> set us. skips opn cls u \<Longrightarrow> brackets opn cls \<Longrightarrow> skips opn cls (join_with '','' us)"
proof (induction us rule: induct_list012)
  case (3 u v us)
  then have "skips opn cls ([CHR '',''] @ join_with '','' (v # us))"
    by (intro skips_append skips_char) (auto simp: brackets_def)
  with 3 show ?case by (auto intro: skips_append)
qed (auto intro: skips_Nil)

lemma skips_bare: "list_all bare_char u \<Longrightarrow> brackets opn cls \<Longrightarrow> skips opn cls u"
  by (rule skips_plain) (auto simp: list_all_iff bare_char_def brackets_def)

lemma skips_member: "gemma_name k \<Longrightarrow> skips opn cls u \<Longrightarrow> brackets opn cls \<Longrightarrow> skips opn cls (k @ '':'' @ u)"
proof (intro skips_append)
  assume "gemma_name k" and b: "brackets opn cls"
  then show "skips opn cls k" by (intro skips_bare) (simp_all add: gemma_name_def)
  show "skips opn cls '':''" using b by (intro skips_char) (auto simp: brackets_def)
qed

lemma skips_value: "gemma_plain p v \<Longrightarrow> brackets opn cls \<Longrightarrow> skips opn cls (gemma_value p v)"
proof (induction p v rule: gemma_value.induct)
  case (5 p vs)
  then have "skips opn cls (join_with '','' (map (gemma_value p) vs))" by (intro skips_join) auto
  with skips_brackets [OF this, of "CHR ''[''" "CHR '']''"] 5 show ?case by (simp add: brackets_def)
next
  case (6 p ms)
  have "skips opn cls (k @ '':'' @ gemma_value p v)" if "(k, v) \<in> set ms" for k v
    using that 6 by (intro skips_member) auto
  then have "skips opn cls (join_with '','' (map (\<lambda>(k, v). k @ '':'' @ gemma_value p v) ms))"
    using 6 by (intro skips_join) auto
  with skips_brackets [OF this, of "CHR ''{''" "CHR ''}''"] 6 show ?case by (simp add: brackets_def)
qed (auto intro: skips_string skips_bare simp: gemma_number_def bare_char_def)

section \<open>Reading what was written\<close>

definition stops :: "string \<Rightarrow> bool" where
  "stops s \<longleftrightarrow> (s = [] \<or> bare_end (hd s))"

text \<open>A text that is read as a value with this much fuel, whatever follows it.\<close>

definition reads :: "js_platform \<Rightarrow> nat \<Rightarrow> json \<Rightarrow> string \<Rightarrow> bool" where
  "reads p N v u \<longleftrightarrow> u \<noteq> [] \<and> \<not> is_space (hd u) \<and> (\<forall>n \<ge> N. \<forall>s. stops s \<longrightarrow> readValue p n (u @ s) = Some (v, s))"

fun need :: "json \<Rightarrow> nat" where
  "need (JArray vs) = 2 + sum_list (map (\<lambda>v. 1 + need v) vs)"
| "need (JObject ms) = 2 + sum_list (map (\<lambda>m. 1 + need (snd m)) ms)"
| "need _ = 1"

lemma pastSpaces_none [simp]: "u \<noteq> [] \<Longrightarrow> \<not> is_space (hd u) \<Longrightarrow> pastSpaces (u @ s) = u @ s"
  by (cases u) (simp_all add: pastSpaces_def)

lemma pastSpaces_none' [simp]: "u = [] \<or> \<not> is_space (hd u) \<Longrightarrow> pastSpaces u = u"
  by (cases u) (simp_all add: pastSpaces_def)

lemma bare_end_space: "bare_end c \<Longrightarrow> \<not> is_space c"
  by (auto simp: bare_end_def is_space_def)

lemma reads_bare:
  assumes "u \<noteq> []" and "trimmed u" and "list_all bare_char u" and "readBareValue p u = v"
  shows "reads p (Suc 0) v u"
proof -
  have all: "\<forall>c \<in> set u. \<not> bare_end c" "hd u \<noteq> CHR ''<''" "hd u \<noteq> CHR ''{''" "hd u \<noteq> CHR ''[''"
    using assms(1,3) by (auto simp: list_all_iff bare_char_def bare_end_def)
  have hd: "\<not> is_space (hd u)" using assms(1,2) by (simp add: trimmed_def)
  have "readValue p n (u @ s) = Some (v, s)" if "Suc 0 \<le> n" "stops s" for n s
  proof -
    obtain m where n: "n = Suc m" using \<open>Suc 0 \<le> n\<close> by (cases n) auto
    have "takeWhile (\<lambda>c. \<not> bare_end c) (u @ s) = u" "dropWhile (\<lambda>c. \<not> bare_end c) (u @ s) = s"
      using all(1) \<open>stops s\<close> by (cases s; simp add: stops_def takeWhile_append2 dropWhile_append2)+
    moreover have "\<not> prefix stringValueMarker (u @ s)"
      using all(2) assms(1) by (cases u) (simp_all add: stringValueMarker_def)
    ultimately show ?thesis using assms hd all by (simp add: n)
  qed
  with assms(1) hd show ?thesis by (simp add: reads_def)
qed

lemma reads_string:
  assumes "CHR ''<'' \<notin> set t"
  shows "reads p (Suc 0) (JString t) (stringValueMarker @ t @ stringValueMarker)"
proof -
  have m: "stringValueMarker \<noteq> []" "\<not> is_space (hd stringValueMarker)" "length stringValueMarker = 5"
    by (simp_all add: stringValueMarker_def is_space_def)
  have "up_to stringValueMarker (t @ stringValueMarker @ s) = (t, s)" for s
    unfolding stringValueMarker_def by (rule up_to_marker [OF assms])
  then have "readValue p (Suc n) ((stringValueMarker @ t @ stringValueMarker) @ s) = Some (JString t, s)" for n s
    using m by simp
  with m show ?thesis by (auto simp: reads_def Suc_le_eq gr0_conv_Suc)
qed

lemma past_comma_next: "u \<noteq> [] \<Longrightarrow> \<not> is_space (hd u) \<Longrightarrow> past_comma ('','' @ u) = u"
  by (cases u) (simp_all add: past_comma_def pastSpaces_def bare_end_space [unfolded bare_end_def])

lemma past_comma_end [simp]: "past_comma [] = []"
  by (simp add: past_comma_def pastSpaces_def)

lemma join_with_head: "us \<noteq> [] \<Longrightarrow> hd us \<noteq> [] \<Longrightarrow> join_with sep us \<noteq> [] \<and> hd (join_with sep us) = hd (hd us)"
  by (induction us rule: induct_list012) (simp_all add: hd_append)

lemma read_written_list:
  assumes "\<forall>v \<in> set vs. reads p (need v) v (f v)" and "1 + sum_list (map (\<lambda>v. 1 + need v) vs) \<le> n"
  shows "readList p n (join_with '','' (map f vs)) acc = Some (acc @ vs)"
  using assms
proof (induction vs arbitrary: n acc)
  case Nil
  then show ?case by (cases n) simp_all
next
  case (Cons v vs)
  from Cons.prems obtain m where n: "n = Suc m" and m: "need v \<le> m" "1 + sum_list (map (\<lambda>v. 1 + need v) vs) \<le> m"
    by (cases n) auto
  from Cons.prems(1) have v: "f v \<noteq> []" "\<not> is_space (hd (f v))"
    "\<And>s. stops s \<Longrightarrow> readValue p m (f v @ s) = Some (v, s)" using m(1) by (auto simp: reads_def)
  have ih: "readList p m (join_with '','' (map f vs)) (acc @ [v]) = Some (acc @ v # vs)"
    using Cons.IH [OF _ m(2)] Cons.prems(1) by simp
  show ?case
  proof (cases vs)
    case Nil
    with ih v(1) v(3) [of "[]"] show ?thesis by (simp add: n stops_def)
  next
    case (Cons w ws)
    with Cons.prems(1) have "f w \<noteq> []" "\<not> is_space (hd (f w))" by (auto simp: reads_def)
    then have "past_comma ('','' @ join_with '','' (map f vs)) = join_with '','' (map f vs)"
      using join_with_head [of "map f vs" "'',''"] \<open>vs = w # ws\<close> by (intro past_comma_next) simp_all
    with ih v(1) v(3) [of "'','' @ join_with '','' (map f vs)"] \<open>vs = w # ws\<close> show ?thesis
      by (simp add: n stops_def bare_end_def)
  qed
qed

lemma mapping_member:
  assumes "gemma_name k"
  shows "indexOf '':'' (k @ '':'' @ x) = Some (length k)" and "trim k = k" and "k \<noteq> []" and "\<not> is_space (hd k)"
proof -
  have "CHR '':'' \<notin> set k" using assms by (rule gemma_name_chars) simp
  from indexOf_marker [OF this, of "[]" x] show "indexOf '':'' (k @ '':'' @ x) = Some (length k)" by simp
qed (use assms in \<open>auto simp: gemma_name_def trimmed_def\<close>)

text \<open>The shape both loops over named values share: after one member comes a comma and the next, or the end.\<close>

definition member_text :: "js_platform \<Rightarrow> string \<times> json \<Rightarrow> string" where
  "member_text p m = fst m @ '':'' @ gemma_value p (snd m)"

definition members_text :: "js_platform \<Rightarrow> (string \<times> json) list \<Rightarrow> string" where
  "members_text p ms = join_with '','' (map (member_text p) ms)"

lemma members_step:
  assumes "\<forall>m \<in> set (m # ms). gemma_name (fst m) \<and> reads p (need (snd m)) (snd m) (gemma_value p (snd m))"
    and "need (snd m) \<le> n"
  obtains rest where "members_text p (m # ms) = fst m @ '':'' @ gemma_value p (snd m) @ rest"
    and "readValue p n (gemma_value p (snd m) @ rest) = Some (snd m, rest)" and "past_comma rest = members_text p ms"
proof -
  have read: "readValue p n (gemma_value p (snd m) @ s) = Some (snd m, s)" if "stops s" for s
    using assms that by (auto simp: reads_def)
  show ?thesis
  proof (cases ms)
    case Nil
    with read [of "[]"] show ?thesis by (intro that [of "[]"]) (simp_all add: stops_def members_text_def member_text_def)
  next
    case (Cons m' ms')
    have "gemma_name (fst m')" using assms(1) Cons by simp
    then have "past_comma ('','' @ members_text p ms) = members_text p ms"
      using join_with_head [of "map (member_text p) ms" "'',''"] mapping_member(3,4) [of "fst m'"] Cons
      by (intro past_comma_next) (simp_all add: members_text_def member_text_def)
    with read [of "'','' @ members_text p ms"] Cons show ?thesis
      by (intro that [of "'','' @ members_text p ms"])
        (simp_all add: members_text_def member_text_def stops_def bare_end_def)
  qed
qed

lemma members_not_empty: "gemma_name (fst m) \<Longrightarrow> members_text p (m # ms) \<noteq> []"
  by (cases ms) (simp_all add: members_text_def member_text_def)

lemma pastSpaces_members:
  "\<forall>m \<in> set ms. gemma_name (fst m) \<Longrightarrow> pastSpaces (members_text p ms) = members_text p ms"
  using join_with_head [of "map (member_text p) ms" "'',''"] mapping_member(3,4)
  by (cases ms) (auto simp: members_text_def member_text_def)

lemma read_written_mapping:
  assumes "\<forall>m \<in> set ms. gemma_name (fst m) \<and> reads p (need (snd m)) (snd m) (gemma_value p (snd m))"
    and "distinct (map fst (acc @ ms))" and "1 + sum_list (map (\<lambda>m. 1 + need (snd m)) ms) \<le> n"
  shows "readMapping p n (members_text p ms) acc = Some (acc @ ms)"
  using assms
proof (induction ms arbitrary: n acc)
  case Nil
  then show ?case by (cases n) (simp_all add: members_text_def)
next
  case (Cons m ms)
  from Cons.prems(3) obtain n' where n: "n = Suc n'" and m: "need (snd m) \<le> n'"
    and ms: "1 + sum_list (map (\<lambda>m. 1 + need (snd m)) ms) \<le> n'" by (cases n) auto
  from Cons.prems(1) m obtain rest where rest: "members_text p (m # ms) = fst m @ '':'' @ gemma_value p (snd m) @ rest"
    "readValue p n' (gemma_value p (snd m) @ rest) = Some (snd m, rest)" "past_comma rest = members_text p ms"
    by (rule members_step)
  have name: "gemma_name (fst m)" using Cons.prems(1) by simp
  have "object_put acc (fst m) (snd m) = acc @ [m]"
    using name Cons.prems(2) by (subst object_put_fresh) (auto simp: gemma_name_def map_of_eq_None_iff)
  moreover have "readMapping p n' (members_text p ms) (acc @ [m]) = Some (acc @ m # ms)"
    using Cons.IH [OF _ _ ms, of "acc @ [m]"] Cons.prems(1,2) by simp
  ultimately show ?case
    using rest mapping_member [OF name] members_not_empty [OF name, of p ms] by (simp add: n)
qed

lemma read_written_value: "gemma_plain p v \<Longrightarrow> reads p (need v) v (gemma_value p v)"
proof (induction p v rule: gemma_value.induct)
  case (5 p vs)
  let ?u = "join_with '','' (map (gemma_value p) vs)"
  have "skips (CHR ''['') (CHR '']'') ?u" using 5 by (intro skips_join) (auto simp: brackets_def intro!: skips_value)
  from bracketed_skips [OF this] have b: "bracketed (CHR ''['') (CHR '']'') (''['' @ ?u @ '']'' @ s) = (?u, s)" for s
    by (simp add: brackets_def)
  have u: "pastSpaces ?u = ?u"
    using join_with_head [of "map (gemma_value p) vs" "'',''"] 5 by (cases vs) (auto simp: reads_def)
  have "readValue p n ((''['' @ ?u @ '']'') @ s) = Some (JArray vs, s)" if n: "need (JArray vs) \<le> n" for n s
  proof -
    obtain m where m: "n = Suc m" using n by (cases n) auto
    have "readList p m ?u [] = Some vs" using read_written_list [of vs p "gemma_value p" m "[]"] 5 n m by simp
    then show ?thesis using b [of s] u by (simp add: m pastSpaces_def is_space_def stringValueMarker_def)
  qed
  then show ?case by (simp add: reads_def is_space_def)
next
  case (6 p ms)
  have form: "gemma_value p (JObject ms) = ''{'' @ members_text p ms @ ''}''"
    by (simp add: members_text_def member_text_def [abs_def] case_prod_unfold)
  have plain: "\<forall>m \<in> set ms. gemma_name (fst m) \<and> reads p (need (snd m)) (snd m) (gemma_value p (snd m))"
    using 6 by fastforce
  have "skips (CHR ''{'') (CHR ''}'') (members_text p ms)" unfolding members_text_def
  proof (rule skips_join)
    show "\<forall>u \<in> set (map (member_text p) ms). skips (CHR ''{'') (CHR ''}'') u"
      using 6(2) by (auto simp: member_text_def brackets_def intro!: skips_member [simplified] skips_value)
  qed (simp add: brackets_def)
  from bracketed_skips [OF this]
  have b: "bracketed (CHR ''{'') (CHR ''}'') (''{'' @ members_text p ms @ ''}'' @ s) = (members_text p ms, s)" for s
    by (simp add: brackets_def)
  have "readValue p n ((''{'' @ members_text p ms @ ''}'') @ s) = Some (JObject ms, s)" if n: "need (JObject ms) \<le> n" for n s
  proof -
    obtain m where m: "n = Suc m" using n by (cases n) auto
    have "readMapping p m (members_text p ms) [] = Some ms"
      using read_written_mapping [OF plain, of "[]" m] 6(2) n m by simp
    moreover have "pastSpaces (members_text p ms) = members_text p ms" using plain by (intro pastSpaces_members) blast
    ultimately show ?thesis using b [of s] by (simp add: m pastSpaces_def [of "CHR ''{'' # x" for x] is_space_def stringValueMarker_def)
  qed
  then show ?case unfolding form by (simp add: reads_def is_space_def)
next
  case (3 p n)
  then show ?case by (auto intro!: reads_bare simp: gemma_number_def readBareValue_def)
qed (auto intro!: reads_bare reads_string simp: bare_char_def readBareValue_def trimmed_def is_space_def)

lemma gemma_read_arguments:
  assumes "\<forall>m \<in> set ms. gemma_name (fst m) \<and> gemma_plain p (snd m)"
    and "distinct (map fst acc @ map fst ms)" and "1 + sum_list (map (\<lambda>m. 1 + need (snd m)) ms) \<le> n"
  shows "readArgumentValues p n tool (members_text p ms) acc =
    Some (Inr (acc @ map (\<lambda>m. (fst m, argument_text p (snd m))) ms))"
  using assms
proof (induction ms arbitrary: n acc)
  case Nil
  then show ?case by (cases n) (simp_all add: members_text_def)
next
  case (Cons m ms)
  from Cons.prems(3) obtain n' where n: "n = Suc n'" and m: "need (snd m) \<le> n'"
    and ms: "1 + sum_list (map (\<lambda>m. 1 + need (snd m)) ms) \<le> n'" by (cases n) auto
  have "\<forall>m \<in> set (m # ms). gemma_name (fst m) \<and> reads p (need (snd m)) (snd m) (gemma_value p (snd m))"
    using Cons.prems(1) by (simp add: read_written_value)
  then obtain rest where rest: "members_text p (m # ms) = fst m @ '':'' @ gemma_value p (snd m) @ rest"
    "readValue p n' (gemma_value p (snd m) @ rest) = Some (snd m, rest)" "past_comma rest = members_text p ms"
    using m by (rule members_step)
  have name: "gemma_name (fst m)" using Cons.prems(1) by simp
  let ?a = "(fst m, argument_text p (snd m))"
  have "object_put acc (fst m) (argument_text p (snd m)) = acc @ [?a]"
    using name Cons.prems(2) by (subst object_put_fresh) (auto simp: gemma_name_def map_of_eq_None_iff)
  moreover have "readArgumentValues p n' tool (members_text p ms) (acc @ [?a]) =
      Some (Inr (acc @ ?a # map (\<lambda>m. (fst m, argument_text p (snd m))) ms))"
    using Cons.IH [OF _ _ ms, of "acc @ [?a]"] Cons.prems(1,2) by simp
  ultimately show ?case
    using rest mapping_member [OF name] members_not_empty [OF name, of p ms] by (simp add: n)
qed

text \<open>A text no occurrence of the marker begins in.\<close>

definition passes :: "string \<Rightarrow> string \<Rightarrow> bool" where
  "passes pat u \<longleftrightarrow> (\<forall>s. indexOf pat (u @ s) = map_option ((+) (length u)) (indexOf pat s))"

lemma passes_append: "passes pat u \<Longrightarrow> passes pat v \<Longrightarrow> passes pat (u @ v)"
  by (simp add: passes_def map_option_add)

lemma passes_Nil: "passes pat []"
proof -
  have "x = map_option ((+) 0) (x :: nat option)" for x by (cases x) simp_all
  then show ?thesis by (simp add: passes_def)
qed

lemma passes_plain: "CHR ''<'' \<notin> set u \<Longrightarrow> passes gemma_closingMarker u"
  unfolding passes_def gemma_closingMarker_def by (blast intro: indexOf_past)

lemma passes_string:
  assumes "CHR ''<'' \<notin> set t"
  shows "passes gemma_closingMarker (stringValueMarker @ t @ stringValueMarker)"
proof -
  have "indexOf gemma_closingMarker (stringValueMarker @ s) =
      map_option ((+) (length stringValueMarker)) (indexOf gemma_closingMarker s)" for s
    unfolding gemma_closingMarker_def stringValueMarker_def by (cases "indexOf ''<tool_call|>'' s") simp_all
  then have "passes gemma_closingMarker stringValueMarker" by (simp add: passes_def)
  with passes_plain [OF assms] show ?thesis by (intro passes_append)
qed

lemma passes_join: "\<forall>u \<in> set us. passes gemma_closingMarker u \<Longrightarrow> passes gemma_closingMarker (join_with '','' us)"
proof (induction us rule: induct_list012)
  case (3 u v us)
  then have "passes gemma_closingMarker ('','' @ join_with '','' (v # us))"
    by (intro passes_append passes_plain [of "'',''"]) simp_all
  with 3 show ?case by (auto intro: passes_append)
qed (auto intro: passes_Nil)

lemma passes_value: "gemma_plain p v \<Longrightarrow> passes gemma_closingMarker (gemma_value p v)"
proof (induction p v rule: gemma_value.induct)
  case (5 p vs)
  then have "passes gemma_closingMarker (''['' @ join_with '','' (map (gemma_value p) vs) @ '']'')"
    by (intro passes_append passes_join passes_plain [of "''[''"] passes_plain [of "'']''"]) auto
  then show ?case by simp
next
  case (6 p ms)
  have "passes gemma_closingMarker (k @ '':'' @ gemma_value p v)" if "(k, v) \<in> set ms" for k v
  proof -
    from that 6(2) have "gemma_name k" "gemma_plain p v" by auto
    then have "CHR ''<'' \<notin> set k" by (intro gemma_name_chars) simp_all
    moreover have "passes gemma_closingMarker (gemma_value p v)" by (rule 6(1) [OF that refl]) fact
    ultimately show ?thesis by (intro passes_append passes_plain [of k] passes_plain [of "'':''"]) simp_all
  qed
  then have "passes gemma_closingMarker (join_with '','' (map (\<lambda>(k, v). k @ '':'' @ gemma_value p v) ms))"
    by (intro passes_join) auto
  then have "passes gemma_closingMarker (''{'' @ join_with '','' (map (\<lambda>(k, v). k @ '':'' @ gemma_value p v) ms) @ ''}'')"
    by (intro passes_append passes_plain [of "''{''"] passes_plain [of "''}''"]) simp_all
  then show ?case by simp
qed (auto intro!: passes_plain passes_string simp: gemma_number_def bare_char_def list_all_iff)

section \<open>Properties\<close>

text \<open>A call as it was meant, as it is written, and as it is read: with every argument as text.\<close>

type_synonym meant_call = "string \<times> (string \<times> json) list"

definition gemma_call_body :: "js_platform \<Rightarrow> meant_call \<Rightarrow> string" where
  "gemma_call_body p c = callKeyword @ fst c @ gemma_value p (JObject (snd c))"

definition gemma_written :: "js_platform \<Rightarrow> string \<Rightarrow> meant_call list \<Rightarrow> string" where
  "gemma_written p words cs =
     words @ concat (map (\<lambda>c. gemma_openingMarker @ gemma_call_body p c @ gemma_closingMarker) cs) @ ''<|tool_response>''"

definition meant_tool_call :: "js_platform \<Rightarrow> meant_call \<Rightarrow> tool_call" where
  "meant_tool_call p c =
     \<lparr>call_name = fst c, call_argumentValues = map (\<lambda>m. (fst m, argument_text p (snd m))) (snd c)\<rparr>"

definition gemma_call_plain :: "js_platform \<Rightarrow> meant_call \<Rightarrow> bool" where
  "gemma_call_plain p c \<longleftrightarrow> gemma_name (fst c) \<and> gemma_plain p (JObject (snd c))"

lemma gemma_object_text: "gemma_value p (JObject ms) = ''{'' @ members_text p ms @ ''}''"
  by (simp add: members_text_def member_text_def [abs_def] case_prod_unfold)

lemma gemma_read_one:
  assumes "gemma_call_plain p c" and "fst c \<in> set declared" and "need (JObject (snd c)) \<le> n"
  shows "gemma_readOneCall p n declared (gemma_call_body p c) = Some (Inr (meant_tool_call p c))"
proof -
  let ?ms = "snd c" and ?u = "members_text p (snd c)"
  have name: "gemma_name (fst c)" and plain: "\<forall>m \<in> set ?ms. gemma_name (fst m) \<and> gemma_plain p (snd m)"
    and dist: "distinct (map fst ?ms)" and obj: "gemma_plain p (JObject ?ms)"
    using assms(1) by (auto simp: gemma_call_plain_def)
  have nobrace: "CHR ''{'' \<notin> set (fst c)" using name by (rule gemma_name_chars) simp
  have body: "gemma_call_body p c = callKeyword @ fst c @ ''{'' @ ?u @ ''}''"
    by (simp only: gemma_call_body_def gemma_object_text append_assoc)
  have "trimmed (gemma_call_body p c)" unfolding body by (simp add: trimmed_def callKeyword_def is_space_def)
  moreover have "indexOf ''{'' (fst c @ ''{'' @ ?u @ ''}'') = Some (length (fst c))"
    using indexOf_marker [OF nobrace, of "[]" "?u @ ''}''"] by simp
  moreover have "skips (CHR ''{'') (CHR ''}'') ?u" unfolding members_text_def
    using plain by (intro skips_join) (auto simp: member_text_def brackets_def intro!: skips_member [simplified] skips_value)
  then have "bracketed (CHR ''{'') (CHR ''}'') (''{'' @ ?u @ ''}'') = (?u, [])"
    using bracketed_skips [of "CHR ''{''" "CHR ''}''" ?u "[]"] by (simp add: brackets_def)
  moreover have "pastSpaces ?u = ?u" using plain by (intro pastSpaces_members) blast
  moreover have "readArgumentValues p n (fst c) ?u [] =
      Some (Inr (map (\<lambda>m. (fst m, argument_text p (snd m))) ?ms))"
    using gemma_read_arguments [OF plain, of "[]" n "fst c"] dist assms(3) by simp
  moreover have "prefix callKeyword (gemma_call_body p c)" "drop (length callKeyword) (gemma_call_body p c) = fst c @ ''{'' @ ?u @ ''}''"
    by (simp_all add: body)
  ultimately show ?thesis
    using name assms(2) by (simp add: gemma_readOneCall_def meant_tool_call_def gemma_name_def)
qed

lemma gemma_blocks:
  assumes "CHR ''<'' \<notin> set words" and "\<forall>c \<in> set cs. gemma_call_plain p c"
  shows "blocks_between gemma_openingMarker gemma_closingMarker (gemma_written p words cs) = map (gemma_call_body p) cs"
  using assms
proof (induction cs arbitrary: words)
  case Nil
  have "indexOf gemma_openingMarker (words @ ''<|tool_response>'') = None"
    unfolding gemma_openingMarker_def by (subst indexOf_past [OF Nil(1)]) simp
  then show ?case by (simp add: gemma_written_def blocks_between_absent)
next
  case (Cons c cs)
  let ?rest = "gemma_written p [] cs" and ?b = "gemma_call_body p c"
  have c: "gemma_call_plain p c" using Cons.prems(2) by simp
  have eq: "gemma_written p words (c # cs) = words @ gemma_openingMarker @ ?b @ gemma_closingMarker @ ?rest"
    by (simp add: gemma_written_def)
  have "passes gemma_closingMarker ?b" unfolding gemma_call_body_def
  proof (intro passes_append)
    show "passes gemma_closingMarker callKeyword" by (rule passes_plain) (simp add: callKeyword_def)
    show "passes gemma_closingMarker (fst c)"
      using c unfolding gemma_call_plain_def by (intro passes_plain gemma_name_chars) simp_all
    show "passes gemma_closingMarker (gemma_value p (JObject (snd c)))"
      using c unfolding gemma_call_plain_def by (intro passes_value) blast
  qed
  then have up: "up_to gemma_closingMarker (?b @ gemma_closingMarker @ ?rest) = (?b, ?rest)"
    using indexOf_here [of gemma_closingMarker ?rest] by (simp add: passes_def up_to_def)
  have "blocks_between gemma_openingMarker gemma_closingMarker (gemma_written p words (c # cs)) =
      ?b # blocks_between gemma_openingMarker gemma_closingMarker ?rest"
    unfolding eq
  proof (rule blocks_between_block [OF _ up])
    show "indexOf gemma_openingMarker (words @ gemma_openingMarker @ ?b @ gemma_closingMarker @ ?rest) = Some (length words)"
      unfolding gemma_openingMarker_def by (rule indexOf_marker [OF Cons.prems(1)])
  qed (simp add: gemma_openingMarker_def)
  with Cons.IH [of "[]"] Cons.prems(2) show ?case by simp
qed


text \<open>Numbers as the whole ones among them are read and written.\<close>

definition whole_numbers :: js_platform where
  "whole_numbers = \<lparr>
     Number_of = (\<lambda>s. if s = decimal (undigits s) then Finite (of_nat (undigits s)) else NaN),
     Number_text = (\<lambda>r. show_int \<lfloor>r\<rfloor>), JSON_parse = (\<lambda>_. None)\<rparr>"


definition endless_answer :: string where
  "endless_answer = ''<|tool_call>call:f{a:[x[0]]}<tool_call|>''"

lemma readList_stuck: "readList p n '']'' vs = None"
proof (induction n arbitrary: vs)
  case (Suc n)
  have "readValue p n '']'' = None \<or> readValue p n '']'' = Some (JString [], '']'')"
    by (cases n) (simp_all add: pastSpaces_def is_space_def stringValueMarker_def bare_end_def readBareValue_def trim_def)
  moreover have "past_comma '']'' = '']''" by (simp add: past_comma_def pastSpaces_def is_space_def)
  ultimately show ?case using Suc by auto
qed simp

text \<open>
  C39: A short answer of a model keeps the reader busy for ever: a bare value inside a list ends at a closing bracket
  without stepping over it, so the loop over the list never moves on and no fuel is enough.
\<close>

theorem endless_answer_never_read:
  "Gemma4E2bToolCallReader_read p n endless_answer [\<lparr>tool_name = ''f'', tool_description = d, tool_parametersJsonSchema = js\<rparr>] = None"
proof -
  have blocks: "blocks_between gemma_openingMarker gemma_closingMarker endless_answer = [''call:f{a:[x[0]]}'']"
    by (simp add: endless_answer_def gemma_openingMarker_def gemma_closingMarker_def up_to_def blocks_between.simps)
  have started: "Gemma4E2bToolCallReader_hasStartedAToolCall endless_answer"
    by (simp add: Gemma4E2bToolCallReader_hasStartedAToolCall_def includes_text_def endless_answer_def gemma_openingMarker_def)
  have outer: "bracketed (CHR ''{'') (CHR ''}'') ''{a:[x[0]]}'' = (''a:[x[0]]'', [])"
    and inner: "bracketed (CHR ''['') (CHR '']'') ''[x[0]]'' = (''x[0]'', [])" by code_simp+
  have "readList p m ''x[0]'' [] = None" for m
  proof (cases m)
    case (Suc k)
    have "past_comma '']'' = '']''" by (simp add: past_comma_def pastSpaces_def is_space_def)
    moreover have "readValue p k ''x[0]'' = None \<or> (\<exists>v. readValue p k ''x[0]'' = Some (v, '']''))"
      by (cases k) (simp_all add: pastSpaces_def is_space_def stringValueMarker_def bare_end_def)
    ultimately show ?thesis using readList_stuck by (auto simp: Suc)
  qed simp
  then have "readValue p m ''[x[0]]'' = None" for m
    by (cases m) (simp_all add: pastSpaces_def is_space_def stringValueMarker_def inner)
  then have args: "readArgumentValues p n ''f'' ''a:[x[0]]'' [] = None"
    by (cases n) (simp_all add: trim_def is_space_def)
  have "trim ''call:f{a:[x[0]]}'' = ''call:f{a:[x[0]]}''" by (rule trim_trimmed) (simp add: trimmed_def is_space_def)
  then have "gemma_readOneCall p n [''f''] ''call:f{a:[x[0]]}'' = None"
    by (simp add: gemma_readOneCall_def callKeyword_def outer args trim_def is_space_def pastSpaces_def)
  moreover have "set_of_list [''f''] = [''f'']" by (simp add: set_of_list_def set_add_def)
  ultimately show ?thesis by (simp add: Gemma4E2bToolCallReader_read_def started blocks)
qed

end
