(* ===== verification/Consumer_Client.thy ===== *)
theory Consumer_Client
  imports Gateway_Messages
begin

text \<open>
  The client's side of the protocol: how long to wait before connecting again
  (\<open>src/packages/protocol/src/reconnect_backoff.ts\<close>) and before authenticating again (\<open>session_renewal.ts\<close>), the
  three messages that put an account on a connection (\<open>accounting/account_authentication.ts\<close>), and the consumer's
  connection (\<open>src/packages/consumer_cli/src/gateway_connection/consumer_client.ts\<close>). An operation returns the
  object after it and the actions it took, in order: messages sent and callbacks called. Signing a challenge is
  asynchronous: it is an action whose outcome a later event brings. What is logged of the traffic is left out.
\<close>

section \<open>Waiting before connecting again\<close>

definition firstDelayMs :: int where
  "firstDelayMs = 1000"

definition growthFactor :: int where
  "growthFactor = 2"

definition maximumDelayMs :: int where
  "maximumDelayMs = 60000"

definition randomExtraFraction :: rat where
  "randomExtraFraction = 3 / 10"

text \<open>The wait for a random fraction, and how many waits have been handed out after it.\<close>

definition ReconnectBackoff_nextDelayMs :: "rat \<Rightarrow> nat \<Rightarrow> int \<times> nat" where
  "ReconnectBackoff_nextDelayMs randomFraction attemptCountSoFar =
     (let growthMultiplier = growthFactor ^ attemptCountSoFar;
        delayMs = min (firstDelayMs * growthMultiplier) maximumDelayMs
      in (\<lfloor>of_int delayMs * (1 + randomFraction * randomExtraFraction) + 1 / 2\<rfloor>, attemptCountSoFar + 1))"

definition ReconnectBackoff_reset :: nat where
  "ReconnectBackoff_reset = 0"

lemma backoff_bounds:
  assumes "0 \<le> r" and "r < 1"
  shows "min (firstDelayMs * 2 ^ n) maximumDelayMs \<le> fst (ReconnectBackoff_nextDelayMs r n)"
    and "fst (ReconnectBackoff_nextDelayMs r n) \<le> 78000"
proof -
  define d where "d = min (firstDelayMs * 2 ^ n) maximumDelayMs"
  have d: "0 \<le> d" "d \<le> 60000" by (simp_all add: d_def firstDelayMs_def maximumDelayMs_def)
  have wait: "fst (ReconnectBackoff_nextDelayMs r n) = \<lfloor>of_int d * (1 + r * (3 / 10)) + 1 / 2\<rfloor>"
    by (simp add: ReconnectBackoff_nextDelayMs_def Let_def d_def growthFactor_def randomExtraFraction_def)
  have "of_int d * 1 \<le> of_int d * (1 + r * (3 / 10))" using d assms by (intro mult_left_mono) simp_all
  then show "min (firstDelayMs * 2 ^ n) maximumDelayMs \<le> fst (ReconnectBackoff_nextDelayMs r n)"
    unfolding wait d_def [symmetric] by (simp add: le_floor_iff)
  have "of_int d * (1 + r * (3 / 10)) \<le> (60000 :: rat) * (13 / 10)"
    using d assms by (intro mult_mono) simp_all
  then show "fst (ReconnectBackoff_nextDelayMs r n) \<le> 78000" unfolding wait by linarith
qed

section \<open>Authenticating again before a session ends\<close>

definition minimumRenewalDelayMs :: int where
  "minimumRenewalDelayMs = 1000"

text \<open>The moment a session expires is the number \<open>Date.parse\<close> gives for it; a text that is no date gives none.\<close>

definition SessionRenewal_renewAfterMs :: "int option \<Rightarrow> int \<Rightarrow> int" where
  "SessionRenewal_renewAfterMs expiresAt now =
     (case expiresAt of
        None \<Rightarrow> minimumRenewalDelayMs
      | Some t \<Rightarrow> max minimumRenewalDelayMs ((t - now) div 2))"

lemma renewal_before_expiry:
  "2 * minimumRenewalDelayMs \<le> t - now \<Longrightarrow> now + SessionRenewal_renewAfterMs (Some t) now \<le> t - minimumRenewalDelayMs"
  by (simp add: SessionRenewal_renewAfterMs_def minimumRenewalDelayMs_def max_def) presburger

section \<open>The account conversation\<close>

record account_key_pair =
  kp_signatureAlgorithmName :: signature_algorithm
  kp_publicKeySpkiBase64 :: string
  kp_accountId :: account_id

datatype account_note = Refused_by_gateway error_code string | Could_not_sign string

datatype client_action =
    Send client_message
  | Sign_challenge string
  | On_registered device_id
  | On_account_settled "account_id option"
  | On_account_note account_note
  | On_task_accepted task_snapshot
  | On_task_snapshot task_snapshot
  | On_task_updated task_update
  | On_error protocol_error
  | On_connection_change bool
  | Close_socket

record account_conversation =
  conv_keyPair :: account_key_pair
  conv_isSettled :: bool

definition AccountAuthentication_begin :: "account_conversation \<Rightarrow> client_action list" where
  "AccountAuthentication_begin c =
     [Send (Account_register (kp_signatureAlgorithmName (conv_keyPair c)) (kp_publicKeySpkiBase64 (conv_keyPair c)) None None)]"

definition isAccountErrorCode :: "error_code \<Rightarrow> bool" where
  "isAccountErrorCode code \<longleftrightarrow> code \<in> {ACCOUNT_NOT_FOUND, ACCOUNT_CHALLENGE_INVALID, ACCOUNT_SIGNATURE_REJECTED,
     ACCOUNT_REQUIRED, INVALID_MESSAGE, VALIDATION, UNSUPPORTED}"

text \<open>\<open>onSettled\<close> is what the client passes in; it is given here as the actions it takes for an account.\<close>

definition AccountAuthentication_settle ::
  "(account_id option \<Rightarrow> client_action list) \<Rightarrow> account_id option \<Rightarrow> account_conversation
     \<Rightarrow> account_conversation \<times> client_action list" where
  "AccountAuthentication_settle onSettled accountId c =
     (if conv_isSettled c then (c, []) else (c\<lparr>conv_isSettled := True\<rparr>, onSettled accountId))"

definition AccountAuthentication_handleMessage ::
  "(account_id option \<Rightarrow> client_action list) \<Rightarrow> gateway_message \<Rightarrow> account_conversation
     \<Rightarrow> bool \<times> account_conversation \<times> client_action list" where
  "AccountAuthentication_handleMessage onSettled message c =
     (case message of
        Account_registered _ _ \<Rightarrow> (True, c, [Send Account_challenge_request])
      | Account_challenge challenge _ \<Rightarrow> (True, c, [Sign_challenge challenge])
      | Account_authenticated accountId _ \<Rightarrow> (True, AccountAuthentication_settle onSettled (Some accountId) c)
      | Error_message e \<Rightarrow>
          if \<not> conv_isSettled c \<and> isAccountErrorCode (error_code e) then
            (let (c1, actions) = AccountAuthentication_settle onSettled None c
             in (True, c1, On_account_note (Refused_by_gateway (error_code e) (error_message e)) # actions))
          else (False, c, [])
      | _ \<Rightarrow> (False, c, []))"

text \<open>The half of \<open>signChallenge\<close> that runs when the platform has signed, or has failed to.\<close>

definition AccountAuthentication_signed ::
  "(account_id option \<Rightarrow> client_action list) \<Rightarrow> string + string \<Rightarrow> account_conversation
     \<Rightarrow> account_conversation \<times> client_action list" where
  "AccountAuthentication_signed onSettled signature c =
     (case signature of
        Inr signatureBase64 \<Rightarrow> (c, [Send (Account_authenticate (kp_accountId (conv_keyPair c)) signatureBase64)])
      | Inl reason \<Rightarrow>
          (let (c1, actions) = AccountAuthentication_settle onSettled None c
           in (c1, On_account_note (Could_not_sign reason) # actions)))"

section \<open>The consumer's connection\<close>

record consumer_client =
  cl_isRegistered :: bool
  cl_sessionRenewal :: "int option"
  cl_accountAuthentication :: "account_conversation option"
  cl_name :: string
  cl_authenticationToken :: string
  cl_accountKeyPair :: "account_key_pair option"

definition ConsumerClient_constructor :: "string \<Rightarrow> string \<Rightarrow> account_key_pair option \<Rightarrow> consumer_client" where
  "ConsumerClient_constructor name token keyPair =
     \<lparr>cl_isRegistered = False, cl_sessionRenewal = None, cl_accountAuthentication = None, cl_name = name,
      cl_authenticationToken = token, cl_accountKeyPair = keyPair\<rparr>"

definition ConsumerClient_onopen :: "consumer_client \<Rightarrow> client_action list" where
  "ConsumerClient_onopen cl = [On_connection_change True, Send (DeviceAuthenticate (cl_authenticationToken cl))]"

definition ConsumerClient_reportOwnError :: "string \<Rightarrow> client_action" where
  "ConsumerClient_reportOwnError message =
     On_error \<lparr>error_code = INVALID_MESSAGE, error_message = message, error_details = None, error_taskRequestId = None,
       error_taskId = None, error_retryable = None\<rparr>"

definition ConsumerClient_onerror :: "client_action list" where
  "ConsumerClient_onerror = [ConsumerClient_reportOwnError ''The connection to the central gateway failed'']"

definition ConsumerClient_onclose :: "consumer_client \<Rightarrow> consumer_client \<times> client_action list" where
  "ConsumerClient_onclose cl =
     (cl\<lparr>cl_isRegistered := False, cl_accountAuthentication := None, cl_sessionRenewal := None\<rparr>,
      [On_connection_change False])"

definition register_message :: "consumer_client \<Rightarrow> client_message" where
  "register_message cl = DeviceRegister Consumer (cl_name cl) None None None"

definition onSettled :: "consumer_client \<Rightarrow> account_id option \<Rightarrow> client_action list" where
  "onSettled cl accountId =
     On_account_settled accountId # (if cl_isRegistered cl then [] else [Send (register_message cl)])"

definition ConsumerClient_submit ::
  "task_input \<Rightarrow> string \<Rightarrow> consumer_client \<Rightarrow> string + client_action list" where
  "ConsumerClient_submit input requestId cl =
     (if \<not> cl_isRegistered cl then Inl ''The consumer is not connected''
      else Inr [Send (Task_submit requestId input None None)])"

definition ConsumerClient_cancel :: "task_id \<Rightarrow> string \<Rightarrow> consumer_client \<Rightarrow> client_action list" where
  "ConsumerClient_cancel taskId' reason cl = (if \<not> cl_isRegistered cl then [] else [Send (Task_cancel taskId' reason)])"

definition ConsumerClient_close :: "consumer_client \<Rightarrow> consumer_client \<times> client_action list" where
  "ConsumerClient_close cl = (cl\<lparr>cl_sessionRenewal := None\<rparr>, [Close_socket])"

text \<open>A frame as it was read: text that is not JSON, a frame without a message, a message.\<close>

datatype received_frame = Invalid_data | No_message | Message gateway_message

definition ConsumerClient_authenticated :: "int \<Rightarrow> int \<Rightarrow> consumer_client \<Rightarrow> consumer_client \<times> client_action list" where
  "ConsumerClient_authenticated now expiresAt cl0 =
     (let cl = cl0\<lparr>cl_sessionRenewal := Some (SessionRenewal_renewAfterMs (Some expiresAt) now)\<rparr>
      in if cl_isRegistered cl \<or> cl_accountAuthentication cl \<noteq> None then (cl, [])
         else (case cl_accountKeyPair cl of
                 None \<Rightarrow> (cl, [On_account_settled None, Send (register_message cl)])
               | Some kp \<Rightarrow>
                   let c = \<lparr>conv_keyPair = kp, conv_isSettled = False\<rparr>
                   in (cl\<lparr>cl_accountAuthentication := Some c\<rparr>, AccountAuthentication_begin c)))"

definition ConsumerClient_dispatch :: "gateway_message \<Rightarrow> consumer_client \<Rightarrow> consumer_client \<times> client_action list" where
  "ConsumerClient_dispatch message cl =
     (case message of
        DeviceRegistered deviceId' \<Rightarrow> (cl\<lparr>cl_isRegistered := True\<rparr>, [On_registered deviceId'])
      | Task_accepted _ task' \<Rightarrow> (cl, [On_task_accepted task'])
      | Task_snapshot_message task' \<Rightarrow> (cl, [On_task_snapshot task'])
      | Task_updated update \<Rightarrow> (cl, [On_task_updated update])
      | Error_message e \<Rightarrow> (cl, [On_error e])
      | _ \<Rightarrow> (cl, []))"

definition ConsumerClient_handleMessage ::
  "int \<Rightarrow> received_frame \<Rightarrow> consumer_client \<Rightarrow> consumer_client \<times> client_action list" where
  "ConsumerClient_handleMessage now frame cl =
     (case frame of
        Invalid_data \<Rightarrow> (cl, [ConsumerClient_reportOwnError ''The central gateway sent invalid data''])
      | No_message \<Rightarrow> (cl, [ConsumerClient_reportOwnError ''The central gateway sent a frame with no message in it''])
      | Message message \<Rightarrow>
          (case message of
             DeviceAuthenticated _ expiresAt \<Rightarrow> ConsumerClient_authenticated now expiresAt cl
           | _ \<Rightarrow>
               (case cl_accountAuthentication cl of
                  None \<Rightarrow> ConsumerClient_dispatch message cl
                | Some c \<Rightarrow>
                    let (handled, c1, actions) = AccountAuthentication_handleMessage (onSettled cl) message c;
                      cl1 = cl\<lparr>cl_accountAuthentication := Some c1\<rparr>
                    in if handled then (cl1, actions) else ConsumerClient_dispatch message cl1)))"

text \<open>The challenge was signed while the connection was open; on a closed one the answer goes nowhere.\<close>

definition ConsumerClient_signed :: "string + string \<Rightarrow> consumer_client \<Rightarrow> consumer_client \<times> client_action list" where
  "ConsumerClient_signed signature cl =
     (case cl_accountAuthentication cl of
        None \<Rightarrow> (cl, [])
      | Some c \<Rightarrow>
          let (c1, actions) = AccountAuthentication_signed (onSettled cl) signature c
          in (cl\<lparr>cl_accountAuthentication := Some c1\<rparr>, actions))"

definition ConsumerClient_renew :: "consumer_client \<Rightarrow> client_action list" where
  "ConsumerClient_renew cl = [Send (DeviceAuthenticate (cl_authenticationToken cl))]"

end
