(* ===== verification/Openai_Error.thy ===== *)
theory Openai_Error
  imports Js_Json
begin

text \<open>
  The failures the OpenAI-compatible server answers with (\<open>src/packages/consumer_openai/src/api/openai_error.ts\<close>): one
  constructor per failure with its HTTP status, its kind, its message in full, the request field at fault and a code.
\<close>

datatype openai_error_kind = Invalid_request_error | Authentication_error | Rate_limit_error | Api_error

fun error_kind_text :: "openai_error_kind \<Rightarrow> string" where
  "error_kind_text Invalid_request_error = ''invalid_request_error''"
| "error_kind_text Authentication_error = ''authentication_error''"
| "error_kind_text Rate_limit_error = ''rate_limit_error''"
| "error_kind_text Api_error = ''api_error''"

datatype openai_error = Openai_error
  (err_status: nat) (err_kind: openai_error_kind) (err_message: string) (err_param: "string option") (err_code: "string option")

definition json_or_null :: "string option \<Rightarrow> json" where
  "json_or_null s = (case s of None \<Rightarrow> JNull | Some t \<Rightarrow> JString t)"

definition OpenaiError_body :: "openai_error \<Rightarrow> json" where
  "OpenaiError_body e =
     JObject [(''error'', JObject
       [(''message'', JString (err_message e)), (''type'', JString (error_kind_text (err_kind e))),
        (''param'', json_or_null (err_param e)), (''code'', json_or_null (err_code e))])]"

definition OpenaiError_invalidRequest :: "string \<Rightarrow> string option \<Rightarrow> openai_error" where
  "OpenaiError_invalidRequest message param =
     Openai_error 400 Invalid_request_error
       message
       param None"

definition OpenaiError_unknownModel :: "string \<Rightarrow> string list \<Rightarrow> openai_error" where
  "OpenaiError_unknownModel modelId offeredModelIds =
     Openai_error 404 Invalid_request_error
       (''This server does not offer a model named '' @ modelId @ ''. The models it offers are '' @
        join_with '', '' offeredModelIds @ '', which can also be read from GET /v1/models.'')
       (Some ''model'') (Some ''model_not_found'')"

definition OpenaiError_unusableMessages :: "string \<Rightarrow> openai_error" where
  "OpenaiError_unusableMessages message =
     Openai_error 400 Invalid_request_error
       message
       (Some ''messages'') None"

definition OpenaiError_unhonourableGenerationControl :: "string \<Rightarrow> string \<Rightarrow> string list \<Rightarrow> openai_error" where
  "OpenaiError_unhonourableGenerationControl field modelId honouredFields =
     Openai_error 400 Invalid_request_error
       (''The model '' @ modelId @ '' cannot honour '' @ field @
        '', and this server refuses a request it would have to '' @
        ''ignore rather than answering it as though nothing had been asked for. The generation controls '' @
        modelId @ '' honours are '' @
        (if honouredFields = [] then ''none'' else join_with '', '' honouredFields) @ ''. Send the '' @
        ''request again without '' @ field @ '', or send it to a model that honours it.'')
       (Some field) (Some ''unhonourable_generation_control'')"

definition OpenaiError_unhonourableResponseFormat :: "string \<Rightarrow> string \<Rightarrow> string list \<Rightarrow> openai_error" where
  "OpenaiError_unhonourableResponseFormat requestedType modelId honouredTypes =
     Openai_error 400 Invalid_request_error
       (''The model '' @ modelId @ '' cannot produce a response_format of '' @ requestedType @
        '', and this server refuses a '' @
        ''request it would have to ignore rather than answering it in prose as though no shape had been asked '' @
        ''for. The response_format types '' @ modelId @ '' produces are '' @
        (if honouredTypes = [] then ''text only'' else join_with '', '' honouredTypes) @
        ''. Send the request again with '' @
        ''response_format \"text\" or without the field, or send it to a model that produces the shape you asked '' @
        ''for.'')
       (Some ''response_format'') (Some ''unhonourable_response_format'')"

definition OpenaiError_unenforceableSchema :: "string \<Rightarrow> openai_error" where
  "OpenaiError_unenforceableSchema packageMessage =
     Openai_error 400 Invalid_request_error
       (''This server cannot enforce the JSON Schema you asked for, and refuses a request it would have to accept '' @
        ''and then enforce only in part, which would answer you with an object that parses and does not match '' @
        ''the schema. The constraint this cluster generates with says: '' @ packageMessage @
        '' Send the request again '' @
        ''with a schema this server can enforce, or with response_format \"json_object\" to ask only for an '' @
        ''object.'')
       (Some ''response_format.json_schema.schema'') (Some ''unenforceable_schema'')"

definition OpenaiError_responseFormatWithTools :: "string \<Rightarrow> openai_error" where
  "OpenaiError_responseFormatWithTools requestedType =
     Openai_error 400 Invalid_request_error
       (''This server cannot produce a response_format of '' @ requestedType @
        '' for a request that also declares tools, '' @
        ''and refuses a request it would have to answer by dropping one of the two. A model made to write an '' @
        ''object cannot write a tool call, and a model free to call a tool is not writing the shape you asked '' @
        ''for; asked for both at once, a local server wrote the object and invented the reading the tool was '' @
        ''declared to fetch. Send the request again with the shape and no tools, with the tools and no shape, '' @
        ''or with tool_choice \"none\" to declare nothing to the model.'')
       (Some ''response_format'') (Some ''response_format_with_tools'')"

definition OpenaiError_unsupportedToolDeclarations :: "string \<Rightarrow> string list \<Rightarrow> openai_error" where
  "OpenaiError_unsupportedToolDeclarations modelId modelIdsAcceptingTools =
     Openai_error 400 Invalid_request_error
       (''The model '' @ modelId @
        '' cannot read tool declarations, and this server refuses a request it would have to '' @
        ''ignore rather than answering it as though no tool had been declared. The models that accept tool '' @
        ''declarations are '' @
        (if modelIdsAcceptingTools = [] then ''none'' else join_with '', '' modelIdsAcceptingTools) @
        ''. Send the '' @ ''request again without tools, or send it to a model that reads them.'')
       (Some ''tools'') (Some ''unsupported_tool_declarations'')"

definition OpenaiError_unenforceableToolChoice :: "string \<Rightarrow> openai_error" where
  "OpenaiError_unenforceableToolChoice requestedChoice =
     Openai_error 400 Invalid_request_error
       (''This server cannot enforce tool_choice '' @ requestedChoice @
        '', and refuses a request it would have to accept '' @
        ''and then ignore. Enforcing it means constraining generation, which the chat templates this cluster '' @
        ''drives cannot express. Send tool_choice \"auto\" to let the model decide, or \"none\" to declare the '' @
        ''tools without letting it ask for one.'')
       (Some ''tool_choice'') (Some ''unenforceable_tool_choice'')"

definition OpenaiError_authenticationFailed :: "openai_error" where
  "OpenaiError_authenticationFailed =
     Openai_error 401 Authentication_error
       (''This server was started with a required key, and the request did not present a matching one. Send '' @
        ''it in an Authorization header, as \"Bearer\" followed by the key.'')
       None (Some ''invalid_api_key'')"

definition OpenaiError_tooManyTasksInFlight :: "nat \<Rightarrow> openai_error" where
  "OpenaiError_tooManyTasksInFlight limit =
     Openai_error 429 Rate_limit_error
       (''This server is already waiting on '' @ decimal limit @
        '' cluster tasks, which is as many as it holds at once. '' @
        ''Send the request again once one of them has finished.'')
       None (Some ''too_many_tasks_in_flight'')"

definition OpenaiError_gatewayRateLimited :: "string \<Rightarrow> openai_error" where
  "OpenaiError_gatewayRateLimited message =
     Openai_error 429 Rate_limit_error
       message
       None (Some ''gateway_rate_limited'')"

definition OpenaiError_gatewayUnavailable :: "string \<Rightarrow> openai_error" where
  "OpenaiError_gatewayUnavailable message =
     Openai_error 503 Api_error
       message
       None (Some ''gateway_unavailable'')"

definition OpenaiError_noVolunteerAvailable :: "string \<Rightarrow> openai_error" where
  "OpenaiError_noVolunteerAvailable modelId =
     Openai_error 503 Api_error
       (''No volunteer browser is currently offering the work the model '' @ modelId @
        '' needs, so the task '' @
        ''waited until the central gateway's submission deadline and was then given up. Open a worker '' @
        ''browser tab that offers that model's stages and send the request again.'')
       None (Some ''no_volunteer_available'')"

definition OpenaiError_modelHasNoConnectedWorker :: "string \<Rightarrow> string list \<Rightarrow> openai_error" where
  "OpenaiError_modelHasNoConnectedWorker modelId missingStageNames =
     (let stageWord = (if length missingStageNames = 1 then ''stage'' else ''stages'');
        stages = (if missingStageNames = [] then ''one or more of the stages it needs''
          else stageWord @ '' '' @ join_with '', '' missingStageNames)
      in Openai_error 503 Api_error
       (''The model '' @ modelId @ '' cannot be run right now: no connected worker runs '' @ stages @ ''. '' @
        ''Open a worker browser tab that offers '' @
        (if length missingStageNames = 1 then ''that stage'' else ''those stages'') @ '', '' @
        ''or ask GET /v1/models for the models the cluster can run at this moment, which leaves out '' @
        modelId @ '' '' @ ''for as long as this holds.'')
       None (Some ''model_has_no_connected_worker''))"

definition OpenaiError_taskFailed :: "string \<Rightarrow> openai_error" where
  "OpenaiError_taskFailed message =
     Openai_error 502 Api_error
       (''The cluster could not finish this task: '' @ message)
       None (Some ''task_failed'')"

definition OpenaiError_requestTimedOut :: "nat \<Rightarrow> openai_error" where
  "OpenaiError_requestTimedOut requestTimeoutMs =
     Openai_error 504 Api_error
       (''The cluster did not finish this task within '' @ decimal requestTimeoutMs @
        '' milliseconds, so it was cancelled. '' @
        ''Start this server with a longer --request-timeout-ms to wait longer.'')
       None (Some ''request_timed_out'')"

definition OpenaiError_unexpected :: "openai_error" where
  "OpenaiError_unexpected =
     Openai_error 500 Api_error
       (''This server failed in a way it does not account for. The reason was written to its own output.'')
       None (Some ''internal_error'')"

definition OpenaiError_answerUnreadable :: "string \<Rightarrow> openai_error" where
  "OpenaiError_answerUnreadable taskTypeName =
     Openai_error 502 Api_error
       (''The cluster finished this '' @ taskTypeName @
        '' task but its result carried no text to answer with.'')
       None (Some ''answer_unreadable'')"


lemmas OpenaiError_defs =
  OpenaiError_invalidRequest_def
  OpenaiError_unknownModel_def
  OpenaiError_unusableMessages_def
  OpenaiError_unhonourableGenerationControl_def
  OpenaiError_unhonourableResponseFormat_def
  OpenaiError_unenforceableSchema_def
  OpenaiError_responseFormatWithTools_def
  OpenaiError_unsupportedToolDeclarations_def
  OpenaiError_unenforceableToolChoice_def
  OpenaiError_authenticationFailed_def
  OpenaiError_tooManyTasksInFlight_def
  OpenaiError_gatewayRateLimited_def
  OpenaiError_gatewayUnavailable_def
  OpenaiError_noVolunteerAvailable_def
  OpenaiError_modelHasNoConnectedWorker_def
  OpenaiError_taskFailed_def
  OpenaiError_requestTimedOut_def
  OpenaiError_unexpected_def
  OpenaiError_answerUnreadable_def

end
