(* ===== verification/Cluster_Task_Runner.thy ===== *)
theory Cluster_Task_Runner
  imports Consumer_Client Openai_Error
begin

text \<open>
  \<open>ClusterTaskRunner\<close> (\<open>src/packages/consumer_openai/src/libs/cluster_task_runner.ts\<close>): the OpenAI-compatible server
  turns every request into one task of the cluster over one connection, and answers it when the task ends, when the
  connection is lost, when it has waited too long or when whoever sent it goes away. The state is the object with
  its maps; a pending request is an object both maps point to, kept in \<open>pendings\<close> under the identifier it was
  submitted with, so a map holds that identifier. A call of \<open>run\<close> is named by a number; answering it, refusing it
  and reporting a piece of its answer are entries of \<open>outputs\<close>, as are the messages sent. The half of \<open>run\<close> after the
  wait for a registered connection runs at once when there is one, and otherwise when the waiter is resolved.
\<close>

section \<open>State\<close>

record task_answer =
  ans_text :: string
  ans_promptTokenCount :: "int option"
  ans_completionTokenCount :: "int option"
  ans_stopReason :: "stop_reason option"
  ans_toolCalls :: "tool_call list option"

record runner_options =
  opt_gatewayUrl :: string
  opt_authToken :: string
  opt_name :: string
  opt_accountKeyPair :: "account_key_pair option"
  opt_requestTimeoutMs :: nat
  opt_maximumTasksInFlight :: nat

record runner_env =
  options :: runner_options
  jsPlatform :: js_platform
  requestUUID :: "nat \<Rightarrow> string"
  randomFraction :: "nat \<Rightarrow> rat"

record run_call =
  call_number :: nat
  call_input :: task_input
  call_modelId :: string
  call_onPiece :: bool

record pending_task =
  pt_call :: run_call
  pt_taskRequestId :: string
  pt_taskId :: "task_id option"
  pt_timeoutTimer :: bool
  pt_isSettled :: bool

datatype runner_output =
    Answered nat task_answer
  | Refused nat openai_error
  | Piece nat string
  | Correlated nat string "task_id option"
  | Sent client_message
  | Closed_connection

record runner =
  client :: "consumer_client option"
  isRegistered :: bool
  isClosed :: bool
  attemptCountSoFar :: nat
  reconnectTimer :: "int option"
  pendings :: "(string, pending_task) js_map"
  pendingByTaskRequestId :: "string list"
  pendingByTaskId :: "(task_id, string) js_map"
  registrationWaiters :: "run_call list"
  outputs :: "runner_output list"
  uuids_drawn :: nat
  randoms_drawn :: nat
  calls_made :: "nat list"

definition emit :: "runner_output list \<Rightarrow> runner \<Rightarrow> runner" where
  "emit xs r = r\<lparr>outputs := outputs r @ xs\<rparr>"

definition isGatewayConnected :: "runner \<Rightarrow> bool" where
  "isGatewayConnected r = isRegistered r"

definition tasksInFlight :: "runner \<Rightarrow> nat" where
  "tasksInFlight r = length (pendingByTaskRequestId r)"

section \<open>Answering one request\<close>

definition update_pending :: "string \<Rightarrow> (pending_task \<Rightarrow> pending_task) \<Rightarrow> runner \<Rightarrow> runner" where
  "update_pending ref f r =
     (case map_get (pendings r) ref of None \<Rightarrow> r | Some p \<Rightarrow> r\<lparr>pendings := map_set (pendings r) ref (f p)\<rparr>)"

text \<open>Whether this call is the one that ends the request, and the runner after it.\<close>

definition ClusterTaskRunner_forget :: "string \<Rightarrow> runner \<Rightarrow> bool \<times> runner" where
  "ClusterTaskRunner_forget ref r =
     (case map_get (pendings r) ref of
        None \<Rightarrow> (False, r)
      | Some p \<Rightarrow>
          if pt_isSettled p then (False, r)
          else
            let r1 = update_pending ref (\<lambda>p. p\<lparr>pt_isSettled := True, pt_timeoutTimer := False\<rparr>) r;
              r2 = r1\<lparr>pendingByTaskRequestId := removeAll (pt_taskRequestId p) (pendingByTaskRequestId r1)\<rparr>
            in (True, case pt_taskId p of
                        None \<Rightarrow> r2
                      | Some tid \<Rightarrow> r2\<lparr>pendingByTaskId := map_delete (pendingByTaskId r2) tid\<rparr>))"

definition call_of :: "string \<Rightarrow> runner \<Rightarrow> nat" where
  "call_of ref r = (case map_get (pendings r) ref of None \<Rightarrow> 0 | Some p \<Rightarrow> call_number (pt_call p))"

definition ClusterTaskRunner_settleWithAnswer :: "string \<Rightarrow> task_answer \<Rightarrow> runner \<Rightarrow> runner" where
  "ClusterTaskRunner_settleWithAnswer ref answer r =
     (let (ended, r1) = ClusterTaskRunner_forget ref r
      in if ended then emit [Answered (call_of ref r1) answer] r1 else r1)"

definition ClusterTaskRunner_settleWithFailure :: "string \<Rightarrow> openai_error \<Rightarrow> runner \<Rightarrow> runner" where
  "ClusterTaskRunner_settleWithFailure ref failure r =
     (let (ended, r1) = ClusterTaskRunner_forget ref r
      in if ended then emit [Refused (call_of ref r1) failure] r1 else r1)"

definition ClusterTaskRunner_failEveryPendingTask :: "openai_error \<Rightarrow> runner \<Rightarrow> runner" where
  "ClusterTaskRunner_failEveryPendingTask failure r =
     foldl (\<lambda>r ref. ClusterTaskRunner_settleWithFailure ref failure r) r (pendingByTaskRequestId r)"

text \<open>The messages among a client's actions are sent; \<open>submit\<close>, \<open>cancel\<close> and \<open>close\<close> call no callback.\<close>

fun sent_action :: "client_action \<Rightarrow> runner_output list" where
  "sent_action (Send m) = [Sent m]"
| "sent_action Close_socket = [Closed_connection]"
| "sent_action _ = []"

definition sent_actions :: "client_action list \<Rightarrow> runner_output list" where
  "sent_actions actions = concat (map sent_action actions)"

definition ClusterTaskRunner_giveUp :: "string \<Rightarrow> openai_error \<Rightarrow> string \<Rightarrow> runner \<Rightarrow> runner" where
  "ClusterTaskRunner_giveUp ref failure cancelReason r =
     (case map_get (pendings r) ref of
        None \<Rightarrow> r
      | Some p \<Rightarrow>
          if pt_isSettled p then r
          else
            let r1 = (case (pt_taskId p, client r) of
                        (Some tid, Some cl) \<Rightarrow> emit (sent_actions (ConsumerClient_cancel tid cancelReason cl)) r
                      | _ \<Rightarrow> r)
            in ClusterTaskRunner_settleWithFailure ref failure r1)"

section \<open>The gateway connection\<close>

definition ClusterTaskRunner_scheduleReconnect :: "runner_env \<Rightarrow> runner \<Rightarrow> runner" where
  "ClusterTaskRunner_scheduleReconnect e r =
     (if isClosed r then r
      else if reconnectTimer r \<noteq> None then r
      else
        let (delayMs, attempts) = ReconnectBackoff_nextDelayMs (randomFraction e (randoms_drawn r)) (attemptCountSoFar r)
        in r\<lparr>reconnectTimer := Some delayMs, attemptCountSoFar := attempts, randoms_drawn := randoms_drawn r + 1\<rparr>)"

text \<open>\<open>opens\<close> says whether \<open>openSocket\<close> gave a socket or threw.\<close>

definition ClusterTaskRunner_connect :: "runner_env \<Rightarrow> bool \<Rightarrow> runner \<Rightarrow> runner" where
  "ClusterTaskRunner_connect e opens r =
     (if isClosed r then r
      else if \<not> opens then ClusterTaskRunner_scheduleReconnect e r
      else r\<lparr>client := Some (ConsumerClient_constructor (opt_name (options e)) (opt_authToken (options e))
             (opt_accountKeyPair (options e)))\<rparr>)"

text \<open>The half of \<open>run\<close> after a registered client was found: submit the task under a fresh identifier.\<close>

definition start_call :: "runner_env \<Rightarrow> run_call \<Rightarrow> consumer_client \<Rightarrow> runner \<Rightarrow> runner" where
  "start_call e c cl r =
     (let ref = requestUUID e (uuids_drawn r);
        pending = \<lparr>pt_call = c, pt_taskRequestId = ref, pt_taskId = None, pt_timeoutTimer = True, pt_isSettled = False\<rparr>;
        r1 = emit [Correlated (call_number c) ref None]
          (r\<lparr>uuids_drawn := uuids_drawn r + 1, pendings := map_set (pendings r) ref pending,
             pendingByTaskRequestId := set_add (pendingByTaskRequestId r) ref\<rparr>)
      in case ConsumerClient_submit (call_input c) ref cl of
           Inr actions \<Rightarrow> emit (sent_actions actions) r1
         | Inl _ \<Rightarrow> ClusterTaskRunner_settleWithFailure ref (OpenaiError_gatewayUnavailable
             ''The connection to the central gateway closed before this request could be submitted.'') r1)"

definition resume_waiter :: "runner_env \<Rightarrow> runner \<Rightarrow> run_call \<Rightarrow> runner" where
  "resume_waiter e r c =
     (case client r of
        None \<Rightarrow> emit [Refused (call_number c) (OpenaiError_gatewayUnavailable
          ''The connection to the central gateway closed as this request was submitted.'')] r
      | Some cl \<Rightarrow> start_call e c cl r)"

definition ClusterTaskRunner_onRegistered :: "runner_env \<Rightarrow> runner \<Rightarrow> runner" where
  "ClusterTaskRunner_onRegistered e r =
     foldl (resume_waiter e)
       (r\<lparr>isRegistered := True, attemptCountSoFar := ReconnectBackoff_reset, registrationWaiters := []\<rparr>)
       (registrationWaiters r)"

definition ClusterTaskRunner_onConnectionLost :: "runner_env \<Rightarrow> runner \<Rightarrow> runner" where
  "ClusterTaskRunner_onConnectionLost e r =
     ClusterTaskRunner_scheduleReconnect e
       (ClusterTaskRunner_failEveryPendingTask (OpenaiError_gatewayUnavailable
          (''The connection to the central gateway was lost while this request was waiting for its task. A '' @
           ''task already under way cannot be picked up again by the next connection, because the '' @
           ''central gateway gives that connection a new device identifier and the task belongs to the '' @
           ''device that has gone.''))
         (r\<lparr>isRegistered := False\<rparr>))"

definition ClusterTaskRunner_rejectRegistrationWaiters :: "openai_error \<Rightarrow> runner \<Rightarrow> runner" where
  "ClusterTaskRunner_rejectRegistrationWaiters failure r =
     emit (map (\<lambda>c. Refused (call_number c) failure) (registrationWaiters r)) (r\<lparr>registrationWaiters := []\<rparr>)"

definition not_connected_message :: "runner_env \<Rightarrow> string" where
  "not_connected_message e =
     ''This server is not connected to the central gateway at '' @ opt_gatewayUrl (options e) @ ''. '' @
     ''Start the gateway, or start this server with a --gateway-url that points at it.''"

section \<open>A request\<close>

definition ClusterTaskRunner_run :: "runner_env \<Rightarrow> run_call \<Rightarrow> runner \<Rightarrow> runner" where
  "ClusterTaskRunner_run e c r0 =
     (let r = r0\<lparr>calls_made := calls_made r0 @ [call_number c]\<rparr>
      in if opt_maximumTasksInFlight (options e) \<le> length (pendingByTaskRequestId r) then
           emit [Refused (call_number c) (OpenaiError_tooManyTasksInFlight (opt_maximumTasksInFlight (options e)))] r
         else (case client r of
             Some cl \<Rightarrow>
               if isRegistered r then start_call e c cl r
               else if isClosed r then
                 emit [Refused (call_number c) (OpenaiError_gatewayUnavailable ''This server is shutting down.'')] r
               else r\<lparr>registrationWaiters := registrationWaiters r @ [c]\<rparr>
           | None \<Rightarrow>
               if isClosed r then
                 emit [Refused (call_number c) (OpenaiError_gatewayUnavailable ''This server is shutting down.'')] r
               else r\<lparr>registrationWaiters := registrationWaiters r @ [c]\<rparr>))"

definition waiter_timeout :: "runner_env \<Rightarrow> nat \<Rightarrow> runner \<Rightarrow> runner" where
  "waiter_timeout e n r =
     (case find (\<lambda>c. call_number c = n) (registrationWaiters r) of
        None \<Rightarrow> r
      | Some c \<Rightarrow> emit [Refused n (OpenaiError_gatewayUnavailable (not_connected_message e))]
          (r\<lparr>registrationWaiters := remove1 c (registrationWaiters r)\<rparr>))"

definition request_timeout :: "runner_env \<Rightarrow> string \<Rightarrow> runner \<Rightarrow> runner" where
  "request_timeout e ref r =
     ClusterTaskRunner_giveUp ref (OpenaiError_requestTimedOut (opt_requestTimeoutMs (options e)))
       ''this server waited as long as it was willing to'' r"

text \<open>The listener is added with the pending request; an abort that comes before it is not heard.\<close>

definition abort_call :: "nat \<Rightarrow> runner \<Rightarrow> runner" where
  "abort_call n r =
     (case find (\<lambda>(_, p). call_number (pt_call p) = n) (pendings r) of
        None \<Rightarrow> r
      | Some (ref, _) \<Rightarrow>
          ClusterTaskRunner_giveUp ref (OpenaiError_taskFailed ''whoever sent the request went away'')
            ''whoever sent the request went away'' r)"

definition ClusterTaskRunner_close :: "runner \<Rightarrow> runner" where
  "ClusterTaskRunner_close r =
     (let failure = OpenaiError_gatewayUnavailable ''This server is shutting down.'';
        r1 = ClusterTaskRunner_failEveryPendingTask failure (r\<lparr>isClosed := True, reconnectTimer := None\<rparr>);
        r2 = ClusterTaskRunner_rejectRegistrationWaiters failure r1;
        r3 = (case client r2 of None \<Rightarrow> r2 | Some cl \<Rightarrow> emit (sent_actions (snd (ConsumerClient_close cl))) r2)
      in r3\<lparr>client := None, isRegistered := False\<rparr>)"

section \<open>Task progress\<close>

fun task_type_name :: "task_type \<Rightarrow> string" where
  "task_type_name task_type_dev_formula = ''task_type_dev_formula''"
| "task_type_name task_type_llm_qwen3_0_6b_sharded = ''task_type_llm_qwen3_0_6b_sharded''"
| "task_type_name task_type_llm_gemma_nano_chrome_full = ''task_type_llm_gemma_nano_chrome_full''"
| "task_type_name task_type_llm_qwen3_5_0_8b_full = ''task_type_llm_qwen3_5_0_8b_full''"
| "task_type_name task_type_llm_llama3_2_1b_full = ''task_type_llm_llama3_2_1b_full''"
| "task_type_name task_type_llm_gemma_4_e2b_full = ''task_type_llm_gemma_4_e2b_full''"

definition ClusterTaskRunner_taskAnswerOf ::
  "js_platform \<Rightarrow> task_input \<Rightarrow> stage_payload option \<Rightarrow> task_answer option" where
  "ClusterTaskRunner_taskAnswerOf p input result =
     (case result of
        None \<Rightarrow> None
      | Some (Number n) \<Rightarrow>
          if taskType input = task_type_dev_formula then
            Some \<lparr>ans_text = Number_text p n, ans_promptTokenCount = None, ans_completionTokenCount = None,
              ans_stopReason = None, ans_toolCalls = None\<rparr>
          else None
      | Some (Llm pl) \<Rightarrow>
          if taskType input = task_type_dev_formula then None
          else (case pl_text pl of
                  None \<Rightarrow> None
                | Some t \<Rightarrow> Some \<lparr>ans_text = t, ans_promptTokenCount = pl_promptTokenCount pl,
                    ans_completionTokenCount = pl_completionTokenCount pl, ans_stopReason = pl_stopReason pl,
                    ans_toolCalls = pl_toolCalls pl\<rparr>))"

definition ClusterTaskRunner_settleFromTaskState ::
  "runner_env \<Rightarrow> string \<Rightarrow> task_state \<Rightarrow> stage_payload option \<Rightarrow> string option \<Rightarrow> runner \<Rightarrow> runner" where
  "ClusterTaskRunner_settleFromTaskState e ref state result error r =
     (case map_get (pendings r) ref of
        None \<Rightarrow> r
      | Some p \<Rightarrow>
          (case state of
             Completed \<Rightarrow>
               (case ClusterTaskRunner_taskAnswerOf (jsPlatform e) (call_input (pt_call p)) result of
                  None \<Rightarrow> ClusterTaskRunner_settleWithFailure ref
                    (OpenaiError_answerUnreadable (task_type_name (taskType (call_input (pt_call p))))) r
                | Some answer \<Rightarrow> ClusterTaskRunner_settleWithAnswer ref answer r)
           | Failed \<Rightarrow>
               let reason = (case error of None \<Rightarrow> ''the central gateway gave no reason'' | Some t \<Rightarrow> t)
               in if reason = ''SUBMISSION_DEADLINE_EXPIRED'' then
                    ClusterTaskRunner_settleWithFailure ref (OpenaiError_noVolunteerAvailable (call_modelId (pt_call p))) r
                  else ClusterTaskRunner_settleWithFailure ref (OpenaiError_taskFailed reason) r
           | Cancelled \<Rightarrow> ClusterTaskRunner_settleWithFailure ref (OpenaiError_taskFailed ''the task was cancelled'') r
           | _ \<Rightarrow> r))"

definition ClusterTaskRunner_onTaskAccepted :: "runner_env \<Rightarrow> task_snapshot \<Rightarrow> runner \<Rightarrow> runner" where
  "ClusterTaskRunner_onTaskAccepted e s r =
     (let ref = snap_taskRequestId s
      in if ref \<notin> set (pendingByTaskRequestId r) then r
         else
           let r1 = update_pending ref (\<lambda>p. p\<lparr>pt_taskId := Some (snap_taskId s)\<rparr>) r;
             r2 = emit [Correlated (call_of ref r1) ref (Some (snap_taskId s))]
               (r1\<lparr>pendingByTaskId := map_set (pendingByTaskId r1) (snap_taskId s) ref\<rparr>)
           in ClusterTaskRunner_settleFromTaskState e ref (snap_state s) (snap_result s) (snap_error s) r2)"

definition ClusterTaskRunner_onTaskUpdated :: "runner_env \<Rightarrow> task_update \<Rightarrow> runner \<Rightarrow> runner" where
  "ClusterTaskRunner_onTaskUpdated e u r =
     (case map_get (pendingByTaskId r) (upd_taskId u) of
        None \<Rightarrow> r
      | Some ref \<Rightarrow>
          let r1 = (case (upd_newText u, map_get (pendings r) ref) of
                      (Some t, Some p) \<Rightarrow>
                        if \<not> pt_isSettled p \<and> call_onPiece (pt_call p) then emit [Piece (call_number (pt_call p)) t] r else r
                    | _ \<Rightarrow> r)
          in ClusterTaskRunner_settleFromTaskState e ref (upd_state u) (upd_result u) (upd_error u) r1)"

fun error_code_name :: "error_code \<Rightarrow> string" where
  "error_code_name INVALID_MESSAGE = ''INVALID_MESSAGE''"
| "error_code_name NOT_REGISTERED = ''NOT_REGISTERED''"
| "error_code_name VALIDATION = ''VALIDATION''"
| "error_code_name AUTHORISATION = ''AUTHORISATION''"
| "error_code_name TASK_NOT_FOUND = ''TASK_NOT_FOUND''"
| "error_code_name TASK_REQUEST_ID_CONFLICT = ''TASK_REQUEST_ID_CONFLICT''"
| "error_code_name ASSIGNMENT_OWNER_MISMATCH = ''ASSIGNMENT_OWNER_MISMATCH''"
| "error_code_name STALE_ASSIGNMENT = ''STALE_ASSIGNMENT''"
| "error_code_name CAPACITY_EXHAUSTED = ''CAPACITY_EXHAUSTED''"
| "error_code_name WORKER_REQUIRED = ''WORKER_REQUIRED''"
| "error_code_name CONSUMER_REQUIRED = ''CONSUMER_REQUIRED''"
| "error_code_name TASK_OWNER_MISMATCH = ''TASK_OWNER_MISMATCH''"
| "error_code_name ASSIGNMENT_STAGE_MISMATCH = ''ASSIGNMENT_STAGE_MISMATCH''"
| "error_code_name ASSIGNMENT_NOT_ACCEPTED = ''ASSIGNMENT_NOT_ACCEPTED''"
| "error_code_name MESSAGE_TOO_LARGE = ''MESSAGE_TOO_LARGE''"
| "error_code_name UNSUPPORTED = ''UNSUPPORTED''"
| "error_code_name NO_COMPATIBLE_WORKER = ''NO_COMPATIBLE_WORKER''"
| "error_code_name AUTHENTICATION_REQUIRED = ''AUTHENTICATION_REQUIRED''"
| "error_code_name RATE_LIMITED = ''RATE_LIMITED''"
| "error_code_name ACCOUNT_NOT_FOUND = ''ACCOUNT_NOT_FOUND''"
| "error_code_name ACCOUNT_CHALLENGE_INVALID = ''ACCOUNT_CHALLENGE_INVALID''"
| "error_code_name ACCOUNT_SIGNATURE_REJECTED = ''ACCOUNT_SIGNATURE_REJECTED''"
| "error_code_name ACCOUNT_REQUIRED = ''ACCOUNT_REQUIRED''"

definition ClusterTaskRunner_missingStageNamesOf :: "protocol_error \<Rightarrow> stage_name list" where
  "ClusterTaskRunner_missingStageNamesOf e = (case error_details e of Some (Missing_stage_names names) \<Rightarrow> names | _ \<Rightarrow> [])"

definition pending_of_error :: "protocol_error \<Rightarrow> runner \<Rightarrow> string option" where
  "pending_of_error e r =
     (case Option.bind (error_taskRequestId e) (\<lambda>ref. if ref \<in> set (pendingByTaskRequestId r) then Some ref else None) of
        Some ref \<Rightarrow> Some ref
      | None \<Rightarrow> Option.bind (error_taskId e) (map_get (pendingByTaskId r)))"

definition ClusterTaskRunner_onGatewayError :: "protocol_error \<Rightarrow> runner \<Rightarrow> runner" where
  "ClusterTaskRunner_onGatewayError e r =
     (case pending_of_error e r of
        None \<Rightarrow> r
      | Some ref \<Rightarrow>
          (case map_get (pendings r) ref of
             None \<Rightarrow> r
           | Some p \<Rightarrow>
               if error_code e = RATE_LIMITED then
                 ClusterTaskRunner_settleWithFailure ref (OpenaiError_gatewayRateLimited (error_message e)) r
               else if error_code e = CAPACITY_EXHAUSTED then
                 ClusterTaskRunner_settleWithFailure ref
                   (OpenaiError_modelHasNoConnectedWorker (call_modelId (pt_call p)) (ClusterTaskRunner_missingStageNamesOf e)) r
               else ClusterTaskRunner_settleWithFailure ref
                 (OpenaiError_taskFailed (error_code_name (error_code e) @ '': '' @ error_message e)) r))"

section \<open>Events\<close>

text \<open>What the runner's callbacks do with the actions of its client; account notes are only logged.\<close>

fun perform :: "runner_env \<Rightarrow> runner \<Rightarrow> client_action \<Rightarrow> runner" where
  "perform e r (Send m) = emit [Sent m] r"
| "perform e r (On_registered _) = ClusterTaskRunner_onRegistered e r"
| "perform e r (On_task_accepted s) = ClusterTaskRunner_onTaskAccepted e s r"
| "perform e r (On_task_updated u) = ClusterTaskRunner_onTaskUpdated e u r"
| "perform e r (On_error err) = ClusterTaskRunner_onGatewayError err r"
| "perform e r (On_connection_change b) = (if b then r else ClusterTaskRunner_onConnectionLost e r)"
| "perform e r Close_socket = emit [Closed_connection] r"
| "perform e r (Sign_challenge _) = r"
| "perform e r (On_account_settled _) = r"
| "perform e r (On_account_note _) = r"
| "perform e r (On_task_snapshot _) = r"

definition perform_all :: "runner_env \<Rightarrow> client_action list \<Rightarrow> runner \<Rightarrow> runner" where
  "perform_all e actions r = foldl (perform e) r actions"

definition with_client :: "runner_env \<Rightarrow> (consumer_client \<Rightarrow> consumer_client \<times> client_action list) \<Rightarrow> runner \<Rightarrow> runner" where
  "with_client e f r =
     (case client r of
        None \<Rightarrow> r
      | Some cl \<Rightarrow> let (cl1, actions) = f cl in perform_all e actions (r\<lparr>client := Some cl1\<rparr>))"

datatype runner_event =
    Run run_call
  | Abort nat
  | Request_timeout string
  | Waiter_timeout nat
  | Reconnect_timer bool
  | Socket_opened
  | Socket_message int received_frame
  | Socket_failed
  | Socket_closed
  | Challenge_signed "string + string"
  | Renewal_timer
  | Close

definition runner_next :: "runner_env \<Rightarrow> runner_event \<Rightarrow> runner \<Rightarrow> runner" where
  "runner_next e ev r =
     (case ev of
        Run c \<Rightarrow> ClusterTaskRunner_run e c r
      | Abort n \<Rightarrow> abort_call n r
      | Request_timeout ref \<Rightarrow> request_timeout e ref r
      | Waiter_timeout n \<Rightarrow> waiter_timeout e n r
      | Reconnect_timer opens \<Rightarrow> ClusterTaskRunner_connect e opens (r\<lparr>reconnectTimer := None\<rparr>)
      | Socket_opened \<Rightarrow> with_client e (\<lambda>cl. (cl, ConsumerClient_onopen cl)) r
      | Socket_message now frame \<Rightarrow> with_client e (ConsumerClient_handleMessage now frame) r
      | Socket_failed \<Rightarrow> with_client e (\<lambda>cl. (cl, ConsumerClient_onerror)) r
      | Socket_closed \<Rightarrow>
          (case client r of
             None \<Rightarrow> ClusterTaskRunner_onConnectionLost e r
           | Some cl \<Rightarrow> with_client e ConsumerClient_onclose r)
      | Challenge_signed s \<Rightarrow> with_client e (ConsumerClient_signed s) r
      | Renewal_timer \<Rightarrow> with_client e (\<lambda>cl. (cl\<lparr>cl_sessionRenewal := None\<rparr>, ConsumerClient_renew cl)) r
      | Close \<Rightarrow> ClusterTaskRunner_close r)"

text \<open>A timer fires only while it is armed, and every call is made once.\<close>

definition can_happen :: "runner_event \<Rightarrow> runner \<Rightarrow> bool" where
  "can_happen ev r \<longleftrightarrow>
     (case ev of
        Run c \<Rightarrow> call_number c \<notin> set (calls_made r)
      | Request_timeout ref \<Rightarrow> (case map_get (pendings r) ref of None \<Rightarrow> False | Some p \<Rightarrow> pt_timeoutTimer p)
      | Waiter_timeout n \<Rightarrow> n \<in> set (map call_number (registrationWaiters r))
      | Reconnect_timer _ \<Rightarrow> reconnectTimer r \<noteq> None
      | Renewal_timer \<Rightarrow> (case client r of None \<Rightarrow> False | Some cl \<Rightarrow> cl_sessionRenewal cl \<noteq> None)
      | _ \<Rightarrow> True)"

inductive runner_step :: "runner_env \<Rightarrow> runner \<Rightarrow> runner_event \<Rightarrow> runner \<Rightarrow> bool" for e where
  step: "can_happen ev r \<Longrightarrow> runner_step e r ev (runner_next e ev r)"

inductive_cases runner_stepE: "runner_step e r ev r'"

definition empty_runner :: runner where
  "empty_runner = \<lparr>client = None, isRegistered = False, isClosed = False, attemptCountSoFar = 0, reconnectTimer = None,
     pendings = [], pendingByTaskRequestId = [], pendingByTaskId = [], registrationWaiters = [], outputs = [],
     uuids_drawn = 0, randoms_drawn = 0, calls_made = []\<rparr>"

definition ClusterTaskRunner_constructor :: "runner_env \<Rightarrow> bool \<Rightarrow> runner" where
  "ClusterTaskRunner_constructor e opens = ClusterTaskRunner_connect e opens empty_runner"

section \<open>Every call is answered once\<close>

fun concerns :: "runner_output \<Rightarrow> nat option" where
  "concerns (Answered n _) = Some n"
| "concerns (Refused n _) = Some n"
| "concerns (Piece n _) = Some n"
| "concerns _ = None"

fun ends :: "runner_output \<Rightarrow> nat list" where
  "ends (Answered n _) = [n]"
| "ends (Refused n _) = [n]"
| "ends _ = []"

definition ended :: "runner_output list \<Rightarrow> nat list" where
  "ended outs = concat (map ends outs)"

text \<open>Nothing concerns a call after what ended it.\<close>

fun orderly_after :: "nat set \<Rightarrow> runner_output list \<Rightarrow> bool" where
  "orderly_after d [] = True"
| "orderly_after d (x # xs) \<longleftrightarrow>
     (case concerns x of None \<Rightarrow> True | Some n \<Rightarrow> n \<notin> d) \<and> orderly_after (set (ends x) \<union> d) xs"

lemma ended_simps [simp]: "ended [] = []" "ended (x # xs) = ends x @ ended xs" "ended (xs @ ys) = ended xs @ ended ys"
  by (simp_all add: ended_def)

lemma orderly_append: "orderly_after d (xs @ ys) \<longleftrightarrow> orderly_after d xs \<and> orderly_after (set (ended xs) \<union> d) ys"
  by (induction xs arbitrary: d) (auto simp: Un_ac)

definition pending_call :: "pending_task \<Rightarrow> nat" where
  "pending_call p = call_number (pt_call p)"

definition flying :: "runner \<Rightarrow> nat \<Rightarrow> bool" where
  "flying r n \<longleftrightarrow> (\<exists>k p. map_get (pendings r) k = Some p \<and> \<not> pt_isSettled p \<and> pending_call p = n)"

text \<open>
  What holds between any two events, with the calls \<open>cs\<close> in transit between being a waiter and being submitted
  or refused.
\<close>

definition pendings_ok :: "runner_env \<Rightarrow> runner \<Rightarrow> bool" where
  "pendings_ok e r \<longleftrightarrow>
     (\<forall>k p. map_get (pendings r) k = Some p \<longrightarrow> pt_taskRequestId p = k \<and> (pt_timeoutTimer p \<longleftrightarrow> \<not> pt_isSettled p)
        \<and> pending_call p \<in> set (calls_made r) \<and> (\<exists>n < uuids_drawn r. k = requestUUID e n))
     \<and> (\<forall>k1 k2 p1 p2. map_get (pendings r) k1 = Some p1 \<longrightarrow> map_get (pendings r) k2 = Some p2
          \<longrightarrow> pending_call p1 = pending_call p2 \<longrightarrow> k1 = k2)"

definition index_ok :: "runner \<Rightarrow> bool" where
  "index_ok r \<longleftrightarrow> distinct (pendingByTaskRequestId r)
     \<and> (\<forall>k. k \<in> set (pendingByTaskRequestId r) \<longleftrightarrow> (\<exists>p. map_get (pendings r) k = Some p \<and> \<not> pt_isSettled p))"

definition waiting_ok :: "run_call list \<Rightarrow> runner \<Rightarrow> bool" where
  "waiting_ok cs r \<longleftrightarrow> distinct (map call_number (cs @ registrationWaiters r))
     \<and> (\<forall>c \<in> set (cs @ registrationWaiters r). call_number c \<in> set (calls_made r)
          \<and> (\<forall>k p. map_get (pendings r) k = Some p \<longrightarrow> pending_call p \<noteq> call_number c))"

definition outputs_ok :: "run_call list \<Rightarrow> runner \<Rightarrow> bool" where
  "outputs_ok cs r \<longleftrightarrow> orderly_after {} (outputs r)
     \<and> (\<forall>n. n \<in> set (ended (outputs r)) \<longleftrightarrow>
          n \<in> set (calls_made r) \<and> n \<notin> call_number ` set (cs @ registrationWaiters r) \<and> \<not> flying r n)"

definition runner_ok :: "runner_env \<Rightarrow> run_call list \<Rightarrow> runner \<Rightarrow> bool" where
  "runner_ok e cs r \<longleftrightarrow> pendings_ok e r \<and> index_ok r \<and> waiting_ok cs r \<and> outputs_ok cs r"

lemmas runner_ok_defs = pendings_ok_def index_ok_def waiting_ok_def outputs_ok_def

text \<open>Outputs that concern no call, and changes of the connection, do not matter.\<close>

definition same_calls :: "runner \<Rightarrow> runner \<Rightarrow> bool" where
  "same_calls r r' \<longleftrightarrow> pendings r' = pendings r \<and> pendingByTaskRequestId r' = pendingByTaskRequestId r
     \<and> registrationWaiters r' = registrationWaiters r \<and> uuids_drawn r' = uuids_drawn r \<and> calls_made r' = calls_made r
     \<and> (\<exists>xs. outputs r' = outputs r @ xs \<and> (\<forall>x \<in> set xs. concerns x = None))"

lemma quiet_outputs: "\<forall>x \<in> set xs. concerns x = None \<Longrightarrow> orderly_after d xs \<and> ended xs = []"
proof (induction xs arbitrary: d)
  case (Cons x xs)
  then show ?case by (cases x) auto
qed simp

lemma ok_same_calls:
  assumes ok: "runner_ok e cs r" and "same_calls r r'"
  shows "runner_ok e cs r'"
proof -
  from assms(2) obtain xs where eqs: "pendings r' = pendings r" "pendingByTaskRequestId r' = pendingByTaskRequestId r"
    "registrationWaiters r' = registrationWaiters r" "uuids_drawn r' = uuids_drawn r" "calls_made r' = calls_made r"
    and outs: "outputs r' = outputs r @ xs" "\<forall>x \<in> set xs. concerns x = None"
    unfolding same_calls_def by blast
  have "flying r' n \<longleftrightarrow> flying r n" for n by (simp add: flying_def eqs)
  moreover have "orderly_after {} (outputs r') = orderly_after {} (outputs r)" "ended (outputs r') = ended (outputs r)"
    using quiet_outputs [OF outs(2)] by (simp_all add: outs(1) orderly_append)
  ultimately show ?thesis using ok by (simp add: runner_ok_def runner_ok_defs eqs)
qed

lemma same_calls_refl [intro, simp]: "same_calls r r"
  by (auto simp: same_calls_def)

lemma same_calls_trans: "same_calls r r' \<Longrightarrow> same_calls r' r'' \<Longrightarrow> same_calls r r''"
  unfolding same_calls_def by force

lemma sent_actions_concern: "x \<in> set (sent_actions actions) \<Longrightarrow> concerns x = None"
proof -
  have "\<forall>x \<in> set (sent_action a). concerns x = None" for a by (cases a) auto
  then show "x \<in> set (sent_actions actions) \<Longrightarrow> concerns x = None" by (auto simp: sent_actions_def)
qed

lemma emit_same_calls: "\<forall>x \<in> set xs. concerns x = None \<Longrightarrow> same_calls r (emit xs r)"
  by (auto simp: same_calls_def emit_def)

text \<open>Ending a pending request.\<close>

definition settled_by :: "string \<Rightarrow> runner_output list \<Rightarrow> runner \<Rightarrow> runner \<Rightarrow> bool" where
  "settled_by ref outs r r' \<longleftrightarrow> (\<exists>p. map_get (pendings r) ref = Some p \<and> \<not> pt_isSettled p \<and> outputs r' = outputs r @ outs
     \<and> pendings r' = map_set (pendings r) ref (p\<lparr>pt_isSettled := True, pt_timeoutTimer := False\<rparr>)
     \<and> pendingByTaskRequestId r' = removeAll (pt_taskRequestId p) (pendingByTaskRequestId r)
     \<and> registrationWaiters r' = registrationWaiters r \<and> uuids_drawn r' = uuids_drawn r \<and> calls_made r' = calls_made r
     \<and> client r' = client r \<and> ended outs = [pending_call p] \<and> (\<forall>d. pending_call p \<notin> d \<longrightarrow> orderly_after d outs))"

lemma ok_settled_by:
  assumes ok: "runner_ok e cs r" and "settled_by ref outs r r'"
  shows "runner_ok e cs r'"
proof -
  from assms(2) obtain p where p: "map_get (pendings r) ref = Some p" "\<not> pt_isSettled p"
    and r': "pendings r' = map_set (pendings r) ref (p\<lparr>pt_isSettled := True, pt_timeoutTimer := False\<rparr>)"
      "pendingByTaskRequestId r' = removeAll (pt_taskRequestId p) (pendingByTaskRequestId r)"
      "registrationWaiters r' = registrationWaiters r" "uuids_drawn r' = uuids_drawn r" "calls_made r' = calls_made r"
      "outputs r' = outputs r @ outs"
    and outs: "ended outs = [pending_call p]" "\<And>d. pending_call p \<notin> d \<Longrightarrow> orderly_after d outs"
    unfolding settled_by_def by blast
  have get: "map_get (pendings r') k =
      (if k = ref then Some (p\<lparr>pt_isSettled := True, pt_timeoutTimer := False\<rparr>) else map_get (pendings r) k)" for k
    by (simp add: r'(1))
  have parts: "pendings_ok e r" "index_ok r" "waiting_ok cs r" "outputs_ok cs r" using ok by (simp_all add: runner_ok_def)
  have ref: "pt_taskRequestId p = ref" and made: "pending_call p \<in> set (calls_made r)"
    using parts(1) p(1) by (simp_all add: pendings_ok_def)
  have pc: "pending_call (p\<lparr>pt_isSettled := True, pt_timeoutTimer := False\<rparr>) = pending_call p"
    by (simp add: pending_call_def)
  have inj: "k = ref" if "map_get (pendings r) k = Some q" "pending_call q = pending_call p" for k q
    using parts(1) p(1) that unfolding pendings_ok_def by blast
  have fly: "flying r' n \<longleftrightarrow> flying r n \<and> n \<noteq> pending_call p" for n
  proof -
    have "map_get (pendings r') k = Some q \<and> \<not> pt_isSettled q \<longleftrightarrow>
        k \<noteq> ref \<and> map_get (pendings r) k = Some q \<and> \<not> pt_isSettled q" for k q
      unfolding get by (cases "k = ref") auto
    then have "flying r' n \<longleftrightarrow> (\<exists>k q. k \<noteq> ref \<and> map_get (pendings r) k = Some q \<and> \<not> pt_isSettled q \<and> pending_call q = n)"
      unfolding flying_def by blast
    also have "\<dots> \<longleftrightarrow> flying r n \<and> n \<noteq> pending_call p"
    proof -
      have "k \<noteq> ref \<longleftrightarrow> pending_call q \<noteq> pending_call p" if "map_get (pendings r) k = Some q" for k q
        using inj [OF that] that p(1) by auto
      then show ?thesis unfolding flying_def by metis
    qed
    finally show ?thesis .
  qed
  have flew: "flying r (pending_call p)" using p by (auto simp: flying_def)
  have "pendings_ok e r'" unfolding pendings_ok_def
  proof (intro conjI allI impI)
    fix k1 k2 p1 p2
    assume "map_get (pendings r') k1 = Some p1" "map_get (pendings r') k2 = Some p2" "pending_call p1 = pending_call p2"
    then show "k1 = k2" using parts(1) p(1) unfolding get pendings_ok_def by (auto simp: pc split: if_splits)
  qed (use parts(1) p ref made in \<open>auto simp: get pc r' pendings_ok_def split: if_splits\<close>)
  moreover have "index_ok r'" using parts(2) unfolding index_ok_def get r'(2) ref by (auto simp: distinct_removeAll)
  moreover have "waiting_ok cs r'" using parts(3) p(1) unfolding waiting_ok_def get r'(3,5) by (auto simp: pc split: if_splits)
  moreover have "outputs_ok cs r'"
  proof -
    have "pending_call p \<notin> call_number ` set (cs @ registrationWaiters r)"
      using parts(3) p(1) unfolding waiting_ok_def by auto
    moreover have "pending_call p \<notin> set (ended (outputs r))" using parts(4) flew unfolding outputs_ok_def by blast
    ultimately show ?thesis
      using parts(4) outs made unfolding outputs_ok_def r'(3,5,6) fly by (auto simp: orderly_append)
  qed
  ultimately show ?thesis by (simp add: runner_ok_def)
qed

lemma settle_failure_ok: "runner_ok e cs r \<Longrightarrow> runner_ok e cs (ClusterTaskRunner_settleWithFailure ref failure r)"
proof -
  assume ok: "runner_ok e cs r"
  show ?thesis
  proof (cases "\<exists>p. map_get (pendings r) ref = Some p \<and> \<not> pt_isSettled p")
    case True
    then obtain p where p: "map_get (pendings r) ref = Some p" "\<not> pt_isSettled p" by blast
    then have "settled_by ref [Refused (pending_call p) failure] r (ClusterTaskRunner_settleWithFailure ref failure r)"
      by (auto simp: settled_by_def ClusterTaskRunner_settleWithFailure_def ClusterTaskRunner_forget_def Let_def
          update_pending_def emit_def call_of_def pending_call_def split: option.split)
    with ok show ?thesis by (rule ok_settled_by)
  next
    case False
    then have "ClusterTaskRunner_forget ref r = (False, r)"
      by (auto simp: ClusterTaskRunner_forget_def split: option.split)
    with ok show ?thesis by (simp add: ClusterTaskRunner_settleWithFailure_def)
  qed
qed

lemma settle_answer_ok: "runner_ok e cs r \<Longrightarrow> runner_ok e cs (ClusterTaskRunner_settleWithAnswer ref answer r)"
proof -
  assume ok: "runner_ok e cs r"
  show ?thesis
  proof (cases "\<exists>p. map_get (pendings r) ref = Some p \<and> \<not> pt_isSettled p")
    case True
    then obtain p where p: "map_get (pendings r) ref = Some p" "\<not> pt_isSettled p" by blast
    then have "settled_by ref [Answered (pending_call p) answer] r (ClusterTaskRunner_settleWithAnswer ref answer r)"
      by (auto simp: settled_by_def ClusterTaskRunner_settleWithAnswer_def ClusterTaskRunner_forget_def Let_def
          update_pending_def emit_def call_of_def pending_call_def split: option.split)
    with ok show ?thesis by (rule ok_settled_by)
  next
    case False
    then have "ClusterTaskRunner_forget ref r = (False, r)"
      by (auto simp: ClusterTaskRunner_forget_def split: option.split)
    with ok show ?thesis by (simp add: ClusterTaskRunner_settleWithAnswer_def)
  qed
qed

lemma fail_every_ok: "runner_ok e cs r \<Longrightarrow> runner_ok e cs (ClusterTaskRunner_failEveryPendingTask failure r)"
proof -
  have "runner_ok e cs r \<Longrightarrow> runner_ok e cs (foldl (\<lambda>r ref. ClusterTaskRunner_settleWithFailure ref failure r) r refs)" for refs r
    by (induction refs arbitrary: r) (simp_all add: settle_failure_ok)
  then show "runner_ok e cs r \<Longrightarrow> runner_ok e cs (ClusterTaskRunner_failEveryPendingTask failure r)"
    by (simp add: ClusterTaskRunner_failEveryPendingTask_def)
qed

lemma give_up_ok: "runner_ok e cs r \<Longrightarrow> runner_ok e cs (ClusterTaskRunner_giveUp ref failure reason r)"
  by (auto simp: ClusterTaskRunner_giveUp_def Let_def intro!: settle_failure_ok
      intro: ok_same_calls [OF _ emit_same_calls] dest: sent_actions_concern split: option.split)

lemma schedule_same_calls: "same_calls r (ClusterTaskRunner_scheduleReconnect e r)"
  by (simp add: ClusterTaskRunner_scheduleReconnect_def same_calls_def case_prod_beta Let_def)

lemma connect_same_calls: "same_calls r (ClusterTaskRunner_connect e opens r)"
  using schedule_same_calls [of r e] by (auto simp: ClusterTaskRunner_connect_def) (simp add: same_calls_def)

text \<open>Changes of one pending request that leave it pending, and pieces of its answer.\<close>

lemma update_pending_ok:
  assumes ok: "runner_ok e cs r"
    and f: "\<And>p. pt_call (f p) = pt_call p \<and> pt_taskRequestId (f p) = pt_taskRequestId p \<and> pt_isSettled (f p) = pt_isSettled p
      \<and> pt_timeoutTimer (f p) = pt_timeoutTimer p"
  shows "runner_ok e cs (update_pending ref f r)"
proof (cases "map_get (pendings r) ref")
  case None
  then show ?thesis using ok by (simp add: update_pending_def)
next
  case (Some p)
  let ?r = "update_pending ref f r"
  have r: "?r = r\<lparr>pendings := map_set (pendings r) ref (f p)\<rparr>" using Some by (simp add: update_pending_def)
  have get: "map_get (pendings ?r) k = (if k = ref then Some (f p) else map_get (pendings r) k)" for k by (simp add: r)
  have fly: "flying ?r n \<longleftrightarrow> flying r n" for n
  proof -
    have "(\<exists>q. map_get (pendings ?r) k = Some q \<and> \<not> pt_isSettled q \<and> pending_call q = n) \<longleftrightarrow>
        (\<exists>q. map_get (pendings r) k = Some q \<and> \<not> pt_isSettled q \<and> pending_call q = n)" for k
      by (cases "k = ref") (simp_all add: get Some f pending_call_def)
    then show ?thesis by (simp add: flying_def)
  qed
  have pc: "pending_call (f p) = pending_call p" using f by (simp add: pending_call_def)
  have parts: "pendings_ok e r" "index_ok r" "waiting_ok cs r" "outputs_ok cs r" using ok by (simp_all add: runner_ok_def)
  have "pendings_ok e ?r" unfolding pendings_ok_def
  proof (intro conjI allI impI)
    fix k1 k2 p1 p2
    assume "map_get (pendings ?r) k1 = Some p1" "map_get (pendings ?r) k2 = Some p2" "pending_call p1 = pending_call p2"
    then show "k1 = k2" using parts(1) Some unfolding get pendings_ok_def by (auto simp: pc split: if_splits)
  next
    fix k q assume "map_get (pendings ?r) k = Some q"
    then obtain q' where q: "map_get (pendings r) k = Some q'" "q = q' \<or> q = f q'"
      using Some by (auto simp: get split: if_splits)
    from q(1) parts(1) have "pt_taskRequestId q' = k \<and> (pt_timeoutTimer q' \<longleftrightarrow> \<not> pt_isSettled q')
        \<and> pending_call q' \<in> set (calls_made r) \<and> (\<exists>n < uuids_drawn r. k = requestUUID e n)"
      unfolding pendings_ok_def by blast
    with q(2) f [of q'] show "pt_taskRequestId q = k" "pt_timeoutTimer q = (\<not> pt_isSettled q)"
      "pending_call q \<in> set (calls_made ?r)" "\<exists>n < uuids_drawn ?r. k = requestUUID e n"
      by (auto simp: r pending_call_def)
  qed
  moreover have "index_ok ?r"
    using parts(2) Some f [of p] unfolding index_ok_def get by (auto simp: r)
  moreover have "waiting_ok cs ?r"
    using parts(3) Some unfolding waiting_ok_def get by (auto simp: pc r split: if_splits)
  moreover have "outputs_ok cs ?r" using parts(4) unfolding outputs_ok_def fly by (simp add: r)
  ultimately show ?thesis by (simp add: runner_ok_def)
qed

lemma piece_ok:
  assumes ok: "runner_ok e cs r" and "map_get (pendings r) ref = Some p" and "\<not> pt_isSettled p"
  shows "runner_ok e cs (emit [Piece (pending_call p) t] r)"
proof -
  have "flying r (pending_call p)" using assms by (auto simp: flying_def)
  then have "pending_call p \<notin> set (ended (outputs r))" using ok by (simp add: runner_ok_def outputs_ok_def)
  with ok show ?thesis
    by (simp add: runner_ok_def runner_ok_defs flying_def emit_def orderly_append)
qed

lemma quiet_fields_ok:
  assumes "runner_ok e cs r" and "pendings r' = pendings r" "pendingByTaskRequestId r' = pendingByTaskRequestId r"
    "registrationWaiters r' = registrationWaiters r" "uuids_drawn r' = uuids_drawn r" "calls_made r' = calls_made r"
    "outputs r' = outputs r @ xs" "\<forall>x \<in> set xs. concerns x = None"
  shows "runner_ok e cs r'"
  using assms by (intro ok_same_calls [of e cs r r']) (auto simp: same_calls_def)

lemma settle_from_state_ok:
  "runner_ok e cs r \<Longrightarrow> runner_ok e cs (ClusterTaskRunner_settleFromTaskState e ref state result err r)"
  by (auto simp: ClusterTaskRunner_settleFromTaskState_def Let_def settle_answer_ok settle_failure_ok
      split: option.split task_state.split)

lemma accepted_ok: "runner_ok e cs r \<Longrightarrow> runner_ok e cs (ClusterTaskRunner_onTaskAccepted e s r)"
proof -
  assume ok: "runner_ok e cs r"
  have "runner_ok e cs (update_pending (snap_taskRequestId s) (\<lambda>p. p\<lparr>pt_taskId := Some (snap_taskId s)\<rparr>) r)"
    by (rule update_pending_ok [OF ok]) simp
  then show ?thesis
    using ok by (auto simp: ClusterTaskRunner_onTaskAccepted_def Let_def emit_def intro!: settle_from_state_ok
        intro: quiet_fields_ok)
qed

lemma updated_ok: "runner_ok e cs r \<Longrightarrow> runner_ok e cs (ClusterTaskRunner_onTaskUpdated e u r)"
  by (auto simp: ClusterTaskRunner_onTaskUpdated_def Let_def pending_call_def [symmetric]
      intro!: settle_from_state_ok piece_ok split: option.split)

lemma gateway_error_ok: "runner_ok e cs r \<Longrightarrow> runner_ok e cs (ClusterTaskRunner_onGatewayError err r)"
  by (auto simp: ClusterTaskRunner_onGatewayError_def settle_failure_ok split: option.split)

lemma connection_lost_ok: "runner_ok e cs r \<Longrightarrow> runner_ok e cs (ClusterTaskRunner_onConnectionLost e r)"
proof -
  assume ok: "runner_ok e cs r"
  have "runner_ok e cs (r\<lparr>isRegistered := False\<rparr>)" using ok by (rule quiet_fields_ok [where xs = "[]"]) simp_all
  then show ?thesis
    by (simp only: ClusterTaskRunner_onConnectionLost_def) (intro ok_same_calls [OF _ schedule_same_calls] fail_every_ok)
qed

text \<open>A call in transit is refused, submitted, or made a waiter.\<close>

lemma refuse_ok:
  assumes ok: "runner_ok e (c # cs) r"
  shows "runner_ok e cs (emit [Refused (call_number c) failure] r)"
proof -
  let ?r = "emit [Refused (call_number c) failure] r"
  have parts: "pendings_ok e r" "index_ok r" "waiting_ok (c # cs) r" "outputs_ok (c # cs) r"
    using ok by (simp_all add: runner_ok_def)
  have n: "call_number c \<in> set (calls_made r)" "\<not> flying r (call_number c)"
    "call_number c \<notin> call_number ` set (cs @ registrationWaiters r)"
    using parts(3) by (auto simp: waiting_ok_def flying_def)
  have fly: "flying ?r m \<longleftrightarrow> flying r m" for m by (simp add: flying_def emit_def)
  have "outputs_ok cs ?r"
    using parts(4) n unfolding outputs_ok_def fly by (auto simp: emit_def orderly_append)
  moreover have "pendings_ok e ?r" "index_ok ?r" "waiting_ok cs ?r"
    using parts(1-3) by (simp_all add: pendings_ok_def index_ok_def waiting_ok_def emit_def)
  ultimately show ?thesis by (simp add: runner_ok_def)
qed

definition new_pending :: "runner_env \<Rightarrow> run_call \<Rightarrow> runner \<Rightarrow> pending_task" where
  "new_pending e c r = \<lparr>pt_call = c, pt_taskRequestId = requestUUID e (uuids_drawn r), pt_taskId = None,
     pt_timeoutTimer = True, pt_isSettled = False\<rparr>"

lemma new_pending_ok:
  assumes ok: "runner_ok e (c # cs) r" and "inj (requestUUID e)"
    and r': "uuids_drawn r' = uuids_drawn r + 1" "pendings r' = map_set (pendings r) (requestUUID e (uuids_drawn r)) (new_pending e c r)"
      "pendingByTaskRequestId r' = set_add (pendingByTaskRequestId r) (requestUUID e (uuids_drawn r))"
      "registrationWaiters r' = registrationWaiters r" "calls_made r' = calls_made r" "outputs r' = outputs r"
  shows "runner_ok e cs r'"
proof -
  let ?ref = "requestUUID e (uuids_drawn r)" and ?p = "new_pending e c r"
  have parts: "pendings_ok e r" "index_ok r" "waiting_ok (c # cs) r" "outputs_ok (c # cs) r"
    using ok by (simp_all add: runner_ok_def)
  have fresh: "map_get (pendings r) ?ref = None"
  proof (rule ccontr)
    assume "map_get (pendings r) ?ref \<noteq> None"
    then obtain m where "m < uuids_drawn r" "?ref = requestUUID e m" using parts(1) unfolding pendings_ok_def by blast
    with \<open>inj (requestUUID e)\<close> show False by (auto dest: injD)
  qed
  have get: "map_get (pendings r') k = (if k = ?ref then Some ?p else map_get (pendings r) k)" for k by (simp add: r'(2))
  have p: "pending_call ?p = call_number c" "\<not> pt_isSettled ?p" "pt_taskRequestId ?p = ?ref" "pt_timeoutTimer ?p"
    by (simp_all add: new_pending_def pending_call_def)
  have n: "call_number c \<in> set (calls_made r)" "call_number c \<notin> call_number ` set (cs @ registrationWaiters r)"
    and other: "\<And>k q. map_get (pendings r) k = Some q \<Longrightarrow> pending_call q \<noteq> call_number c"
    using parts(3) by (auto simp: waiting_ok_def)
  have fly: "flying r' m \<longleftrightarrow> flying r m \<or> m = call_number c" for m
  proof -
    have "(\<exists>q. map_get (pendings r') k = Some q \<and> \<not> pt_isSettled q \<and> pending_call q = m) \<longleftrightarrow>
        (\<exists>q. map_get (pendings r) k = Some q \<and> \<not> pt_isSettled q \<and> pending_call q = m) \<or> (k = ?ref \<and> m = call_number c)" for k
      by (cases "k = ?ref") (auto simp: get fresh p)
    then show ?thesis by (auto simp: flying_def)
  qed
  have "pendings_ok e r'" unfolding pendings_ok_def
  proof (intro conjI allI impI)
    fix k1 k2 p1 p2
    assume "map_get (pendings r') k1 = Some p1" "map_get (pendings r') k2 = Some p2" "pending_call p1 = pending_call p2"
    then show "k1 = k2" using parts(1) other [of k1 p1] other [of k2 p2]
      unfolding get pendings_ok_def by (auto simp: p split: if_splits)
  next
    fix k q assume q: "map_get (pendings r') k = Some q"
    show "\<exists>m < uuids_drawn r'. k = requestUUID e m"
    proof (cases "k = ?ref")
      case False
      with q have "map_get (pendings r) k = Some q" by (simp add: get)
      with parts(1) obtain m where "m < uuids_drawn r" "k = requestUUID e m" unfolding pendings_ok_def by blast
      then show ?thesis by (auto simp: r'(1) intro: less_SucI)
    qed (auto simp: r'(1))
  qed (use parts(1) p n(1) in \<open>auto simp: get r' pendings_ok_def split: if_splits\<close>)
  moreover have "index_ok r'" using parts(2) p fresh unfolding index_ok_def get r'(3) by (auto simp: distinct_set_add)
  moreover have "waiting_ok cs r'" using parts(3) n unfolding waiting_ok_def get r'(4,5) by (auto simp: p split: if_splits)
  moreover have "outputs_ok cs r'" using parts(4) n unfolding outputs_ok_def fly r'(4,5,6) by auto
  ultimately show ?thesis by (simp add: runner_ok_def)
qed

lemma start_call_ok:
  assumes "runner_ok e (c # cs) r" and "inj (requestUUID e)"
  shows "runner_ok e cs (start_call e c cl r)"
proof -
  let ?ref = "requestUUID e (uuids_drawn r)"
  let ?r1 = "emit [Correlated (call_number c) ?ref None]
    (r\<lparr>uuids_drawn := uuids_drawn r + 1, pendings := map_set (pendings r) ?ref (new_pending e c r),
       pendingByTaskRequestId := set_add (pendingByTaskRequestId r) ?ref\<rparr>)"
  have "runner_ok e cs ?r1"
    by (rule ok_same_calls [OF new_pending_ok [OF assms] emit_same_calls]) simp_all
  then have "runner_ok e cs (case ConsumerClient_submit (call_input c) ?ref cl of
      Inr actions \<Rightarrow> emit (sent_actions actions) ?r1
    | Inl _ \<Rightarrow> ClusterTaskRunner_settleWithFailure ?ref (OpenaiError_gatewayUnavailable
        ''The connection to the central gateway closed before this request could be submitted.'') ?r1)"
    by (auto intro: settle_failure_ok ok_same_calls [OF _ emit_same_calls] dest: sent_actions_concern split: sum.split)
  then show ?thesis by (simp only: start_call_def Let_def new_pending_def)
qed

lemma resume_ok: "runner_ok e (c # cs) r \<Longrightarrow> inj (requestUUID e) \<Longrightarrow> runner_ok e cs (resume_waiter e r c)"
  by (auto simp: resume_waiter_def intro: refuse_ok start_call_ok split: option.split)

lemma registered_ok:
  assumes "runner_ok e [] r" and "inj (requestUUID e)"
  shows "runner_ok e [] (ClusterTaskRunner_onRegistered e r)"
proof -
  have resume: "runner_ok e cs r \<Longrightarrow> runner_ok e [] (foldl (resume_waiter e) r cs)" for cs r
    by (induction cs arbitrary: r) (simp_all add: resume_ok assms(2))
  have "runner_ok e (registrationWaiters r)
      (r\<lparr>isRegistered := True, attemptCountSoFar := ReconnectBackoff_reset, registrationWaiters := []\<rparr>)"
    using assms(1) by (simp add: runner_ok_def runner_ok_defs flying_def)
  from resume [OF this] show ?thesis by (simp add: ClusterTaskRunner_onRegistered_def)
qed

lemma reject_waiters_ok:
  assumes "runner_ok e [] r"
  shows "runner_ok e [] (ClusterTaskRunner_rejectRegistrationWaiters failure r)"
proof -
  have reject: "runner_ok e cs r \<Longrightarrow> runner_ok e [] (emit (map (\<lambda>c. Refused (call_number c) failure) cs) r)" for cs r
  proof (induction cs arbitrary: r)
    case (Cons c cs)
    from Cons.IH [OF refuse_ok [OF Cons.prems, of failure]] show ?case by (simp add: emit_def)
  qed (simp add: emit_def)
  have "runner_ok e (registrationWaiters r) (r\<lparr>registrationWaiters := []\<rparr>)"
    using assms by (simp add: runner_ok_def runner_ok_defs flying_def)
  from reject [OF this] show ?thesis by (simp add: ClusterTaskRunner_rejectRegistrationWaiters_def)
qed

lemma close_ok:
  assumes "runner_ok e [] r"
  shows "runner_ok e [] (ClusterTaskRunner_close r)"
proof -
  let ?f = "OpenaiError_gatewayUnavailable ''This server is shutting down.''"
  let ?r = "ClusterTaskRunner_rejectRegistrationWaiters ?f
    (ClusterTaskRunner_failEveryPendingTask ?f (r\<lparr>isClosed := True, reconnectTimer := None\<rparr>))"
  have "runner_ok e [] (r\<lparr>isClosed := True, reconnectTimer := None\<rparr>)"
    using assms by (rule quiet_fields_ok [where xs = "[]"]) simp_all
  then have "runner_ok e [] ?r" by (intro reject_waiters_ok fail_every_ok)
  then have "runner_ok e [] (case client ?r of None \<Rightarrow> ?r | Some cl \<Rightarrow> emit (sent_actions (snd (ConsumerClient_close cl))) ?r)"
    by (auto intro: ok_same_calls [OF _ emit_same_calls] dest: sent_actions_concern split: option.split)
  then show ?thesis unfolding ClusterTaskRunner_close_def Let_def by (rule quiet_fields_ok [where xs = "[]"]) simp_all
qed

lemma run_ok:
  assumes ok: "runner_ok e [] r" and "inj (requestUUID e)" and fresh: "call_number c \<notin> set (calls_made r)"
  shows "runner_ok e [] (ClusterTaskRunner_run e c r)"
proof -
  let ?r = "r\<lparr>calls_made := calls_made r @ [call_number c]\<rparr>"
  have parts: "pendings_ok e r" "index_ok r" "waiting_ok [] r" "outputs_ok [] r" using ok by (simp_all add: runner_ok_def)
  have fly: "flying ?r n \<longleftrightarrow> flying r n" for n by (simp add: flying_def)
  have new: "map_get (pendings r) k = Some p \<Longrightarrow> pending_call p \<noteq> call_number c" for k p
    using parts(1) fresh unfolding pendings_ok_def by metis
  then have "\<not> flying r (call_number c)" by (auto simp: flying_def)
  then have "outputs_ok [c] ?r"
    using parts(4) fresh unfolding outputs_ok_def fly by auto
  moreover have "waiting_ok [c] ?r" using parts(3) fresh new unfolding waiting_ok_def by auto
  moreover have "pendings_ok e ?r" "index_ok ?r" using parts(1,2) by (auto simp: pendings_ok_def index_ok_def)
  ultimately have c: "runner_ok e [c] ?r" by (simp add: runner_ok_def)
  then have "runner_ok e [] (?r\<lparr>registrationWaiters := registrationWaiters ?r @ [c]\<rparr>)"
    by (auto simp: runner_ok_def runner_ok_defs flying_def)
  with refuse_ok [OF c] start_call_ok [OF c assms(2)] show ?thesis
    by (simp add: ClusterTaskRunner_run_def Let_def split: option.split)
qed

lemma waiter_timeout_ok:
  assumes ok: "runner_ok e [] r"
  shows "runner_ok e [] (waiter_timeout e n r)"
proof (cases "find (\<lambda>c. call_number c = n) (registrationWaiters r)")
  case None
  with ok show ?thesis by (simp add: waiter_timeout_def)
next
  case (Some c)
  then have c: "c \<in> set (registrationWaiters r)" "call_number c = n" by (auto simp: find_Some_iff)
  have dist: "distinct (map call_number (registrationWaiters r))" using ok by (simp add: runner_ok_def waiting_ok_def)
  then have "distinct (registrationWaiters r)" by (simp add: distinct_map)
  then have set: "set (remove1 c (registrationWaiters r)) = set (registrationWaiters r) - {c}" by simp
  have "distinct (map call_number (c # remove1 c (registrationWaiters r)))"
    using dist c \<open>distinct (registrationWaiters r)\<close> by (auto simp: distinct_map inj_on_def)
  moreover have "insert c (set (remove1 c (registrationWaiters r))) = set (registrationWaiters r)" using c set by auto
  ultimately have "runner_ok e [c] (r\<lparr>registrationWaiters := remove1 c (registrationWaiters r)\<rparr>)"
    using ok by (simp add: runner_ok_def runner_ok_defs flying_def del: set_remove1_eq)
  from refuse_ok [OF this] show ?thesis using Some c(2) by (simp add: waiter_timeout_def)
qed

lemma perform_ok: "runner_ok e [] r \<Longrightarrow> inj (requestUUID e) \<Longrightarrow> runner_ok e [] (perform e r a)"
  by (cases a) (auto simp: registered_ok accepted_ok updated_ok gateway_error_ok connection_lost_ok
      intro: ok_same_calls [OF _ emit_same_calls])

lemma with_client_ok:
  assumes "runner_ok e [] r" and "inj (requestUUID e)"
  shows "runner_ok e [] (with_client e f r)"
proof -
  have all: "runner_ok e [] r \<Longrightarrow> runner_ok e [] (perform_all e actions r)" for actions r
    unfolding perform_all_def by (induction actions arbitrary: r) (simp_all add: perform_ok assms(2))
  have "runner_ok e [] (r\<lparr>client := Some cl\<rparr>)" for cl
    using assms(1) by (rule quiet_fields_ok [where xs = "[]"]) simp_all
  with assms(1) all show ?thesis by (simp add: with_client_def case_prod_beta Let_def split: option.split)
qed

lemma abort_ok: "runner_ok e [] r \<Longrightarrow> runner_ok e [] (abort_call n r)"
  by (auto simp: abort_call_def give_up_ok split: option.split)

lemma step_ok:
  assumes "runner_ok e [] r" and "runner_step e r ev r'" and "inj (requestUUID e)"
  shows "runner_ok e [] r'"
proof (cases rule: runner_stepE [OF assms(2), case_names step])
  case step
  have timer: "runner_ok e [] (r\<lparr>reconnectTimer := None\<rparr>)"
    using assms(1) by (rule quiet_fields_ok [where xs = "[]"]) simp_all
  show ?thesis
    unfolding step(1)
    using step(2) assms(1,3)
    by (cases ev) (auto simp: runner_next_def can_happen_def request_timeout_def run_ok abort_ok give_up_ok waiter_timeout_ok
        with_client_ok connection_lost_ok close_ok ok_same_calls [OF timer connect_same_calls] split: option.split)
qed

lemma constructed_ok: "runner_ok e [] (ClusterTaskRunner_constructor e opens)"
proof -
  have "runner_ok e [] empty_runner" by (simp add: runner_ok_def runner_ok_defs flying_def empty_runner_def)
  from ok_same_calls [OF this connect_same_calls] show ?thesis by (simp add: ClusterTaskRunner_constructor_def)
qed

interpretation runner: invariant_machine "\<lambda>r. \<exists>opens. r = ClusterTaskRunner_constructor e opens"
  "\<lambda>r ev r'. inj (requestUUID e) \<and> runner_step e r ev r'" "runner_ok e []" for e
  by unfold_locales (auto simp: constructed_ok intro: step_ok)

section \<open>Nobody is left waiting\<close>

lemma settle_removes:
  assumes "index_ok r" and "pendings_ok e r" and "ref \<in> set (pendingByTaskRequestId r)"
  shows "pendingByTaskRequestId (ClusterTaskRunner_settleWithFailure ref failure r) = removeAll ref (pendingByTaskRequestId r)"
proof -
  from assms(1,3) obtain p where p: "map_get (pendings r) ref = Some p" "\<not> pt_isSettled p"
    unfolding index_ok_def by blast
  moreover from assms(2) p(1) have "pt_taskRequestId p = ref" unfolding pendings_ok_def by blast
  ultimately show ?thesis
    by (simp add: ClusterTaskRunner_settleWithFailure_def ClusterTaskRunner_forget_def Let_def update_pending_def emit_def
        split: option.split)
qed

lemma fail_every_empties:
  assumes "runner_ok e cs r"
  shows "pendingByTaskRequestId (ClusterTaskRunner_failEveryPendingTask failure r) = []"
proof -
  have "runner_ok e cs r \<Longrightarrow> set (pendingByTaskRequestId r) \<subseteq> set refs \<Longrightarrow> set refs \<subseteq> set (pendingByTaskRequestId r) \<Longrightarrow>
      distinct refs \<Longrightarrow>
      pendingByTaskRequestId (foldl (\<lambda>r ref. ClusterTaskRunner_settleWithFailure ref failure r) r refs) = []" for refs r
  proof (induction refs arbitrary: r)
    case (Cons ref refs)
    have "pendingByTaskRequestId (ClusterTaskRunner_settleWithFailure ref failure r) = removeAll ref (pendingByTaskRequestId r)"
      using Cons.prems by (intro settle_removes [of r e]) (simp_all add: runner_ok_def)
    moreover have "runner_ok e cs (ClusterTaskRunner_settleWithFailure ref failure r)"
      using Cons.prems(1) by (rule settle_failure_ok)
    ultimately show ?case using Cons.IH [of "ClusterTaskRunner_settleWithFailure ref failure r"] Cons.prems by auto
  qed simp
  from this [OF assms, of "pendingByTaskRequestId r"] assms show ?thesis
    by (simp add: ClusterTaskRunner_failEveryPendingTask_def runner_ok_def index_ok_def)
qed

lemma not_flying: "runner_ok e cs r \<Longrightarrow> pendingByTaskRequestId r = [] \<Longrightarrow> \<not> flying r n"
  unfolding runner_ok_def index_ok_def flying_def by auto

lemma closed_socket_empties:
  assumes "runner_ok e [] r"
  shows "pendingByTaskRequestId (runner_next e Socket_closed r) = []"
proof -
  have lost: "pendingByTaskRequestId (ClusterTaskRunner_onConnectionLost e r) = []" if "runner_ok e [] r" for r
  proof -
    have "runner_ok e [] (r\<lparr>isRegistered := False\<rparr>)" using that by (rule quiet_fields_ok [where xs = "[]"]) simp_all
    from fail_every_empties [OF this] show ?thesis
      using schedule_same_calls unfolding ClusterTaskRunner_onConnectionLost_def same_calls_def by simp
  qed
  have "runner_ok e [] (r\<lparr>client := Some cl\<rparr>)" for cl
    using assms by (rule quiet_fields_ok [where xs = "[]"]) simp_all
  with lost assms show ?thesis
    by (simp add: runner_next_def with_client_def ConsumerClient_onclose_def perform_all_def split: option.split)
qed

lemma settle_keeps [simp]:
  "calls_made (ClusterTaskRunner_settleWithFailure ref failure r) = calls_made r"
  by (simp add: ClusterTaskRunner_settleWithFailure_def ClusterTaskRunner_forget_def Let_def update_pending_def emit_def
      split: option.split)

lemma fail_every_keeps [simp]: "calls_made (ClusterTaskRunner_failEveryPendingTask failure r) = calls_made r"
proof -
  have "calls_made (foldl (\<lambda>r ref. ClusterTaskRunner_settleWithFailure ref failure r) r refs) = calls_made r" for refs
    by (induction refs arbitrary: r) simp_all
  then show ?thesis by (simp add: ClusterTaskRunner_failEveryPendingTask_def)
qed

lemma closed_socket_keeps: "calls_made (runner_next e Socket_closed r) = calls_made r"
proof -
  have "calls_made (ClusterTaskRunner_onConnectionLost e r) = calls_made r" for r
    using schedule_same_calls unfolding ClusterTaskRunner_onConnectionLost_def same_calls_def by simp
  then show ?thesis
    by (simp add: runner_next_def with_client_def ConsumerClient_onclose_def perform_all_def split: option.split)
qed

lemma close_leaves_nothing:
  assumes "runner_ok e [] r"
  shows "calls_made (runner_next e Close r) = calls_made r" "registrationWaiters (runner_next e Close r) = []"
    "pendingByTaskRequestId (runner_next e Close r) = []"
proof -
  have "runner_ok e [] (r\<lparr>isClosed := True, reconnectTimer := None\<rparr>)"
    using assms by (rule quiet_fields_ok [where xs = "[]"]) simp_all
  note empty = fail_every_empties [OF this]
  show "calls_made (runner_next e Close r) = calls_made r" "registrationWaiters (runner_next e Close r) = []"
    "pendingByTaskRequestId (runner_next e Close r) = []"
    by (simp_all add: runner_next_def ClusterTaskRunner_close_def Let_def ClusterTaskRunner_rejectRegistrationWaiters_def
        emit_def empty split: option.split)
qed

section \<open>A run to look at\<close>

fun runner_play :: "runner_env \<Rightarrow> runner_event list \<Rightarrow> runner \<Rightarrow> runner option" where
  "runner_play e [] r = Some r"
| "runner_play e (ev # evs) r = (if can_happen ev r then runner_play e evs (runner_next e ev r) else None)"

lemma runner_play_run: "runner_play e evs r = Some r' \<Longrightarrow> run (runner_step e) r evs r'"
  by (induction evs arbitrary: r) (auto split: if_splits intro: run_cons runner_step.step)

definition one_at_a_time :: runner_env where
  "one_at_a_time = \<lparr>
     options = \<lparr>opt_gatewayUrl = ''ws'', opt_authToken = ''t'', opt_name = ''c'', opt_accountKeyPair = None,
       opt_requestTimeoutMs = 9, opt_maximumTasksInFlight = 1\<rparr>,
     jsPlatform = \<lparr>Number_of = (\<lambda>_. NaN), Number_text = (\<lambda>_. ''1''), JSON_parse = (\<lambda>_. None)\<rparr>,
     requestUUID = (\<lambda>n. replicate n (CHR ''u'')), randomFraction = (\<lambda>_. 0)\<rparr>"

definition formula_call :: "nat \<Rightarrow> run_call" where
  "formula_call n = \<lparr>call_number = n, call_input = Dev_formula 1 None, call_modelId = ''m'', call_onPiece = False\<rparr>"

text \<open>Two calls come while the connection is being opened, and whoever made the second one leaves.\<close>

definition hurried :: "runner_event list" where
  "hurried = [Socket_opened, Run (formula_call 1), Run (formula_call 2), Abort 2,
     Socket_message 0 (Message (DeviceAuthenticated ''s'' 9000)), Socket_message 1 (Message (DeviceRegistered ''d''))]"

definition hurried_runner :: runner where
  "hurried_runner = the (runner_play one_at_a_time hurried (ClusterTaskRunner_constructor one_at_a_time True))"

lemma hurried_played:
  "case_option False
     (\<lambda>r. tasksInFlight r = 2 \<and> isGatewayConnected r \<and> calls_made r = [1, 2] \<and> ended (outputs r) = []
        \<and> Sent (Task_submit ''u'' (Dev_formula 1 None) None None) \<in> set (outputs r))
     (runner_play one_at_a_time hurried (ClusterTaskRunner_constructor one_at_a_time True))"
  by code_simp

lemma hurried_runner: "run (runner_step one_at_a_time) (ClusterTaskRunner_constructor one_at_a_time True) hurried hurried_runner"
  and hurried_state: "tasksInFlight hurried_runner = 2" "calls_made hurried_runner = [1, 2]" "ended (outputs hurried_runner) = []"
    "Sent (Task_submit ''u'' (Dev_formula 1 None) None None) \<in> set (outputs hurried_runner)"
  using hurried_played unfolding hurried_runner_def by (auto split: option.splits intro: runner_play_run)

lemma one_at_a_time_inj: "inj (requestUUID one_at_a_time)"
  by (rule injI) (auto simp: one_at_a_time_def dest: arg_cong [of _ _ length])

section \<open>Properties\<close>

definition awaits_connection :: "runner \<Rightarrow> nat \<Rightarrow> bool" where
  "awaits_connection r n \<longleftrightarrow> n \<in> call_number ` set (registrationWaiters r)"

definition timed :: "runner \<Rightarrow> nat \<Rightarrow> bool" where
  "timed r n \<longleftrightarrow> (\<exists>ref p. map_get (pendings r) ref = Some p \<and> pt_timeoutTimer p \<and> call_number (pt_call p) = n)"

lemma timed_flying: "runner_ok e cs r \<Longrightarrow> timed r n \<longleftrightarrow> flying r n"
  unfolding timed_def flying_def runner_ok_def pendings_ok_def pending_call_def by blast

lemma orderly_distinct: "orderly_after d xs \<Longrightarrow> distinct (ended xs) \<and> set (ended xs) \<inter> d = {}"
proof (induction xs arbitrary: d)
  case (Cons x xs)
  then show ?case by (cases x) auto
qed simp

lemma run_runner_ok:
  assumes "run (runner_step e) (ClusterTaskRunner_constructor e opens) evs r" and "inj (requestUUID e)"
  shows "runner_ok e [] r"
proof -
  have "run (runner_step e) s evs t \<Longrightarrow> run (\<lambda>r ev r'. inj (requestUUID e) \<and> runner_step e r ev r') s evs t" for s t
    by (induction rule: run.induct) (auto intro: run.intros assms(2))
  from runner.inv_reachable [OF _ this [OF assms(1)]] show ?thesis by blast
qed

text \<open>
  C16: Whatever the gateway, the network and the callers do, every call of \<open>run\<close> ends once and only once: at any moment
  it has been answered or refused exactly once, or it waits for a connection, or its request is pending under a timer
  that is armed, and only one of the three; and no piece of an answer is reported after its call has ended.
\<close>

theorem calls_are_answered_once:
  assumes "run (runner_step e) (ClusterTaskRunner_constructor e opens) evs r" and "inj (requestUUID e)"
  shows "distinct (ended (outputs r))
    \<and> (\<forall>n \<in> set (calls_made r). (n \<in> set (ended (outputs r))) \<noteq> (awaits_connection r n \<or> timed r n)
         \<and> \<not> (awaits_connection r n \<and> timed r n))
    \<and> (\<forall>xs n t ys. outputs r = xs @ Piece n t # ys \<longrightarrow> n \<notin> set (ended xs))"
proof -
  from assms have ok: "runner_ok e [] r" by (rule run_runner_ok)
  then have outs: "outputs_ok [] r" and wait: "waiting_ok [] r" by (simp_all add: runner_ok_def)
  then have order: "orderly_after {} (outputs r)" by (simp add: outputs_ok_def)
  have "(n \<in> set (ended (outputs r))) \<noteq> (awaits_connection r n \<or> timed r n)" if "n \<in> set (calls_made r)" for n
    using outs that unfolding outputs_ok_def awaits_connection_def timed_flying [OF ok] by auto
  moreover have "\<not> (awaits_connection r n \<and> timed r n)" for n
    using wait unfolding awaits_connection_def timed_def waiting_ok_def pending_call_def by auto
  moreover have "n \<notin> set (ended xs)" if "outputs r = xs @ Piece n t # ys" for xs n t ys
    using order that by (simp add: orderly_append)
  ultimately show ?thesis using orderly_distinct [OF order] by blast
qed

theorem calls_are_answered_once_witness:
  "(awaits_connection hurried_runner 1 \<or> timed hurried_runner 1) \<and> (awaits_connection hurried_runner 2 \<or> timed hurried_runner 2)"
  using calls_are_answered_once [OF hurried_runner one_at_a_time_inj] hurried_state by simp




end
