(* ===== verification/Openai_Api.thy ===== *)
theory Openai_Api
  imports Cluster_Task_Runner
begin

text \<open>
  From a request of the OpenAI interfaces to a task of the cluster, and from an answer back
  (\<open>src/packages/consumer_openai/src/api\<close>), with the tables of what a task type honours
  (\<open>protocol/src/task/generation_control_support.ts\<close>, \<open>structured_output_support.ts\<close>) and the checks of
  \<open>consumer_cli/src/libs/task_input_factory.ts\<close>. A request is a record as its schema reads it, \<open>null\<close> and an absent
  field both \<open>None\<close>. A model is named by the task type, without its leading \<open>task_type_\<close>. Random identifiers are
  drawn from a stream at a position. Whether the constraint package can compile a schema is a parameter.
\<close>

section \<open>What a task type honours\<close>

datatype generation_control =
  Control_temperature | Control_topP | Control_maximumOutputTokenCount | Control_stopSequences | Control_randomSeed
| Control_reasoningEffort

fun controlsByTaskType :: "task_type \<Rightarrow> generation_control list" where
  "controlsByTaskType task_type_dev_formula = []"
| "controlsByTaskType task_type_llm_qwen3_0_6b_sharded =
     [Control_temperature, Control_topP, Control_maximumOutputTokenCount, Control_stopSequences, Control_randomSeed]"
| "controlsByTaskType task_type_llm_gemma_nano_chrome_full = []"
| "controlsByTaskType task_type_llm_qwen3_5_0_8b_full =
     [Control_temperature, Control_maximumOutputTokenCount, Control_stopSequences, Control_reasoningEffort]"
| "controlsByTaskType task_type_llm_llama3_2_1b_full =
     [Control_temperature, Control_maximumOutputTokenCount, Control_stopSequences]"
| "controlsByTaskType task_type_llm_gemma_4_e2b_full =
     [Control_temperature, Control_maximumOutputTokenCount, Control_stopSequences, Control_reasoningEffort]"

definition GenerationControlSupport_honours :: "task_type \<Rightarrow> generation_control \<Rightarrow> bool" where
  "GenerationControlSupport_honours t c \<longleftrightarrow> c \<in> set (controlsByTaskType t)"

definition GenerationControlSupport_honouredControls :: "task_type \<Rightarrow> generation_control list" where
  "GenerationControlSupport_honouredControls t = controlsByTaskType t"

fun formatsByTaskType :: "task_type \<Rightarrow> string list" where
  "formatsByTaskType task_type_dev_formula = []"
| "formatsByTaskType task_type_llm_qwen3_0_6b_sharded = []"
| "formatsByTaskType task_type_llm_gemma_nano_chrome_full = []"
| "formatsByTaskType task_type_llm_qwen3_5_0_8b_full = []"
| "formatsByTaskType task_type_llm_llama3_2_1b_full = []"
| "formatsByTaskType task_type_llm_gemma_4_e2b_full = [''json_object'', ''json_schema'']"

definition StructuredOutputSupport_honours :: "task_type \<Rightarrow> string \<Rightarrow> bool" where
  "StructuredOutputSupport_honours t format \<longleftrightarrow> format \<in> set (formatsByTaskType t)"

definition StructuredOutputSupport_honouredFormats :: "task_type \<Rightarrow> string list" where
  "StructuredOutputSupport_honouredFormats t = formatsByTaskType t"

section \<open>Task inputs\<close>

definition type_name :: "task_type \<Rightarrow> string" where
  "type_name t = drop (length ''task_type_'') (task_type_name t)"

definition taskTypes :: "task_type list" where
  "taskTypes = [task_type_dev_formula, task_type_llm_qwen3_0_6b_sharded, task_type_llm_gemma_nano_chrome_full,
     task_type_llm_qwen3_5_0_8b_full, task_type_llm_llama3_2_1b_full, task_type_llm_gemma_4_e2b_full]"

definition taskTypeNames :: "string list" where
  "taskTypeNames = map type_name taskTypes"

definition TaskInputFactory_isTaskTypeName :: "string \<Rightarrow> bool" where
  "TaskInputFactory_isTaskTypeName v \<longleftrightarrow> v \<in> set taskTypeNames"

definition taskTypesAcceptingHistory :: "task_type list" where
  "taskTypesAcceptingHistory =
     [task_type_llm_qwen3_5_0_8b_full, task_type_llm_llama3_2_1b_full, task_type_llm_gemma_4_e2b_full]"

definition TaskInputFactory_acceptsHistory :: "task_type \<Rightarrow> bool" where
  "TaskInputFactory_acceptsHistory t \<longleftrightarrow> t \<in> set taskTypesAcceptingHistory"

definition taskTypesAcceptingTools :: "task_type list" where
  "taskTypesAcceptingTools = [task_type_llm_qwen3_5_0_8b_full, task_type_llm_gemma_4_e2b_full]"

definition TaskInputFactory_acceptsTools :: "task_type \<Rightarrow> bool" where
  "TaskInputFactory_acceptsTools t \<longleftrightarrow> t \<in> set taskTypesAcceptingTools"

text \<open>What is submitted with a task: nothing, a text or a history.\<close>

definition TaskInputFactory_parseFormulaInput :: "js_platform \<Rightarrow> string option \<Rightarrow> string + rat" where
  "TaskInputFactory_parseFormulaInput p v =
     (case (case v of None \<Rightarrow> NaN | Some s \<Rightarrow> Number_of p s) of
        Finite n \<Rightarrow> Inr n
      | _ \<Rightarrow> Inl ''Input must be a finite number'')"

definition TaskInputFactory_parseLlmInput :: "string option \<Rightarrow> string + string" where
  "TaskInputFactory_parseLlmInput v =
     (case v of
        None \<Rightarrow> Inl ''Input must be a non-empty string''
      | Some s \<Rightarrow> if trim s = [] then Inl ''Input must be a non-empty string'' else Inr s)"

definition TaskInputFactory_requireString :: "task_type \<Rightarrow> llm_task_value option \<Rightarrow> string + string option" where
  "TaskInputFactory_requireString t v =
     (case v of
        None \<Rightarrow> Inr None
      | Some (Prompt s) \<Rightarrow> Inr (Some s)
      | Some (History _) \<Rightarrow> Inl (''The task type '' @ type_name t @ '' takes a single prompt, not a whole history.''))"

definition TaskInputFactory_parseLlmOrHistoryInput :: "llm_task_value option \<Rightarrow> string + llm_task_value" where
  "TaskInputFactory_parseLlmOrHistoryInput v =
     (case v of
        Some (Prompt s) \<Rightarrow> map_sum id Prompt (TaskInputFactory_parseLlmInput (Some s))
      | None \<Rightarrow> Inl ''Input must be a non-empty string or a history''
      | Some (History h) \<Rightarrow> Inr (History h))"

definition sum_bind :: "'e + 'a \<Rightarrow> ('a \<Rightarrow> 'e + 'b) \<Rightarrow> 'e + 'b" where
  "sum_bind x f = (case x of Inl err \<Rightarrow> Inl err | Inr a \<Rightarrow> f a)"

lemma sum_bind_simps [simp]: "sum_bind (Inl err) f = Inl err" "sum_bind (Inr a) f = f a"
  by (simp_all add: sum_bind_def)

lemma sum_bind_Inr: "sum_bind x f = Inr b \<longleftrightarrow> (\<exists>a. x = Inr a \<and> f a = Inr b)"
  by (cases x) simp_all

lemma map_sum_Inr: "map_sum f g x = Inr b \<longleftrightarrow> (\<exists>a. x = Inr a \<and> g a = b)"
  by (cases x) simp_all

definition TaskInputFactory_createTaskInput ::
  "js_platform \<Rightarrow> task_type \<Rightarrow> llm_task_value option \<Rightarrow> generation_settings option \<Rightarrow> string + task_input" where
  "TaskInputFactory_createTaskInput p t v settings =
     (case t of
        task_type_dev_formula \<Rightarrow>
          if Option.bind settings isStreaming = Some True then
            Inl ''The dev_formula task answers with one number, so it cannot produce its answer in pieces''
          else sum_bind (TaskInputFactory_requireString t v)
            (\<lambda>s. map_sum id (\<lambda>n. Dev_formula n settings) (TaskInputFactory_parseFormulaInput p s))
      | task_type_llm_qwen3_0_6b_sharded \<Rightarrow> sum_bind (TaskInputFactory_requireString t v)
          (\<lambda>s. map_sum id (\<lambda>s. Llm_qwen3_0_6b_sharded s settings) (TaskInputFactory_parseLlmInput s))
      | task_type_llm_gemma_nano_chrome_full \<Rightarrow> sum_bind (TaskInputFactory_requireString t v)
          (\<lambda>s. map_sum id (\<lambda>s. Llm_gemma_nano_chrome_full s settings) (TaskInputFactory_parseLlmInput s))
      | task_type_llm_qwen3_5_0_8b_full \<Rightarrow>
          map_sum id (\<lambda>i. Llm_qwen3_5_0_8b_full i settings) (TaskInputFactory_parseLlmOrHistoryInput v)
      | task_type_llm_llama3_2_1b_full \<Rightarrow>
          map_sum id (\<lambda>i. Llm_llama3_2_1b_full i settings) (TaskInputFactory_parseLlmOrHistoryInput v)
      | task_type_llm_gemma_4_e2b_full \<Rightarrow>
          map_sum id (\<lambda>i. Llm_gemma_4_e2b_full i settings) (TaskInputFactory_parseLlmOrHistoryInput v))"

lemmas task_input_defs = TaskInputFactory_createTaskInput_def TaskInputFactory_requireString_def
  TaskInputFactory_parseLlmInput_def TaskInputFactory_parseFormulaInput_def TaskInputFactory_parseLlmOrHistoryInput_def

lemma created_input:
  assumes "TaskInputFactory_createTaskInput p t v settings = Inr i"
  shows "taskType i = t" "generationSettings i = settings"
  using assms unfolding task_input_defs
  by (auto simp: sum_bind_Inr map_sum_Inr split: task_type.splits if_splits)

section \<open>Requests\<close>

datatype chat_role = Chat_system | Chat_developer | Chat_user | Chat_assistant | Chat_tool

fun chat_role_name :: "chat_role \<Rightarrow> string" where
  "chat_role_name Chat_system = ''system''"
| "chat_role_name Chat_developer = ''developer''"
| "chat_role_name Chat_user = ''user''"
| "chat_role_name Chat_assistant = ''assistant''"
| "chat_role_name Chat_tool = ''tool''"

record chat_tool_call =
  ctc_id :: string
  ctc_name :: string
  ctc_arguments :: string

record chat_message =
  cm_role :: chat_role
  cm_content :: "string option"
  cm_tool_calls :: "chat_tool_call list option"
  cm_tool_call_id :: "string option"

record chat_tool =
  ct_name :: string
  ct_description :: "string option"
  ct_parameters :: "(string \<times> json) list option"

datatype stop_field = Stop_text string | Stop_list "string list"

datatype requested_format = Format_text | Format_json_object | Format_json_schema string "(string \<times> json) list option"

datatype tool_choice = Choice_auto | Choice_none | Choice_required | Choice_function string

record chat_request =
  rq_model :: string
  rq_messages :: "chat_message list"
  rq_stream :: "bool option"
  rq_include_usage :: "bool option"
  rq_temperature :: "rat option"
  rq_top_p :: "rat option"
  rq_max_tokens :: "int option"
  rq_max_completion_tokens :: "int option"
  rq_stop :: "stop_field option"
  rq_seed :: "int option"
  rq_reasoning_effort :: "reasoning_effort option"
  rq_response_format :: "requested_format option"
  rq_tools :: "chat_tool list option"
  rq_tool_choice :: "tool_choice option"

text \<open>What the schema of a request checks beyond the types of its fields.\<close>

definition valid_ChatCompletionRequest :: "chat_request \<Rightarrow> bool" where
  "valid_ChatCompletionRequest rq \<longleftrightarrow> rq_model rq \<noteq> [] \<and> rq_messages rq \<noteq> []
     \<and> (case rq_temperature rq of None \<Rightarrow> True | Some t \<Rightarrow> 0 \<le> t \<and> t \<le> 2)
     \<and> (case rq_top_p rq of None \<Rightarrow> True | Some t \<Rightarrow> 0 < t \<and> t \<le> 1)
     \<and> (case rq_max_tokens rq of None \<Rightarrow> True | Some n \<Rightarrow> 0 < n)
     \<and> (case rq_max_completion_tokens rq of None \<Rightarrow> True | Some n \<Rightarrow> 0 < n)
     \<and> (case rq_stop rq of Some (Stop_list ss) \<Rightarrow> length ss \<le> 4 | _ \<Rightarrow> True)
     \<and> (case rq_response_format rq of Some (Format_json_schema name _) \<Rightarrow> name \<noteq> [] | _ \<Rightarrow> True)
     \<and> (case rq_tools rq of None \<Rightarrow> True | Some ts \<Rightarrow> list_all (\<lambda>t. ct_name t \<noteq> []) ts)"

section \<open>Tools\<close>

definition ToolTranslator_toProtocolTools :: "chat_tool list option \<Rightarrow> tool_declaration list option" where
  "ToolTranslator_toProtocolTools tools =
     (case tools of
        None \<Rightarrow> None
      | Some [] \<Rightarrow> None
      | Some ts \<Rightarrow> Some (map (\<lambda>t. \<lparr>tool_name = ct_name t, tool_description = ct_description t,
          tool_parametersJsonSchema = (case ct_parameters t of None \<Rightarrow> [] | Some ps \<Rightarrow> ps)\<rparr>) ts))"

text \<open>
  What \<open>properties[name]\<close> reads: a member of an object, an element of an array, and otherwise a value of the
  prototype, which has no \<open>type\<close>.
\<close>

definition ToolTranslator_propertiesOf :: "tool_declaration option \<Rightarrow> string \<Rightarrow> json option" where
  "ToolTranslator_propertiesOf declaredTool name =
     (case Option.bind declaredTool (\<lambda>t. map_get (tool_parametersJsonSchema t) ''properties'') of
        Some (JObject ms) \<Rightarrow> map_get ms name
      | Some (JArray vs) \<Rightarrow> if index_key name \<and> undigits name < length vs then Some (vs ! undigits name) else None
      | _ \<Rightarrow> None)"

definition declared_type :: "json option \<Rightarrow> string option" where
  "declared_type schema =
     (case schema of
        Some (JObject ms) \<Rightarrow> (case map_get ms ''type'' of Some (JString t) \<Rightarrow> Some t | _ \<Rightarrow> None)
      | _ \<Rightarrow> None)"

definition ToolTranslator_typedValueOf :: "js_platform \<Rightarrow> string \<Rightarrow> json option \<Rightarrow> json" where
  "ToolTranslator_typedValueOf p written schema =
     (case declared_type schema of
        None \<Rightarrow> JString written
      | Some t \<Rightarrow>
          if t = ''number'' \<or> t = ''integer'' then
            (case Number_of p written of
               Finite n \<Rightarrow> if trim written \<noteq> [] then JNumber n else JString written
             | _ \<Rightarrow> JString written)
          else if t = ''boolean'' then
            (if written = ''true'' then JBool True
             else if written = ''false'' then JBool False
             else JString written)
          else if t = ''object'' \<or> t = ''array'' then
            (case JSON_parse p written of Some v \<Rightarrow> v | None \<Rightarrow> JString written)
          else JString written)"

definition ToolTranslator_typedArgumentsOf :: "js_platform \<Rightarrow> tool_call \<Rightarrow> tool_declaration list \<Rightarrow> (string \<times> json) list" where
  "ToolTranslator_typedArgumentsOf p call declaredTools =
     (let properties = ToolTranslator_propertiesOf (find (\<lambda>t. tool_name t = call_name call) declaredTools)
      in foldl (\<lambda>obj (name, written). object_put obj name (ToolTranslator_typedValueOf p written (properties name))) []
           (call_argumentValues call))"

text \<open>The calls are given the identifiers the stream holds from position \<open>n\<close> on.\<close>

fun ToolTranslator_toOpenaiToolCalls ::
  "js_platform \<Rightarrow> (nat \<Rightarrow> string) \<Rightarrow> nat \<Rightarrow> tool_declaration list \<Rightarrow> tool_call list \<Rightarrow> chat_tool_call list" where
  "ToolTranslator_toOpenaiToolCalls p uuid n declaredTools [] = []"
| "ToolTranslator_toOpenaiToolCalls p uuid n declaredTools (call # calls) =
     \<lparr>ctc_id = ''call_'' @ uuid n, ctc_name = call_name call,
      ctc_arguments = stringify p (JObject (ToolTranslator_typedArgumentsOf p call declaredTools))\<rparr>
     # ToolTranslator_toOpenaiToolCalls p uuid (n + 1) declaredTools calls"

section \<open>Messages\<close>

definition HistoryBuilder_argumentValuesOf :: "js_platform \<Rightarrow> string \<Rightarrow> (string \<times> string) list" where
  "HistoryBuilder_argumentValuesOf p argumentsJson =
     (case JSON_parse p argumentsJson of
        Some (JObject ms) \<Rightarrow> foldl (\<lambda>obj (name, v). object_put obj name (argument_text p v)) [] ms
      | _ \<Rightarrow> [])"

fun history_role_of :: "chat_role \<Rightarrow> history_role" where
  "history_role_of Chat_system = Role_system"
| "history_role_of Chat_developer = Role_system"
| "history_role_of Chat_user = Role_user"
| "history_role_of Chat_assistant = Role_assistant"
| "history_role_of Chat_tool = Role_tool"

definition text_or_empty :: "string option \<Rightarrow> string" where
  "text_or_empty t = (case t of None \<Rightarrow> [] | Some s \<Rightarrow> s)"

definition HistoryBuilder_messageOf :: "js_platform \<Rightarrow> chat_message \<Rightarrow> history_message" where
  "HistoryBuilder_messageOf p m =
     \<lparr>msg_role = history_role_of (cm_role m), msg_content = text_or_empty (cm_content m),
      msg_toolCalls =
        (case cm_tool_calls m of
           None \<Rightarrow> None
         | Some [] \<Rightarrow> None
         | Some calls \<Rightarrow> Some (map (\<lambda>c. \<lparr>call_name = ctc_name c,
             call_argumentValues = HistoryBuilder_argumentValuesOf p (ctc_arguments c)\<rparr>) calls))\<rparr>"

definition HistoryBuilder_build ::
  "js_platform \<Rightarrow> chat_message list \<Rightarrow> tool_declaration list option \<Rightarrow> history_input" where
  "HistoryBuilder_build p messages tools =
     \<lparr>history_messages = map (HistoryBuilder_messageOf p) messages,
      history_tools = (case tools of Some [] \<Rightarrow> None | _ \<Rightarrow> tools)\<rparr>"

definition PromptFlattener_flatten :: "chat_message list \<Rightarrow> string" where
  "PromptFlattener_flatten messages =
     (case messages of
        [m] \<Rightarrow> text_or_empty (cm_content m)
      | _ \<Rightarrow> join_with ''\<newline>''
          (map (\<lambda>m. chat_role_name (cm_role m) @ '': '' @ text_or_empty (cm_content m)) messages @ [''assistant:'']))"

section \<open>Why an answer stopped\<close>

datatype finish_reason = Finish_stop | Finish_length | Finish_tool_calls

fun finish_reason_name :: "finish_reason \<Rightarrow> string" where
  "finish_reason_name Finish_stop = ''stop''"
| "finish_reason_name Finish_length = ''length''"
| "finish_reason_name Finish_tool_calls = ''tool_calls''"

fun FinishReasonTranslator_translate :: "stop_reason option \<Rightarrow> openai_error + finish_reason" where
  "FinishReasonTranslator_translate None = Inr Finish_stop"
| "FinishReasonTranslator_translate (Some End_of_sequence) = Inr Finish_stop"
| "FinishReasonTranslator_translate (Some Stop_sequence) = Inr Finish_stop"
| "FinishReasonTranslator_translate (Some Max_new_tokens) = Inr Finish_length"
| "FinishReasonTranslator_translate (Some Interrupted) = Inl (OpenaiError_taskFailed
     ''the cluster stopped generating this answer before it finished, and there is no OpenAI value for that'')"

section \<open>Generation settings\<close>

fun requestFieldByControlName :: "generation_control \<Rightarrow> string" where
  "requestFieldByControlName Control_temperature = ''temperature''"
| "requestFieldByControlName Control_topP = ''top_p''"
| "requestFieldByControlName Control_maximumOutputTokenCount = ''max_completion_tokens''"
| "requestFieldByControlName Control_stopSequences = ''stop''"
| "requestFieldByControlName Control_randomSeed = ''seed''"
| "requestFieldByControlName Control_reasoningEffort = ''reasoning_effort''"

definition controlNames :: "generation_control list" where
  "controlNames = [Control_temperature, Control_topP, Control_maximumOutputTokenCount, Control_stopSequences,
     Control_randomSeed, Control_reasoningEffort]"

definition no_settings :: generation_settings where
  "no_settings = \<lparr>isStreaming = None, temperature = None, topP = None, maximumOutputTokenCount = None,
     stopSequences = None, randomSeed = None, reasoningEffort = None, responseFormat = None\<rparr>"

definition GenerationSettingsBuilder_stopSequencesOf :: "stop_field option \<Rightarrow> string list option" where
  "GenerationSettingsBuilder_stopSequencesOf field =
     (case field of
        None \<Rightarrow> None
      | Some f \<Rightarrow>
          let sequences = filter (\<lambda>s. s \<noteq> []) (case f of Stop_text s \<Rightarrow> [s] | Stop_list ss \<Rightarrow> ss)
          in if sequences = [] then None else Some sequences)"

definition unless_one :: "rat option \<Rightarrow> rat option" where
  "unless_one x = (if x = Some 1 then None else x)"

definition GenerationSettingsBuilder_askedForControlsOf :: "chat_request \<Rightarrow> generation_settings" where
  "GenerationSettingsBuilder_askedForControlsOf rq = no_settings
     \<lparr>temperature := unless_one (rq_temperature rq),
      topP := unless_one (rq_top_p rq),
      maximumOutputTokenCount :=
        (case rq_max_completion_tokens rq of None \<Rightarrow> rq_max_tokens rq | Some n \<Rightarrow> Some n),
      stopSequences := GenerationSettingsBuilder_stopSequencesOf (rq_stop rq),
      randomSeed := rq_seed rq,
      reasoningEffort := rq_reasoning_effort rq\<rparr>"

fun states_control :: "generation_settings \<Rightarrow> generation_control \<Rightarrow> bool" where
  "states_control gs Control_temperature = (temperature gs \<noteq> None)"
| "states_control gs Control_topP = (topP gs \<noteq> None)"
| "states_control gs Control_maximumOutputTokenCount = (maximumOutputTokenCount gs \<noteq> None)"
| "states_control gs Control_stopSequences = (stopSequences gs \<noteq> None)"
| "states_control gs Control_randomSeed = (randomSeed gs \<noteq> None)"
| "states_control gs Control_reasoningEffort = (reasoningEffort gs \<noteq> None)"

definition GenerationSettingsBuilder_honouredFieldsOf :: "task_type \<Rightarrow> string list" where
  "GenerationSettingsBuilder_honouredFieldsOf t =
     map requestFieldByControlName
       (filter (\<lambda>c. c \<in> set (GenerationControlSupport_honouredControls t)) controlNames)"

definition GenerationSettingsBuilder_build ::
  "chat_request \<Rightarrow> task_type \<Rightarrow> bool \<Rightarrow> response_format option \<Rightarrow> openai_error + generation_settings option" where
  "GenerationSettingsBuilder_build rq t streams format =
     (let askedFor = GenerationSettingsBuilder_askedForControlsOf rq
      in case find (\<lambda>c. states_control askedFor c \<and> \<not> GenerationControlSupport_honours t c) controlNames of
           Some c \<Rightarrow> Inl (OpenaiError_unhonourableGenerationControl (requestFieldByControlName c) (type_name t)
             (GenerationSettingsBuilder_honouredFieldsOf t))
         | None \<Rightarrow>
             let settings1 = (if streams then askedFor\<lparr>isStreaming := Some True\<rparr> else askedFor);
               settings = (case format of None \<Rightarrow> settings1 | Some f \<Rightarrow> settings1\<lparr>responseFormat := Some f\<rparr>)
             in if settings = no_settings then Inr None else Inr (Some settings))"

section \<open>The shape of an answer\<close>

fun format_name :: "requested_format \<Rightarrow> string" where
  "format_name Format_text = ''text''"
| "format_name Format_json_object = ''json_object''"
| "format_name (Format_json_schema _ _) = ''json_schema''"

text \<open>\<open>compiles\<close> is the constraint package: why it cannot enforce a schema, if it cannot.\<close>

fun ResponseFormatEnforcement_refusalOf :: "((string \<times> json) list \<Rightarrow> string option) \<Rightarrow> response_format \<Rightarrow> string option" where
  "ResponseFormatEnforcement_refusalOf compiles Json_object = None"
| "ResponseFormatEnforcement_refusalOf compiles (Json_schema schema) = compiles schema"

definition ResponseFormatReader_read ::
  "((string \<times> json) list \<Rightarrow> string option) \<Rightarrow> chat_request \<Rightarrow> task_type \<Rightarrow> tool_declaration list option
     \<Rightarrow> openai_error + response_format option" where
  "ResponseFormatReader_read compiles rq t declaredTools =
     (case rq_response_format rq of
        None \<Rightarrow> Inr None
      | Some Format_text \<Rightarrow> Inr None
      | Some format \<Rightarrow>
          if \<not> StructuredOutputSupport_honours t (format_name format) then
            Inl (OpenaiError_unhonourableResponseFormat (format_name format) (rq_model rq)
              (StructuredOutputSupport_honouredFormats t))
          else if declaredTools \<noteq> None \<and> declaredTools \<noteq> Some [] then
            Inl (OpenaiError_responseFormatWithTools (format_name format))
          else (case format of
              Format_json_schema _ schema \<Rightarrow>
                let carried = Json_schema (case schema of None \<Rightarrow> [] | Some s \<Rightarrow> s)
                in (case ResponseFormatEnforcement_refusalOf compiles carried of
                      Some refusal \<Rightarrow> Inl (OpenaiError_unenforceableSchema refusal)
                    | None \<Rightarrow> Inr (Some carried))
            | _ \<Rightarrow> Inr (Some Json_object)))"

section \<open>The models on offer\<close>

definition ModelCatalog_modelIds :: "string list" where
  "ModelCatalog_modelIds = taskTypeNames"

definition ModelCatalog_taskTypeNameOf :: "string \<Rightarrow> task_type option" where
  "ModelCatalog_taskTypeNameOf modelId = find (\<lambda>t. type_name t = modelId) taskTypes"

definition ModelCatalog_list :: "nat \<Rightarrow> string list \<Rightarrow> json" where
  "ModelCatalog_list createdAtSeconds modelIds =
     JObject [(''object'', JString ''list''),
       (''data'', JArray (map (\<lambda>modelId. JObject
          [(''id'', JString modelId), (''object'', JString ''model''), (''created'', JNumber (of_nat createdAtSeconds)),
           (''owned_by'', JString ''webai-at-home'')]) modelIds))]"

section \<open>From a chat completion request to a task\<close>

record api_env =
  apiPlatform :: js_platform
  apiUUID :: "nat \<Rightarrow> string"
  compiles :: "(string \<times> json) list \<Rightarrow> string option"

definition quoted :: "string \<Rightarrow> string" where
  "quoted s = [CHR 0x22] @ s @ [CHR 0x22]"

definition checked_tools ::
  "string \<Rightarrow> task_type \<Rightarrow> tool_declaration list option \<Rightarrow> tool_choice option
     \<Rightarrow> openai_error + tool_declaration list option" where
  "checked_tools model t declaredTools choice =
     (if declaredTools \<noteq> None \<and> \<not> TaskInputFactory_acceptsTools t then
        Inl (OpenaiError_unsupportedToolDeclarations model (map type_name taskTypesAcceptingTools))
      else (case choice of
          Some Choice_required \<Rightarrow> Inl (OpenaiError_unenforceableToolChoice (quoted ''required''))
        | Some (Choice_function name) \<Rightarrow>
            Inl (OpenaiError_unenforceableToolChoice (''naming the function '' @ quoted name))
        | Some Choice_none \<Rightarrow> Inr None
        | _ \<Rightarrow> Inr declaredTools))"

definition prompt_or_history ::
  "js_platform \<Rightarrow> task_type \<Rightarrow> chat_message list \<Rightarrow> tool_declaration list option \<Rightarrow> llm_task_value" where
  "prompt_or_history p t messages tools =
     (if TaskInputFactory_acceptsHistory t then History (HistoryBuilder_build p messages tools)
      else Prompt (PromptFlattener_flatten messages))"

definition created_task ::
  "js_platform \<Rightarrow> string \<Rightarrow> task_type \<Rightarrow> llm_task_value \<Rightarrow> generation_settings option \<Rightarrow> openai_error + task_input" where
  "created_task p model t v settings =
     map_sum (\<lambda>reason. OpenaiError_unusableMessages (''The model '' @ model @ '' cannot take this request: '' @ reason @ ''.''))
       id (TaskInputFactory_createTaskInput p t (Some v) settings)"

text \<open>What \<open>_handleChatCompletion\<close> does before it runs the task: the task, and the tools the request declared.\<close>

definition chat_completion_task :: "api_env \<Rightarrow> chat_request \<Rightarrow> openai_error + task_input \<times> tool_declaration list option" where
  "chat_completion_task e rq =
     (case ModelCatalog_taskTypeNameOf (rq_model rq) of
        None \<Rightarrow> Inl (OpenaiError_unknownModel (rq_model rq) ModelCatalog_modelIds)
      | Some t \<Rightarrow>
          let declaredTools = ToolTranslator_toProtocolTools (rq_tools rq)
          in sum_bind (checked_tools (rq_model rq) t declaredTools (rq_tool_choice rq)) (\<lambda>toolsToDeclare.
             sum_bind (ResponseFormatReader_read (compiles e) rq t toolsToDeclare) (\<lambda>format.
             sum_bind (GenerationSettingsBuilder_build rq t (rq_stream rq = Some True) format) (\<lambda>settings.
             map_sum id (\<lambda>input. (input, declaredTools))
               (created_task (apiPlatform e) (rq_model rq) t
                 (prompt_or_history (apiPlatform e) t (rq_messages rq) toolsToDeclare) settings)))))"

section \<open>The Responses interface\<close>

text \<open>
  The items of a request's \<open>input\<close> and its tools are looked at again with their schemas, so they are kept as the JSON
  they came as. An object schema reads the fields it names and leaves the others.
\<close>

fun member :: "string \<Rightarrow> json \<Rightarrow> json option" where
  "member k (JObject ms) = map_get ms k"
| "member k _ = None"

definition text_member :: "string \<Rightarrow> json \<Rightarrow> string option" where
  "text_member k v = (case member k v of Some (JString s) \<Rightarrow> Some s | _ \<Rightarrow> None)"

definition optional_text :: "string \<Rightarrow> json \<Rightarrow> string option option" where
  "optional_text k v = (case member k v of None \<Rightarrow> Some None | Some (JString s) \<Rightarrow> Some (Some s) | _ \<Rightarrow> None)"

definition responses_role :: "string \<Rightarrow> chat_role option" where
  "responses_role s = find (\<lambda>r. chat_role_name r = s) [Chat_system, Chat_developer, Chat_user, Chat_assistant]"

fun opt_list :: "'a option list \<Rightarrow> 'a list option" where
  "opt_list [] = Some []"
| "opt_list (x # xs) = (case (x, opt_list xs) of (Some a, Some as) \<Rightarrow> Some (a # as) | _ \<Rightarrow> None)"

definition ResponsesContentPartSchema :: "json \<Rightarrow> string option" where
  "ResponsesContentPartSchema v =
     (case text_member ''type'' v of
        Some t \<Rightarrow> if t \<in> {''input_text'', ''output_text'', ''text''} then text_member ''text'' v else None
      | None \<Rightarrow> None)"

definition ResponsesTranslator_textOf :: "string + string list \<Rightarrow> string" where
  "ResponsesTranslator_textOf content = (case content of Inl t \<Rightarrow> t | Inr parts \<Rightarrow> concat parts)"

definition ResponsesMessageItemSchema :: "json \<Rightarrow> (chat_role \<times> (string + string list)) option" where
  "ResponsesMessageItemSchema v =
     (if text_member ''type'' v \<noteq> Some ''message'' then None
      else (case (Option.bind (text_member ''role'' v) responses_role, member ''content'' v) of
          (Some r, Some (JString t)) \<Rightarrow> Some (r, Inl t)
        | (Some r, Some (JArray parts)) \<Rightarrow>
            map_option (\<lambda>texts. (r, Inr texts)) (opt_list (map ResponsesContentPartSchema parts))
        | _ \<Rightarrow> None))"

text \<open>The name, the arguments, the \<open>call_id\<close> and the \<open>id\<close>.\<close>

definition ResponsesFunctionCallItemSchema :: "json \<Rightarrow> (string \<times> string \<times> string option \<times> string option) option" where
  "ResponsesFunctionCallItemSchema v =
     (if text_member ''type'' v \<noteq> Some ''function_call'' then None
      else (case (text_member ''name'' v, text_member ''arguments'' v, optional_text ''call_id'' v, optional_text ''id'' v) of
          (Some name, Some args, Some callId, Some itemId) \<Rightarrow>
            if name = [] then None else Some (name, args, callId, itemId)
        | _ \<Rightarrow> None))"

definition ResponsesFunctionCallOutputItemSchema :: "json \<Rightarrow> (string \<times> string) option" where
  "ResponsesFunctionCallOutputItemSchema v =
     (if text_member ''type'' v \<noteq> Some ''function_call_output'' then None
      else (case (text_member ''call_id'' v, text_member ''output'' v) of
          (Some callId, Some result) \<Rightarrow> Some (callId, result)
        | _ \<Rightarrow> None))"

text \<open>An identifier is drawn only for a call that names none, which nothing reads; it is the argument \<open>minted\<close>.\<close>

definition ResponsesTranslator_messageOf :: "string \<Rightarrow> json \<Rightarrow> chat_message option" where
  "ResponsesTranslator_messageOf minted item =
     (case ResponsesMessageItemSchema item of
        Some (r, content) \<Rightarrow> Some \<lparr>cm_role = r, cm_content = Some (ResponsesTranslator_textOf content),
          cm_tool_calls = None, cm_tool_call_id = None\<rparr>
      | None \<Rightarrow>
          (case ResponsesFunctionCallItemSchema item of
             Some (name, args, callId, itemId) \<Rightarrow>
               Some \<lparr>cm_role = Chat_assistant, cm_content = Some [],
                 cm_tool_calls = Some [\<lparr>ctc_id = (case callId of Some i \<Rightarrow> i | None \<Rightarrow>
                   (case itemId of Some i \<Rightarrow> i | None \<Rightarrow> ''call_'' @ minted)),
                   ctc_name = name, ctc_arguments = args\<rparr>],
                 cm_tool_call_id = None\<rparr>
           | None \<Rightarrow>
               (case ResponsesFunctionCallOutputItemSchema item of
                  Some (callId, result) \<Rightarrow>
                    Some \<lparr>cm_role = Chat_tool, cm_content = Some result, cm_tool_calls = None, cm_tool_call_id = Some callId\<rparr>
                | None \<Rightarrow> None)))"

definition is_system :: "chat_message \<Rightarrow> bool" where
  "is_system m \<longleftrightarrow> cm_role m = Chat_system \<or> cm_role m = Chat_developer"

text \<open>The loop over the items: the texts for the system message, and the other messages.\<close>

fun sort_items :: "string \<Rightarrow> json list \<Rightarrow> string list \<times> chat_message list \<Rightarrow> string list \<times> chat_message list" where
  "sort_items minted [] acc = acc"
| "sort_items minted (item # items) (systemTexts, messages) =
     (case ResponsesTranslator_messageOf minted item of
        None \<Rightarrow> sort_items minted items (systemTexts, messages)
      | Some m \<Rightarrow>
          if is_system m then sort_items minted items (systemTexts @ [text_or_empty (cm_content m)], messages)
          else sort_items minted items (systemTexts, messages @ [m]))"

definition user_message :: "string \<Rightarrow> chat_message" where
  "user_message t = \<lparr>cm_role = Chat_user, cm_content = Some t, cm_tool_calls = None, cm_tool_call_id = None\<rparr>"

definition ResponsesTranslator_toChatMessages :: "string \<Rightarrow> string option \<Rightarrow> string + json list \<Rightarrow> chat_message list" where
  "ResponsesTranslator_toChatMessages minted instructions input =
     (let standing = (case instructions of None \<Rightarrow> [] | Some t \<Rightarrow> if t = [] then [] else [t]);
        (systemTexts, messages) = (case input of
            Inl t \<Rightarrow> (standing, [user_message t])
          | Inr items \<Rightarrow> sort_items minted items (standing, []))
      in if systemTexts = [] then messages
         else \<lparr>cm_role = Chat_system, cm_content = Some (join_with ''\<newline>\<newline>'' systemTexts), cm_tool_calls = None,
                cm_tool_call_id = None\<rparr> # messages)"

definition ResponsesFunctionToolSchema :: "json \<Rightarrow> chat_tool option" where
  "ResponsesFunctionToolSchema v =
     (if text_member ''type'' v \<noteq> Some ''function'' then None
      else (case text_member ''name'' v of
          None \<Rightarrow> None
        | Some name \<Rightarrow>
            (case (member ''description'' v, member ''parameters'' v, member ''strict'' v) of
               (d, ps, strict) \<Rightarrow>
                 if name \<noteq> [] \<and> (case d of None \<Rightarrow> True | Some JNull \<Rightarrow> True | Some (JString _) \<Rightarrow> True | _ \<Rightarrow> False)
                   \<and> (case ps of None \<Rightarrow> True | Some JNull \<Rightarrow> True | Some (JObject _) \<Rightarrow> True | _ \<Rightarrow> False)
                   \<and> (case strict of None \<Rightarrow> True | Some JNull \<Rightarrow> True | Some (JBool _) \<Rightarrow> True | _ \<Rightarrow> False)
                 then Some \<lparr>ct_name = name, ct_description = (case d of Some (JString t) \<Rightarrow> Some t | _ \<Rightarrow> None),
                   ct_parameters = (case ps of Some (JObject ms) \<Rightarrow> Some ms | _ \<Rightarrow> None)\<rparr>
                 else None)))"

definition ResponsesTranslator_toChatTools :: "json list option \<Rightarrow> chat_tool list option" where
  "ResponsesTranslator_toChatTools tools =
     (case tools of
        None \<Rightarrow> None
      | Some ts \<Rightarrow>
          let chatTools = List.map_filter ResponsesFunctionToolSchema ts
          in if chatTools = [] then None else Some chatTools)"

definition kind_of :: "json \<Rightarrow> string" where
  "kind_of tool = (case text_member ''type'' tool of Some t \<Rightarrow> t | None \<Rightarrow> ''unknown'')"

definition ResponsesTranslator_unsupportedToolKinds :: "json list option \<Rightarrow> string list" where
  "ResponsesTranslator_unsupportedToolKinds tools =
     (case tools of
        None \<Rightarrow> []
      | Some ts \<Rightarrow> foldl (\<lambda>kinds tool.
          if ResponsesFunctionToolSchema tool \<noteq> None then kinds else set_add kinds (kind_of tool)) [] ts)"

datatype responses_item =
    Message_item string string
  | Function_call_item string string string string

definition ResponsesTranslator_messageItemOf :: "string \<Rightarrow> string \<Rightarrow> responses_item" where
  "ResponsesTranslator_messageItemOf minted t = Message_item (''msg_'' @ minted) t"

text \<open>The calls are minted first, from position \<open>n\<close>, and then one identifier for each of their items.\<close>

definition ResponsesTranslator_toOutputItems ::
  "api_env \<Rightarrow> nat \<Rightarrow> string \<Rightarrow> tool_call list option \<Rightarrow> tool_declaration list option \<Rightarrow> responses_item list" where
  "ResponsesTranslator_toOutputItems e n t toolCalls declaredTools =
     (let items = (if t \<noteq> [] then [ResponsesTranslator_messageItemOf (apiUUID e n) t] else []);
        m = n + length items
      in case toolCalls of
           None \<Rightarrow> items
         | Some calls \<Rightarrow> items @ map (\<lambda>(i, c). Function_call_item (''fc_'' @ apiUUID e (m + length calls + i))
             (ctc_id c) (ctc_name c) (ctc_arguments c))
             (List.enumerate 0 (ToolTranslator_toOpenaiToolCalls (apiPlatform e) (apiUUID e) m
               (case declaredTools of None \<Rightarrow> [] | Some ts \<Rightarrow> ts) calls)))"

text \<open>Input, output and total tokens, when the worker reported both counts.\<close>

definition token_usage :: "task_answer \<Rightarrow> (int \<times> int \<times> int) option" where
  "token_usage answer =
     (case (ans_promptTokenCount answer, ans_completionTokenCount answer) of
        (Some i, Some c) \<Rightarrow> Some (i, c, i + c)
      | _ \<Rightarrow> None)"

record responses_request =
  rr_model :: string
  rr_input :: "string + json list"
  rr_instructions :: "string option"
  rr_stream :: "bool option"
  rr_tools :: "json list option"
  rr_tool_choice :: "tool_choice option"
  rr_parallel_tool_calls :: "bool option"

definition as_chat_request :: "responses_request \<Rightarrow> chat_message list \<Rightarrow> chat_request" where
  "as_chat_request rr messages =
     \<lparr>rq_model = rr_model rr, rq_messages = messages, rq_stream = None, rq_include_usage = None, rq_temperature = None,
      rq_top_p = None, rq_max_tokens = None, rq_max_completion_tokens = None, rq_stop = None, rq_seed = None,
      rq_reasoning_effort = None, rq_response_format = None, rq_tools = None, rq_tool_choice = None\<rparr>"

text \<open>What \<open>_handleResponses\<close> does before it runs the task.\<close>

definition responses_task ::
  "api_env \<Rightarrow> string \<Rightarrow> responses_request \<Rightarrow> openai_error + task_input \<times> tool_declaration list option" where
  "responses_task e minted rr =
     (case ModelCatalog_taskTypeNameOf (rr_model rr) of
        None \<Rightarrow> Inl (OpenaiError_unknownModel (rr_model rr) ModelCatalog_modelIds)
      | Some t \<Rightarrow>
          let declaredTools = ToolTranslator_toProtocolTools (ResponsesTranslator_toChatTools (rr_tools rr))
          in sum_bind (checked_tools (rr_model rr) t declaredTools (rr_tool_choice rr)) (\<lambda>toolsToDeclare.
             let messages = ResponsesTranslator_toChatMessages minted (rr_instructions rr) (rr_input rr)
             in if messages = [] then
                  Inl (OpenaiError_unusableMessages (''The request to '' @ rr_model rr @
                    '' carries neither instructions nor any input item this server can read.''))
                else sum_bind (GenerationSettingsBuilder_build (as_chat_request rr messages) t (rr_stream rr = Some True) None)
                  (\<lambda>settings. map_sum id (\<lambda>input. (input, declaredTools))
                    (created_task (apiPlatform e) (rr_model rr) t
                      (prompt_or_history (apiPlatform e) t messages toolsToDeclare) settings))))"

section \<open>Typed arguments\<close>

text \<open>
  The values a tool call means: each argument's text is the text of its value, its declared type is one that reads
  that text back, and the platform reads the numbers and the JSON it wrote itself.
\<close>

fun fits_type :: "json \<Rightarrow> string option \<Rightarrow> bool" where
  "fits_type (JString _) t = (t \<notin> {Some ''number'', Some ''integer'', Some ''boolean'', Some ''object'', Some ''array''})"
| "fits_type (JNumber _) t = (t \<in> {Some ''number'', Some ''integer''})"
| "fits_type (JBool _) t = (t = Some ''boolean'')"
| "fits_type _ t = (t \<in> {Some ''object'', Some ''array''})"

fun reads_back :: "js_platform \<Rightarrow> json \<Rightarrow> bool" where
  "reads_back p (JNumber n) = (Number_of p (Number_text p n) = Finite n \<and> trim (Number_text p n) \<noteq> [])"
| "reads_back p v = (JSON_parse p (stringify p v) = Some v)"

definition means :: "js_platform \<Rightarrow> tool_declaration list \<Rightarrow> tool_call \<Rightarrow> (string \<times> json) list \<Rightarrow> bool" where
  "means p tools call args \<longleftrightarrow>
     call_argumentValues call = map (\<lambda>(k, v). (k, argument_text p v)) args
     \<and> distinct (map fst args) \<and> list_all ordinary_key (map fst args) \<and> reads_back p (JObject args)
     \<and> (\<forall>(k, v) \<in> set args.
          fits_type v (declared_type (ToolTranslator_propertiesOf (find (\<lambda>t. tool_name t = call_name call) tools) k))
          \<and> (case v of JString _ \<Rightarrow> True | JBool _ \<Rightarrow> True | _ \<Rightarrow> reads_back p v))"

lemma typed_value_read_back:
  assumes "fits_type v (declared_type schema)" and "case v of JString _ \<Rightarrow> True | JBool _ \<Rightarrow> True | _ \<Rightarrow> reads_back p v"
  shows "ToolTranslator_typedValueOf p (argument_text p v) schema = v"
proof -
  have str: "declared_type schema = Some t \<Longrightarrow> t \<notin> {''number'', ''integer'', ''boolean'', ''object'', ''array''} \<Longrightarrow>
      ToolTranslator_typedValueOf p w schema = JString w" for t w
    by (simp add: ToolTranslator_typedValueOf_def)
  have num: "declared_type schema \<in> {Some ''number'', Some ''integer''} \<Longrightarrow> Number_of p w = Finite n \<Longrightarrow> trim w \<noteq> [] \<Longrightarrow>
      ToolTranslator_typedValueOf p w schema = JNumber n" for n w
    by (auto simp: ToolTranslator_typedValueOf_def)
  have parsed: "declared_type schema \<in> {Some ''object'', Some ''array''} \<Longrightarrow> JSON_parse p w = Some v \<Longrightarrow>
      ToolTranslator_typedValueOf p w schema = v" for w
    by (auto simp: ToolTranslator_typedValueOf_def)
  show ?thesis
  proof (cases v)
    case (JString w)
    with assms str show ?thesis
      by (cases "declared_type schema") (simp_all add: argument_text_def ToolTranslator_typedValueOf_def)
  next
    case (JBool b)
    with assms show ?thesis by (simp add: argument_text_def ToolTranslator_typedValueOf_def)
  next
    case (JNumber n)
    with assms num [of "Number_text p n" n] show ?thesis by (simp add: argument_text_def)
  qed (use assms parsed [of "stringify p v"] in \<open>simp_all add: argument_text_def del: stringify.simps\<close>)
qed

lemma assigned_in_order:
  assumes "distinct (map fst (ys @ xs))" and "list_all ordinary_key (map fst xs)"
  shows "foldl (\<lambda>obj (k, v). object_put obj k (f k v)) (map (\<lambda>(k, v). (k, f k v)) ys) xs =
    map (\<lambda>(k, v). (k, f k v)) (ys @ xs)"
  using assms
proof (induction xs arbitrary: ys)
  case (Cons x xs)
  obtain k v where x: "x = (k, v)" by (cases x)
  have "map_get (map (\<lambda>(k, v). (k, f k v)) ys) k = None"
    using Cons.prems(1) by (induction ys) (auto simp: x)
  with Cons.prems(2) have "object_put (map (\<lambda>(k, v). (k, f k v)) ys) k (f k v) = map (\<lambda>(k, v). (k, f k v)) (ys @ [x])"
    by (simp add: object_put_fresh x)
  moreover have "distinct (map fst ((ys @ [x]) @ xs))" "list_all ordinary_key (map fst xs)" using Cons.prems by simp_all
  note Cons.IH [OF this]
  ultimately show ?case by (simp add: x)
qed simp

lemma typed_arguments_mean:
  assumes "means p tools call args"
  shows "ToolTranslator_typedArgumentsOf p call tools = args"
    and "HistoryBuilder_argumentValuesOf p (stringify p (JObject args)) = call_argumentValues call"
proof -
  let ?schema = "ToolTranslator_propertiesOf (find (\<lambda>t. tool_name t = call_name call) tools)"
  have vals: "call_argumentValues call = map (\<lambda>(k, v). (k, argument_text p v)) args"
    and keys: "distinct (map fst args)" "list_all ordinary_key (map fst args)" and parse: "reads_back p (JObject args)"
    and read: "\<And>k v. (k, v) \<in> set args \<Longrightarrow> ToolTranslator_typedValueOf p (argument_text p v) (?schema k) = v"
    using assms typed_value_read_back unfolding means_def by fastforce+
  have "ToolTranslator_typedArgumentsOf p call tools =
      map (\<lambda>(k, w). (k, ToolTranslator_typedValueOf p w (?schema k))) (call_argumentValues call)"
    using assigned_in_order [of "[]" "call_argumentValues call" "\<lambda>k w. ToolTranslator_typedValueOf p w (?schema k)"] keys
    by (simp add: ToolTranslator_typedArgumentsOf_def vals comp_def case_prod_beta)
  also have "\<dots> = args" unfolding vals using read by (induction args) auto
  finally show "ToolTranslator_typedArgumentsOf p call tools = args" .
  show "HistoryBuilder_argumentValuesOf p (stringify p (JObject args)) = call_argumentValues call"
    using assigned_in_order [of "[]" args "\<lambda>k v. argument_text p v"] keys parse
    by (simp add: HistoryBuilder_argumentValuesOf_def vals del: stringify.simps)
qed

lemma openai_calls:
  assumes "list_all2 (means p tools) calls argss"
  shows "map ctc_arguments (ToolTranslator_toOpenaiToolCalls p uuid n tools calls) = map (\<lambda>args. stringify p (JObject args)) argss"
    and "map (\<lambda>c. \<lparr>call_name = ctc_name c, call_argumentValues = HistoryBuilder_argumentValuesOf p (ctc_arguments c)\<rparr>)
      (ToolTranslator_toOpenaiToolCalls p uuid n tools calls) = calls"
  using assms
  by (induction calls argss arbitrary: n rule: list_all2_induct) (simp_all add: typed_arguments_mean del: stringify.simps)

lemma openai_call_ids:
  "map ctc_id (ToolTranslator_toOpenaiToolCalls p uuid n tools calls) = map (\<lambda>i. ''call_'' @ uuid i) [n..<n + length calls]"
  by (induction calls arbitrary: n) (simp_all add: upt_conv_Cons del: upt_Suc)

text \<open>
  C19: A tool call survives its way to a client and back: when each argument's text is the text of a value of the type
  its tool declared, the client reads exactly those values, under identifiers that differ, and the message it hands
  back in its next request becomes the very tool calls the model had asked for.
\<close>

theorem tool_calls_survive_the_client:
  assumes "list_all2 (means p tools) calls argss" and "calls \<noteq> []" and "inj uuid"
  shows "map ctc_arguments (ToolTranslator_toOpenaiToolCalls p uuid n tools calls) = map (\<lambda>args. stringify p (JObject args)) argss
    \<and> distinct (map ctc_id (ToolTranslator_toOpenaiToolCalls p uuid n tools calls))
    \<and> msg_toolCalls (HistoryBuilder_messageOf p \<lparr>cm_role = Chat_assistant, cm_content = content,
        cm_tool_calls = Some (ToolTranslator_toOpenaiToolCalls p uuid n tools calls), cm_tool_call_id = None\<rparr>) = Some calls"
proof -
  have "ToolTranslator_toOpenaiToolCalls p uuid n tools calls \<noteq> []" using assms(2) by (cases calls) simp_all
  moreover have "distinct (map (\<lambda>i. ''call_'' @ uuid i) [n..<n + length calls])"
    using assms(3) by (auto simp: distinct_map inj_on_def dest: injD)
  ultimately show ?thesis
    using openai_calls [OF assms(1), of uuid n]
    by (auto simp: HistoryBuilder_messageOf_def openai_call_ids neq_Nil_conv split: list.split)
qed

text \<open>A request that declared a tool with a number and a switch.\<close>

definition thermostat :: tool_declaration where
  "thermostat = \<lparr>tool_name = ''heat'', tool_description = None, tool_parametersJsonSchema =
     [(''properties'', JObject [(''degrees'', JObject [(''type'', JString ''integer'')]),
        (''now'', JObject [(''type'', JString ''boolean'')])])]\<rparr>"

definition heat_arguments :: "(string \<times> json) list" where
  "heat_arguments = [(''degrees'', JNumber 21), (''now'', JBool True), (''room'', JString ''21'')]"

definition heat_platform :: js_platform where
  "heat_platform = \<lparr>Number_of = (\<lambda>s. if s = ''21'' then Finite 21 else NaN), Number_text = (\<lambda>_. ''21''),
     JSON_parse = (\<lambda>s. if s = stringify \<lparr>Number_of = (\<lambda>_. NaN), Number_text = (\<lambda>_. ''21''), JSON_parse = (\<lambda>_. None)\<rparr>
       (JObject heat_arguments) then Some (JObject heat_arguments) else None)\<rparr>"

definition heat_call :: tool_call where
  "heat_call = \<lparr>call_name = ''heat'', call_argumentValues = [(''degrees'', ''21''), (''now'', ''true''), (''room'', ''21'')]\<rparr>"

theorem tool_calls_survive_the_client_witness:
  "msg_toolCalls (HistoryBuilder_messageOf heat_platform \<lparr>cm_role = Chat_assistant, cm_content = None,
     cm_tool_calls = Some (ToolTranslator_toOpenaiToolCalls heat_platform (\<lambda>n. replicate n CHR ''u'') 3 [thermostat] [heat_call]),
     cm_tool_call_id = None\<rparr>) = Some [heat_call]"
proof -
  have "ordinary_key ''degrees''" "ordinary_key ''now''" "ordinary_key ''room''" by (rule ordinary_keyI; simp)+
  then have "means heat_platform [thermostat] heat_call heat_arguments"
    by (simp add: means_def heat_platform_def heat_arguments_def heat_call_def thermostat_def argument_text_def
        ToolTranslator_propertiesOf_def declared_type_def trim_def trimStart_def is_space_def)
  moreover have "inj (\<lambda>n. replicate n CHR ''u'')" by (rule injI) (auto dest: arg_cong [of _ _ length])
  ultimately show ?thesis
    using tool_calls_survive_the_client [of heat_platform "[thermostat]" "[heat_call]" "[heat_arguments]"] by blast
qed

section \<open>Nothing asked for is dropped\<close>

definition stated :: "task_input \<Rightarrow> generation_settings" where
  "stated input = (case generationSettings input of None \<Rightarrow> no_settings | Some gs \<Rightarrow> gs)"

definition sent_tools :: "task_input \<Rightarrow> tool_declaration list option" where
  "sent_tools input = (case input of
     Llm_qwen3_5_0_8b_full (History h) _ \<Rightarrow> history_tools h
   | Llm_llama3_2_1b_full (History h) _ \<Rightarrow> history_tools h
   | Llm_gemma_4_e2b_full (History h) _ \<Rightarrow> history_tools h
   | _ \<Rightarrow> None)"

text \<open>The shape a request asks for, as the cluster carries it.\<close>

fun asked_format :: "requested_format option \<Rightarrow> response_format option" where
  "asked_format (Some Format_json_object) = Some Json_object"
| "asked_format (Some (Format_json_schema _ schema)) = Some (Json_schema (case schema of None \<Rightarrow> [] | Some s \<Rightarrow> s))"
| "asked_format _ = None"

lemma read_format:
  assumes "ResponseFormatReader_read c rq t tools = Inr format"
  shows "format = asked_format (rq_response_format rq)"
    and "format \<noteq> None \<Longrightarrow> tools = None \<or> tools = Some []"
    and "format \<noteq> None \<Longrightarrow> StructuredOutputSupport_honours t (format_name (the (rq_response_format rq)))"
    and "format = Some (Json_schema schema) \<Longrightarrow> c schema = None"
  using assms unfolding ResponseFormatReader_read_def Let_def
  by (auto split: option.splits requested_format.splits if_splits)

lemma built_settings:
  assumes "GenerationSettingsBuilder_build rq t streams format = Inr settings"
  shows "(case settings of None \<Rightarrow> no_settings | Some gs \<Rightarrow> gs) = (GenerationSettingsBuilder_askedForControlsOf rq)
      \<lparr>isStreaming := if streams then Some True else None, responseFormat := format\<rparr>"
    and "states_control (GenerationSettingsBuilder_askedForControlsOf rq) c \<Longrightarrow> GenerationControlSupport_honours t c"
proof -
  let ?asked = "GenerationSettingsBuilder_askedForControlsOf rq"
  have none: "find (\<lambda>c. states_control ?asked c \<and> \<not> GenerationControlSupport_honours t c) controlNames = None"
    using assms unfolding GenerationSettingsBuilder_build_def Let_def by (auto split: option.splits)
  have "c \<in> set controlNames" for c by (cases c) (simp_all add: controlNames_def)
  with none show "states_control ?asked c \<Longrightarrow> GenerationControlSupport_honours t c"
    unfolding find_None_iff by blast
  have "isStreaming ?asked = None" "responseFormat ?asked = None"
    by (simp_all add: GenerationSettingsBuilder_askedForControlsOf_def no_settings_def)
  moreover have "settings = (let gs = ?asked\<lparr>isStreaming := if streams then Some True else isStreaming ?asked,
      responseFormat := if format = None then responseFormat ?asked else format\<rparr> in if gs = no_settings then None else Some gs)"
    using assms none unfolding GenerationSettingsBuilder_build_def Let_def by (cases format; cases streams) (auto split: if_splits)
  ultimately show "(case settings of None \<Rightarrow> no_settings | Some gs \<Rightarrow> gs) =
      ?asked\<lparr>isStreaming := if streams then Some True else None, responseFormat := format\<rparr>"
    by (simp add: Let_def)
qed

lemma asked_settings_valid:
  assumes "valid_ChatCompletionRequest rq"
  shows "valid_GenerationSettings (GenerationSettingsBuilder_askedForControlsOf rq)"
proof -
  have "case GenerationSettingsBuilder_stopSequencesOf (rq_stop rq) of None \<Rightarrow> True
      | Some ss \<Rightarrow> list_all (\<lambda>s. 1 \<le> length s) ss \<and> 1 \<le> length ss \<and> length ss \<le> 4"
  proof (cases "rq_stop rq")
    case (Some f)
    then have "length (case f of Stop_text s \<Rightarrow> [s] | Stop_list ss \<Rightarrow> ss) \<le> 4"
      using assms by (cases f) (simp_all add: valid_ChatCompletionRequest_def)
    then show ?thesis using le_trans [OF length_filter_le]
      by (auto simp: GenerationSettingsBuilder_stopSequencesOf_def Some Let_def list_all_iff Suc_le_eq)
  qed (simp add: GenerationSettingsBuilder_stopSequencesOf_def)
  with assms show ?thesis
    by (auto simp: valid_ChatCompletionRequest_def valid_GenerationSettings_def GenerationSettingsBuilder_askedForControlsOf_def
        unless_one_def no_settings_def split: option.split)
qed

lemma created_task_input:
  assumes "created_task p model t (prompt_or_history p t messages tools) settings = Inr input"
  shows "taskType input = t" "generationSettings input = settings"
    and "TaskInputFactory_acceptsTools t \<Longrightarrow> sent_tools input = (case tools of Some [] \<Rightarrow> None | _ \<Rightarrow> tools)"
proof -
  have made: "TaskInputFactory_createTaskInput p t (Some (prompt_or_history p t messages tools)) settings = Inr input"
    using assms by (auto simp: created_task_def map_sum_Inr)
  from created_input [OF made] show "taskType input = t" "generationSettings input = settings" .
  show "sent_tools input = (case tools of Some [] \<Rightarrow> None | _ \<Rightarrow> tools)" if "TaskInputFactory_acceptsTools t"
    using made that
    by (auto simp: task_input_defs TaskInputFactory_acceptsTools_def taskTypesAcceptingTools_def prompt_or_history_def
        TaskInputFactory_acceptsHistory_def taskTypesAcceptingHistory_def map_sum_Inr sent_tools_def HistoryBuilder_build_def)
qed

lemma declared_nonempty: "ToolTranslator_toProtocolTools tools \<noteq> Some []"
  by (auto simp: ToolTranslator_toProtocolTools_def split: option.splits list.splits)

lemma find_key: "distinct (map f xs) \<Longrightarrow> x \<in> set xs \<Longrightarrow> find (\<lambda>y. f y = f x) xs = Some x"
  by (induction xs) (auto simp: image_iff)

lemma type_of_name: "ModelCatalog_taskTypeNameOf m = Some t \<longleftrightarrow> type_name t = m"
proof -
  have "distinct (map type_name taskTypes)" by code_simp
  moreover have "t \<in> set taskTypes" by (cases t) (simp_all add: taskTypes_def)
  ultimately show ?thesis
    using find_key [of type_name taskTypes t] by (auto simp: ModelCatalog_taskTypeNameOf_def find_Some_iff)
qed


text \<open>A request that asks one model for a temperature and a shape.\<close>

definition shaped_env :: api_env where
  "shaped_env = \<lparr>apiPlatform = \<lparr>Number_of = (\<lambda>_. NaN), Number_text = (\<lambda>_. ''0''), JSON_parse = (\<lambda>_. None)\<rparr>,
     apiUUID = (\<lambda>n. replicate n CHR ''u''), compiles = (\<lambda>_. None)\<rparr>"

definition shaped_request :: chat_request where
  "shaped_request = (as_chat_request \<lparr>rr_model = ''llm_gemma_4_e2b_full'', rr_input = Inl [], rr_instructions = None,
     rr_stream = None, rr_tools = None, rr_tool_choice = None, rr_parallel_tool_calls = None\<rparr> [user_message ''Hi''])
     \<lparr>rq_temperature := Some 2, rq_response_format := Some (Format_json_schema ''answer'' None)\<rparr>"


section \<open>What the Responses interface leaves out\<close>

text \<open>A message that carries a picture beside its text is left out whole, and what is asked of the model is not.\<close>

lemma picture_message_left_out:
  "ResponsesTranslator_toChatMessages u (Some ''Be brief.'') (Inr [JObject [(''type'', JString ''message''),
     (''role'', JString ''user''), (''content'', JArray [JObject [(''type'', JString ''input_text''),
       (''text'', JString ''What is this?'')], JObject [(''type'', JString ''input_image'')]])]])
   = [\<lparr>cm_role = Chat_system, cm_content = Some ''Be brief.'', cm_tool_calls = None, cm_tool_call_id = None\<rparr>]"
  by code_simp

end
