(* ===== verification/Openai_Routes.thy ===== *)
theory Openai_Routes
  imports Openai_Api
begin

text \<open>
  Answering over HTTP (\<open>src/packages/consumer_openai/src/http/openai_routes.ts\<close>, \<open>responses_stream_writer.ts\<close>): what is
  written to a response, as one whole body or as a stream of pieces, and what is kept for the transaction log. A
  response is what was written to it, in order, with whether it was ended. A task's pieces and its answer, or the
  failure instead of one, arrive as the runner reports them. Every request has a transaction record, as \<open>router\<close>
  gives it one. Identifiers are drawn at a position of the stream; the moments are arguments.
\<close>

section \<open>A response\<close>

datatype http_frame =
    Json_body json
  | Data json
  | Event string json
  | Done_line

fun frame_text :: "js_platform \<Rightarrow> http_frame \<Rightarrow> string" where
  "frame_text p (Json_body body) = stringify p body"
| "frame_text p (Data chunk) = ''data: '' @ stringify p chunk @ ''\<newline>\<newline>''"
| "frame_text p (Event name body) = ''event: '' @ name @ ''\<newline>data: '' @ stringify p body @ ''\<newline>\<newline>''"
| "frame_text p Done_line = ''data: [DONE]\<newline>\<newline>''"

record http_response =
  resp_status :: nat
  resp_headers :: "(string \<times> string) list"
  resp_frames :: "http_frame list"
  writableEnded :: bool

definition fresh_response :: http_response where
  "fresh_response = \<lparr>resp_status = 200, resp_headers = [], resp_frames = [], writableEnded = False\<rparr>"

definition write_frame :: "http_frame \<Rightarrow> http_response \<Rightarrow> http_response" where
  "write_frame f r = r\<lparr>resp_frames := resp_frames r @ [f]\<rparr>"

definition answer_json :: "nat \<Rightarrow> (string \<times> string) list \<Rightarrow> json \<Rightarrow> http_response \<Rightarrow> http_response" where
  "answer_json status headers body r =
     (write_frame (Json_body body) r)\<lparr>resp_status := status, resp_headers := headers, writableEnded := True\<rparr>"

section \<open>The transaction record\<close>

datatype transaction_outcome = Outcome_completed | Outcome_failed | Outcome_cancelled

datatype auth_outcome = Auth_not_required | Auth_ok | Auth_failed

record transaction =
  tr_id :: string
  tr_receivedAt :: int
  tr_model :: "string option"
  tr_authOutcome :: "auth_outcome option"
  tr_gatewayTaskRequestId :: "string option"
  tr_gatewayTaskId :: "string option"
  tr_respondedAt :: "int option"
  tr_outcome :: "transaction_outcome option"
  tr_status :: "nat option"
  tr_responseType :: "string option"
  tr_responseBody :: "json option"

record exchange =
  response :: http_response
  transaction :: transaction

definition begin_transaction :: "string \<Rightarrow> int \<Rightarrow> exchange" where
  "begin_transaction minted receivedAt =
     \<lparr>response = fresh_response,
      transaction = \<lparr>tr_id = minted, tr_receivedAt = receivedAt, tr_model = None, tr_authOutcome = None,
        tr_gatewayTaskRequestId = None, tr_gatewayTaskId = None, tr_respondedAt = None, tr_outcome = None,
        tr_status = None, tr_responseType = None, tr_responseBody = None\<rparr>\<rparr>"

definition note_correlation :: "string \<Rightarrow> task_id option \<Rightarrow> exchange \<Rightarrow> exchange" where
  "note_correlation requestId tid x =
     (let tr = (transaction x)\<lparr>tr_gatewayTaskRequestId := Some requestId\<rparr>
      in x\<lparr>transaction := (case tid of None \<Rightarrow> tr | Some t \<Rightarrow> tr\<lparr>tr_gatewayTaskId := Some t\<rparr>)\<rparr>)"

text \<open>What is logged when the response closes.\<close>

record logged_transaction =
  lg_transaction :: transaction
  lg_authOutcome :: auth_outcome
  lg_outcome :: transaction_outcome
  lg_status :: nat
  lg_responseType :: string
  lg_responseBody :: "json option"
  lg_elapsedMs :: int
  lg_isCallerDisconnected :: bool

definition default_to :: "'a \<Rightarrow> 'a option \<Rightarrow> 'a" where
  "default_to d x = (case x of None \<Rightarrow> d | Some v \<Rightarrow> v)"

definition on_response_close :: "int \<Rightarrow> exchange \<Rightarrow> logged_transaction" where
  "on_response_close now x =
     (let tr = transaction x; gone = \<not> writableEnded (response x)
      in \<lparr>lg_transaction = tr, lg_authOutcome = default_to Auth_not_required (tr_authOutcome tr),
          lg_outcome = (if gone then Outcome_cancelled else default_to Outcome_failed (tr_outcome tr)),
          lg_status = (if gone then 0 else default_to 0 (tr_status tr)),
          lg_responseType = (if gone then ''none'' else default_to ''none'' (tr_responseType tr)),
          lg_responseBody = (if gone then None else tr_responseBody tr),
          lg_elapsedMs = default_to now (tr_respondedAt tr) - tr_receivedAt tr,
          lg_isCallerDisconnected = gone\<rparr>)"

definition OpenaiRoutes_sendFailure :: "int \<Rightarrow> openai_error \<Rightarrow> exchange \<Rightarrow> exchange" where
  "OpenaiRoutes_sendFailure now failure x =
     (let x1 = x\<lparr>transaction := (transaction x)\<lparr>tr_respondedAt := Some now, tr_outcome := Some Outcome_failed,
          tr_status := Some (err_status failure), tr_responseType := Some ''error'',
          tr_responseBody := Some (OpenaiError_body failure)\<rparr>\<rparr>
      in if writableEnded (response x1) then x1
         else x1\<lparr>response := answer_json (err_status failure) [] (OpenaiError_body failure) (response x1)\<rparr>)"

section \<open>The key of a request\<close>

definition lower_char :: "char \<Rightarrow> char" where
  "lower_char c = (let n = of_char c :: nat in if 65 \<le> n \<and> n \<le> 90 then char_of (n + 32) else c)"

text \<open>The header is the text of \<open>Authorization\<close>, empty when there is none.\<close>

definition presented_key :: "string \<Rightarrow> string option" where
  "presented_key header = (if map lower_char (take 7 header) = ''bearer '' then Some (drop 7 header) else None)"

definition OpenaiRoutes_checkApiKey :: "string option \<Rightarrow> string \<Rightarrow> openai_error option" where
  "OpenaiRoutes_checkApiKey apiKey header =
     (case apiKey of
        None \<Rightarrow> None
      | Some key \<Rightarrow> if presented_key header = Some key then None else Some OpenaiError_authenticationFailed)"

text \<open>The middleware before both routes: \<open>Inl\<close> the exchange that was refused, \<open>Inr\<close> the one that goes on.\<close>

definition check_key :: "int \<Rightarrow> string option \<Rightarrow> string \<Rightarrow> exchange \<Rightarrow> exchange + exchange" where
  "check_key now apiKey header x =
     (case OpenaiRoutes_checkApiKey apiKey header of
        Some failure \<Rightarrow>
          Inl (OpenaiRoutes_sendFailure now failure (x\<lparr>transaction := (transaction x)\<lparr>tr_authOutcome := Some Auth_failed\<rparr>\<rparr>))
      | None \<Rightarrow> Inr (if apiKey = None then x else x\<lparr>transaction := (transaction x)\<lparr>tr_authOutcome := Some Auth_ok\<rparr>\<rparr>))"

section \<open>Health and models\<close>

definition health_route :: "runner \<Rightarrow> string \<Rightarrow> http_response \<Rightarrow> http_response" where
  "health_route r commitSha resp =
     answer_json (if isGatewayConnected r then 200 else 503) []
       (JObject [(''isHealthy'', JBool (isGatewayConnected r)), (''isGatewayConnected'', JBool (isGatewayConnected r)),
         (''tasksInFlight'', JNumber (of_nat (tasksInFlight r))), (''commitSha'', JString commitSha)]) resp"

text \<open>\<open>available\<close> is the answer of \<open>ModelAvailability\<close>: the models, or why they could not be asked for.\<close>

definition OpenaiRoutes_handleModelList ::
  "nat \<Rightarrow> string \<Rightarrow> string + string list \<Rightarrow> http_response \<Rightarrow> openai_error + http_response" where
  "OpenaiRoutes_handleModelList startedAtSeconds gatewayUrl available resp =
     (case available of
        Inl reason \<Rightarrow> Inl (OpenaiError_gatewayUnavailable
          (''The models on offer could not be read, because the central gateway at '' @ gatewayUrl @
           '' could not be asked which models the connected workers can run: '' @ reason @ ''.''))
      | Inr modelIds \<Rightarrow> Inr (answer_json 200 [] (ModelCatalog_list startedAtSeconds modelIds) resp))"

section \<open>One whole chat completion\<close>

record answering =
  ans_env :: api_env
  ans_id :: string
  ans_created :: int
  ans_model :: string
  ans_tools :: "tool_declaration list option"
  ans_mint :: nat

definition OpenaiRoutes_usageOf :: "task_answer \<Rightarrow> json option" where
  "OpenaiRoutes_usageOf answer =
     map_option (\<lambda>(i, c, total). JObject [(''prompt_tokens'', JNumber (of_int i)), (''completion_tokens'', JNumber (of_int c)),
       (''total_tokens'', JNumber (of_int total))]) (token_usage answer)"

definition asked_for_tools :: "task_answer \<Rightarrow> bool" where
  "asked_for_tools answer \<longleftrightarrow> (case ans_toolCalls answer of None \<Rightarrow> False | Some calls \<Rightarrow> calls \<noteq> [])"

definition finish_reason_of :: "task_answer \<Rightarrow> openai_error + finish_reason" where
  "finish_reason_of answer =
     (if asked_for_tools answer then Inr Finish_tool_calls else FinishReasonTranslator_translate (ans_stopReason answer))"

definition openai_calls_of :: "answering \<Rightarrow> task_answer \<Rightarrow> chat_tool_call list" where
  "openai_calls_of a answer =
     ToolTranslator_toOpenaiToolCalls (apiPlatform (ans_env a)) (apiUUID (ans_env a)) (ans_mint a)
       (default_to [] (ans_tools a)) (default_to [] (ans_toolCalls answer))"

definition call_fields :: "chat_tool_call \<Rightarrow> (string \<times> json) list" where
  "call_fields c = [(''id'', JString (ctc_id c)), (''type'', JString ''function''),
     (''function'', JObject [(''name'', JString (ctc_name c)), (''arguments'', JString (ctc_arguments c))])]"

definition completion_body :: "answering \<Rightarrow> task_answer \<Rightarrow> finish_reason \<Rightarrow> json" where
  "completion_body a answer reason = JObject
     ([(''id'', JString (ans_id a)), (''object'', JString ''chat.completion''), (''created'', JNumber (of_int (ans_created a))),
       (''model'', JString (ans_model a)),
       (''choices'', JArray [JObject
          [(''index'', JNumber 0),
           (''message'', JObject ([(''role'', JString ''assistant''), (''content'', JString (ans_text answer))] @
              (if asked_for_tools answer then [(''tool_calls'', JArray (map (JObject \<circ> call_fields) (openai_calls_of a answer)))]
               else []))),
           (''logprobs'', JNull), (''finish_reason'', JString (finish_reason_name reason))]])] @
      (case OpenaiRoutes_usageOf answer of None \<Rightarrow> [] | Some u \<Rightarrow> [(''usage'', u)]))"

text \<open>The half of \<open>_handleChatCompletion\<close> after the runner answered, for a caller that wants the whole answer.\<close>

definition complete_chat :: "answering \<Rightarrow> nat \<Rightarrow> int \<Rightarrow> task_answer \<Rightarrow> exchange \<Rightarrow> openai_error + exchange" where
  "complete_chat a generationTimeMs now answer x =
     map_sum id (\<lambda>reason.
       let body = completion_body a answer reason;
         x1 = x\<lparr>transaction := (transaction x)\<lparr>tr_respondedAt := Some now, tr_outcome := Some Outcome_completed,
           tr_status := Some 200, tr_responseType := Some ''chat.completion'', tr_responseBody := Some body\<rparr>\<rparr>
       in if writableEnded (response x1) then x1
          else x1\<lparr>response := answer_json 200 [(''X-Webai-Generation-Time-Ms'', decimal generationTimeMs)] body (response x1)\<rparr>)
     (finish_reason_of answer)"

section \<open>A chat completion as it is written\<close>

record chat_stream =
  cs_exchange :: exchange
  cs_isAnythingWritten :: bool
  cs_answering :: answering
  cs_includeUsage :: bool

definition chunk_json :: "answering \<Rightarrow> json list \<Rightarrow> json \<Rightarrow> json" where
  "chunk_json a choices usage = JObject
     [(''id'', JString (ans_id a)), (''object'', JString ''chat.completion.chunk''),
      (''created'', JNumber (of_int (ans_created a))), (''model'', JString (ans_model a)), (''choices'', JArray choices),
      (''usage'', usage)]"

definition choice_json :: "(string \<times> json) list \<Rightarrow> json \<Rightarrow> json" where
  "choice_json delta finishReason = JObject
     [(''index'', JNumber 0), (''delta'', JObject delta), (''logprobs'', JNull), (''finish_reason'', finishReason)]"

definition writeChunk :: "nat \<Rightarrow> json \<Rightarrow> chat_stream \<Rightarrow> chat_stream" where
  "writeChunk elapsedMs choice st =
     (let x = cs_exchange st; r = response x
      in if writableEnded r then st
         else
           let r1 = (if cs_isAnythingWritten st then r
               else r\<lparr>resp_status := 200, resp_headers :=
                 [(''Content-Type'', ''text/event-stream; charset=utf-8''), (''Cache-Control'', ''no-cache''),
                  (''Connection'', ''keep-alive''), (''X-Webai-Time-To-First-Piece-Ms'', decimal elapsedMs)]\<rparr>);
             tr = (if cs_isAnythingWritten st then transaction x
               else (transaction x)\<lparr>tr_status := Some 200, tr_responseType := Some ''chat.completion.chunk''\<rparr>)
           in st\<lparr>cs_exchange := x\<lparr>response := write_frame (Data (chunk_json (cs_answering st) [choice] JNull)) r1, transaction := tr\<rparr>,
                 cs_isAnythingWritten := True\<rparr>)"

definition writeUsageChunk :: "json \<Rightarrow> chat_stream \<Rightarrow> chat_stream" where
  "writeUsageChunk usage st =
     (if \<not> cs_includeUsage st then st
      else if writableEnded (response (cs_exchange st)) then st
      else st\<lparr>cs_exchange := (cs_exchange st)\<lparr>response :=
        write_frame (Data (chunk_json (cs_answering st) [] usage)) (response (cs_exchange st))\<rparr>\<rparr>)"

definition OpenaiRoutes_endStream :: "chat_stream \<Rightarrow> chat_stream" where
  "OpenaiRoutes_endStream st =
     (if writableEnded (response (cs_exchange st)) then st
      else st\<lparr>cs_exchange := (cs_exchange st)\<lparr>response := (write_frame Done_line (response (cs_exchange st)))\<lparr>writableEnded := True\<rparr>\<rparr>\<rparr>)"

definition role_choice :: json where
  "role_choice = choice_json [(''role'', JString ''assistant'')] JNull"

definition content_choice :: "string \<Rightarrow> json" where
  "content_choice t = choice_json [(''content'', JString t)] JNull"

definition chat_piece :: "nat \<Rightarrow> string \<Rightarrow> chat_stream \<Rightarrow> chat_stream" where
  "chat_piece ms piece st =
     writeChunk ms (content_choice piece) (if cs_isAnythingWritten st then st else writeChunk ms role_choice st)"

text \<open>The \<open>catch\<close> of the stream; before anything was written the failure has a status.\<close>

definition chat_failed :: "int \<Rightarrow> openai_error \<Rightarrow> chat_stream \<Rightarrow> chat_stream" where
  "chat_failed now failure st =
     (if \<not> cs_isAnythingWritten st then st\<lparr>cs_exchange := OpenaiRoutes_sendFailure now failure (cs_exchange st)\<rparr>
      else
        let x = cs_exchange st;
          x1 = x\<lparr>transaction := (transaction x)\<lparr>tr_respondedAt := Some now, tr_outcome := Some Outcome_failed,
            tr_responseBody := Some (OpenaiError_body failure)\<rparr>\<rparr>;
          x2 = (if writableEnded (response x1) then x1
                else x1\<lparr>response := write_frame (Data (OpenaiError_body failure)) (response x1)\<rparr>)
        in OpenaiRoutes_endStream (st\<lparr>cs_exchange := x2\<rparr>))"

definition calls_choice :: "chat_tool_call list \<Rightarrow> json" where
  "calls_choice calls = choice_json [(''tool_calls'', JArray (map (\<lambda>(i, c). JObject ((''index'', JNumber (of_nat i)) # call_fields c))
     (List.enumerate 0 calls)))] JNull"

definition streamed_record :: "task_answer \<Rightarrow> json" where
  "streamed_record answer = JObject ([(''object'', JString ''chat.completion.chunk''), (''answer'', JString (ans_text answer))] @
     (if asked_for_tools answer then [(''toolCalls'', JArray (map (\<lambda>c. JObject [(''name'', JString (call_name c)),
        (''argumentValues'', JObject (map (\<lambda>(k, v). (k, JString v)) (call_argumentValues c)))])
        (default_to [] (ans_toolCalls answer))))] else []))"

text \<open>An answer that produced no pieces is sent as one.\<close>

definition with_text :: "nat \<Rightarrow> task_answer \<Rightarrow> chat_stream \<Rightarrow> chat_stream" where
  "with_text ms answer st =
     (if cs_isAnythingWritten st then st
      else let opened = writeChunk ms role_choice st
           in if ans_text answer \<noteq> [] then writeChunk ms (content_choice (ans_text answer)) opened else opened)"

definition chat_answered :: "nat \<Rightarrow> int \<Rightarrow> task_answer \<Rightarrow> chat_stream \<Rightarrow> chat_stream" where
  "chat_answered ms now answer st =
     (let st1 = with_text ms answer st;
        st2 = (if asked_for_tools answer then writeChunk ms (calls_choice (openai_calls_of (cs_answering st1) answer)) st1 else st1)
      in case finish_reason_of answer of
           Inl failure \<Rightarrow> chat_failed now failure st2
         | Inr reason \<Rightarrow>
             let st3 = writeChunk ms (choice_json [] (JString (finish_reason_name reason))) st2;
               st4 = (case OpenaiRoutes_usageOf answer of None \<Rightarrow> st3 | Some u \<Rightarrow> writeUsageChunk u st3);
               x = cs_exchange st4
             in OpenaiRoutes_endStream (st4\<lparr>cs_exchange := x\<lparr>transaction := (transaction x)\<lparr>tr_respondedAt := Some now,
                  tr_outcome := Some Outcome_completed, tr_responseBody := Some (streamed_record answer)\<rparr>\<rparr>\<rparr>))"

section \<open>What a client reads\<close>

record client_answer =
  read_text :: string
  read_calls :: "(string option \<times> json option) list"
  read_finish :: "string list"
  read_usage :: "json list"

definition first_choice :: "json \<Rightarrow> json" where
  "first_choice body = (case member ''choices'' body of Some (JArray (c # _)) \<Rightarrow> c | _ \<Rightarrow> JNull)"

definition message_text :: "json option \<Rightarrow> string" where
  "message_text m = default_to [] (Option.bind m (text_member ''content''))"

definition message_calls :: "json option \<Rightarrow> (string option \<times> json option) list" where
  "message_calls m = (case Option.bind m (member ''tool_calls'') of
     Some (JArray calls) \<Rightarrow> map (\<lambda>c. (text_member ''id'' c, member ''function'' c)) calls | _ \<Rightarrow> [])"

definition finish_of :: "json \<Rightarrow> string list" where
  "finish_of body = (case text_member ''finish_reason'' (first_choice body) of None \<Rightarrow> [] | Some t \<Rightarrow> [t])"

definition usage_of :: "json \<Rightarrow> json list" where
  "usage_of body = (case member ''usage'' body of None \<Rightarrow> [] | Some JNull \<Rightarrow> [] | Some u \<Rightarrow> [u])"

definition read_body :: "json \<Rightarrow> client_answer" where
  "read_body body =
     \<lparr>read_text = message_text (member ''message'' (first_choice body)),
      read_calls = message_calls (member ''message'' (first_choice body)), read_finish = finish_of body,
      read_usage = usage_of body\<rparr>"

text \<open>A client of a stream joins what its chunks add.\<close>

fun chunks_of :: "http_frame list \<Rightarrow> json list" where
  "chunks_of [] = []"
| "chunks_of (Data c # fs) = c # chunks_of fs"
| "chunks_of (_ # fs) = chunks_of fs"

definition read_stream :: "http_frame list \<Rightarrow> client_answer" where
  "read_stream fs =
     \<lparr>read_text = concat (map (\<lambda>c. message_text (member ''delta'' (first_choice c))) (chunks_of fs)),
      read_calls = concat (map (\<lambda>c. message_calls (member ''delta'' (first_choice c))) (chunks_of fs)),
      read_finish = concat (map finish_of (chunks_of fs)), read_usage = concat (map usage_of (chunks_of fs))\<rparr>"

definition open_chat_stream :: "answering \<Rightarrow> bool \<Rightarrow> exchange \<Rightarrow> chat_stream" where
  "open_chat_stream a includeUsage x =
     \<lparr>cs_exchange = x, cs_isAnythingWritten = False, cs_answering = a, cs_includeUsage = includeUsage\<rparr>"

definition chat_streamed :: "answering \<Rightarrow> bool \<Rightarrow> exchange \<Rightarrow> (nat \<times> string) list \<Rightarrow> chat_stream" where
  "chat_streamed a includeUsage x pieces =
     foldl (\<lambda>st (ms, piece). chat_piece ms piece st) (open_chat_stream a includeUsage x) pieces"

text \<open>A stream that is open, with the chunks it wrote.\<close>

definition open_with :: "answering \<Rightarrow> bool \<Rightarrow> json list \<Rightarrow> chat_stream \<Rightarrow> bool" where
  "open_with a u cs st \<longleftrightarrow> cs_answering st = a \<and> cs_includeUsage st = u \<and> cs_isAnythingWritten st = (cs \<noteq> [])
     \<and> \<not> writableEnded (response (cs_exchange st)) \<and> resp_frames (response (cs_exchange st)) = map Data cs"

lemma open_writeChunk: "open_with a u cs st \<Longrightarrow> open_with a u (cs @ [chunk_json a [c] JNull]) (writeChunk ms c st)"
  by (simp add: open_with_def writeChunk_def Let_def write_frame_def)

lemma open_pieces:
  assumes "open_with a u [] (open_chat_stream a u x)"
  shows "open_with a u (if pieces = [] then [] else
      chunk_json a [role_choice] JNull # map (\<lambda>(ms, t). chunk_json a [content_choice t] JNull) pieces) (chat_streamed a u x pieces)"
proof (induction pieces rule: rev_induct)
  case Nil
  from assms show ?case by (simp add: chat_streamed_def)
next
  case (snoc p pieces)
  obtain ms t where p: "p = (ms, t)" by (cases p)
  let ?st = "chat_streamed a u x pieces"
  have open_st: "open_with a u (chunk_json a [role_choice] JNull # map (\<lambda>(ms, t). chunk_json a [content_choice t] JNull) pieces)
      (if cs_isAnythingWritten ?st then ?st else writeChunk ms role_choice ?st)"
  proof (cases "pieces = []")
    case True
    with snoc.IH have "open_with a u [] ?st" by simp
    with open_writeChunk [OF this, of role_choice ms] True show ?thesis by (simp add: open_with_def)
  next
    case False
    with snoc.IH show ?thesis by (simp add: open_with_def)
  qed
  have "chat_streamed a u x (pieces @ [p]) = chat_piece ms t ?st" by (simp add: chat_streamed_def p)
  with open_writeChunk [OF open_st, of "content_choice t" ms] show ?case by (simp add: chat_piece_def p)
qed

lemma chunk_reads:
  "message_text (member ''delta'' (first_choice (chunk_json a [content_choice t] JNull))) = t"
  "message_text (member ''delta'' (first_choice (chunk_json a [role_choice] JNull))) = []"
  "message_text (member ''delta'' (first_choice (chunk_json a [calls_choice calls] JNull))) = []"
  "message_text (member ''delta'' (first_choice (chunk_json a [choice_json [] f] JNull))) = []"
  "message_calls (member ''delta'' (first_choice (chunk_json a [content_choice t] JNull))) = []"
  "message_calls (member ''delta'' (first_choice (chunk_json a [role_choice] JNull))) = []"
  "message_calls (member ''delta'' (first_choice (chunk_json a [choice_json [] f] JNull))) = []"
  "finish_of (chunk_json a [content_choice t] JNull) = []"
  "finish_of (chunk_json a [role_choice] JNull) = []"
  "finish_of (chunk_json a [calls_choice calls] JNull) = []"
  "finish_of (chunk_json a [choice_json [] (JString r)] JNull) = [r]"
  "usage_of (chunk_json a cs JNull) = []"
  by (simp_all add: message_text_def message_calls_def finish_of_def usage_of_def first_choice_def chunk_json_def choice_json_def
      content_choice_def role_choice_def calls_choice_def text_member_def default_to_def)

lemma calls_read: "message_calls (member ''delta'' (first_choice (chunk_json a [calls_choice calls] JNull))) =
    map (\<lambda>c. (Some (ctc_id c), Some (JObject [(''name'', JString (ctc_name c)), (''arguments'', JString (ctc_arguments c))]))) calls"
proof -
  have "map (\<lambda>(i, c). f c) (List.enumerate n calls) = map f calls" for f :: "chat_tool_call \<Rightarrow> 'b" and n
    by (induction calls arbitrary: n) simp_all
  then show ?thesis
    by (simp add: message_calls_def first_choice_def chunk_json_def choice_json_def calls_choice_def text_member_def
        call_fields_def comp_def case_prod_beta')
qed

lemma chunks_of_simps [simp]: "chunks_of (map Data cs) = cs" "chunks_of (fs @ gs) = chunks_of fs @ chunks_of gs"
proof -
  show "chunks_of (map Data cs) = cs" by (induction cs) simp_all
  show "chunks_of (fs @ gs) = chunks_of fs @ chunks_of gs" by (induction fs rule: chunks_of.induct) simp_all
qed

definition joins :: "json list \<Rightarrow> client_answer" where
  "joins cs = read_stream (map Data cs)"

lemma joins_snoc:
  "joins (cs @ [c]) = \<lparr>read_text = read_text (joins cs) @ message_text (member ''delta'' (first_choice c)),
     read_calls = read_calls (joins cs) @ message_calls (member ''delta'' (first_choice c)),
     read_finish = read_finish (joins cs) @ finish_of c, read_usage = read_usage (joins cs) @ usage_of c\<rparr>"
  by (simp add: joins_def read_stream_def)

lemma joins_pieces:
  "joins (chunk_json a [role_choice] JNull # map (\<lambda>(ms, t). chunk_json a [content_choice t] JNull) pieces) =
    \<lparr>read_text = concat (map snd pieces), read_calls = [], read_finish = [], read_usage = []\<rparr>"
  by (induction pieces rule: rev_induct)
    (simp_all add: joins_def read_stream_def chunk_reads case_prod_beta)

lemma whole_text_streamed:
  assumes x: "resp_frames (response x) = []" "\<not> writableEnded (response x)"
    and said: "pieces = [] \<or> concat (map snd pieces) = ans_text answer"
  shows "\<exists>cs. open_with a u cs (with_text ms answer (chat_streamed a u x pieces)) \<and> cs \<noteq> []
    \<and> joins cs = \<lparr>read_text = ans_text answer, read_calls = [], read_finish = [], read_usage = []\<rparr>"
proof -
  have start: "open_with a u [] (open_chat_stream a u x)" using x by (simp add: open_with_def open_chat_stream_def)
  note streamed = open_pieces [OF start, of pieces]
  show ?thesis
  proof (cases "pieces = []")
    case False
    with streamed have "with_text ms answer (chat_streamed a u x pieces) = chat_streamed a u x pieces"
      by (simp add: open_with_def with_text_def)
    with streamed False said joins_pieces [of a pieces] show ?thesis by auto
  next
    case True
    let ?st = "chat_streamed a u x pieces"
    from streamed True have st: "open_with a u [] ?st" by simp
    from open_writeChunk [OF this, of role_choice ms]
    have opened: "open_with a u [chunk_json a [role_choice] JNull] (writeChunk ms role_choice ?st)" by simp
    have unwritten: "\<not> cs_isAnythingWritten ?st" using st by (simp add: open_with_def)
    show ?thesis
    proof (cases "ans_text answer = []")
      case True
      with opened unwritten joins_pieces [of a "[]"] show ?thesis
        by (intro exI [of _ "[chunk_json a [role_choice] JNull]"]) (simp add: with_text_def)
    next
      case False
      with open_writeChunk [OF opened, of "content_choice (ans_text answer)" ms] unwritten
        joins_pieces [of a "[(ms, ans_text answer)]"]
      show ?thesis
        by (intro exI [of _ "[chunk_json a [role_choice] JNull, chunk_json a [content_choice (ans_text answer)] JNull]"])
          (simp add: with_text_def)
    qed
  qed
qed

definition calls_read_back :: "chat_tool_call list \<Rightarrow> (string option \<times> json option) list" where
  "calls_read_back calls =
     map (\<lambda>c. (Some (ctc_id c), Some (JObject [(''name'', JString (ctc_name c)), (''arguments'', JString (ctc_arguments c))]))) calls"

definition streamed_calls :: "answering \<Rightarrow> task_answer \<Rightarrow> (string option \<times> json option) list" where
  "streamed_calls a answer = (if asked_for_tools answer then calls_read_back (openai_calls_of a answer) else [])"

lemma whole_answer_streamed:
  assumes "resp_frames (response x) = []" and "\<not> writableEnded (response x)"
    and "pieces = [] \<or> concat (map snd pieces) = ans_text answer"
  obtains cs st where "open_with a u cs st" and "cs \<noteq> []"
    and "joins cs = \<lparr>read_text = ans_text answer, read_calls = streamed_calls a answer, read_finish = [], read_usage = []\<rparr>"
    and "chat_answered ms now answer (chat_streamed a u x pieces) =
      (case finish_reason_of answer of
         Inl failure \<Rightarrow> chat_failed now failure st
       | Inr reason \<Rightarrow>
           let st3 = writeChunk ms (choice_json [] (JString (finish_reason_name reason))) st;
             st4 = (case OpenaiRoutes_usageOf answer of None \<Rightarrow> st3 | Some u \<Rightarrow> writeUsageChunk u st3);
             x = cs_exchange st4
           in OpenaiRoutes_endStream (st4\<lparr>cs_exchange := x\<lparr>transaction := (transaction x)\<lparr>tr_respondedAt := Some now,
                tr_outcome := Some Outcome_completed, tr_responseBody := Some (streamed_record answer)\<rparr>\<rparr>\<rparr>))"
proof -
  let ?st1 = "with_text ms answer (chat_streamed a u x pieces)"
  from whole_text_streamed [OF assms] obtain cs where cs: "open_with a u cs ?st1" "cs \<noteq> []"
    and joined: "joins cs = \<lparr>read_text = ans_text answer, read_calls = [], read_finish = [], read_usage = []\<rparr>" by blast
  let ?calls = "openai_calls_of a answer"
  let ?st2 = "if asked_for_tools answer then writeChunk ms (calls_choice ?calls) ?st1 else ?st1"
  have a: "cs_answering ?st1 = a" using cs(1) by (simp add: open_with_def)
  have answered: "chat_answered ms now answer (chat_streamed a u x pieces) =
      (case finish_reason_of answer of
         Inl failure \<Rightarrow> chat_failed now failure ?st2
       | Inr reason \<Rightarrow>
           let st3 = writeChunk ms (choice_json [] (JString (finish_reason_name reason))) ?st2;
             st4 = (case OpenaiRoutes_usageOf answer of None \<Rightarrow> st3 | Some u \<Rightarrow> writeUsageChunk u st3);
             x = cs_exchange st4
           in OpenaiRoutes_endStream (st4\<lparr>cs_exchange := x\<lparr>transaction := (transaction x)\<lparr>tr_respondedAt := Some now,
                tr_outcome := Some Outcome_completed, tr_responseBody := Some (streamed_record answer)\<rparr>\<rparr>\<rparr>))"
    unfolding chat_answered_def Let_def a ..
  show thesis
  proof (cases "asked_for_tools answer")
    case True
    show thesis
    proof (rule that [OF _ _ _ answered])
      show "open_with a u (cs @ [chunk_json a [calls_choice ?calls] JNull]) ?st2" using open_writeChunk [OF cs(1)] True by simp
      show "joins (cs @ [chunk_json a [calls_choice ?calls] JNull]) = \<lparr>read_text = ans_text answer,
          read_calls = streamed_calls a answer, read_finish = [], read_usage = []\<rparr>"
        by (simp add: joins_snoc joined chunk_reads calls_read streamed_calls_def calls_read_back_def True)
    qed simp
  next
    case False
    show thesis
    proof (rule that [OF _ cs(2) _ answered])
      show "open_with a u cs ?st2" using cs(1) False by simp
      show "joins cs = \<lparr>read_text = ans_text answer, read_calls = streamed_calls a answer, read_finish = [], read_usage = []\<rparr>"
        by (simp add: joined streamed_calls_def False)
    qed
  qed
qed

lemma body_reads:
  "read_body (completion_body a answer reason) = \<lparr>read_text = ans_text answer, read_calls = streamed_calls a answer,
     read_finish = [finish_reason_name reason], read_usage = (case OpenaiRoutes_usageOf answer of None \<Rightarrow> [] | Some u \<Rightarrow> [u])\<rparr>"
proof -
  have "OpenaiRoutes_usageOf answer \<noteq> Some JNull" by (auto simp: OpenaiRoutes_usageOf_def)
  then show ?thesis
    by (auto simp: read_body_def completion_body_def first_choice_def message_text_def message_calls_def finish_of_def usage_of_def
        text_member_def default_to_def streamed_calls_def calls_read_back_def call_fields_def
        split: option.splits json.splits)
qed

lemma usage_chunk_reads:
  assumes "OpenaiRoutes_usageOf answer = Some u"
  shows "message_text (member ''delta'' (first_choice (chunk_json a [] u))) = []"
    "message_calls (member ''delta'' (first_choice (chunk_json a [] u))) = []" "finish_of (chunk_json a [] u) = []"
    "usage_of (chunk_json a [] u) = [u]"
  using assms by (auto simp: OpenaiRoutes_usageOf_def message_text_def message_calls_def finish_of_def usage_of_def first_choice_def
      chunk_json_def text_member_def default_to_def)

lemma open_writeUsage:
  "open_with a u cs st \<Longrightarrow> cs \<noteq> [] \<Longrightarrow> open_with a u (if u then cs @ [chunk_json a [] us] else cs) (writeUsageChunk us st)"
  by (auto simp: open_with_def writeUsageChunk_def write_frame_def)


text \<open>An answer in two pieces, streamed to a client that asked for the token counts.\<close>

definition plain_answer :: task_answer where
  "plain_answer = \<lparr>ans_text = ''Hello'', ans_promptTokenCount = Some 3, ans_completionTokenCount = Some 2,
     ans_stopReason = Some End_of_sequence, ans_toolCalls = None\<rparr>"

definition plain_answering :: answering where
  "plain_answering = \<lparr>ans_env = shaped_env, ans_id = ''chatcmpl-1'', ans_created = 0, ans_model = ''m'', ans_tools = None,
     ans_mint = 1\<rparr>"


section \<open>The answers of the Responses interface\<close>

datatype responses_status = Status_in_progress | Status_completed | Status_failed

fun status_name :: "responses_status \<Rightarrow> string" where
  "status_name Status_in_progress = ''in_progress''"
| "status_name Status_completed = ''completed''"
| "status_name Status_failed = ''failed''"

record responses_answer =
  ra_id :: string
  ra_created_at :: int
  ra_completed_at :: "int option"
  ra_status :: responses_status
  ra_model :: string
  ra_output :: "responses_item list"
  ra_error :: "(string \<times> string) option"
  ra_tool_choice :: string
  ra_parallel_tool_calls :: bool
  ra_usage :: "(int \<times> int \<times> int) option"

fun choice_name :: "tool_choice \<Rightarrow> string" where
  "choice_name Choice_none = ''none''"
| "choice_name Choice_required = ''required''"
| "choice_name _ = ''auto''"

definition answer_shell :: "string \<Rightarrow> int \<Rightarrow> responses_request \<Rightarrow> responses_answer" where
  "answer_shell minted now rr =
     \<lparr>ra_id = ''resp_'' @ minted, ra_created_at = now, ra_completed_at = None, ra_status = Status_in_progress,
      ra_model = rr_model rr, ra_output = [], ra_error = None,
      ra_tool_choice = (case rr_tool_choice rr of None \<Rightarrow> ''auto'' | Some c \<Rightarrow> choice_name c),
      ra_parallel_tool_calls = (rr_parallel_tool_calls rr = Some True), ra_usage = None\<rparr>"

definition text_part :: "string \<Rightarrow> json" where
  "text_part t = JObject [(''type'', JString ''output_text''), (''text'', JString t), (''annotations'', JArray [])]"

fun item_json :: "responses_item \<Rightarrow> json" where
  "item_json (Message_item i t) = JObject [(''id'', JString i), (''type'', JString ''message''), (''role'', JString ''assistant''),
     (''status'', JString ''completed''), (''content'', JArray [text_part t])]"
| "item_json (Function_call_item i callId name args) = JObject [(''id'', JString i), (''type'', JString ''function_call''),
     (''call_id'', JString callId), (''name'', JString name), (''arguments'', JString args), (''status'', JString ''completed'')]"

definition or_null :: "('a \<Rightarrow> json) \<Rightarrow> 'a option \<Rightarrow> json" where
  "or_null f x = (case x of None \<Rightarrow> JNull | Some v \<Rightarrow> f v)"

definition responses_json :: "responses_answer \<Rightarrow> json" where
  "responses_json a = JObject
     [(''id'', JString (ra_id a)), (''object'', JString ''response''), (''created_at'', JNumber (of_int (ra_created_at a))),
      (''completed_at'', or_null (JNumber \<circ> of_int) (ra_completed_at a)), (''status'', JString (status_name (ra_status a))),
      (''incomplete_details'', JNull), (''model'', JString (ra_model a)), (''output'', JArray (map item_json (ra_output a))),
      (''error'', or_null (\<lambda>(code, message). JObject [(''code'', JString code), (''message'', JString message)]) (ra_error a)),
      (''tool_choice'', JString (ra_tool_choice a)), (''parallel_tool_calls'', JBool (ra_parallel_tool_calls a)),
      (''usage'', or_null (\<lambda>(i, c, total). JObject [(''input_tokens'', JNumber (of_int i)), (''output_tokens'', JNumber (of_int c)),
         (''total_tokens'', JNumber (of_int total))]) (ra_usage a))]"

text \<open>The half of \<open>_handleResponses\<close> after the runner answered, for a caller that wants the whole answer.\<close>

definition unsupported_kinds_header :: "json list option \<Rightarrow> (string \<times> string) list" where
  "unsupported_kinds_header tools =
     (let kinds = ResponsesTranslator_unsupportedToolKinds tools
      in if kinds = [] then [] else [(''X-Webai-Unsupported-Tool-Kinds'', join_with '', '' kinds)])"

definition complete_responses ::
  "answering \<Rightarrow> json list option \<Rightarrow> nat \<Rightarrow> int \<Rightarrow> task_answer \<Rightarrow> responses_answer \<Rightarrow> exchange \<Rightarrow> responses_answer \<times> exchange" where
  "complete_responses a tools generationTimeMs now answer shell x =
     (let done_answer = shell\<lparr>ra_status := Status_completed, ra_completed_at := Some now,
          ra_output := ResponsesTranslator_toOutputItems (ans_env a) (ans_mint a) (ans_text answer) (ans_toolCalls answer) (ans_tools a),
          ra_usage := token_usage answer\<rparr>;
        x1 = x\<lparr>transaction := (transaction x)\<lparr>tr_respondedAt := Some now, tr_outcome := Some Outcome_completed,
          tr_status := Some 200, tr_responseType := Some ''response'', tr_responseBody := Some (responses_json done_answer)\<rparr>\<rparr>
      in (done_answer,
          if writableEnded (response x1) then x1
          else x1\<lparr>response := answer_json 200
            ((''X-Webai-Generation-Time-Ms'', decimal generationTimeMs) # unsupported_kinds_header tools)
            (responses_json done_answer) (response x1)\<rparr>))"

section \<open>The stream writer of the Responses interface\<close>

record stream_writer =
  w_response :: http_response
  w_answer :: responses_answer
  w_sequenceNumber :: nat
  w_outputIndex :: nat

definition ResponsesStreamWriter_constructor :: "http_response \<Rightarrow> responses_answer \<Rightarrow> stream_writer" where
  "ResponsesStreamWriter_constructor r a = \<lparr>w_response = r, w_answer = a, w_sequenceNumber = 0, w_outputIndex = 0\<rparr>"

definition ResponsesStreamWriter_write :: "string \<Rightarrow> (string \<times> json) list \<Rightarrow> stream_writer \<Rightarrow> stream_writer" where
  "ResponsesStreamWriter_write eventName fs w =
     (if writableEnded (w_response w) then w
      else w\<lparr>w_sequenceNumber := w_sequenceNumber w + 1,
        w_response := write_frame (Event eventName (JObject ([(''type'', JString eventName)] @ fs @
          [(''sequence_number'', JNumber (of_nat (w_sequenceNumber w)))]))) (w_response w)\<rparr>)"

definition ResponsesStreamWriter_start :: "(string \<times> string) list \<Rightarrow> stream_writer \<Rightarrow> stream_writer" where
  "ResponsesStreamWriter_start extraHeaders w =
     (let w1 = w\<lparr>w_response := (w_response w)\<lparr>resp_status := 200, resp_headers :=
          [(''Content-Type'', ''text/event-stream; charset=utf-8''), (''Cache-Control'', ''no-cache, no-transform''),
           (''Connection'', ''keep-alive'')] @ extraHeaders\<rparr>\<rparr>;
        opening_answer = [(''response'', responses_json (w_answer w))]
      in ResponsesStreamWriter_write ''response.in_progress'' opening_answer
          (ResponsesStreamWriter_write ''response.created'' opening_answer w1))"

definition index_of_output :: "stream_writer \<Rightarrow> string \<times> json" where
  "index_of_output w = (''output_index'', JNumber (of_nat (w_outputIndex w)))"

definition content_index :: "string \<times> json" where
  "content_index = (''content_index'', JNumber 0)"

definition ResponsesStreamWriter_startMessageItem :: "string \<Rightarrow> stream_writer \<Rightarrow> stream_writer" where
  "ResponsesStreamWriter_startMessageItem itemId w =
     ResponsesStreamWriter_write ''response.content_part.added''
       [(''item_id'', JString itemId), index_of_output w, content_index, (''part'', text_part [])]
     (ResponsesStreamWriter_write ''response.output_item.added''
       [index_of_output w, (''item'', JObject [(''id'', JString itemId), (''type'', JString ''message''),
          (''status'', JString ''in_progress''), (''role'', JString ''assistant''), (''content'', JArray [])])] w)"

definition ResponsesStreamWriter_writeTextPiece :: "string \<Rightarrow> string \<Rightarrow> stream_writer \<Rightarrow> stream_writer" where
  "ResponsesStreamWriter_writeTextPiece itemId piece w =
     ResponsesStreamWriter_write ''response.output_text.delta''
       [(''item_id'', JString itemId), index_of_output w, content_index, (''delta'', JString piece)] w"

definition add_output :: "responses_item \<Rightarrow> stream_writer \<Rightarrow> stream_writer" where
  "add_output item w = w\<lparr>w_answer := (w_answer w)\<lparr>ra_output := ra_output (w_answer w) @ [item]\<rparr>, w_outputIndex := w_outputIndex w + 1\<rparr>"

definition ResponsesStreamWriter_finishMessageItem :: "responses_item \<Rightarrow> stream_writer \<Rightarrow> stream_writer" where
  "ResponsesStreamWriter_finishMessageItem item w =
     (case item of
        Function_call_item _ _ _ _ \<Rightarrow> w
      | Message_item i t \<Rightarrow> add_output item
          (ResponsesStreamWriter_write ''response.output_item.done'' [index_of_output w, (''item'', item_json item)]
          (ResponsesStreamWriter_write ''response.content_part.done''
            [(''item_id'', JString i), index_of_output w, content_index, (''part'', text_part t)]
          (ResponsesStreamWriter_write ''response.output_text.done''
            [(''item_id'', JString i), index_of_output w, content_index, (''text'', JString t)] w))))"

definition ResponsesStreamWriter_writeFunctionCallItem :: "responses_item \<Rightarrow> stream_writer \<Rightarrow> stream_writer" where
  "ResponsesStreamWriter_writeFunctionCallItem item w =
     (case item of
        Message_item _ _ \<Rightarrow> w
      | Function_call_item i callId name args \<Rightarrow> add_output item
          (ResponsesStreamWriter_write ''response.output_item.done'' [index_of_output w, (''item'', item_json item)]
          (ResponsesStreamWriter_write ''response.function_call_arguments.done''
            [(''item_id'', JString i), index_of_output w, (''arguments'', JString args)]
          (ResponsesStreamWriter_write ''response.output_item.added''
            [index_of_output w, (''item'', JObject [(''id'', JString i), (''type'', JString ''function_call''),
               (''status'', JString ''in_progress''), (''call_id'', JString callId), (''name'', JString name),
               (''arguments'', JString [])])] w))))"

definition ResponsesStreamWriter_writeMessageItem :: "responses_item \<Rightarrow> stream_writer \<Rightarrow> stream_writer" where
  "ResponsesStreamWriter_writeMessageItem item w =
     (case item of
        Function_call_item _ _ _ _ \<Rightarrow> ResponsesStreamWriter_writeFunctionCallItem item w
      | Message_item i t \<Rightarrow>
          let w1 = ResponsesStreamWriter_startMessageItem i w;
            w2 = (if t \<noteq> [] then ResponsesStreamWriter_writeTextPiece i t w1 else w1)
          in ResponsesStreamWriter_finishMessageItem item w2)"

definition end_response :: "stream_writer \<Rightarrow> stream_writer" where
  "end_response w = w\<lparr>w_response := (w_response w)\<lparr>writableEnded := True\<rparr>\<rparr>"

definition ResponsesStreamWriter_finish :: "int \<Rightarrow> (int \<times> int \<times> int) option \<Rightarrow> stream_writer \<Rightarrow> stream_writer" where
  "ResponsesStreamWriter_finish now usage w =
     (let w1 = w\<lparr>w_answer := (w_answer w)\<lparr>ra_status := Status_completed, ra_completed_at := Some now, ra_usage := usage\<rparr>\<rparr>
      in end_response (ResponsesStreamWriter_write ''response.completed'' [(''response'', responses_json (w_answer w1))] w1))"

definition ResponsesStreamWriter_fail :: "int \<Rightarrow> string \<Rightarrow> string \<Rightarrow> stream_writer \<Rightarrow> stream_writer" where
  "ResponsesStreamWriter_fail now code message w =
     (let w1 = w\<lparr>w_answer := (w_answer w)\<lparr>ra_status := Status_failed, ra_completed_at := Some now, ra_error := Some (code, message)\<rparr>\<rparr>
      in end_response (ResponsesStreamWriter_write ''response.failed'' [(''response'', responses_json (w_answer w1))] w1))"

definition ResponsesStreamWriter_hasWritten :: "stream_writer \<Rightarrow> bool" where
  "ResponsesStreamWriter_hasWritten w \<longleftrightarrow> 0 < w_sequenceNumber w"

section \<open>A Responses answer as it is written\<close>

record responses_stream =
  rs_writer :: stream_writer
  rs_transaction :: transaction
  rs_messageItemId :: string
  rs_isMessageStarted :: bool
  rs_writtenText :: string

definition responses_started :: "string \<Rightarrow> json list option \<Rightarrow> responses_answer \<Rightarrow> exchange \<Rightarrow> responses_stream" where
  "responses_started minted tools shell x =
     \<lparr>rs_writer = ResponsesStreamWriter_start (unsupported_kinds_header tools)
        (ResponsesStreamWriter_constructor (response x) shell),
      rs_transaction = (transaction x)\<lparr>tr_status := Some 200, tr_responseType := Some ''response.stream''\<rparr>,
      rs_messageItemId = ''msg_'' @ minted, rs_isMessageStarted = False, rs_writtenText = []\<rparr>"

definition responses_piece :: "string \<Rightarrow> responses_stream \<Rightarrow> responses_stream" where
  "responses_piece piece st =
     (let w = (if rs_isMessageStarted st then rs_writer st
          else ResponsesStreamWriter_startMessageItem (rs_messageItemId st) (rs_writer st))
      in st\<lparr>rs_isMessageStarted := True, rs_writtenText := rs_writtenText st @ piece,
            rs_writer := ResponsesStreamWriter_writeTextPiece (rs_messageItemId st) piece w\<rparr>)"

definition responses_answered :: "answering \<Rightarrow> int \<Rightarrow> task_answer \<Rightarrow> responses_stream \<Rightarrow> responses_stream" where
  "responses_answered a now answer st =
     (let st1 = (if \<not> rs_isMessageStarted st \<and> ans_text answer \<noteq> [] then responses_piece (ans_text answer) st else st);
        w1 = (if rs_isMessageStarted st1
          then ResponsesStreamWriter_finishMessageItem (Message_item (rs_messageItemId st1) (rs_writtenText st1)) (rs_writer st1)
          else rs_writer st1);
        items = ResponsesTranslator_toOutputItems (ans_env a) (ans_mint a) [] (ans_toolCalls answer) (ans_tools a);
        w2 = foldl (\<lambda>w item. ResponsesStreamWriter_writeFunctionCallItem item w) w1 items;
        w3 = ResponsesStreamWriter_finish now (token_usage answer) w2
      in st1\<lparr>rs_writer := w3, rs_transaction := (rs_transaction st1)\<lparr>tr_respondedAt := Some now,
           tr_outcome := Some Outcome_completed, tr_responseBody := Some (responses_json (w_answer w3))\<rparr>\<rparr>)"

text \<open>The \<open>catch\<close> of the stream: \<open>Inl\<close> when the failure can still be answered with a status.\<close>

definition responses_failed :: "int \<Rightarrow> openai_error \<Rightarrow> responses_stream \<Rightarrow> openai_error + responses_stream" where
  "responses_failed now failure st =
     (if \<not> ResponsesStreamWriter_hasWritten (rs_writer st) then Inl failure
      else
        let w = ResponsesStreamWriter_fail now (default_to ''server_error'' (err_code failure)) (err_message failure) (rs_writer st)
        in Inr (st\<lparr>rs_writer := w, rs_transaction := (rs_transaction st)\<lparr>tr_respondedAt := Some now,
             tr_outcome := Some Outcome_failed, tr_responseBody := Some (responses_json (w_answer w))\<rparr>\<rparr>))"

section \<open>What a stream of the Responses interface says\<close>

fun frame_number :: "http_frame \<Rightarrow> json option" where
  "frame_number (Event _ body) = member ''sequence_number'' body"
| "frame_number _ = None"

fun frame_delta :: "http_frame \<Rightarrow> string" where
  "frame_delta (Event name body) = (if name = ''response.output_text.delta'' then default_to [] (text_member ''delta'' body) else [])"
| "frame_delta _ = []"

definition numbered :: "http_frame list \<Rightarrow> bool" where
  "numbered fs \<longleftrightarrow> map frame_number fs = map (\<lambda>i. Some (JNumber (of_nat i))) [0..<length fs]"

definition deltas :: "http_frame list \<Rightarrow> string" where
  "deltas fs = concat (map frame_delta fs)"

fun item_content :: "responses_item \<Rightarrow> string + string \<times> string" where
  "item_content (Message_item _ t) = Inl t"
| "item_content (Function_call_item _ _ name args) = Inr (name, args)"

text \<open>A stream that is open, with the text and the items it has given of an answer.\<close>

definition streaming :: "responses_answer \<Rightarrow> string \<Rightarrow> responses_item list \<Rightarrow> stream_writer \<Rightarrow> bool" where
  "streaming shell t items w \<longleftrightarrow> \<not> writableEnded (w_response w) \<and> numbered (resp_frames (w_response w))
     \<and> w_sequenceNumber w = length (resp_frames (w_response w)) \<and> deltas (resp_frames (w_response w)) = t
     \<and> w_answer w = shell\<lparr>ra_output := items\<rparr>"

lemma member_of_event: "map_get fs ''sequence_number'' = None \<Longrightarrow>
    member ''sequence_number'' (JObject ([(''type'', ty)] @ fs @ [(''sequence_number'', n)])) = Some n"
  by (induction fs) (auto split: if_splits)

lemma write_event:
  assumes "streaming shell t items w" and "map_get fs ''sequence_number'' = None"
  shows "ResponsesStreamWriter_write name fs w =
      w\<lparr>w_sequenceNumber := w_sequenceNumber w + 1, w_response := write_frame (Event name (JObject ([(''type'', JString name)] @ fs @
        [(''sequence_number'', JNumber (of_nat (w_sequenceNumber w)))]))) (w_response w)\<rparr>"
    and "numbered (resp_frames (w_response (ResponsesStreamWriter_write name fs w)))"
  using assms member_of_event [OF assms(2)]
  by (simp_all add: ResponsesStreamWriter_write_def streaming_def numbered_def write_frame_def del: member.simps)

lemma streaming_write:
  assumes "streaming shell t items w" and "map_get fs ''sequence_number'' = None" and "name \<noteq> ''response.output_text.delta''"
  shows "streaming shell t items (ResponsesStreamWriter_write name fs w)"
  using assms write_event(2) [OF assms(1,2), of name] unfolding streaming_def write_event(1) [OF assms(1,2)]
  by (simp add: write_frame_def deltas_def)

lemma streaming_delta:
  assumes "streaming shell t items w"
  shows "streaming shell (t @ piece) items (ResponsesStreamWriter_writeTextPiece i piece w)"
proof -
  let ?fs = "[(''item_id'', JString i), index_of_output w, content_index, (''delta'', JString piece)]"
  have fs: "map_get ?fs ''sequence_number'' = None" by (simp add: index_of_output_def content_index_def)
  have "frame_delta (Event ''response.output_text.delta'' (JObject ([(''type'', ty)] @ ?fs @ [(''sequence_number'', n)]))) = piece"
    for ty n by (simp add: index_of_output_def content_index_def text_member_def default_to_def)
  then show ?thesis
    using assms write_event(2) [OF assms fs, of "''response.output_text.delta''"]
    unfolding ResponsesStreamWriter_writeTextPiece_def streaming_def write_event(1) [OF assms fs]
    by (simp add: write_frame_def deltas_def del: frame_delta.simps)
qed

lemma streaming_start_item: "streaming shell t items w \<Longrightarrow> streaming shell t items (ResponsesStreamWriter_startMessageItem i w)"
  unfolding ResponsesStreamWriter_startMessageItem_def
  by (intro streaming_write) (simp_all add: index_of_output_def content_index_def)

lemma streaming_add: "streaming shell t items w \<Longrightarrow> streaming shell t (items @ [item]) (add_output item w)"
  by (simp add: streaming_def add_output_def)

lemma streaming_finish_item:
  "streaming shell t items w \<Longrightarrow> streaming shell t (items @ [Message_item i s]) (ResponsesStreamWriter_finishMessageItem (Message_item i s) w)"
  unfolding ResponsesStreamWriter_finishMessageItem_def responses_item.case
  by (intro streaming_add streaming_write) (simp_all add: index_of_output_def content_index_def)

lemma streaming_calls:
  assumes "streaming shell t items w" and "\<forall>item \<in> set calls. \<exists>i c name args. item = Function_call_item i c name args"
  shows "streaming shell t (items @ calls) (foldl (\<lambda>w item. ResponsesStreamWriter_writeFunctionCallItem item w) w calls)"
  using assms
proof (induction calls arbitrary: items w)
  case (Cons item calls)
  then obtain i c name args where item: "item = Function_call_item i c name args" by auto
  have "streaming shell t (items @ [item]) (ResponsesStreamWriter_writeFunctionCallItem item w)"
    unfolding ResponsesStreamWriter_writeFunctionCallItem_def item responses_item.case
    by (intro streaming_add streaming_write Cons.prems(1)) (simp_all add: index_of_output_def)
  from Cons.IH [OF this] Cons.prems(2) show ?case by simp
qed simp

lemma streaming_started:
  assumes "resp_frames (response x) = []" and "\<not> writableEnded (response x)" and "ra_output shell = []"
  shows "streaming shell [] [] (rs_writer (responses_started minted tools shell x))"
proof -
  have "streaming shell [] [] ((ResponsesStreamWriter_constructor (response x) shell)\<lparr>w_response := (response x)\<lparr>resp_status := 200,
      resp_headers := hs\<rparr>\<rparr>)" for hs
    using assms by (simp add: streaming_def ResponsesStreamWriter_constructor_def numbered_def deltas_def)
  then show ?thesis
    unfolding responses_started_def ResponsesStreamWriter_start_def Let_def
    by (auto intro!: streaming_write simp: ResponsesStreamWriter_constructor_def)
qed

definition responses_streamed ::
  "string \<Rightarrow> json list option \<Rightarrow> responses_answer \<Rightarrow> exchange \<Rightarrow> string list \<Rightarrow> responses_stream" where
  "responses_streamed minted tools shell x pieces = foldl (\<lambda>st p. responses_piece p st) (responses_started minted tools shell x) pieces"

lemma piece_streams:
  assumes "streaming shell t items (rs_writer st)"
  shows "streaming shell (t @ p) items (rs_writer (responses_piece p st))"
  unfolding responses_piece_def Let_def using assms by (simp add: streaming_delta streaming_start_item)

lemma pieces_stream:
  assumes "resp_frames (response x) = []" and "\<not> writableEnded (response x)" and "ra_output shell = []"
  shows "streaming shell (concat pieces) [] (rs_writer (responses_streamed minted tools shell x pieces))"
    and "rs_writtenText (responses_streamed minted tools shell x pieces) = concat pieces"
    and "rs_isMessageStarted (responses_streamed minted tools shell x pieces) = (pieces \<noteq> [])"
proof -
  show "streaming shell (concat pieces) [] (rs_writer (responses_streamed minted tools shell x pieces))"
    by (induction pieces rule: rev_induct) (simp_all add: responses_streamed_def streaming_started [OF assms] piece_streams)
  show "rs_writtenText (responses_streamed minted tools shell x pieces) = concat pieces"
    by (induction pieces rule: rev_induct) (simp_all add: responses_streamed_def responses_started_def responses_piece_def)
  show "rs_isMessageStarted (responses_streamed minted tools shell x pieces) = (pieces \<noteq> [])"
    by (induction pieces rule: rev_induct) (simp_all add: responses_streamed_def responses_started_def responses_piece_def)
qed

lemma call_contents: "map (\<lambda>c. (ctc_name c, ctc_arguments c)) (ToolTranslator_toOpenaiToolCalls p u n ts calls) =
    map (\<lambda>c. (ctc_name c, ctc_arguments c)) (ToolTranslator_toOpenaiToolCalls p u m ts calls)"
  by (induction calls arbitrary: n m) auto

lemma map_enumerate: "(\<And>i c. f (i, c) = g c) \<Longrightarrow> map f (List.enumerate k xs) = map g xs"
  by (induction xs arbitrary: k) simp_all

definition call_items :: "api_env \<Rightarrow> nat \<Rightarrow> tool_call list option \<Rightarrow> tool_declaration list option \<Rightarrow> responses_item list" where
  "call_items e n calls tools = ResponsesTranslator_toOutputItems e n [] calls tools"

lemma output_contents:
  "map item_content (ResponsesTranslator_toOutputItems e n t calls tools) =
    (if t \<noteq> [] then [Inl t] else []) @ map item_content (call_items e m calls tools)"
proof -
  have "map item_content (map (\<lambda>(i, c). Function_call_item (f i) (ctc_id c) (ctc_name c) (ctc_arguments c)) (List.enumerate 0 cs)) =
      map (\<lambda>c. Inr (ctc_name c, ctc_arguments c)) cs" for f and cs :: "chat_tool_call list"
    by (simp add: comp_def case_prod_beta' map_enumerate)
  moreover have "map (\<lambda>c. Inr (ctc_name c, ctc_arguments c) :: string + string \<times> string) (ToolTranslator_toOpenaiToolCalls p u i ts cs) =
      map (\<lambda>c. Inr (ctc_name c, ctc_arguments c)) (ToolTranslator_toOpenaiToolCalls p u j ts cs)" for p u i j ts cs
    using arg_cong [OF call_contents [of p u i ts cs j], of "map Inr"] by (simp add: comp_def)
  ultimately show ?thesis
    unfolding call_items_def ResponsesTranslator_toOutputItems_def Let_def ResponsesTranslator_messageItemOf_def
    by (auto split: option.split)
qed

lemma call_items_calls: "item \<in> set (call_items e n calls tools) \<Longrightarrow> \<exists>i c name args. item = Function_call_item i c name args"
  by (auto simp: call_items_def ResponsesTranslator_toOutputItems_def split: option.splits)



text \<open>
  The Responses interface never looks at why an answer stopped. An answer the cluster gave up on before it finished
  is a failure for a client of chat completions, and a completed answer, whole or streamed, for a client of Responses,
  who is told nothing.
\<close>

theorem responses_hide_an_interruption:
  "isl (complete_chat a t now (answer\<lparr>ans_stopReason := Some Interrupted, ans_toolCalls := None\<rparr>) x)
   \<and> ra_status (fst (complete_responses a tools t now (answer\<lparr>ans_stopReason := Some Interrupted, ans_toolCalls := None\<rparr>) shell x))
       = Status_completed
   \<and> complete_responses a tools t now (answer\<lparr>ans_stopReason := Some Interrupted\<rparr>) shell x =
       complete_responses a tools t now (answer\<lparr>ans_stopReason := Some End_of_sequence\<rparr>) shell x
   \<and> responses_answered a now (answer\<lparr>ans_stopReason := Some Interrupted\<rparr>) st =
       responses_answered a now (answer\<lparr>ans_stopReason := Some End_of_sequence\<rparr>) st"
  by (simp add: complete_chat_def finish_reason_of_def asked_for_tools_def complete_responses_def responses_answered_def
      token_usage_def Let_def)

end
