(* ===== verification/Openai_Api_Client.thy ===== *)
theory Openai_Api_Client
  imports Openai_Routes
begin

text \<open>
  The worker that forwards a stage to a local server speaking the OpenAI-compatible interface: its client of that server
  (\<open>src/packages/worker_openai/src/libs/openai_api_client.ts\<close>). The body of a request, the list of models, and the
  stream of a chat completion, read line by line out of chunks of bytes. A chunk is the text it decodes to: a streaming
  \<open>TextDecoder\<close> gives texts that join to the text of the body. What \<open>JSON.parse\<close> gives is cast to the type of an
  event without a check, so a value of another type is an outcome of its own, \<open>Outside_types\<close>. The answer of \<open>fetch\<close> is
  an argument.
\<close>

section \<open>The body of a request\<close>

definition RESPONSE_FORMAT_NAME :: string where
  "RESPONSE_FORMAT_NAME = ''webai_at_home_response_format''"

definition ANY_OBJECT_JSON_SCHEMA :: "(string \<times> json) list" where
  "ANY_OBJECT_JSON_SCHEMA = [(''type'', JString ''object'')]"

fun history_role_name :: "history_role \<Rightarrow> string" where
  "history_role_name Role_system = ''system''"
| "history_role_name Role_user = ''user''"
| "history_role_name Role_assistant = ''assistant''"
| "history_role_name Role_tool = ''tool''"

fun reasoning_effort_name :: "reasoning_effort \<Rightarrow> string" where
  "reasoning_effort_name Effort_none = ''none''"
| "reasoning_effort_name Effort_minimal = ''minimal''"
| "reasoning_effort_name Effort_low = ''low''"
| "reasoning_effort_name Effort_medium = ''medium''"
| "reasoning_effort_name Effort_high = ''high''"
| "reasoning_effort_name Effort_xhigh = ''xhigh''"

record outgoing_tool_call =
  otc_id :: string
  otc_name :: string
  otc_arguments :: string

record outgoing_message =
  om_role :: history_role
  om_content :: string
  om_tool_calls :: "outgoing_tool_call list option"
  om_tool_call_id :: "string option"

fun minted_calls :: "js_platform \<Rightarrow> nat \<Rightarrow> tool_call list \<Rightarrow> outgoing_tool_call list" where
  "minted_calls p n [] = []"
| "minted_calls p n (call # calls) =
     \<lparr>otc_id = ''call_'' @ decimal n, otc_name = call_name call,
      otc_arguments = stringify p (JObject (map (\<lambda>(k, v). (k, JString v)) (call_argumentValues call)))\<rparr>
     # minted_calls p (Suc n) calls"

text \<open>The identifiers waiting for a result, and how many were minted, go from message to message.\<close>

fun messages_from :: "js_platform \<Rightarrow> string list \<Rightarrow> nat \<Rightarrow> history_message list \<Rightarrow> outgoing_message list" where
  "messages_from p awaited minted [] = []"
| "messages_from p awaited minted (m # ms) =
     (if msg_role m = Role_tool then
        \<lparr>om_role = Role_tool, om_content = msg_content m, om_tool_calls = None,
         om_tool_call_id = (case awaited of [] \<Rightarrow> None | i # _ \<Rightarrow> Some i)\<rparr> # messages_from p (tl awaited) minted ms
      else case msg_toolCalls m of
        None \<Rightarrow>
          \<lparr>om_role = msg_role m, om_content = msg_content m, om_tool_calls = None, om_tool_call_id = None\<rparr>
          # messages_from p awaited minted ms
      | Some calls \<Rightarrow>
          let toolCalls = minted_calls p minted calls
          in \<lparr>om_role = msg_role m, om_content = msg_content m, om_tool_calls = Some toolCalls, om_tool_call_id = None\<rparr>
             # messages_from p (map otc_id toolCalls) (minted + length calls) ms)"

definition OpenaiApiClient_messagesOf :: "js_platform \<Rightarrow> llm_task_value \<Rightarrow> outgoing_message list" where
  "OpenaiApiClient_messagesOf p promptOrHistory =
     (case promptOrHistory of
        Prompt t \<Rightarrow> [\<lparr>om_role = Role_user, om_content = t, om_tool_calls = None, om_tool_call_id = None\<rparr>]
      | History h \<Rightarrow> messages_from p [] 0 (history_messages h))"

definition optional_member :: "string \<Rightarrow> json option \<Rightarrow> (string \<times> json) list" where
  "optional_member k v = (case v of None \<Rightarrow> [] | Some x \<Rightarrow> [(k, x)])"

definition outgoing_call_json :: "outgoing_tool_call \<Rightarrow> json" where
  "outgoing_call_json c = JObject
     [(''id'', JString (otc_id c)), (''type'', JString ''function''),
      (''function'', JObject [(''name'', JString (otc_name c)), (''arguments'', JString (otc_arguments c))])]"

definition outgoing_message_json :: "outgoing_message \<Rightarrow> json" where
  "outgoing_message_json m = JObject
     ([(''role'', JString (history_role_name (om_role m))), (''content'', JString (om_content m))] @
      optional_member ''tool_call_id'' (map_option JString (om_tool_call_id m)) @
      optional_member ''tool_calls'' (map_option (\<lambda>cs. JArray (map outgoing_call_json cs)) (om_tool_calls m)))"

definition outgoing_tool_json :: "tool_declaration \<Rightarrow> json" where
  "outgoing_tool_json t = JObject
     [(''type'', JString ''function''),
      (''function'', JObject ([(''name'', JString (tool_name t))] @
         optional_member ''description'' (map_option JString (tool_description t)) @
         [(''parameters'', JObject (tool_parametersJsonSchema t))]))]"

definition OpenaiApiClient_toolFieldsOf :: "llm_task_value \<Rightarrow> (string \<times> json) list" where
  "OpenaiApiClient_toolFieldsOf promptOrHistory =
     (case promptOrHistory of
        Prompt _ \<Rightarrow> []
      | History h \<Rightarrow>
          (case history_tools h of
             None \<Rightarrow> []
           | Some [] \<Rightarrow> []
           | Some tools \<Rightarrow> [(''tools'', JArray (map outgoing_tool_json tools))]))"

definition OpenaiApiClient_generationControlsOf :: "generation_settings option \<Rightarrow> (string \<times> json) list" where
  "OpenaiApiClient_generationControlsOf asked =
     (case asked of
        None \<Rightarrow> []
      | Some gs \<Rightarrow>
          optional_member ''temperature'' (map_option JNumber (temperature gs)) @
          optional_member ''top_p'' (map_option JNumber (topP gs)) @
          optional_member ''max_tokens'' (map_option (\<lambda>n. JNumber (of_int n)) (maximumOutputTokenCount gs)) @
          optional_member ''stop'' (map_option (\<lambda>ss. JArray (map JString ss)) (stopSequences gs)) @
          optional_member ''seed'' (map_option (\<lambda>n. JNumber (of_int n)) (randomSeed gs)) @
          optional_member ''reasoning_effort'' (map_option (\<lambda>e. JString (reasoning_effort_name e)) (reasoningEffort gs)))"

definition OpenaiApiClient_responseFormatFieldOf :: "generation_settings option \<Rightarrow> (string \<times> json) list" where
  "OpenaiApiClient_responseFormatFieldOf asked =
     (case Option.bind asked responseFormat of
        None \<Rightarrow> []
      | Some format \<Rightarrow>
          let schema = (case format of Json_object \<Rightarrow> ANY_OBJECT_JSON_SCHEMA | Json_schema s \<Rightarrow> s)
          in [(''response_format'', JObject
               [(''type'', JString ''json_schema''),
                (''json_schema'', JObject [(''name'', JString RESPONSE_FORMAT_NAME), (''schema'', JObject schema)])])])"

definition chat_completion_request ::
  "js_platform \<Rightarrow> string \<Rightarrow> llm_task_value \<Rightarrow> generation_settings option \<Rightarrow> json" where
  "chat_completion_request p modelId promptOrHistory asked = JObject
     ([(''model'', JString modelId), (''stream'', JBool True),
       (''stream_options'', JObject [(''include_usage'', JBool True)]),
       (''messages'', JArray (map outgoing_message_json (OpenaiApiClient_messagesOf p promptOrHistory)))] @
      OpenaiApiClient_toolFieldsOf promptOrHistory @
      OpenaiApiClient_generationControlsOf asked @
      OpenaiApiClient_responseFormatFieldOf asked)"

definition OpenaiApiClient_authorizationHeader :: "string option \<Rightarrow> (string \<times> string) list" where
  "OpenaiApiClient_authorizationHeader apiKey =
     (case apiKey of None \<Rightarrow> [] | Some key \<Rightarrow> [(''Authorization'', ''Bearer '' @ key)])"

section \<open>The answer of the local server\<close>

text \<open>What \<open>fetch\<close> gives: it cannot be reached, or it answers with a status and a body.\<close>

datatype 'a fetched = Unreachable string | Answered nat 'a

text \<open>What is thrown: an error of this program with its message, or one of the engine's.\<close>

datatype thrown = Thrown string | Engine_error | Outside_types

definition could_not_be_reached :: "string \<Rightarrow> string \<Rightarrow> thrown" where
  "could_not_be_reached baseUrl reason = Thrown (''The server at '' @ baseUrl @ '' could not be reached: '' @ reason)"

definition status_ok :: "nat \<Rightarrow> bool" where
  "status_ok s \<longleftrightarrow> 200 \<le> s \<and> s < 300"

definition model_id :: "json \<Rightarrow> thrown + string" where
  "model_id entry = (case entry of
     JNull \<Rightarrow> Inl Engine_error
   | _ \<Rightarrow> (case member ''id'' entry of Some (JString s) \<Rightarrow> Inr s | _ \<Rightarrow> Inl Outside_types))"

fun all_or_thrown :: "('a \<Rightarrow> thrown + 'b) \<Rightarrow> 'a list \<Rightarrow> thrown + 'b list" where
  "all_or_thrown f [] = Inr []"
| "all_or_thrown f (x # xs) = sum_bind (f x) (\<lambda>y. map_sum id (\<lambda>ys. y # ys) (all_or_thrown f xs))"

text \<open>The body of a model list is \<open>None\<close> when it is not JSON.\<close>

definition OpenaiApiClient_listModelIds :: "string \<Rightarrow> json option fetched \<Rightarrow> thrown + string list" where
  "OpenaiApiClient_listModelIds baseUrl answer =
     (case answer of
        Unreachable reason \<Rightarrow> Inl (could_not_be_reached baseUrl reason)
      | Answered st body \<Rightarrow>
          if \<not> status_ok st then
            Inl (Thrown (''The server at '' @ baseUrl @ '' answered its model list with status '' @ decimal st))
          else (case body of
             None \<Rightarrow> Inl Engine_error
           | Some JNull \<Rightarrow> Inl Engine_error
           | Some b \<Rightarrow>
               (case member ''data'' b of
                  Some (JArray entries) \<Rightarrow> all_or_thrown model_id entries
                | _ \<Rightarrow> Inl (Thrown (''The server at '' @ baseUrl @ '' answered its model list without a \"data\" array'')))))"

section \<open>One event of a stream\<close>

record streamed_tool_call =
  sc_name :: string
  sc_argumentsJson :: string

record stream_usage =
  su_promptTokenCount :: "int option"
  su_completionTokenCount :: "int option"
  su_finishReason :: "string option"

text \<open>What reading a stream fills in, and the name of the event being read.\<close>

record stream_reading =
  sr_usage :: stream_usage
  sr_byIndex :: "(rat, streamed_tool_call) js_map"
  sr_eventName :: "string option"

definition fresh_reading :: stream_reading where
  "fresh_reading =
     \<lparr>sr_usage = \<lparr>su_promptTokenCount = None, su_completionTokenCount = None, su_finishReason = None\<rparr>,
      sr_byIndex = [], sr_eventName = None\<rparr>"

definition OpenaiApiClient_orderedToolCallsOf :: "(rat, streamed_tool_call) js_map \<Rightarrow> streamed_tool_call list" where
  "OpenaiApiClient_orderedToolCallsOf byIndex = map snd (sort_key fst byIndex)"

text \<open>\<open>value?.k\<close> and \<open>value?.[0]\<close>.\<close>

definition optional_get :: "string \<Rightarrow> json option \<Rightarrow> json option" where
  "optional_get k v = Option.bind v (member k)"

definition optional_first :: "json option \<Rightarrow> json option" where
  "optional_first v = (case v of
     Some (JArray (c # _)) \<Rightarrow> Some c
   | Some (JString (c # _)) \<Rightarrow> Some (JString [c])
   | Some (JObject ms) \<Rightarrow> map_get ms ''0''
   | _ \<Rightarrow> None)"

record tool_call_fragment =
  fr_index :: rat
  fr_name :: "string option"
  fr_arguments :: "string option"

definition optional_string :: "json option \<Rightarrow> thrown + string option" where
  "optional_string v = (case v of None \<Rightarrow> Inr None | Some (JString s) \<Rightarrow> Inr (Some s) | Some _ \<Rightarrow> Inl Outside_types)"

definition fragment_of :: "json \<Rightarrow> thrown + tool_call_fragment" where
  "fragment_of v =
     (case v of JNull \<Rightarrow> Inl Engine_error
      | _ \<Rightarrow>
        (case member ''index'' v of
           Some (JNumber n) \<Rightarrow>
             sum_bind (optional_string (optional_get ''name'' (member ''function'' v))) (\<lambda>name.
             map_sum id (\<lambda>arguments. \<lparr>fr_index = n, fr_name = name, fr_arguments = arguments\<rparr>)
               (optional_string (optional_get ''arguments'' (member ''function'' v))))
         | _ \<Rightarrow> Inl Outside_types))"

text \<open>Iterating over what is not a list: \<open>null\<close>, a number or an object cannot be iterated.\<close>

definition fragments_of :: "json option \<Rightarrow> thrown + tool_call_fragment list" where
  "fragments_of v =
     (case v of
        None \<Rightarrow> Inr []
      | Some (JArray fs) \<Rightarrow> all_or_thrown fragment_of fs
      | Some (JString _) \<Rightarrow> Inl Outside_types
      | Some _ \<Rightarrow> Inl Engine_error)"

definition merge_fragment :: "tool_call_fragment \<Rightarrow> (rat, streamed_tool_call) js_map \<Rightarrow> (rat, streamed_tool_call) js_map" where
  "merge_fragment f byIndex =
     (let assembled = default_to \<lparr>sc_name = [], sc_argumentsJson = []\<rparr> (map_get byIndex (fr_index f))
      in map_set byIndex (fr_index f)
           \<lparr>sc_name = sc_name assembled @ default_to [] (fr_name f),
            sc_argumentsJson = sc_argumentsJson assembled @ default_to [] (fr_arguments f)\<rparr>)"

definition OpenaiApiClient_collectToolCallFragments ::
  "json option \<Rightarrow> (rat, streamed_tool_call) js_map \<Rightarrow> thrown + (rat, streamed_tool_call) js_map" where
  "OpenaiApiClient_collectToolCallFragments fragments byIndex =
     map_sum id (\<lambda>fs. fold merge_fragment fs byIndex) (fragments_of fragments)"

definition STREAM_ERROR_EVENT_NAME :: string where
  "STREAM_ERROR_EVENT_NAME = ''error''"

definition carriesErrorObject :: "json \<Rightarrow> bool" where
  "carriesErrorObject chunk \<longleftrightarrow> member ''error'' chunk \<noteq> None \<and> member ''error'' chunk \<noteq> Some JNull"

definition OpenaiApiClient_streamFailureMessageOf :: "js_platform \<Rightarrow> json \<Rightarrow> string option \<Rightarrow> string option" where
  "OpenaiApiClient_streamFailureMessageOf p chunk eventName =
     (if eventName \<noteq> Some STREAM_ERROR_EVENT_NAME \<and> \<not> carriesErrorObject chunk then None
      else
        let inside = optional_get ''message'' (member ''error'' chunk);
          message = (if inside = None \<or> inside = Some JNull then member ''message'' chunk else inside)
        in case message of Some (JString (c # s)) \<Rightarrow> Some (c # s) | _ \<Rightarrow> Some (stringify p chunk))"

text \<open>A token count that is written: a number, and a whole one.\<close>

definition read_count :: "json option \<Rightarrow> int option \<Rightarrow> thrown + int option" where
  "read_count v before =
     (case v of
        None \<Rightarrow> Inr before
      | Some (JNumber n) \<Rightarrow> if snd (quotient_of n) = 1 then Inr (Some (fst (quotient_of n))) else Inl Outside_types
      | Some _ \<Rightarrow> Inl Outside_types)"

definition read_finish_reason :: "json option \<Rightarrow> string option \<Rightarrow> string option" where
  "read_finish_reason v before = (case v of Some (JString s) \<Rightarrow> Some s | _ \<Rightarrow> before)"

definition stream_failed :: "string \<Rightarrow> string \<Rightarrow> thrown" where
  "stream_failed baseUrl failureMessage = Thrown (''The server at '' @ baseUrl @
     '' failed inside a chat completion it had already answered with a successful status: '' @ failureMessage)"

text \<open>What one event adds, and the text it carries.\<close>

definition read_chunk :: "js_platform \<Rightarrow> string \<Rightarrow> json \<Rightarrow> stream_reading \<Rightarrow> thrown + (stream_reading \<times> string)" where
  "read_chunk p baseUrl chunk rd =
     (if chunk = JNull then Inl Engine_error
      else case OpenaiApiClient_streamFailureMessageOf p chunk (sr_eventName rd) of
        Some failureMessage \<Rightarrow> Inl (stream_failed baseUrl failureMessage)
      | None \<Rightarrow>
          let usage = member ''usage'' chunk; choice = optional_first (member ''choices'' chunk);
            delta = optional_get ''delta'' choice
          in sum_bind (read_count (optional_get ''prompt_tokens'' usage) (su_promptTokenCount (sr_usage rd))) (\<lambda>prompt.
             sum_bind (read_count (optional_get ''completion_tokens'' usage) (su_completionTokenCount (sr_usage rd))) (\<lambda>completion.
             map_sum id (\<lambda>byIndex.
               (rd\<lparr>sr_usage := \<lparr>su_promptTokenCount = prompt, su_completionTokenCount = completion,
                    su_finishReason = read_finish_reason (optional_get ''finish_reason'' choice) (su_finishReason (sr_usage rd))\<rparr>,
                   sr_byIndex := byIndex\<rparr>,
                case optional_get ''content'' delta of Some (JString s) \<Rightarrow> s | _ \<Rightarrow> []))
               (OpenaiApiClient_collectToolCallFragments (optional_get ''tool_calls'' delta) (sr_byIndex rd)))))"

section \<open>The lines of a stream\<close>

datatype line_outcome = Line_read | Line_piece string | Line_done | Line_failed thrown

definition read_line :: "js_platform \<Rightarrow> string \<Rightarrow> string \<Rightarrow> stream_reading \<Rightarrow> stream_reading \<times> line_outcome" where
  "read_line p baseUrl untrimmed rd =
     (let line = trim untrimmed
      in if line = [] then (rd\<lparr>sr_eventName := None\<rparr>, Line_read)
         else if prefix ''event:'' line then (rd\<lparr>sr_eventName := Some (trim (drop 6 line))\<rparr>, Line_read)
         else if \<not> prefix ''data:'' line then (rd, Line_read)
         else
           let data = trim (drop 5 line)
           in if data = ''[DONE]'' then (rd, Line_done)
              else if data = [] then (rd, Line_read)
              else case JSON_parse p data of
                None \<Rightarrow> (rd, Line_failed Engine_error)
              | Some chunk \<Rightarrow>
                  (case read_chunk p baseUrl chunk rd of
                     Inl failure \<Rightarrow> (rd, Line_failed failure)
                   | Inr (rd', content) \<Rightarrow> (rd', if content \<noteq> [] then Line_piece content else Line_read)))"

abbreviation newline :: string where
  "newline \<equiv> ''\<newline>''"

record text_stream =
  ts_buffer :: string
  ts_reading :: stream_reading

datatype pull_result = Need_bytes | Enqueued string | Stream_closed | Stream_failed thrown

text \<open>The loop of \<open>pull\<close> up to where it needs more of the body.\<close>

function pull_buffer :: "js_platform \<Rightarrow> string \<Rightarrow> text_stream \<Rightarrow> text_stream \<times> pull_result" where
  "pull_buffer p baseUrl s =
     (case indexOf newline (ts_buffer s) of
        None \<Rightarrow> (s, Need_bytes)
      | Some i \<Rightarrow>
          let r = read_line p baseUrl (take i (ts_buffer s)) (ts_reading s);
            s' = \<lparr>ts_buffer = drop (i + 1) (ts_buffer s), ts_reading = fst r\<rparr>
          in case snd r of
               Line_read \<Rightarrow> pull_buffer p baseUrl s'
             | Line_piece t \<Rightarrow> (s', Enqueued t)
             | Line_done \<Rightarrow> (s', Stream_closed)
             | Line_failed e \<Rightarrow> (s', Stream_failed e))"
  by pat_completeness auto
termination
  by (relation "measure (\<lambda>(p, baseUrl, s). length (ts_buffer s))") (auto dest!: indexOf_bounds)

declare pull_buffer.simps [simp del]

text \<open>\<open>chunks\<close> is what the body still gives, one entry for each read of it.\<close>

fun OpenaiApiClient_pull ::
  "js_platform \<Rightarrow> string \<Rightarrow> text_stream \<Rightarrow> string list \<Rightarrow> text_stream \<times> string list \<times> pull_result" where
  "OpenaiApiClient_pull p baseUrl s chunks =
     (case pull_buffer p baseUrl s of
        (s', Need_bytes) \<Rightarrow>
          (case chunks of
             [] \<Rightarrow> (s', [], Stream_closed)
           | c # cs \<Rightarrow> OpenaiApiClient_pull p baseUrl (s'\<lparr>ts_buffer := ts_buffer s' @ c\<rparr>) cs)
      | (s', r) \<Rightarrow> (s', chunks, r))"

declare OpenaiApiClient_pull.simps [simp del]

section \<open>A whole stream\<close>

definition text_left :: "text_stream \<Rightarrow> string list \<Rightarrow> nat" where
  "text_left s chunks = length (ts_buffer s) + length (concat chunks)"

lemma pull_buffer_left:
  "pull_buffer p b s = (s', r) \<Longrightarrow> length (ts_buffer s') \<le> length (ts_buffer s)
     \<and> (r \<noteq> Need_bytes \<longrightarrow> length (ts_buffer s') < length (ts_buffer s))"
proof (induction p b s arbitrary: s' rule: pull_buffer.induct)
  case (1 p b s)
  show ?case
  proof (cases "indexOf newline (ts_buffer s)")
    case None
    with "1.prems" show ?thesis by (simp add: pull_buffer.simps [of p b s])
  next
    case (Some i)
    let ?r = "read_line p b (take i (ts_buffer s)) (ts_reading s)"
    have shorter: "length (drop (i + 1) (ts_buffer s)) < length (ts_buffer s)" using indexOf_bounds [OF Some] by simp
    show ?thesis
    proof (cases "snd ?r")
      case Line_read
      with "1.prems" Some have "pull_buffer p b \<lparr>ts_buffer = drop (i + 1) (ts_buffer s), ts_reading = fst ?r\<rparr> = (s', r)"
        by (simp add: pull_buffer.simps [of p b s])
      from "1.IH" [OF Some refl refl Line_read this] shorter show ?thesis by simp
    qed (use "1.prems" Some shorter in \<open>auto simp: pull_buffer.simps [of p b s]\<close>)
  qed
qed

lemma pull_left:
  "OpenaiApiClient_pull p b s chunks = (s', chunks', Enqueued t) \<Longrightarrow> text_left s' chunks' < text_left s chunks"
proof (induction p b s chunks rule: OpenaiApiClient_pull.induct)
  case (1 p b s chunks)
  obtain s1 r where pulled: "pull_buffer p b s = (s1, r)" by fastforce
  note left = pull_buffer_left [OF pulled]
  show ?case
  proof (cases r)
    case Need_bytes
    with "1.prems" pulled obtain c cs where c: "chunks = c # cs"
      by (auto simp: OpenaiApiClient_pull.simps [of p b s] split: list.splits)
    with "1.prems" pulled Need_bytes
    have "OpenaiApiClient_pull p b (s1\<lparr>ts_buffer := ts_buffer s1 @ c\<rparr>) cs = (s', chunks', Enqueued t)"
      by (simp add: OpenaiApiClient_pull.simps [of p b s])
    from "1.IH" [OF pulled [symmetric] Need_bytes c this] left c show ?thesis by (simp add: text_left_def)
  qed (use "1.prems" pulled left in \<open>auto simp: OpenaiApiClient_pull.simps [of p b s] text_left_def\<close>)
qed

text \<open>Reading until the stream closes or fails: the pieces, what was filled in, and the failure.\<close>

function all_pieces ::
  "js_platform \<Rightarrow> string \<Rightarrow> text_stream \<Rightarrow> string list \<Rightarrow> string list \<times> stream_reading \<times> thrown option" where
  "all_pieces p baseUrl s chunks =
     (case OpenaiApiClient_pull p baseUrl s chunks of
        (s', chunks', Enqueued t) \<Rightarrow> apfst (\<lambda>ts. t # ts) (all_pieces p baseUrl s' chunks')
      | (s', _, Stream_failed e) \<Rightarrow> ([], ts_reading s', Some e)
      | (s', _, _) \<Rightarrow> ([], ts_reading s', None))"
  by pat_completeness auto
termination
  by (relation "measure (\<lambda>(p, baseUrl, s, chunks). text_left s chunks)") (auto dest: pull_left sym)

declare all_pieces.simps [simp del]

definition OpenaiApiClient_textPiecesOf ::
  "js_platform \<Rightarrow> string \<Rightarrow> string list \<Rightarrow> string list \<times> stream_reading \<times> thrown option" where
  "OpenaiApiClient_textPiecesOf p baseUrl chunks =
     all_pieces p baseUrl \<lparr>ts_buffer = [], ts_reading = fresh_reading\<rparr> chunks"

definition chatCompletionStream ::
  "js_platform \<Rightarrow> string \<Rightarrow> string list option fetched \<Rightarrow> thrown + (string list \<times> stream_reading \<times> thrown option)" where
  "chatCompletionStream p baseUrl answer =
     (case answer of
        Unreachable reason \<Rightarrow> Inl (could_not_be_reached baseUrl reason)
      | Answered st body \<Rightarrow>
          if \<not> status_ok st then
            Inl (Thrown (''The server at '' @ baseUrl @ '' answered the chat completion with status '' @ decimal st))
          else (case body of
             None \<Rightarrow> Inl (Thrown (''The server at '' @ baseUrl @ '' answered the chat completion with no body''))
           | Some chunks \<Rightarrow> Inr (OpenaiApiClient_textPiecesOf p baseUrl chunks)))"

text \<open>The reference: the lines that a line feed ends, read one after another.\<close>

fun ended_lines :: "string \<Rightarrow> string \<Rightarrow> string list" where
  "ended_lines line [] = []"
| "ended_lines line (c # cs) = (if [c] = newline then line # ended_lines [] cs else ended_lines (line @ [c]) cs)"

fun read_ended_lines :: "js_platform \<Rightarrow> string \<Rightarrow> string list \<Rightarrow> stream_reading \<Rightarrow> string list \<times> stream_reading \<times> thrown option" where
  "read_ended_lines p baseUrl [] rd = ([], rd, None)"
| "read_ended_lines p baseUrl (l # ls) rd =
     (let r = read_line p baseUrl l rd
      in case snd r of
           Line_read \<Rightarrow> read_ended_lines p baseUrl ls (fst r)
         | Line_piece t \<Rightarrow> apfst (\<lambda>ts. t # ts) (read_ended_lines p baseUrl ls (fst r))
         | Line_done \<Rightarrow> ([], fst r, None)
         | Line_failed e \<Rightarrow> ([], fst r, Some e))"

lemma ended_lines_at:
  "ended_lines line s = (case indexOf newline s of None \<Rightarrow> [] | Some i \<Rightarrow> (line @ take i s) # ended_lines [] (drop (i + 1) s))"
proof (induction s arbitrary: line)
  case Nil
  then show ?case by simp
next
  case (Cons c s)
  show ?case
  proof (cases "[c] = newline")
    case True
    then show ?thesis by simp
  next
    case False
    then have "\<not> prefix newline (c # s)" by simp
    with False Cons [of "line @ [c]"] show ?thesis by (auto split: option.splits)
  qed
qed

lemma lines_at: "indexOf newline s = Some i \<Longrightarrow> ended_lines [] (s @ t) = take i s # ended_lines [] (drop (i + 1) s @ t)"
  using indexOf_append [of newline s i t] indexOf_bounds [of newline s i] by (simp add: ended_lines_at [of "[]" "s @ t"])

text \<open>What a pull leaves for the next one is what its lines leave.\<close>

lemma pull_buffer_reads:
  assumes "pull_buffer p b s = (s', r)"
  shows "read_ended_lines p b (ended_lines [] (ts_buffer s @ rest)) (ts_reading s) =
    (case r of
       Need_bytes \<Rightarrow> read_ended_lines p b (ended_lines [] (ts_buffer s' @ rest)) (ts_reading s')
     | Enqueued t \<Rightarrow> apfst (\<lambda>ts. t # ts) (read_ended_lines p b (ended_lines [] (ts_buffer s' @ rest)) (ts_reading s'))
     | Stream_closed \<Rightarrow> ([], ts_reading s', None)
     | Stream_failed e \<Rightarrow> ([], ts_reading s', Some e))
    \<and> (r = Need_bytes \<longrightarrow> indexOf newline (ts_buffer s') = None)"
  using assms
proof (induction p b s arbitrary: s' rule: pull_buffer.induct)
  case (1 p b s)
  show ?case
  proof (cases "indexOf newline (ts_buffer s)")
    case None
    with "1.prems" show ?thesis by (simp add: pull_buffer.simps [of p b s])
  next
    case (Some i)
    let ?r = "read_line p b (take i (ts_buffer s)) (ts_reading s)"
    let ?s = "\<lparr>ts_buffer = drop (i + 1) (ts_buffer s), ts_reading = fst ?r\<rparr>"
    note pulled = "1.prems" [unfolded pull_buffer.simps [of p b s] Some option.case Let_def]
    note lines = lines_at [OF Some, of rest]
    show ?thesis
    proof (cases "snd ?r")
      case Line_read
      with pulled have "pull_buffer p b ?s = (s', r)" by simp
      from "1.IH" [OF Some refl refl Line_read this] lines Line_read show ?thesis by simp
    next
      case (Line_piece t)
      with pulled lines show ?thesis by auto
    next
      case Line_done
      with pulled lines show ?thesis by auto
    next
      case (Line_failed e)
      with pulled lines show ?thesis by auto
    qed
  qed
qed

lemma pull_reads:
  assumes "OpenaiApiClient_pull p b s chunks = (s', chunks', r)"
  shows "read_ended_lines p b (ended_lines [] (ts_buffer s @ concat chunks)) (ts_reading s) =
    (case r of
       Enqueued t \<Rightarrow> apfst (\<lambda>ts. t # ts) (read_ended_lines p b (ended_lines [] (ts_buffer s' @ concat chunks')) (ts_reading s'))
     | Stream_failed e \<Rightarrow> ([], ts_reading s', Some e)
     | _ \<Rightarrow> ([], ts_reading s', None))"
  using assms
proof (induction p b s chunks rule: OpenaiApiClient_pull.induct)
  case (1 p b s chunks)
  obtain s1 r1 where pulled: "pull_buffer p b s = (s1, r1)" by fastforce
  note read = pull_buffer_reads [OF pulled, of "concat chunks"]
  note whole = "1.prems" [unfolded OpenaiApiClient_pull.simps [of p b s] pulled prod.case]
  show ?case
  proof (cases r1)
    case Need_bytes
    show ?thesis
    proof (cases chunks)
      case Nil
      with read Need_bytes have "read_ended_lines p b (ended_lines [] (ts_buffer s @ concat chunks)) (ts_reading s) = ([], ts_reading s1, None)"
        by (simp add: ended_lines_at [of "[]" "ts_buffer s1"])
      with whole Need_bytes Nil show ?thesis by auto
    next
      case (Cons c cs)
      with whole Need_bytes have "OpenaiApiClient_pull p b (s1\<lparr>ts_buffer := ts_buffer s1 @ c\<rparr>) cs = (s', chunks', r)" by simp
      from "1.IH" [OF pulled [symmetric] Need_bytes Cons this] read Need_bytes Cons show ?thesis by simp
    qed
  qed (use whole read in auto)
qed

lemma all_pieces_lines:
  "all_pieces p b s chunks = read_ended_lines p b (ended_lines [] (ts_buffer s @ concat chunks)) (ts_reading s)"
proof (induction p b s chunks rule: all_pieces.induct)
  case (1 p b s chunks)
  obtain s' chunks' r where pulled: "OpenaiApiClient_pull p b s chunks = (s', chunks', r)" by (metis prod_cases3)
  show ?case
  proof (cases r)
    case (Enqueued t)
    with pulled have "OpenaiApiClient_pull p b s chunks = (s', chunks', Enqueued t)" by simp
    with "1.IH" [of s' "(chunks', Enqueued t)" chunks' "Enqueued t" t] pull_reads [OF this] show ?thesis
      by (simp add: all_pieces.simps [of p b s])
  qed (use pulled pull_reads [OF pulled] in \<open>simp_all add: all_pieces.simps [of p b s]\<close>)
qed

text \<open>
  C23: How the network cuts the body of a chat completion into chunks does not matter: the pieces of text, the usage, the
  reason for stopping, the tool calls and the failure are those of the reference that reads the finished lines of the
  whole body one after another. In particular what is left of a body that does not end with a line feed is dropped.
\<close>

theorem chunks_read_as_lines:
  "OpenaiApiClient_textPiecesOf p baseUrl chunks = read_ended_lines p baseUrl (ended_lines [] (concat chunks)) fresh_reading"
  by (simp add: OpenaiApiClient_textPiecesOf_def all_pieces_lines)

section \<open>Reading what this repository's own server streams\<close>

definition said_pieces :: "(nat \<times> string) list \<Rightarrow> task_answer \<Rightarrow> string list" where
  "said_pieces pieces answer =
     (if pieces \<noteq> [] then map snd pieces else if ans_text answer = [] then [] else [ans_text answer])"

text \<open>The chunks of an answer, up to its closing ones.\<close>

definition said_chunks :: "answering \<Rightarrow> (nat \<times> string) list \<Rightarrow> task_answer \<Rightarrow> json list" where
  "said_chunks a pieces answer =
     chunk_json a [role_choice] JNull # map (\<lambda>t. chunk_json a [content_choice t] JNull) (said_pieces pieces answer) @
     (if asked_for_tools answer then [chunk_json a [calls_choice (openai_calls_of a answer)] JNull] else [])"

definition last_chunks :: "answering \<Rightarrow> task_answer \<Rightarrow> json list" where
  "last_chunks a answer =
     (case finish_reason_of answer of
        Inl failure \<Rightarrow> [OpenaiError_body failure]
      | Inr reason \<Rightarrow> chunk_json a [choice_json [] (JString (finish_reason_name reason))] JNull #
          (case OpenaiRoutes_usageOf answer of None \<Rightarrow> [] | Some us \<Rightarrow> [chunk_json a [] us]))"

lemma said_frames:
  assumes x: "resp_frames (response x) = []" "\<not> writableEnded (response x)"
  shows "open_with a u (chunk_json a [role_choice] JNull # map (\<lambda>t. chunk_json a [content_choice t] JNull) (said_pieces pieces answer))
    (with_text ms answer (chat_streamed a u x pieces))"
proof -
  have start: "open_with a u [] (open_chat_stream a u x)" using x by (simp add: open_with_def open_chat_stream_def)
  note streamed = open_pieces [OF start, of pieces]
  show ?thesis
  proof (cases "pieces = []")
    case False
    with streamed have "with_text ms answer (chat_streamed a u x pieces) = chat_streamed a u x pieces"
      by (simp add: open_with_def with_text_def)
    with streamed False show ?thesis by (simp add: said_pieces_def case_prod_unfold comp_def)
  next
    case True
    let ?st = "chat_streamed a u x pieces"
    from streamed True have st: "open_with a u [] ?st" by simp
    then have unwritten: "\<not> cs_isAnythingWritten ?st" by (simp add: open_with_def)
    from open_writeChunk [OF st, of role_choice ms]
    have opened: "open_with a u [chunk_json a [role_choice] JNull] (writeChunk ms role_choice ?st)" by simp
    from open_writeChunk [OF opened, of "content_choice (ans_text answer)" ms] opened True unwritten show ?thesis
      by (simp add: with_text_def said_pieces_def)
  qed
qed

lemma answered_frames:
  assumes x: "resp_frames (response x) = []" "\<not> writableEnded (response x)"
  shows "resp_frames (response (cs_exchange (chat_answered ms now answer (chat_streamed a True x pieces)))) =
    map Data (said_chunks a pieces answer @ last_chunks a answer) @ [Done_line]"
proof -
  let ?st1 = "with_text ms answer (chat_streamed a True x pieces)"
  define st2 where "st2 = (if asked_for_tools answer then writeChunk ms (calls_choice (openai_calls_of a answer)) ?st1 else ?st1)"
  note st1 = said_frames [OF x, of a True pieces answer ms]
  have a: "cs_answering ?st1 = a" using st1 by (simp add: open_with_def)
  have st2: "open_with a True (said_chunks a pieces answer) st2"
    using open_writeChunk [OF st1] st1 by (simp add: said_chunks_def st2_def)
  have answered: "chat_answered ms now answer (chat_streamed a True x pieces) =
      (case finish_reason_of answer of
         Inl failure \<Rightarrow> chat_failed now failure st2
       | Inr reason \<Rightarrow>
           let st3 = writeChunk ms (choice_json [] (JString (finish_reason_name reason))) st2;
             st4 = (case OpenaiRoutes_usageOf answer of None \<Rightarrow> st3 | Some u \<Rightarrow> writeUsageChunk u st3);
             x = cs_exchange st4
           in OpenaiRoutes_endStream (st4\<lparr>cs_exchange := x\<lparr>transaction := (transaction x)\<lparr>tr_respondedAt := Some now,
                tr_outcome := Some Outcome_completed, tr_responseBody := Some (streamed_record answer)\<rparr>\<rparr>\<rparr>))"
    unfolding chat_answered_def Let_def a st2_def ..
  show ?thesis
  proof (cases "finish_reason_of answer")
    case (Inl failure)
    with st2 have "cs_isAnythingWritten st2" by (simp add: open_with_def said_chunks_def)
    with st2 Inl show ?thesis unfolding answered
      by (simp add: Let_def chat_failed_def OpenaiRoutes_endStream_def write_frame_def open_with_def last_chunks_def)
  next
    case (Inr reason)
    let ?closing = "chunk_json a [choice_json [] (JString (finish_reason_name reason))] JNull"
    define st3 where "st3 = writeChunk ms (choice_json [] (JString (finish_reason_name reason))) st2"
    have st3: "open_with a True (said_chunks a pieces answer @ [?closing]) st3" using st2 unfolding st3_def by (rule open_writeChunk)
    have "open_with a True (said_chunks a pieces answer @ last_chunks a answer)
        (case OpenaiRoutes_usageOf answer of None \<Rightarrow> st3 | Some us \<Rightarrow> writeUsageChunk us st3)"
      using st3 open_writeUsage [OF st3] by (auto simp: last_chunks_def Inr split: option.split)
    then show ?thesis unfolding answered Inr st3_def [symmetric] Let_def sum.case
      by (simp add: OpenaiRoutes_endStream_def write_frame_def open_with_def)
  qed
qed

text \<open>The text of JSON is one line when the text of its numbers is.\<close>

lemma json_escape_line: "CHR 10 \<notin> set (json_escape c)"
proof -
  have digit: "''0123456789abcdef'' ! (n mod 16) \<in> set ''0123456789abcdef''" for n :: nat by (rule nth_mem) simp
  have high: "''01'' ! (n div 16) \<in> set ''01''" if "n < 32" for n :: nat using that by (intro nth_mem) simp
  have "CHR 10 \<noteq> ''0123456789abcdef'' ! (n mod 16)" for n :: nat using digit [of n] by force
  moreover have "CHR 10 \<noteq> ''01'' ! (n div 16)" if "n < 32" for n :: nat using high [OF that] by force
  ultimately show ?thesis by (auto simp: json_escape_def Let_def)
qed

definition one_line :: "string \<Rightarrow> bool" where
  "one_line s \<longleftrightarrow> CHR 10 \<notin> set s"

lemma one_line_simps [simp]:
  "one_line []" "one_line (c # s) \<longleftrightarrow> c \<noteq> CHR 10 \<and> one_line s" "one_line (s @ t) \<longleftrightarrow> one_line s \<and> one_line t"
  by (auto simp: one_line_def)

lemma json_string_line: "one_line (json_string s)"
  using json_escape_line by (auto simp: json_string_def one_line_def)

lemma join_line: "\<forall>s \<in> set ss. one_line s \<Longrightarrow> one_line (join_with '','' ss)"
  by (induction "'',''" ss rule: join_with.induct) simp_all

lemma stringify_line:
  assumes "\<And>n. one_line (Number_text p n)"
  shows "one_line (stringify p v)"
  using assms
proof (induction p v rule: stringify.induct)
  case (5 p vs)
  then show ?case using join_line [of "map (stringify p) vs"] by simp
next
  case (6 p ms)
  then have "\<forall>s \<in> set (map (\<lambda>(k, v). json_string k @ '':'' @ stringify p v) ms). one_line s"
    using json_string_line by fastforce
  from join_line [OF this] show ?case by simp
qed (simp_all add: json_string_line)

lemma ended_lines_line: "one_line l \<Longrightarrow> ended_lines pre (l @ newline @ rest) = (pre @ l) # ended_lines [] rest"
  by (induction l arbitrary: pre) auto

definition data_lines :: "js_platform \<Rightarrow> json list \<Rightarrow> string list" where
  "data_lines p cs = concat (map (\<lambda>c. [''data: '' @ stringify p c, []]) cs)"

lemma frame_lines:
  assumes "\<And>n. one_line (Number_text p n)"
  shows "ended_lines [] (concat (map (frame_text p) (map Data cs @ [Done_line]))) = data_lines p cs @ [''data: [DONE]'', []]"
proof (induction cs)
  case Nil
  then show ?case by (simp add: data_lines_def)
next
  case (Cons c cs)
  let ?rest = "concat (map (frame_text p) (map Data cs @ [Done_line]))"
  have "one_line (''data: '' @ stringify p c)" using stringify_line [OF assms, of c] by simp
  from ended_lines_line [OF this, of "[]" "newline @ ?rest"] ended_lines_line [of "[]" "[]" ?rest] Cons
  show ?case by (simp add: data_lines_def)
qed

text \<open>A line that holds an object is read as that object.\<close>

lemma object_text_trimmed: "trimmed (stringify p (JObject ms))"
  by (simp add: trimmed_def is_space_def)

lemma read_data_line:
  assumes "sr_eventName rd = None" and "JSON_parse p (stringify p (JObject ms)) = Some (JObject ms)"
  shows "read_line p b (''data: '' @ stringify p (JObject ms)) rd =
    (case read_chunk p b (JObject ms) rd of
       Inl failure \<Rightarrow> (rd, Line_failed failure)
     | Inr (rd', content) \<Rightarrow> (rd', if content \<noteq> [] then Line_piece content else Line_read))"
proof -
  let ?t = "stringify p (JObject ms)"
  have "trimmed (''data: '' @ ?t)" using object_text_trimmed [of p ms] by (simp add: trimmed_def is_space_def)
  moreover have "trim ('' '' @ ?t) = ?t" using trim_padded [OF object_text_trimmed [of p ms], of "'' ''" "[]"] by (simp add: is_space_def)
  ultimately show ?thesis using assms(2) by (simp add: read_line_def)
qed

lemma apfst_nothing [simp]: "apfst (\<lambda>ts. ts) r = r" "apfst ((@) []) r = r"
  by (cases r, simp)+

lemma read_blank_line: "sr_eventName rd = None \<Longrightarrow> read_line p b [] rd = (rd, Line_read)"
  by (cases rd) (simp add: read_line_def trim_def)

lemma read_data:
  assumes "sr_eventName rd = None" and "JSON_parse p (stringify p (JObject ms)) = Some (JObject ms)"
    and "read_chunk p b (JObject ms) rd = Inr (rd', t)" and "sr_eventName rd' = None"
  shows "read_ended_lines p b (data_lines p (JObject ms # cs) @ rest) rd =
    apfst (\<lambda>ts. if t = [] then ts else t # ts) (read_ended_lines p b (data_lines p cs @ rest) rd')"
proof -
  have "read_line p b (''data: '' @ stringify p (JObject ms)) rd = (rd', if t \<noteq> [] then Line_piece t else Line_read)"
    using read_data_line [OF assms(1,2), of b] assms(3) by simp
  with read_blank_line [OF assms(4), of p b] show ?thesis
    by (cases "read_ended_lines p b (data_lines p cs @ rest) rd'") (simp add: data_lines_def)
qed

lemma read_failing_data:
  assumes "sr_eventName rd = None" and "JSON_parse p (stringify p (JObject ms)) = Some (JObject ms)"
    and "read_chunk p b (JObject ms) rd = Inl failure"
  shows "read_ended_lines p b (data_lines p (JObject ms # cs) @ rest) rd = ([], rd, Some failure)"
  using read_data_line [OF assms(1,2), of b] assms(3) by (simp add: data_lines_def)

lemma read_done: "read_ended_lines p b (''data: [DONE]'' # rest) rd = ([], rd, None)"
proof -
  have "trim ''data: [DONE]'' = ''data: [DONE]''" and "trim '' [DONE]'' = ''[DONE]''" by code_simp+
  then show ?thesis by (simp add: read_line_def)
qed

lemma chunk_object: "\<exists>ms. chunk_json a cs us = JObject ms" "\<exists>ms. OpenaiError_body f = JObject ms"
  by (simp_all add: chunk_json_def OpenaiError_body_def)

lemma chunk_members [simp]:
  "member ''error'' (chunk_json a cs us) = None" "member ''usage'' (chunk_json a cs us) = Some us"
  "member ''choices'' (chunk_json a cs us) = Some (JArray cs)" "chunk_json a cs us \<noteq> JNull"
  by (simp_all add: chunk_json_def)

lemma choice_members [simp]:
  "member ''delta'' (choice_json d f) = Some (JObject d)" "member ''finish_reason'' (choice_json d f) = Some f"
  by (simp_all add: choice_json_def)

lemma ordinary_chunk:
  assumes "sr_eventName rd = None"
  shows "read_chunk p b (chunk_json a [content_choice t] JNull) rd = Inr (rd, t)"
    "read_chunk p b (chunk_json a [role_choice] JNull) rd = Inr (rd, [])"
    "read_chunk p b (chunk_json a [choice_json [] (JString r)] JNull) rd =
      Inr (rd\<lparr>sr_usage := (sr_usage rd)\<lparr>su_finishReason := Some r\<rparr>\<rparr>, [])"
  using assms
  by (simp_all add: read_chunk_def OpenaiApiClient_streamFailureMessageOf_def STREAM_ERROR_EVENT_NAME_def carriesErrorObject_def
      optional_get_def optional_first_def read_count_def read_finish_reason_def content_choice_def role_choice_def
      OpenaiApiClient_collectToolCallFragments_def fragments_of_def)

lemma usage_chunk:
  assumes "sr_eventName rd = None" and "OpenaiRoutes_usageOf answer = Some us"
  shows "read_chunk p b (chunk_json a [] us) rd =
    Inr (rd\<lparr>sr_usage := (sr_usage rd)\<lparr>su_promptTokenCount := ans_promptTokenCount answer,
      su_completionTokenCount := ans_completionTokenCount answer\<rparr>\<rparr>, [])"
  using assms
  by (auto simp: OpenaiRoutes_usageOf_def token_usage_def read_chunk_def OpenaiApiClient_streamFailureMessageOf_def
      STREAM_ERROR_EVENT_NAME_def carriesErrorObject_def optional_get_def optional_first_def read_count_def read_finish_reason_def
      OpenaiApiClient_collectToolCallFragments_def fragments_of_def quotient_of_int split: option.splits)

definition fragment_json :: "nat \<times> chat_tool_call \<Rightarrow> json" where
  "fragment_json = (\<lambda>(i, c). JObject ((''index'', JNumber (of_nat i)) # call_fields c))"

definition assembled_call :: "chat_tool_call \<Rightarrow> streamed_tool_call" where
  "assembled_call c = \<lparr>sc_name = ctc_name c, sc_argumentsJson = ctc_arguments c\<rparr>"

lemma fragments_read:
  "all_or_thrown fragment_of (map fragment_json ics) =
    Inr (map (\<lambda>(i, c). \<lparr>fr_index = of_nat i, fr_name = Some (ctc_name c), fr_arguments = Some (ctc_arguments c)\<rparr>) ics)"
  by (induction ics)
    (auto simp: fragment_of_def fragment_json_def call_fields_def optional_get_def optional_string_def)

lemma fragments_merged:
  "\<forall>k \<in> fst ` set m. k < of_nat n \<Longrightarrow>
   fold merge_fragment (map (\<lambda>(i, c). \<lparr>fr_index = of_nat i, fr_name = Some (ctc_name c), fr_arguments = Some (ctc_arguments c)\<rparr>)
     (List.enumerate n calls)) m = m @ map (\<lambda>(i, c). (of_nat i, assembled_call c)) (List.enumerate n calls)"
proof (induction calls arbitrary: n m)
  case (Cons c calls)
  have "map_get m (of_nat n) = None" using Cons.prems by (auto simp: map_of_eq_None_iff)
  moreover have "\<forall>k \<in> fst ` set (m @ [(of_nat n, assembled_call c)]). k < of_nat (Suc n)" using Cons.prems by fastforce
  ultimately show ?case
    using Cons.IH [of "m @ [(of_nat n, assembled_call c)]" "Suc n"]
    by (simp add: merge_fragment_def default_to_def map_set_fresh assembled_call_def)
qed simp

lemma calls_chunk:
  assumes "sr_eventName rd = None" and "sr_byIndex rd = []"
  shows "read_chunk p b (chunk_json a [calls_choice calls] JNull) rd =
    Inr (rd\<lparr>sr_byIndex := map (\<lambda>(i, c). (of_nat i, assembled_call c)) (List.enumerate 0 calls)\<rparr>, [])"
  using assms fragments_merged [of "[]" 0 calls]
  by (simp add: read_chunk_def OpenaiApiClient_streamFailureMessageOf_def STREAM_ERROR_EVENT_NAME_def carriesErrorObject_def
      optional_get_def optional_first_def read_count_def read_finish_reason_def calls_choice_def
      OpenaiApiClient_collectToolCallFragments_def fragments_of_def fragments_read [unfolded fragment_json_def])

lemma ordered_calls: "OpenaiApiClient_orderedToolCallsOf (map (\<lambda>(i, c). (of_nat i, assembled_call c)) (List.enumerate n calls)) =
    map assembled_call calls"
proof -
  have "sorted (map fst (map (\<lambda>(i, c). (of_nat i :: rat, assembled_call c)) (List.enumerate n calls)))"
    by (simp add: sorted_iff_nth_mono comp_def case_prod_unfold nth_enumerate_eq)
  moreover have "map snd (map (\<lambda>(i, c). (of_nat i :: rat, assembled_call c)) (List.enumerate n calls)) = map assembled_call calls"
    by (induction calls arbitrary: n) simp_all
  ultimately show ?thesis by (simp only: OpenaiApiClient_orderedToolCallsOf_def sort_key_id_if_sorted)
qed

lemma read_pieces:
  assumes "sr_eventName rd = None"
    and "\<forall>t \<in> set ts. JSON_parse p (stringify p (chunk_json a [content_choice t] JNull)) = Some (chunk_json a [content_choice t] JNull)"
  shows "read_ended_lines p b (data_lines p (map (\<lambda>t. chunk_json a [content_choice t] JNull) ts @ cs) @ rest) rd =
    apfst (\<lambda>us. filter (\<lambda>t. t \<noteq> []) ts @ us) (read_ended_lines p b (data_lines p cs @ rest) rd)"
  using assms(2)
proof (induction ts)
  case (Cons t ts)
  obtain ms where ms: "chunk_json a [content_choice t] JNull = JObject ms" using chunk_object by blast
  from read_data [of rd p ms b rd t "map (\<lambda>t. chunk_json a [content_choice t] JNull) ts @ cs" rest]
    assms(1) Cons ordinary_chunk(1) [OF assms(1), of p b a t]
  show ?case by (simp add: ms [symmetric]) (cases "read_ended_lines p b (data_lines p cs @ rest) rd", simp)
qed simp

definition readable_chunks :: "js_platform \<Rightarrow> json list \<Rightarrow> bool" where
  "readable_chunks p cs \<longleftrightarrow> list_all (\<lambda>c. JSON_parse p (stringify p c) = Some c) cs"

definition answer_usage :: "task_answer \<Rightarrow> stream_usage" where
  "answer_usage answer =
     (case finish_reason_of answer of
        Inl _ \<Rightarrow> \<lparr>su_promptTokenCount = None, su_completionTokenCount = None, su_finishReason = None\<rparr>
      | Inr reason \<Rightarrow>
          \<lparr>su_promptTokenCount = (if token_usage answer = None then None else ans_promptTokenCount answer),
           su_completionTokenCount = (if token_usage answer = None then None else ans_completionTokenCount answer),
           su_finishReason = Some (finish_reason_name reason)\<rparr>)"

definition answer_reading :: "answering \<Rightarrow> task_answer \<Rightarrow> stream_reading" where
  "answer_reading a answer =
     \<lparr>sr_usage = answer_usage answer,
      sr_byIndex = (if asked_for_tools answer
        then map (\<lambda>(i, c). (of_nat i, assembled_call c)) (List.enumerate 0 (openai_calls_of a answer)) else []),
      sr_eventName = None\<rparr>"

lemma failure_chunk:
  assumes "sr_eventName rd = None" and "err_message f \<noteq> []"
  shows "read_chunk p b (OpenaiError_body f) rd = Inl (stream_failed b (err_message f))"
proof -
  obtain c s where "err_message f = c # s" using assms(2) by (cases "err_message f") auto
  with assms(1) show ?thesis
    by (simp add: read_chunk_def OpenaiApiClient_streamFailureMessageOf_def carriesErrorObject_def OpenaiError_body_def optional_get_def)
qed

lemma finish_failure: "finish_reason_of answer = Inl f \<Longrightarrow> err_message f \<noteq> []"
  by (auto simp: finish_reason_of_def OpenaiError_taskFailed_def split: if_splits elim: FinishReasonTranslator_translate.elims)

lemma read_last:
  assumes "sr_eventName rd = None" and "sr_usage rd = sr_usage fresh_reading" and "readable_chunks p (last_chunks a answer)"
  shows "read_ended_lines p b (data_lines p (last_chunks a answer) @ [''data: [DONE]'', []]) rd =
    ([], rd\<lparr>sr_usage := answer_usage answer\<rparr>,
     case finish_reason_of answer of Inl f \<Rightarrow> Some (stream_failed b (err_message f)) | Inr _ \<Rightarrow> None)"
proof (cases "finish_reason_of answer")
  case (Inl f)
  obtain ms where ms: "OpenaiError_body f = JObject ms" using chunk_object by blast
  from assms(2) have "rd\<lparr>sr_usage := answer_usage answer\<rparr> = rd"
    by (cases rd) (simp add: answer_usage_def Inl fresh_reading_def)
  with read_failing_data [of rd p ms b _ "[]"] failure_chunk [OF assms(1) finish_failure [OF Inl], of p b] assms(1,3) Inl
  show ?thesis by (simp add: last_chunks_def readable_chunks_def ms)
next
  case (Inr reason)
  let ?closing = "chunk_json a [choice_json [] (JString (finish_reason_name reason))] JNull"
  let ?rd = "rd\<lparr>sr_usage := (sr_usage rd)\<lparr>su_finishReason := Some (finish_reason_name reason)\<rparr>\<rparr>"
  define tail_chunks where
    "tail_chunks = (case OpenaiRoutes_usageOf answer of None \<Rightarrow> [] | Some us \<Rightarrow> [chunk_json a [] us])"
  have chunks: "last_chunks a answer = ?closing # tail_chunks" by (simp add: last_chunks_def Inr tail_chunks_def)
  obtain ms where ms: "?closing = JObject ms" using chunk_object by blast
  have name: "sr_eventName ?rd = None" using assms(1) by simp
  have "read_ended_lines p b (data_lines p (last_chunks a answer) @ [''data: [DONE]'', []]) rd =
      read_ended_lines p b (data_lines p tail_chunks @ [''data: [DONE]'', []]) ?rd"
    using read_data [of rd p ms b ?rd "[]" tail_chunks "[''data: [DONE]'', []]"] ordinary_chunk(3) [OF assms(1), of p b a "finish_reason_name reason"]
      assms(1,3) name
    by (simp add: chunks readable_chunks_def ms)
  also have "\<dots> = ([], rd\<lparr>sr_usage := answer_usage answer\<rparr>, None)"
  proof (cases "OpenaiRoutes_usageOf answer")
    case None
    then have "token_usage answer = None" by (simp add: OpenaiRoutes_usageOf_def)
    with None assms(2) show ?thesis
      by (simp add: tail_chunks_def data_lines_def read_done answer_usage_def Inr fresh_reading_def del: read_ended_lines.simps)
  next
    case (Some us)
    then obtain counts where used: "token_usage answer = Some counts" by (auto simp: OpenaiRoutes_usageOf_def)
    have unused: "sr_usage rd = \<lparr>su_promptTokenCount = None, su_completionTokenCount = None, su_finishReason = None\<rparr>"
      using assms(2) by (simp add: fresh_reading_def)
    let ?rd' = "?rd\<lparr>sr_usage := (sr_usage ?rd)\<lparr>su_promptTokenCount := ans_promptTokenCount answer,
      su_completionTokenCount := ans_completionTokenCount answer\<rparr>\<rparr>"
    obtain us_ms where us_ms: "chunk_json a [] us = JObject us_ms" using chunk_object by blast
    have "read_ended_lines p b (data_lines p tail_chunks @ [''data: [DONE]'', []]) ?rd =
        apfst (\<lambda>ts. ts) (read_ended_lines p b (data_lines p [] @ [''data: [DONE]'', []]) ?rd')"
      using read_data [of ?rd p us_ms b ?rd' "[]" "[]" "[''data: [DONE]'', []]"] usage_chunk [OF name Some, of p b a] assms(3) name Some
      by (simp add: chunks readable_chunks_def us_ms tail_chunks_def)
    with used show ?thesis
      by (simp add: data_lines_def read_done answer_usage_def Inr unused del: read_ended_lines.simps)
  qed
  finally show ?thesis by (simp add: Inr)
qed

text \<open>
  C24: A local server may be this repository's own: what a worker's client reads from the stream of a chat completion,
  cut into chunks in any way, is what the cluster answered there. The pieces are the ones that were written, empty ones
  apart, the tool calls carry their names and arguments in order, the reason for stopping and both token counts are the
  answer's, and an answer that was interrupted fails the read with the message of its failure.
\<close>

theorem worker_reads_streamed_answer:
  assumes "resp_frames (response x) = []" and "\<not> writableEnded (response x)"
    and "\<And>n. one_line (Number_text p n)" and "readable_chunks p (said_chunks a pieces answer @ last_chunks a answer)"
    and "concat chunks =
      concat (map (frame_text p) (resp_frames (response (cs_exchange (chat_answered ms now answer (chat_streamed a True x pieces))))))"
  shows "OpenaiApiClient_textPiecesOf p baseUrl chunks =
      (filter (\<lambda>t. t \<noteq> []) (said_pieces pieces answer), answer_reading a answer,
       case finish_reason_of answer of Inl f \<Rightarrow> Some (stream_failed baseUrl (err_message f)) | Inr _ \<Rightarrow> None)
    \<and> OpenaiApiClient_orderedToolCallsOf (sr_byIndex (answer_reading a answer)) =
      (if asked_for_tools answer then map assembled_call (openai_calls_of a answer) else [])"
proof
  let ?role = "chunk_json a [role_choice] JNull" and ?ts = "said_pieces pieces answer"
  let ?calls = "if asked_for_tools answer then [chunk_json a [calls_choice (openai_calls_of a answer)] JNull] else []"
  let ?rd = "fresh_reading\<lparr>sr_byIndex := sr_byIndex (answer_reading a answer)\<rparr>" and ?rest = "[''data: [DONE]'', []]"
  have fresh: "sr_eventName fresh_reading = None" "sr_byIndex fresh_reading = []" by (simp_all add: fresh_reading_def)
  obtain ms where ms: "?role = JObject ms" using chunk_object by blast
  have role: "read_ended_lines p baseUrl (data_lines p (?role # cs) @ ?rest) fresh_reading =
      read_ended_lines p baseUrl (data_lines p cs @ ?rest) fresh_reading" for cs
    using read_data [OF fresh(1), of p ms baseUrl fresh_reading "[]" cs ?rest] ordinary_chunk(2) [OF fresh(1), of p baseUrl a] assms(4) fresh
    by (simp add: ms said_chunks_def readable_chunks_def)
  have pieces: "read_ended_lines p baseUrl (data_lines p (map (\<lambda>t. chunk_json a [content_choice t] JNull) ?ts @ cs) @ ?rest) fresh_reading =
      apfst (\<lambda>us. filter (\<lambda>t. t \<noteq> []) ?ts @ us) (read_ended_lines p baseUrl (data_lines p cs @ ?rest) fresh_reading)" for cs
    by (rule read_pieces [OF fresh(1)]) (use assms(4) in \<open>simp add: said_chunks_def readable_chunks_def list_all_iff\<close>)
  have calls: "read_ended_lines p baseUrl (data_lines p (?calls @ cs) @ ?rest) fresh_reading = read_ended_lines p baseUrl (data_lines p cs @ ?rest) ?rd" for cs
  proof (cases "asked_for_tools answer")
    case True
    obtain cms where cms: "chunk_json a [calls_choice (openai_calls_of a answer)] JNull = JObject cms" using chunk_object by blast
    with True read_data [OF fresh(1), of p cms baseUrl ?rd "[]" cs ?rest] calls_chunk [OF fresh, of p baseUrl a "openai_calls_of a answer"]
      assms(4) fresh
    show ?thesis by (simp add: said_chunks_def readable_chunks_def answer_reading_def)
  next
    case False
    then show ?thesis by (simp add: answer_reading_def fresh_reading_def)
  qed
  have "OpenaiApiClient_textPiecesOf p baseUrl chunks =
      read_ended_lines p baseUrl (data_lines p (said_chunks a pieces answer @ last_chunks a answer) @ ?rest) fresh_reading"
    by (simp only: OpenaiApiClient_textPiecesOf_def all_pieces_lines text_stream.simps append_Nil assms(5) answered_frames [OF assms(1,2)]
        frame_lines [OF assms(3)])
  also have "\<dots> = apfst (\<lambda>us. filter (\<lambda>t. t \<noteq> []) ?ts @ us) (read_ended_lines p baseUrl (data_lines p (last_chunks a answer) @ ?rest) ?rd)"
    by (simp only: said_chunks_def append_Cons append_assoc role pieces calls)
  also have "read_ended_lines p baseUrl (data_lines p (last_chunks a answer) @ ?rest) ?rd = ([], answer_reading a answer,
       case finish_reason_of answer of Inl f \<Rightarrow> Some (stream_failed baseUrl (err_message f)) | Inr _ \<Rightarrow> None)"
    using read_last [of ?rd p a answer baseUrl] assms(4) by (simp add: fresh_reading_def readable_chunks_def answer_reading_def)
  finally show "OpenaiApiClient_textPiecesOf p baseUrl chunks =
      (filter (\<lambda>t. t \<noteq> []) ?ts, answer_reading a answer,
       case finish_reason_of answer of Inl f \<Rightarrow> Some (stream_failed baseUrl (err_message f)) | Inr _ \<Rightarrow> None)" by simp
  show "OpenaiApiClient_orderedToolCallsOf (sr_byIndex (answer_reading a answer)) =
      (if asked_for_tools answer then map assembled_call (openai_calls_of a answer) else [])"
    using ordered_calls [of 0] by (simp add: answer_reading_def OpenaiApiClient_orderedToolCallsOf_def)
qed

text \<open>An answer in two pieces, whose body arrives cut in the middle of a line.\<close>

definition echo_pieces :: "(nat \<times> string) list" where
  "echo_pieces = [(3, ''Hel''), (4, ''lo'')]"

definition echo_chunks :: "json list" where
  "echo_chunks = said_chunks plain_answering echo_pieces plain_answer @ last_chunks plain_answering plain_answer"

definition echo_platform :: js_platform where
  "echo_platform =
     (let writer = \<lparr>Number_of = (\<lambda>_. NaN), Number_text = (\<lambda>_. ''0''), JSON_parse = (\<lambda>_. None)\<rparr>
      in writer\<lparr>JSON_parse := (\<lambda>s. find (\<lambda>c. stringify writer c = s) echo_chunks)\<rparr>)"

lemma stringify_same_numbers: "Number_text p = Number_text q \<Longrightarrow> stringify p v = stringify q v"
proof (induction p v rule: stringify.induct)
  case (5 p vs)
  then have "map (stringify p) vs = map (stringify q) vs" by simp
  then show ?case by (simp only: stringify.simps)
next
  case (6 p ms)
  then have "map (\<lambda>(k, v). json_string k @ '':'' @ stringify p v) ms = map (\<lambda>(k, v). json_string k @ '':'' @ stringify q v) ms"
    by auto
  then show ?case by (simp only: stringify.simps)
qed simp_all

lemma find_distinct: "distinct (map f cs) \<Longrightarrow> c \<in> set cs \<Longrightarrow> find (\<lambda>d. f d = f c) cs = Some c"
  by (induction cs) (auto simp: rev_image_eqI)

lemma echo_readable: "readable_chunks echo_platform echo_chunks"
proof -
  let ?writer = "\<lparr>Number_of = (\<lambda>_. NaN), Number_text = (\<lambda>_. ''0''), JSON_parse = (\<lambda>_. None)\<rparr>"
  have "distinct (map (stringify ?writer) echo_chunks)" by code_simp
  then have "find (\<lambda>d. stringify ?writer d = stringify ?writer c) echo_chunks = Some c" if "c \<in> set echo_chunks" for c
    using that by (rule find_distinct)
  moreover have "stringify echo_platform c = stringify ?writer c" for c
    by (rule stringify_same_numbers) (simp add: echo_platform_def Let_def)
  ultimately show ?thesis by (simp add: readable_chunks_def list_all_iff echo_platform_def Let_def)
qed

definition echo_body :: string where
  "echo_body = concat (map (frame_text echo_platform) (resp_frames (response (cs_exchange
     (chat_answered 5 9 plain_answer (chat_streamed plain_answering True (begin_transaction ''t'' 0) echo_pieces))))))"

theorem worker_reads_streamed_answer_witness:
  "OpenaiApiClient_textPiecesOf echo_platform ''http'' [take 30 echo_body, drop 30 echo_body] =
     ([''Hel'', ''lo''], answer_reading plain_answering plain_answer, None)"
proof -
  note echo_readable [unfolded echo_chunks_def]
  moreover have "one_line (Number_text echo_platform n)" for n by (simp add: echo_platform_def Let_def)
  ultimately show ?thesis
    using worker_reads_streamed_answer [of "begin_transaction ''t'' 0" echo_platform plain_answering echo_pieces plain_answer
        "[take 30 echo_body, drop 30 echo_body]" 5 9 "''http''"]
    by (simp add: begin_transaction_def fresh_response_def echo_body_def echo_pieces_def said_pieces_def plain_answer_def
        finish_reason_of_def asked_for_tools_def)
qed

section \<open>Which result answers which call\<close>

definition nth_opt :: "'a list \<Rightarrow> nat \<Rightarrow> 'a option" where
  "nth_opt xs k = (if k < length xs then Some (xs ! k) else None)"

definition count_results :: "outgoing_message list \<Rightarrow> nat" where
  "count_results ms = length (filter (\<lambda>m. om_role m = Role_tool) ms)"

lemma nth_opt_tl: "nth_opt (tl xs) k = nth_opt xs (Suc k)"
  by (cases xs) (simp_all add: nth_opt_def)

lemma answers_awaited:
  "messages_from p awaited n ms = mid @ t # post \<Longrightarrow> list_all (\<lambda>m. om_tool_calls m = None) mid \<Longrightarrow> om_role t = Role_tool \<Longrightarrow>
   om_tool_call_id t = nth_opt awaited (count_results mid)"
proof (induction mid arbitrary: awaited n ms)
  case Nil
  then show ?case
    by (cases ms) (auto simp: Let_def count_results_def nth_opt_def split: if_splits option.splits list.splits)
next
  case (Cons m mid)
  then obtain m' ms' where ms: "ms = m' # ms'" by (cases ms) auto
  show ?case
  proof (cases "msg_role m' = Role_tool")
    case True
    with Cons.prems ms have "messages_from p (tl awaited) n ms' = mid @ t # post" and "om_role m = Role_tool" by auto
    with Cons.IH Cons.prems show ?thesis by (simp add: count_results_def nth_opt_tl)
  next
    case False
    with Cons.prems ms have "messages_from p awaited n ms' = mid @ t # post" and "om_role m \<noteq> Role_tool"
      by (auto simp: Let_def split: option.splits)
    with Cons.IH Cons.prems show ?thesis by (simp add: count_results_def)
  qed
qed

lemma calls_then_awaited:
  "messages_from p awaited n ms = pre @ c # post \<Longrightarrow> om_tool_calls c = Some cs \<Longrightarrow>
   \<exists>n' ms'. post = messages_from p (map otc_id cs) n' ms'"
proof (induction pre arbitrary: awaited n ms)
  case Nil
  then show ?case by (cases ms) (auto simp: Let_def split: if_splits option.splits, blast)
next
  case (Cons m pre)
  then obtain m' ms' where "ms = m' # ms'" by (cases ms) auto
  with Cons.prems have "\<exists>awaited' n'. messages_from p awaited' n' ms' = pre @ c # post"
    by (auto simp: Let_def split: if_splits option.splits)
  with Cons.IH Cons.prems(2) show ?case by blast
qed

definition sent_ids :: "outgoing_message list \<Rightarrow> string list" where
  "sent_ids out = concat (map (\<lambda>m. map otc_id (default_to [] (om_tool_calls m))) out)"

lemma minted_ids: "map otc_id (minted_calls p n calls) = map (\<lambda>i. ''call_'' @ decimal i) [n ..< n + length calls]"
proof (induction calls arbitrary: n)
  case (Cons c calls)
  have "[n ..< n + length (c # calls)] = n # [Suc n ..< Suc n + length calls]" by (simp add: upt_conv_Cons del: upt_Suc)
  with Cons [of "Suc n"] show ?case by (simp only: minted_calls.simps list.map outgoing_tool_call.simps)
qed simp

lemma sent_ids_numbered: "\<exists>k. sent_ids (messages_from p awaited n ms) = map (\<lambda>i. ''call_'' @ decimal i) [n ..< n + k]"
proof (induction p awaited n ms rule: messages_from.induct)
  case (2 p awaited minted m ms)
  show ?case
  proof (cases "msg_role m = Role_tool \<or> msg_toolCalls m = None")
    case True
    with 2 show ?thesis by (auto simp: sent_ids_def default_to_def split: list.splits)
  next
    case False
    then obtain calls where calls: "msg_toolCalls m = Some calls" and role: "msg_role m \<noteq> Role_tool" by auto
    with "2.IH"(3) [OF role calls refl] obtain k where
      "sent_ids (messages_from p (map otc_id (minted_calls p minted calls)) (minted + length calls) ms) =
        map (\<lambda>i. ''call_'' @ decimal i) [minted + length calls ..< minted + length calls + k]" by blast
    with calls role have "sent_ids (messages_from p awaited minted (m # ms)) =
        map (\<lambda>i. ''call_'' @ decimal i) ([minted ..< minted + length calls] @ [minted + length calls ..< minted + length calls + k])"
      by (simp add: sent_ids_def default_to_def Let_def minted_ids)
    then show ?thesis by (metis add.assoc le_add1 upt_add_eq_append)
  qed
qed (auto simp: sent_ids_def intro: exI [of _ 0])

lemma outgoing_in_order:
  "map om_role (messages_from p awaited n ms) = map msg_role ms" "map om_content (messages_from p awaited n ms) = map msg_content ms"
  "map (\<lambda>m. map_option (map otc_name) (om_tool_calls m)) (messages_from p awaited n ms) =
     map (\<lambda>m. if msg_role m = Role_tool then None else map_option (map call_name) (msg_toolCalls m)) ms"
proof -
  have names: "map otc_name (minted_calls p n calls) = map call_name calls" for p n calls
    by (induction calls arbitrary: n) simp_all
  show "map om_role (messages_from p awaited n ms) = map msg_role ms"
    by (induction p awaited n ms rule: messages_from.induct) (auto simp: Let_def split: option.split)
  show "map om_content (messages_from p awaited n ms) = map msg_content ms"
    by (induction p awaited n ms rule: messages_from.induct) (auto simp: Let_def split: option.split)
  show "map (\<lambda>m. map_option (map otc_name) (om_tool_calls m)) (messages_from p awaited n ms) =
     map (\<lambda>m. if msg_role m = Role_tool then None else map_option (map call_name) (msg_toolCalls m)) ms"
    by (induction p awaited n ms rule: messages_from.induct) (auto simp: Let_def names split: option.split)
qed

text \<open>
  A history sent to the local server keeps its messages in order, with their roles, texts and the tools they asked
  for. The identifiers minted for the calls are all different, and although the protocol carries none, a result answers
  the right call: the \<open>k\<close>-th result after a message that asked for tools names the \<open>k\<close>-th call of that message, and none
  when there is no such call.
\<close>

theorem tool_results_name_their_calls:
  assumes out: "out = OpenaiApiClient_messagesOf p (History h)"
  shows "map om_role out = map msg_role (history_messages h) \<and> map om_content out = map msg_content (history_messages h)
    \<and> map (\<lambda>m. map_option (map otc_name) (om_tool_calls m)) out =
        map (\<lambda>m. if msg_role m = Role_tool then None else map_option (map call_name) (msg_toolCalls m)) (history_messages h)
    \<and> distinct (sent_ids out)
    \<and> (\<forall>pre c mid t post cs. out = pre @ c # mid @ t # post \<longrightarrow> om_tool_calls c = Some cs \<longrightarrow>
        list_all (\<lambda>m. om_tool_calls m = None) mid \<longrightarrow> om_role t = Role_tool \<longrightarrow>
        om_tool_call_id t = nth_opt (map otc_id cs) (count_results mid))"
proof (intro conjI allI impI)
  have out: "out = messages_from p [] 0 (history_messages h)" by (simp add: out OpenaiApiClient_messagesOf_def)
  show "map om_role out = map msg_role (history_messages h)" "map om_content out = map msg_content (history_messages h)"
    "map (\<lambda>m. map_option (map otc_name) (om_tool_calls m)) out =
       map (\<lambda>m. if msg_role m = Role_tool then None else map_option (map call_name) (msg_toolCalls m)) (history_messages h)"
    unfolding out by (rule outgoing_in_order)+
  obtain k where "sent_ids out = map (\<lambda>i. ''call_'' @ decimal i) [0 ..< k]" unfolding out using sent_ids_numbered by fastforce
  moreover have "inj_on (\<lambda>i. ''call_'' @ decimal i) S" for S by (auto intro!: inj_onI simp: decimal_inj)
  ultimately show "distinct (sent_ids out)" by (simp add: distinct_map)
  fix pre c mid t post cs
  assume sent: "out = pre @ c # mid @ t # post" "om_tool_calls c = Some cs"
    and t: "list_all (\<lambda>m. om_tool_calls m = None) mid" "om_role t = Role_tool"
  from calls_then_awaited [OF sent(1) [unfolded out] sent(2)] answers_awaited [OF _ t]
  show "om_tool_call_id t = nth_opt (map otc_id cs) (count_results mid)" by metis
qed

definition two_call_history :: history_input where
  "two_call_history = \<lparr>history_messages =
     [\<lparr>msg_role = Role_assistant, msg_content = [], msg_toolCalls = Some
        [\<lparr>call_name = ''time'', call_argumentValues = []\<rparr>, \<lparr>call_name = ''heat'', call_argumentValues = []\<rparr>]\<rparr>,
      \<lparr>msg_role = Role_tool, msg_content = ''noon'', msg_toolCalls = None\<rparr>,
      \<lparr>msg_role = Role_tool, msg_content = ''warm'', msg_toolCalls = None\<rparr>],
     history_tools = None\<rparr>"

theorem tool_results_name_their_calls_witness:
  "map om_tool_call_id (OpenaiApiClient_messagesOf echo_platform (History two_call_history)) =
     [None, Some ''call_0'', Some ''call_1'']"
proof -
  let ?out = "OpenaiApiClient_messagesOf echo_platform (History two_call_history)"
  let ?c = "\<lparr>om_role = Role_assistant, om_content = [], om_tool_calls = Some
      [\<lparr>otc_id = ''call_0'', otc_name = ''time'', otc_arguments = ''{}''\<rparr>,
       \<lparr>otc_id = ''call_1'', otc_name = ''heat'', otc_arguments = ''{}''\<rparr>], om_tool_call_id = None\<rparr>"
  have "decimal 0 = ''0''" and "decimal (Suc 0) = ''1''" by code_simp+
  then obtain t1 t2 where out: "?out = [?c, t1, t2]" and t: "om_role t1 = Role_tool" "om_role t2 = Role_tool" "om_tool_calls t1 = None"
    by (simp add: OpenaiApiClient_messagesOf_def two_call_history_def Let_def)
  note answers = tool_results_name_their_calls [OF refl, THEN conjunct2, THEN conjunct2, THEN conjunct2, THEN conjunct2,
      rule_format, of echo_platform two_call_history]
  have "om_tool_call_id t1 = Some ''call_0''"
    using answers [of "[]" ?c "[]" t1 "[t2]"] out t by (simp add: nth_opt_def count_results_def)
  moreover have "om_tool_call_id t2 = Some ''call_1''"
    using answers [of "[]" ?c "[t1]" t2 "[]"] out t by (simp add: nth_opt_def count_results_def)
  ultimately show ?thesis using out by simp
qed

end
