(* ===== verification/Local_Server_Generation.thy ===== *)
theory Local_Server_Generation
  imports Openai_Api_Client
begin

text \<open>
  The answers a worker of the OpenAI-compatible kind is producing
  (\<open>src/packages/worker_openai/src/stages/local_server_generation.ts\<close>). A generation is an object of its own: the map
  names one for each task, and every run holds the one it started or took over, also after it was replaced. A run
  that awaits its request or the next piece is an entry of \<open>ls_runs\<close>; what the local server does then is an event:
  \<open>Request_answered\<close>, or \<open>Stream_read\<close> with what \<open>reader.read()\<close> gives and what the stream has filled in by then. The reader, the
  usage and the tool calls of a generation come from one stream and are named by it. \<open>ls_outputs\<close> is what was done, in
  order.
\<close>

section \<open>Whether the stage can be run\<close>

datatype local_model_readiness = Ready | Unavailable thrown

definition LocalServerGeneration_readiness :: "string \<Rightarrow> json option fetched \<Rightarrow> string \<Rightarrow> local_model_readiness" where
  "LocalServerGeneration_readiness baseUrl answer modelId =
     (case OpenaiApiClient_listModelIds baseUrl answer of
        Inl err \<Rightarrow> Unavailable err
      | Inr modelIds \<Rightarrow>
          if modelId \<notin> set modelIds then
            Unavailable (Thrown (''The local server does not offer '' @ modelId @ ''. The models it offers are: '' @
              (if modelIds = [] then ''none'' else join_with '', '' modelIds) @ ''.''))
          else Ready)"

section \<open>The answer that was read\<close>

definition LocalServerGeneration_argumentValuesOf :: "js_platform \<Rightarrow> streamed_tool_call \<Rightarrow> thrown + (string \<times> string) list" where
  "LocalServerGeneration_argumentValuesOf p toolCall =
     (if trim (sc_argumentsJson toolCall) = [] then Inr []
      else case JSON_parse p (sc_argumentsJson toolCall) of
        None \<Rightarrow> Inl (Thrown (''The local server asked for the tool '' @ sc_name toolCall @ '' with arguments that are not JSON: '' @
          sc_argumentsJson toolCall))
      | Some (JObject ms) \<Rightarrow> Inr (foldl (\<lambda>obj (name, v). object_put obj name (argument_text p v)) [] ms)
      | Some _ \<Rightarrow> Inl (Thrown (''The local server asked for the tool '' @ sc_name toolCall @
          '' with arguments that are not a JSON object: '' @ sc_argumentsJson toolCall)))"

definition LocalServerGeneration_toolCallsOf :: "js_platform \<Rightarrow> (rat, streamed_tool_call) js_map option \<Rightarrow> thrown + tool_call list" where
  "LocalServerGeneration_toolCallsOf p toolCalls =
     (case toolCalls of
        None \<Rightarrow> Inr []
      | Some byIndex \<Rightarrow> all_or_thrown (\<lambda>toolCall.
          map_sum id (\<lambda>values. \<lparr>call_name = sc_name toolCall, call_argumentValues = values\<rparr>)
            (LocalServerGeneration_argumentValuesOf p toolCall)) (OpenaiApiClient_orderedToolCallsOf byIndex))"

definition LocalServerGeneration_stopReasonOf :: "string option \<Rightarrow> stop_reason option" where
  "LocalServerGeneration_stopReasonOf finishReason =
     (if finishReason = Some ''stop'' then Some End_of_sequence
      else if finishReason = Some ''length'' then Some Max_new_tokens
      else None)"

definition LocalServerGeneration_usageOf :: "stream_usage option \<Rightarrow> generation_usage" where
  "LocalServerGeneration_usageOf usage =
     \<lparr>usage_promptTokenCount = Option.bind usage su_promptTokenCount,
      usage_completionTokenCount = Option.bind usage su_completionTokenCount,
      usage_stopReason = LocalServerGeneration_stopReasonOf (Option.bind usage su_finishReason)\<rparr>"

definition ran_out :: "int option \<Rightarrow> thrown" where
  "ran_out completionTokenCount = Thrown (''The model generated '' @
     (case completionTokenCount of None \<Rightarrow> ''every token it was allowed'' | Some n \<Rightarrow> ''all '' @ show_int n @ '' tokens it was allowed'') @
     '' without writing any answer text, and stopped because it ran out of room rather than because it had finished. A model that thinks before it answers can do this by never finishing thinking; asking for reasoning_effort \"none\" stops it.'')"

definition LocalServerGeneration_refuseAnswerThatRanOutBeforeItBegan :: "string \<Rightarrow> stream_usage option \<Rightarrow> thrown + unit" where
  "LocalServerGeneration_refuseAnswerThatRanOutBeforeItBegan answer usage =
     (if answer \<noteq> [] then Inr ()
      else if Option.bind usage su_finishReason \<noteq> Some ''length'' then Inr ()
      else Inl (ran_out (Option.bind usage su_completionTokenCount)))"

definition LocalServerGeneration_refuseEmptyAnswerThatNeverSaidWhyItStopped :: "string \<Rightarrow> stream_usage option \<Rightarrow> thrown + unit" where
  "LocalServerGeneration_refuseEmptyAnswerThatNeverSaidWhyItStopped answer usage =
     (if answer \<noteq> [] then Inr ()
      else if Option.bind usage su_finishReason \<noteq> None then Inr ()
      else Inl (Thrown (''The local server ended this answer without writing any answer text and without ever saying why generation stopped. A server that finishes an answer says why it finished, so this stream ended before the answer was ever produced.'')))"

text \<open>The end of \<open>compute\<close>, after the last piece: the calls, or the answer, or why there is none.\<close>

definition finished_answer :: "js_platform \<Rightarrow> string \<Rightarrow> stream_reading option \<Rightarrow> thrown + llm_stage_payload" where
  "finished_answer p answer rd =
     (let usage = map_option sr_usage rd; reported = Some (LocalServerGeneration_usageOf usage)
      in sum_bind (LocalServerGeneration_toolCallsOf p (map_option sr_byIndex rd)) (\<lambda>toolCalls.
           if length toolCalls > 0 then
             (case StagePayloadFactory_llmToolCalls toolCalls reported of
                Inl No_tool_call_and_no_answer \<Rightarrow> Inl Engine_error
              | Inr payload \<Rightarrow> Inr payload)
           else sum_bind (LocalServerGeneration_refuseAnswerThatRanOutBeforeItBegan answer usage) (\<lambda>_.
                sum_bind (LocalServerGeneration_refuseEmptyAnswerThatNeverSaidWhyItStopped answer usage) (\<lambda>_.
                Inr (StagePayloadFactory_llmDone answer None reported)))))"

definition LocalServerGeneration_isEmpty :: "llm_task_value \<Rightarrow> bool" where
  "LocalServerGeneration_isEmpty promptOrHistory =
     (case promptOrHistory of Prompt t \<Rightarrow> trim t = [] | History h \<Rightarrow> history_messages h = [])"

section \<open>The generations\<close>

definition MAXIMUM_ANSWER_PIECES :: nat where
  "MAXIMUM_ANSWER_PIECES = 2000"

definition ANSWER_IDLE_TIMEOUT_MS :: nat where
  "ANSWER_IDLE_TIMEOUT_MS = 300000"

record task_generation_state =
  gn_isAborted :: "bool option"
  gn_stream :: "nat option"
  gn_owningStageAssignmentId :: string
  gn_unreportedText :: string
  gn_idleTimer :: "task_id option"
  gn_text :: string
  gn_pieceCount :: nat
  gn_isReleased :: bool
  gn_declaredTools :: "tool_declaration list"

record generation_run =
  rn_taskId :: task_id
  rn_stageAssignmentId :: string
  rn_generation :: nat
  rn_wantsPieces :: bool
  rn_stream :: "nat option"

datatype generation_output =
    Run_ended nat string "nat option" "thrown + llm_stage_payload"
  | Request_sent nat json
  | Reader_cancelled nat
  | Request_aborted nat
  | Idle_timer_set nat nat

record local_server =
  ls_generations :: "(nat, task_generation_state) js_map"
  ls_stateByTaskId :: "(task_id, nat) js_map"
  ls_streams :: "(nat, stream_reading) js_map"
  ls_runs :: "(nat, generation_run) js_map"
  ls_next :: nat
  ls_outputs :: "generation_output list"

definition fresh_local_server :: local_server where
  "fresh_local_server = \<lparr>ls_generations = [], ls_stateByTaskId = [], ls_streams = [], ls_runs = [], ls_next = 0, ls_outputs = []\<rparr>"

definition output_of :: "generation_output list \<Rightarrow> local_server \<Rightarrow> local_server" where
  "output_of os s = s\<lparr>ls_outputs := ls_outputs s @ os\<rparr>"

definition put_generation :: "nat \<Rightarrow> task_generation_state \<Rightarrow> local_server \<Rightarrow> local_server" where
  "put_generation g st s = s\<lparr>ls_generations := map_set (ls_generations s) g st\<rparr>"

definition LocalServerGeneration_release :: "nat \<Rightarrow> local_server \<Rightarrow> local_server" where
  "LocalServerGeneration_release g s =
     (case map_get (ls_generations s) g of
        None \<Rightarrow> s
      | Some st \<Rightarrow>
          output_of ((case gn_stream st of None \<Rightarrow> [] | Some k \<Rightarrow> [Reader_cancelled k]) @
              (if gn_isAborted st = None then [] else [Request_aborted g]))
            (put_generation g (st\<lparr>gn_idleTimer := None, gn_isReleased := True, gn_isAborted := map_option (\<lambda>_. True) (gn_isAborted st)\<rparr>) s))"

definition forget_and_release :: "task_id \<Rightarrow> nat \<Rightarrow> local_server \<Rightarrow> local_server" where
  "forget_and_release tid g s =
     LocalServerGeneration_release g (s\<lparr>ls_stateByTaskId := map_delete (ls_stateByTaskId s) tid\<rparr>)"

definition LocalServerGeneration_clearEveryGeneration :: "local_server \<Rightarrow> local_server" where
  "LocalServerGeneration_clearEveryGeneration s = fold (\<lambda>(tid, g). forget_and_release tid g) (ls_stateByTaskId s) s"

definition LocalServerGeneration_clearGeneration :: "task_id \<Rightarrow> string \<Rightarrow> local_server \<Rightarrow> local_server" where
  "LocalServerGeneration_clearGeneration tid aid s =
     (case map_get (ls_stateByTaskId s) tid of
        None \<Rightarrow> s
      | Some g \<Rightarrow>
          (case map_get (ls_generations s) g of
             None \<Rightarrow> s
           | Some st \<Rightarrow>
               if gn_owningStageAssignmentId st \<noteq> aid then s else forget_and_release tid g s))"

definition fresh_generation :: "string \<Rightarrow> tool_declaration list \<Rightarrow> task_generation_state" where
  "fresh_generation aid declared =
     \<lparr>gn_isAborted = None, gn_stream = None, gn_owningStageAssignmentId = aid, gn_unreportedText = [],
      gn_idleTimer = None, gn_text = [], gn_pieceCount = 0, gn_isReleased = False, gn_declaredTools = declared\<rparr>"

text \<open>The generation a run starts or takes over. What \<open>compute\<close> sets at once on a new one, its tools, is set with it.\<close>

definition LocalServerGeneration_newGeneration ::
  "task_id \<Rightarrow> string \<Rightarrow> tool_declaration list \<Rightarrow> nat \<Rightarrow> local_server \<Rightarrow> local_server" where
  "LocalServerGeneration_newGeneration tid aid declared g s =
     (let s1 = (case map_get (ls_stateByTaskId s) tid of None \<Rightarrow> s | Some abandoned \<Rightarrow> LocalServerGeneration_release abandoned s)
      in put_generation g (fresh_generation aid declared)
           (s1\<lparr>ls_stateByTaskId := map_set (ls_stateByTaskId s1) tid g\<rparr>))"

definition LocalServerGeneration_heldGeneration :: "task_id \<Rightarrow> string \<Rightarrow> local_server \<Rightarrow> thrown + (nat \<times> local_server)" where
  "LocalServerGeneration_heldGeneration tid aid s =
     (case Option.bind (map_get (ls_stateByTaskId s) tid) (\<lambda>g. map_option (\<lambda>st. (g, st)) (map_get (ls_generations s) g)) of
        None \<Rightarrow> Inl (Thrown ''This stage was asked to carry on an answer, but this worker is not holding one for that task.'')
      | Some (g, st) \<Rightarrow>
          Inr (g, put_generation g (st\<lparr>gn_idleTimer := None, gn_owningStageAssignmentId := aid\<rparr>) s))"

section \<open>The runs\<close>

definition end_run :: "nat \<Rightarrow> string \<Rightarrow> nat option \<Rightarrow> thrown + llm_stage_payload \<Rightarrow> local_server \<Rightarrow> local_server" where
  "end_run r aid g result s =
     output_of [Run_ended r aid g result] (s\<lparr>ls_runs := map_delete (ls_runs s) r\<rparr>)"

text \<open>Every way out of \<open>compute\<close> but one releases what the run was reading.\<close>

definition leave_run :: "nat \<Rightarrow> generation_run \<Rightarrow> thrown + llm_stage_payload \<Rightarrow> local_server \<Rightarrow> local_server" where
  "leave_run r rn result s =
     end_run r (rn_stageAssignmentId rn) (Some (rn_generation rn)) result
       (LocalServerGeneration_clearGeneration (rn_taskId rn) (rn_stageAssignmentId rn) s)"

definition replaced_run :: thrown where
  "replaced_run = Thrown ''This run was replaced by a later one while it was waiting for the local server, so its answer belongs to that run.''"

definition LocalServerGeneration_refuseIfReplaced :: "task_generation_state \<Rightarrow> string \<Rightarrow> thrown + unit" where
  "LocalServerGeneration_refuseIfReplaced st aid =
     (if gn_owningStageAssignmentId st = aid then Inr () else Inl replaced_run)"

definition stream_of :: "task_generation_state \<Rightarrow> local_server \<Rightarrow> stream_reading option" where
  "stream_of st s = Option.bind (gn_stream st) (map_get (ls_streams s))"

definition finish_run :: "js_platform \<Rightarrow> nat \<Rightarrow> generation_run \<Rightarrow> task_generation_state \<Rightarrow> local_server \<Rightarrow> local_server" where
  "finish_run p r rn st s =
     leave_run r rn
       (sum_bind (LocalServerGeneration_refuseIfReplaced st (rn_stageAssignmentId rn)) (\<lambda>_.
          finished_answer p (gn_text st) (stream_of st s))) s"

text \<open>The head of the loop: the run awaits the next piece, or has read as many as one answer may have.\<close>

definition read_on :: "js_platform \<Rightarrow> nat \<Rightarrow> generation_run \<Rightarrow> task_generation_state \<Rightarrow> local_server \<Rightarrow> local_server" where
  "read_on p r rn st s =
     (if gn_pieceCount st < MAXIMUM_ANSWER_PIECES then s\<lparr>ls_runs := map_set (ls_runs s) r rn\<rparr>
      else finish_run p r rn st s)"

definition LocalServerGeneration_waitForTheRunAfterThis :: "task_id \<Rightarrow> nat \<Rightarrow> task_generation_state \<Rightarrow> local_server \<Rightarrow> local_server" where
  "LocalServerGeneration_waitForTheRunAfterThis tid g st s =
     output_of [Idle_timer_set g ANSWER_IDLE_TIMEOUT_MS] (put_generation g (st\<lparr>gn_idleTimer := Some tid\<rparr>) s)"

definition prompt_or_history_of :: "llm_stage_payload \<Rightarrow> llm_task_value" where
  "prompt_or_history_of payload =
     (case pl_history payload of Some h \<Rightarrow> History h | None \<Rightarrow> Prompt (default_to [] (pl_text payload)))"

definition LocalServerGeneration_startGeneration ::
  "js_platform \<Rightarrow> string \<Rightarrow> nat \<Rightarrow> generation_run \<Rightarrow> task_generation_state \<Rightarrow> llm_stage_payload \<Rightarrow> generation_settings option
     \<Rightarrow> local_server \<Rightarrow> local_server" where
  "LocalServerGeneration_startGeneration p modelId r rn st payload settings s =
     (if LocalServerGeneration_isEmpty (prompt_or_history_of payload) then
        leave_run r rn (Inl (Thrown ''A prompt is needed to start an answer.'')) s
      else
        output_of [Request_sent r (chat_completion_request p modelId (prompt_or_history_of payload) settings)]
          (put_generation (rn_generation rn) (st\<lparr>gn_isAborted := Some False\<rparr>) (s\<lparr>ls_runs := map_set (ls_runs s) r rn\<rparr>)))"

definition declared_tools_of :: "llm_stage_payload \<Rightarrow> tool_declaration list" where
  "declared_tools_of payload = default_to [] (Option.bind (pl_history payload) history_tools)"

definition wants_pieces :: "generation_settings option \<Rightarrow> task_generation_state \<Rightarrow> bool" where
  "wants_pieces settings st \<longleftrightarrow> Option.bind settings isStreaming = Some True \<and> gn_declaredTools st = []"

definition LocalServerGeneration_compute ::
  "js_platform \<Rightarrow> string \<Rightarrow> task_id \<Rightarrow> string \<Rightarrow> llm_stage_payload \<Rightarrow> generation_settings option \<Rightarrow> local_server \<Rightarrow> local_server" where
  "LocalServerGeneration_compute p modelId tid aid payload settings s0 =
     (let r = ls_next s0; s = s0\<lparr>ls_next := r + 1\<rparr>
      in case (if pl_isContinuation payload = Some True then LocalServerGeneration_heldGeneration tid aid s
            else Inr (r, LocalServerGeneration_newGeneration tid aid (declared_tools_of payload) r s)) of
           Inl err \<Rightarrow> end_run r aid None (Inl err) s
         | Inr (g, s1) \<Rightarrow>
             (case map_get (ls_generations s1) g of
                None \<Rightarrow> s1
              | Some st \<Rightarrow>
                  let rn = \<lparr>rn_taskId = tid, rn_stageAssignmentId = aid, rn_generation = g,
                        rn_wantsPieces = wants_pieces settings st, rn_stream = gn_stream st\<rparr>
                  in if gn_stream st = None then LocalServerGeneration_startGeneration p modelId r rn st payload settings s1
                     else read_on p r rn st s1))"

definition request_answered :: "js_platform \<Rightarrow> nat \<Rightarrow> thrown option \<Rightarrow> local_server \<Rightarrow> local_server" where
  "request_answered p r failure s0 =
     (case map_get (ls_runs s0) r of
        None \<Rightarrow> s0
      | Some rn \<Rightarrow>
          (case map_get (ls_generations s0) (rn_generation rn) of
             None \<Rightarrow> s0
           | Some st \<Rightarrow>
               if rn_stream rn \<noteq> None then s0
               else case failure of
                 Some err \<Rightarrow> leave_run r rn (Inl err) s0
               | None \<Rightarrow>
                   if gn_isReleased st then
                     leave_run r rn (Inl (Thrown ''The answer this stage was to produce was abandoned before the local server had answered.''))
                       (output_of [Request_aborted (rn_generation rn)] s0)
                   else
                     let k = ls_next s0; st1 = st\<lparr>gn_stream := Some k\<rparr>;
                       s = put_generation (rn_generation rn) st1
                         (s0\<lparr>ls_next := k + 1, ls_streams := map_set (ls_streams s0) k fresh_reading\<rparr>)
                     in read_on p r (rn\<lparr>rn_stream := Some k\<rparr>) st1 s))"

datatype read_result = Read_piece string | Read_ended | Read_failed thrown

definition stream_read :: "js_platform \<Rightarrow> nat \<Rightarrow> stream_reading \<Rightarrow> read_result \<Rightarrow> local_server \<Rightarrow> local_server" where
  "stream_read p r rd result s0 =
     (case map_get (ls_runs s0) r of
        None \<Rightarrow> s0
      | Some rn \<Rightarrow>
          (case (map_get (ls_generations s0) (rn_generation rn), rn_stream rn) of
             (Some st, Some k) \<Rightarrow>
               let s = s0\<lparr>ls_streams := map_set (ls_streams s0) k rd\<rparr>
               in case result of
                    Read_failed err \<Rightarrow> leave_run r rn (Inl err) s
                  | Read_ended \<Rightarrow>
                      if gn_isReleased st then leave_run r rn (Inl
                        (Thrown ''The answer this stage was producing was abandoned before generation had finished.'')) s
                      else finish_run p r rn st s
                  | Read_piece t \<Rightarrow>
                      if gn_isReleased st then leave_run r rn (Inl
                        (Thrown ''The answer this stage was producing was abandoned before generation had finished.'')) s
                      else
                        let st1 = st\<lparr>gn_text := gn_text st @ t, gn_unreportedText := gn_unreportedText st @ t,
                              gn_pieceCount := gn_pieceCount st + 1\<rparr>;
                          s1 = put_generation (rn_generation rn) st1 s
                        in case LocalServerGeneration_refuseIfReplaced st1 (rn_stageAssignmentId rn) of
                             Inl err \<Rightarrow> leave_run r rn (Inl err) s1
                           | Inr _ \<Rightarrow>
                               if rn_wantsPieces rn then
                                 end_run r (rn_stageAssignmentId rn) (Some (rn_generation rn))
                                   (Inr (StagePayloadFactory_llmPartialText (gn_unreportedText st1)))
                                   (LocalServerGeneration_waitForTheRunAfterThis (rn_taskId rn) (rn_generation rn)
                                      (st1\<lparr>gn_unreportedText := []\<rparr>) s1)
                               else read_on p r rn st1 s1
           | _ \<Rightarrow> s0))"

definition idle_timer_fired :: "nat \<Rightarrow> local_server \<Rightarrow> local_server" where
  "idle_timer_fired g s =
     (case Option.bind (map_get (ls_generations s) g) gn_idleTimer of
        None \<Rightarrow> s
      | Some tid \<Rightarrow> if map_get (ls_stateByTaskId s) tid \<noteq> Some g then s else forget_and_release tid g s)"

datatype generation_event =
    Compute task_id string llm_stage_payload "generation_settings option"
  | Request_answered nat "thrown option"
  | Stream_read nat stream_reading read_result
  | Clear_generation task_id string
  | Clear_every_generation
  | Idle_timer_fired nat

fun generation_step :: "js_platform \<Rightarrow> string \<Rightarrow> local_server \<Rightarrow> generation_event \<Rightarrow> local_server" where
  "generation_step p modelId s (Compute tid a payload settings) = LocalServerGeneration_compute p modelId tid a payload settings s"
| "generation_step p modelId s (Request_answered r failure) = request_answered p r failure s"
| "generation_step p modelId s (Stream_read r rd result) = stream_read p r rd result s"
| "generation_step p modelId s (Clear_generation tid a) = LocalServerGeneration_clearGeneration tid a s"
| "generation_step p modelId s Clear_every_generation = LocalServerGeneration_clearEveryGeneration s"
| "generation_step p modelId s (Idle_timer_fired g) = idle_timer_fired g s"

section \<open>What is held\<close>

text \<open>
  An answer that is not released is held for one task, and either a run that owns it is under way or a timer waits for the
  next one. \<open>busy\<close> names the run being carried out inside a step, which is not an entry yet or no longer.
\<close>

abbreviation generation :: "local_server \<Rightarrow> nat \<Rightarrow> task_generation_state option" where
  "generation s g \<equiv> map_get (ls_generations s) g"

abbreviation held_for :: "local_server \<Rightarrow> task_id \<Rightarrow> nat option" where
  "held_for s tid \<equiv> map_get (ls_stateByTaskId s) tid"

definition run_on :: "local_server \<Rightarrow> nat \<Rightarrow> string \<Rightarrow> bool" where
  "run_on s g aid \<longleftrightarrow> (\<exists>r rn. map_get (ls_runs s) r = Some rn \<and> rn_generation rn = g \<and> rn_stageAssignmentId rn = aid)"

definition run_ok :: "local_server \<Rightarrow> generation_run \<Rightarrow> bool" where
  "run_ok s rn \<longleftrightarrow> (\<exists>st. generation s (rn_generation rn) = Some st
     \<and> (\<not> gn_isReleased st \<longrightarrow> held_for s (rn_taskId rn) = Some (rn_generation rn)))"

definition generation_ok :: "(nat \<times> string) set \<Rightarrow> local_server \<Rightarrow> nat \<Rightarrow> task_generation_state \<Rightarrow> bool" where
  "generation_ok busy s g st \<longleftrightarrow>
     (if gn_isReleased st then gn_idleTimer st = None
      else (\<exists>tid. held_for s tid = Some g \<and> gn_idleTimer st \<in> {None, Some tid})
        \<and> (gn_idleTimer st = None \<longrightarrow> (g, gn_owningStageAssignmentId st) \<in> busy \<or> run_on s g (gn_owningStageAssignmentId st)))"

definition held_ok :: "(nat \<times> string) set \<Rightarrow> local_server \<Rightarrow> bool" where
  "held_ok busy s \<longleftrightarrow> wf_map (ls_stateByTaskId s)
     \<and> (\<forall>tid g. held_for s tid = Some g \<longrightarrow> (\<exists>st. generation s g = Some st \<and> \<not> gn_isReleased st))
     \<and> (\<forall>tid tid' g. held_for s tid = Some g \<longrightarrow> held_for s tid' = Some g \<longrightarrow> tid = tid')
     \<and> (\<forall>g st. generation s g = Some st \<longrightarrow> g < ls_next s \<and> generation_ok busy s g st)
     \<and> (\<forall>r rn. map_get (ls_runs s) r = Some rn \<longrightarrow> r < ls_next s \<and> run_ok s rn)"

lemma held_okI:
  assumes "wf_map (ls_stateByTaskId s)"
    and "\<And>tid g. held_for s tid = Some g \<Longrightarrow> \<exists>st. generation s g = Some st \<and> \<not> gn_isReleased st"
    and "\<And>tid tid' g. held_for s tid = Some g \<Longrightarrow> held_for s tid' = Some g \<Longrightarrow> tid = tid'"
    and "\<And>g st. generation s g = Some st \<Longrightarrow> g < ls_next s" and "\<And>g st. generation s g = Some st \<Longrightarrow> generation_ok busy s g st"
    and "\<And>r rn. map_get (ls_runs s) r = Some rn \<Longrightarrow> r < ls_next s" and "\<And>r rn. map_get (ls_runs s) r = Some rn \<Longrightarrow> run_ok s rn"
  shows "held_ok busy s"
  unfolding held_ok_def by (intro conjI allI impI; rule assms; assumption)

lemma held_okD:
  assumes "held_ok busy s"
  shows "wf_map (ls_stateByTaskId s)"
    and "held_for s tid = Some g \<Longrightarrow> \<exists>st. generation s g = Some st \<and> \<not> gn_isReleased st"
    and "held_for s tid = Some g \<Longrightarrow> held_for s tid' = Some g \<Longrightarrow> tid = tid'"
    and "generation s g = Some st \<Longrightarrow> g < ls_next s" and "generation s g = Some st \<Longrightarrow> generation_ok busy s g st"
    and "map_get (ls_runs s) r = Some rn \<Longrightarrow> r < ls_next s" and "map_get (ls_runs s) r = Some rn \<Longrightarrow> run_ok s rn"
  using assms unfolding held_ok_def by blast+

lemma held_ok_mono: "held_ok {} s \<Longrightarrow> held_ok busy s"
proof -
  assume ok: "held_ok {} s"
  have "generation_ok busy s g st" if "generation s g = Some st" for g st
    using held_okD(5) [OF ok that] by (auto simp: generation_ok_def)
  from held_okI [OF held_okD(1,2,3,4) [OF ok] this held_okD(6,7) [OF ok]] show ?thesis by simp
qed

lemma generation_ok_frame:
  assumes ok: "generation_ok busy s g st" and held: "\<And>tid. held_for s tid = Some g \<Longrightarrow> held_for s' tid = Some g"
    and runs: "gn_idleTimer st = None \<Longrightarrow> \<not> gn_isReleased st \<Longrightarrow>
      (g, gn_owningStageAssignmentId st) \<in> busy \<or> run_on s g (gn_owningStageAssignmentId st) \<Longrightarrow>
      (g, gn_owningStageAssignmentId st) \<in> busy' \<or> run_on s' g (gn_owningStageAssignmentId st)"
  shows "generation_ok busy' s' g st"
proof (cases "gn_isReleased st")
  case True
  with ok show ?thesis by (simp add: generation_ok_def)
next
  case False
  with ok obtain tid where "held_for s tid = Some g" "gn_idleTimer st \<in> {None, Some tid}" by (auto simp: generation_ok_def)
  with held have "\<exists>tid. held_for s' tid = Some g \<and> gn_idleTimer st \<in> {None, Some tid}" by blast
  with False ok runs show ?thesis by (simp add: generation_ok_def)
qed

lemma output_of_fields [simp]:
  "ls_generations (output_of os s) = ls_generations s" "ls_stateByTaskId (output_of os s) = ls_stateByTaskId s"
  "ls_streams (output_of os s) = ls_streams s" "ls_runs (output_of os s) = ls_runs s" "ls_next (output_of os s) = ls_next s"
  "ls_outputs (output_of os s) = ls_outputs s @ os"
  by (simp_all add: output_of_def)

lemma put_generation_fields [simp]:
  "generation (put_generation g st s) g' = (if g' = g then Some st else generation s g')"
  "ls_stateByTaskId (put_generation g st s) = ls_stateByTaskId s" "ls_streams (put_generation g st s) = ls_streams s"
  "ls_runs (put_generation g st s) = ls_runs s" "ls_next (put_generation g st s) = ls_next s"
  "ls_outputs (put_generation g st s) = ls_outputs s"
  by (simp_all add: put_generation_def)

definition released :: "task_generation_state \<Rightarrow> task_generation_state" where
  "released st = st\<lparr>gn_idleTimer := None, gn_isReleased := True, gn_isAborted := map_option (\<lambda>_. True) (gn_isAborted st)\<rparr>"

lemma release_fields [simp]:
  "generation (LocalServerGeneration_release g s) g' = (if g' = g then map_option released (generation s g) else generation s g')"
  "ls_stateByTaskId (LocalServerGeneration_release g s) = ls_stateByTaskId s"
  "ls_runs (LocalServerGeneration_release g s) = ls_runs s" "ls_next (LocalServerGeneration_release g s) = ls_next s"
  "ls_streams (LocalServerGeneration_release g s) = ls_streams s"
  by (auto simp: LocalServerGeneration_release_def released_def split: option.split)

lemma released_fields [simp]:
  "gn_isReleased (released st)" "gn_idleTimer (released st) = None" "gn_text (released st) = gn_text st"
  "gn_unreportedText (released st) = gn_unreportedText st" "gn_owningStageAssignmentId (released st) = gn_owningStageAssignmentId st"
  by (simp_all add: released_def)

lemma forget_fields [simp]:
  "generation (forget_and_release tid g s) g' = (if g' = g then map_option released (generation s g) else generation s g')"
  "ls_stateByTaskId (forget_and_release tid g s) = map_delete (ls_stateByTaskId s) tid"
  "ls_runs (forget_and_release tid g s) = ls_runs s" "ls_next (forget_and_release tid g s) = ls_next s"
  "ls_streams (forget_and_release tid g s) = ls_streams s"
  by (simp_all add: forget_and_release_def)

text \<open>Releasing a held answer leaves every other one held.\<close>

lemma forget_ok:
  assumes ok: "held_ok busy s" and held: "held_for s tid = Some g"
  shows "held_ok busy (forget_and_release tid g s)"
proof (rule held_okI)
  let ?s = "forget_and_release tid g s"
  have others: "held_for ?s tid' = Some g' \<longleftrightarrow> held_for s tid' = Some g' \<and> g' \<noteq> g" for tid' g'
  proof -
    have "held_for ?s tid' = Some g' \<longleftrightarrow> tid' \<noteq> tid \<and> held_for s tid' = Some g'" by simp
    moreover have "tid' = tid \<longleftrightarrow> g' = g" if "held_for s tid' = Some g'"
    proof
      assume "tid' = tid"
      with that held show "g' = g" by simp
    next
      assume "g' = g"
      with that held held_okD(3) [OF ok] show "tid' = tid" by simp
    qed
    ultimately show ?thesis by blast
  qed
  note D = held_okD [OF ok]
  show "wf_map (ls_stateByTaskId ?s)" using D(1) by simp
  show "\<exists>st. generation ?s g' = Some st \<and> \<not> gn_isReleased st" if "held_for ?s tid' = Some g'" for tid' g'
    using that D(2) [of tid' g'] unfolding others by auto
  show "tid' = tid''" if "held_for ?s tid' = Some g'" "held_for ?s tid'' = Some g'" for tid' tid'' g'
    using that D(3) [of tid' g' tid''] unfolding others by blast
  show "g' < ls_next ?s" if "generation ?s g' = Some st" for g' st
    using that D(4) [of g'] by (auto split: if_splits)
  show "generation_ok busy ?s g' st" if "generation ?s g' = Some st" for g' st
  proof (cases "g' = g")
    case True
    with that show ?thesis by (auto simp: generation_ok_def)
  next
    case False
    with that have "generation_ok busy s g' st" using D(5) by simp
    then show ?thesis
      by (rule generation_ok_frame) (use False in \<open>simp_all add: others run_on_def del: forget_fields(2)\<close>)
  qed
  show "r < ls_next ?s" if "map_get (ls_runs ?s) r = Some rn" for r rn using that D(6) by simp
  show "run_ok ?s rn" if "map_get (ls_runs ?s) r = Some rn" for r rn
  proof -
    from that D(7) obtain st where st: "generation s (rn_generation rn) = Some st"
      "\<not> gn_isReleased st \<longrightarrow> held_for s (rn_taskId rn) = Some (rn_generation rn)" by (auto simp: run_ok_def)
    show ?thesis
    proof (cases "rn_generation rn = g")
      case True
      with st(1) show ?thesis by (simp add: run_ok_def)
    next
      case False
      with st show ?thesis by (simp add: run_ok_def others del: forget_fields(2))
    qed
  qed
qed

lemma clear_ok: "held_ok busy s \<Longrightarrow> held_ok busy (LocalServerGeneration_clearGeneration tid aid s)"
  by (auto simp: LocalServerGeneration_clearGeneration_def intro: forget_ok split: option.split)

lemma clear_every_ok:
  "held_ok busy s \<Longrightarrow> held_ok busy (LocalServerGeneration_clearEveryGeneration s)
     \<and> ls_stateByTaskId (LocalServerGeneration_clearEveryGeneration s) = []"
proof -
  have "held_ok busy s \<Longrightarrow> ls_stateByTaskId s = xs \<Longrightarrow> held_ok busy (fold (\<lambda>(tid, g). forget_and_release tid g) xs s)
      \<and> ls_stateByTaskId (fold (\<lambda>(tid, g). forget_and_release tid g) xs s) = []" for xs
  proof (induction xs arbitrary: s)
    case (Cons x xs)
    obtain tid g where x: "x = (tid, g)" by fastforce
    with Cons.prems have "held_for s tid = Some g" and "tid \<notin> fst ` set xs" using held_okD(1) [OF Cons.prems(1)] by auto
    moreover from this have "map_delete (x # xs) tid = xs" by (simp add: x delete_id)
    ultimately have "held_ok busy (forget_and_release tid g s)" and "ls_stateByTaskId (forget_and_release tid g s) = xs"
      using forget_ok Cons.prems by simp_all
    with Cons.IH show ?case by (simp add: x)
  qed simp
  then show "held_ok busy s \<Longrightarrow> ?thesis" by (simp add: LocalServerGeneration_clearEveryGeneration_def)
qed

text \<open>Leaving a run: what it owned was released before.\<close>

definition only_entry :: "local_server \<Rightarrow> nat \<Rightarrow> nat \<Rightarrow> string \<Rightarrow> bool" where
  "only_entry s r g aid \<longleftrightarrow>
     (\<forall>rn. map_get (ls_runs s) r = Some rn \<longrightarrow> rn_generation rn = g \<and> rn_stageAssignmentId rn = aid)"

lemma end_run_fields [simp]:
  "ls_generations (end_run r a g res s) = ls_generations s" "ls_stateByTaskId (end_run r a g res s) = ls_stateByTaskId s"
  "ls_runs (end_run r a g res s) = map_delete (ls_runs s) r" "ls_next (end_run r a g res s) = ls_next s"
  "ls_streams (end_run r a g res s) = ls_streams s"
  by (simp_all add: end_run_def)

lemma end_run_ok:
  assumes ok: "held_ok {(g, aid)} s" and entry: "only_entry s r g aid"
    and left_alone: "\<And>st. generation s g = Some st \<Longrightarrow> gn_isReleased st \<or> gn_idleTimer st \<noteq> None \<or> gn_owningStageAssignmentId st \<noteq> aid"
  shows "held_ok {} (end_run r a g' res s)"
proof (rule held_okI)
  let ?s = "end_run r a g' res s"
  note D = held_okD [OF ok]
  show "wf_map (ls_stateByTaskId ?s)" using D(1) by simp
  show "\<exists>st. generation ?s g' = Some st \<and> \<not> gn_isReleased st" if "held_for ?s tid' = Some g'" for tid' g'
    using that D(2) [of tid' g'] by simp
  show "tid' = tid''" if "held_for ?s tid' = Some g'" "held_for ?s tid'' = Some g'" for tid' tid'' g'
    using that D(3) [of tid' g' tid''] by simp
  show "g' < ls_next ?s" if "generation ?s g' = Some st" for g' st using that D(4) by simp
  show "generation_ok {} ?s g' st" if st: "generation ?s g' = Some st" for g' st
  proof -
    from st D(5) have ok': "generation_ok {(g, aid)} s g' st" by simp
    have kept: "run_on ?s g' b" if "run_on s g' b" and "g' \<noteq> g \<or> b \<noteq> aid" for b
    proof -
      from that(1) obtain r' rn where rn: "map_get (ls_runs s) r' = Some rn" "rn_generation rn = g'" "rn_stageAssignmentId rn = b"
        by (auto simp: run_on_def)
      with that(2) entry have "r' \<noteq> r" unfolding only_entry_def by force
      with rn show ?thesis by (auto simp: run_on_def)
    qed
    from ok' show ?thesis
    proof (rule generation_ok_frame)
      assume "gn_idleTimer st = None" "\<not> gn_isReleased st"
      with left_alone [of st] st have "g' \<noteq> g \<or> gn_owningStageAssignmentId st \<noteq> aid" by auto
      moreover assume "(g', gn_owningStageAssignmentId st) \<in> {(g, aid)} \<or> run_on s g' (gn_owningStageAssignmentId st)"
      ultimately show "(g', gn_owningStageAssignmentId st) \<in> {} \<or> run_on ?s g' (gn_owningStageAssignmentId st)"
        using kept by blast
    qed simp
  qed
  show "r' < ls_next ?s" if "map_get (ls_runs ?s) r' = Some rn" for r' rn using that D(6) by (simp split: if_splits)
  show "run_ok ?s rn" if "map_get (ls_runs ?s) r' = Some rn" for r' rn
    using that D(7) by (simp add: run_ok_def split: if_splits)
qed

lemma clear_entry [simp]: "ls_runs (LocalServerGeneration_clearGeneration tid aid s) = ls_runs s"
    "ls_next (LocalServerGeneration_clearGeneration tid aid s) = ls_next s"
  by (auto simp: LocalServerGeneration_clearGeneration_def split: option.split)

lemma clear_generation:
  "generation (LocalServerGeneration_clearGeneration tid aid s) g =
     (if held_for s tid = Some g \<and> map_option gn_owningStageAssignmentId (generation s g) = Some aid
      then map_option released (generation s g) else generation s g)"
  by (auto simp: LocalServerGeneration_clearGeneration_def split: option.split)

lemma leave_run_ok:
  assumes "held_ok {(rn_generation rn, rn_stageAssignmentId rn)} s" and "only_entry s r (rn_generation rn) (rn_stageAssignmentId rn)"
    and "run_ok s rn"
  shows "held_ok {} (leave_run r rn res s)"
  unfolding leave_run_def
proof (rule end_run_ok)
  let ?s = "LocalServerGeneration_clearGeneration (rn_taskId rn) (rn_stageAssignmentId rn) s"
  show "held_ok {(rn_generation rn, rn_stageAssignmentId rn)} ?s" using assms(1) by (rule clear_ok)
  show "only_entry ?s r (rn_generation rn) (rn_stageAssignmentId rn)" using assms(2) by (simp add: only_entry_def)
  show "gn_isReleased st \<or> gn_idleTimer st \<noteq> None \<or> gn_owningStageAssignmentId st \<noteq> rn_stageAssignmentId rn"
    if "generation ?s (rn_generation rn) = Some st" for st
    using that assms(3) by (auto simp: clear_generation run_ok_def split: if_splits)
qed

text \<open>A run that goes on waiting is the entry that owns what it reads.\<close>

lemma wait_ok:
  assumes ok: "held_ok {(rn_generation rn, rn_stageAssignmentId rn)} s"
    and entry: "only_entry s r (rn_generation rn) (rn_stageAssignmentId rn)" and "run_ok s rn" and "r < ls_next s"
  shows "held_ok {} (s\<lparr>ls_runs := map_set (ls_runs s) r rn\<rparr>)"
proof (rule held_okI)
  let ?s = "s\<lparr>ls_runs := map_set (ls_runs s) r rn\<rparr>"
  note D = held_okD [OF ok]
  show "wf_map (ls_stateByTaskId ?s)" using D(1) by simp
  show "\<exists>st. generation ?s g' = Some st \<and> \<not> gn_isReleased st" if "held_for ?s tid' = Some g'" for tid' g'
    using that D(2) [of tid' g'] by simp
  show "tid' = tid''" if "held_for ?s tid' = Some g'" "held_for ?s tid'' = Some g'" for tid' tid'' g'
    using that D(3) [of tid' g' tid''] by simp
  show "g' < ls_next ?s" if "generation ?s g' = Some st" for g' st using that D(4) by simp
  show "generation_ok {} ?s g' st" if st: "generation ?s g' = Some st" for g' st
  proof -
    have "run_on ?s g' a" if "run_on s g' a \<or> (g', a) = (rn_generation rn, rn_stageAssignmentId rn)" for a
    proof (cases "(g', a) = (rn_generation rn, rn_stageAssignmentId rn)")
      case True
      then show ?thesis by (auto simp: run_on_def intro!: exI [of _ r])
    next
      case False
      with that obtain r' rn' where "map_get (ls_runs s) r' = Some rn'" "rn_generation rn' = g'" "rn_stageAssignmentId rn' = a"
        by (auto simp: run_on_def)
      moreover from this False entry have "r' \<noteq> r" by (auto simp: only_entry_def)
      ultimately show ?thesis by (auto simp: run_on_def)
    qed
    moreover from st D(5) have "generation_ok {(rn_generation rn, rn_stageAssignmentId rn)} s g' st" by simp
    ultimately show ?thesis by (auto elim!: generation_ok_frame)
  qed
  show "r' < ls_next ?s" if "map_get (ls_runs ?s) r' = Some rn'" for r' rn'
    using that D(6) assms(4) by (simp split: if_splits)
  show "run_ok ?s rn'" if "map_get (ls_runs ?s) r' = Some rn'" for r' rn'
    using that D(7) assms(3) by (auto simp: run_ok_def split: if_splits)
qed

lemma read_on_ok:
  assumes "held_ok {(rn_generation rn, rn_stageAssignmentId rn)} s"
    and "only_entry s r (rn_generation rn) (rn_stageAssignmentId rn)" and "run_ok s rn" and "r < ls_next s"
  shows "held_ok {} (read_on p r rn st s)"
  using wait_ok [OF assms] leave_run_ok [OF assms(1-3)] by (simp add: read_on_def finish_run_def)

lemma put_ok:
  assumes ok: "held_ok busy s" and st: "generation s g = Some st" and same: "gn_isReleased st' = gn_isReleased st"
    and ok': "generation_ok busy' s g st'" and others: "\<And>g' a. (g', a) \<in> busy \<Longrightarrow> g' \<noteq> g \<Longrightarrow> (g', a) \<in> busy'"
  shows "held_ok busy' (put_generation g st' s)"
proof (rule held_okI)
  let ?s = "put_generation g st' s"
  note D = held_okD [OF ok]
  show "wf_map (ls_stateByTaskId ?s)" using D(1) by simp
  show "\<exists>st. generation ?s g' = Some st \<and> \<not> gn_isReleased st" if "held_for ?s tid = Some g'" for tid g'
    using that D(2) [of tid g'] st same by auto
  show "tid = tid'" if "held_for ?s tid = Some g'" "held_for ?s tid' = Some g'" for tid tid' g'
    using that D(3) [of tid g' tid'] by simp
  show "g' < ls_next ?s" if "generation ?s g' = Some st''" for g' st'' using that D(4) st by (auto split: if_splits)
  show "generation_ok busy' ?s g' st''" if "generation ?s g' = Some st''" for g' st''
  proof (cases "g' = g")
    case True
    with that ok' show ?thesis by (auto elim!: generation_ok_frame simp: run_on_def)
  next
    case False
    with that have "generation s g' = Some st''" by simp
    from D(5) [OF this] show ?thesis by (rule generation_ok_frame) (use False others in \<open>auto simp: run_on_def\<close>)
  qed
  show "r' < ls_next ?s" if "map_get (ls_runs ?s) r' = Some rn" for r' rn using that D(6) by simp
  show "run_ok ?s rn" if "map_get (ls_runs ?s) r' = Some rn" for r' rn
    using that D(7) [of r' rn] st same by (auto simp: run_ok_def)
qed

lemma put_same_ok:
  assumes "held_ok busy s" and "generation s g = Some st" and "gn_isReleased st' = gn_isReleased st"
    and "gn_idleTimer st' = gn_idleTimer st" and "gn_owningStageAssignmentId st' = gn_owningStageAssignmentId st"
  shows "held_ok busy (put_generation g st' s)"
proof (rule put_ok [OF assms(1-3)])
  show "generation_ok busy s g st'"
    using held_okD(5) [OF assms(1,2)] unfolding generation_ok_def assms(3-5) .
qed auto

lemma held_frames [simp]:
  "held_ok busy (s\<lparr>ls_streams := x\<rparr>) = held_ok busy s" "held_ok busy (output_of os s) = held_ok busy s"
  by (simp_all add: held_ok_def generation_ok_def run_on_def run_ok_def)

lemma held_next: "held_ok busy s \<Longrightarrow> ls_next s \<le> n \<Longrightarrow> held_ok busy (s\<lparr>ls_next := n\<rparr>)"
proof -
  assume ok: "held_ok busy s" and n: "ls_next s \<le> n"
  note D = held_okD [OF ok]
  let ?s = "s\<lparr>ls_next := n\<rparr>"
  have same: "generation_ok busy ?s g st = generation_ok busy s g st" "run_ok ?s rn = run_ok s rn" for g st rn
    by (simp_all add: generation_ok_def run_on_def run_ok_def)
  show ?thesis
  proof (rule held_okI)
    show "g < ls_next ?s" if "generation ?s g = Some st" for g st using that D(4) [of g] n by fastforce
    show "r < ls_next ?s" if "map_get (ls_runs ?s) r = Some rn" for r rn using that D(6) [of r] n by fastforce
    show "tid = tid'" if "held_for ?s tid = Some g" "held_for ?s tid' = Some g" for tid tid' g
      using that D(3) [of tid g tid'] by simp
  qed (use D(1,2,5,7) in \<open>simp_all add: same\<close>)
qed

lemma new_generation_ok:
  assumes ok: "held_ok {} s" and r: "r = ls_next s"
  shows "held_ok {(r, aid)} (LocalServerGeneration_newGeneration tid aid ds r (s\<lparr>ls_next := r + 1\<rparr>))"
proof -
  define s0 where "s0 = s\<lparr>ls_next := r + 1\<rparr>"
  have ok0: "held_ok {} s0" using held_next [OF ok] r by (simp add: s0_def)
  have fresh: "generation s0 r = None" using held_okD(4) [OF ok, of r] r by (cases "generation s r") (auto simp: s0_def)
  define s1 where "s1 = (case held_for s0 tid of None \<Rightarrow> s0 | Some g \<Rightarrow> forget_and_release tid g s0)"
  have ok1: "held_ok {} s1" using ok0 forget_ok [OF ok0] by (auto simp: s1_def split: option.split)
  have gone: "held_for s1 tid = None" by (auto simp: s1_def split: option.split)
  have kept: "generation s1 r = None" "ls_next s1 = r + 1" using fresh by (auto simp: s1_def s0_def split: option.split)
  let ?s = "LocalServerGeneration_newGeneration tid aid ds r s0"
  have held: "held_for ?s tid' = (if tid' = tid then Some r else held_for s1 tid')" for tid'
    by (auto simp: LocalServerGeneration_newGeneration_def Let_def s1_def split: option.split)
  have gen: "generation ?s g = (if g = r then Some (fresh_generation aid ds) else generation s1 g)" for g
    by (auto simp: LocalServerGeneration_newGeneration_def Let_def s1_def split: option.split)
  have same: "ls_runs ?s = ls_runs s1" "ls_next ?s = ls_next s1"
    by (auto simp: LocalServerGeneration_newGeneration_def Let_def s1_def split: option.split)
  have unheld: "held_for s1 tid' \<noteq> Some r" for tid' using held_okD(2) [OF ok1, of tid' r] kept by auto
  note D = held_okD [OF ok1]
  have "held_ok {(r, aid)} ?s"
  proof (rule held_okI)
    show "wf_map (ls_stateByTaskId ?s)" using held_okD(1) [OF ok0]
      by (auto simp: LocalServerGeneration_newGeneration_def Let_def split: option.split)
    show "\<exists>st. generation ?s g = Some st \<and> \<not> gn_isReleased st" if "held_for ?s tid' = Some g" for tid' g
      using that D(2) [of tid' g] unheld [of tid'] by (auto simp: held gen fresh_generation_def split: if_splits)
    show "tid' = tid''" if "held_for ?s tid' = Some g" "held_for ?s tid'' = Some g" for tid' tid'' g
      using that D(3) [of tid' g tid''] unheld by (auto simp: held split: if_splits)
    show "g < ls_next ?s" if "generation ?s g = Some st" for g st
      using that D(4) [of g] kept same by (auto simp: gen split: if_splits)
    show "generation_ok {(r, aid)} ?s g st" if st: "generation ?s g = Some st" for g st
    proof (cases "g = r")
      case True
      with st gen [of r] have "st = fresh_generation aid ds" by simp
      moreover have "held_for ?s tid = Some r" by (simp add: held)
      ultimately show ?thesis using True by (auto simp: generation_ok_def fresh_generation_def)
    next
      case False
      with st gen [of g] have "generation s1 g = Some st" by simp
      from D(5) [OF this] show ?thesis
        by (rule generation_ok_frame) (use gone in \<open>auto simp: held run_on_def same\<close>)
    qed
    show "r' < ls_next ?s" if "map_get (ls_runs ?s) r' = Some rn" for r' rn using that D(6) same by simp
    show "run_ok ?s rn" if "map_get (ls_runs ?s) r' = Some rn" for r' rn
      using that D(7) [of r' rn] kept(1) gone by (auto simp: run_ok_def same held gen)
  qed
  then show ?thesis by (simp add: s0_def)
qed

lemma put_generation_run_ok: "generation s g = Some st \<Longrightarrow> gn_isReleased st' = gn_isReleased st \<Longrightarrow>
    run_ok (put_generation g st' s) rn = run_ok s rn"
  by (auto simp: run_ok_def)

lemma held_generation_ok:
  assumes ok: "held_ok {} s" and got: "LocalServerGeneration_heldGeneration tid aid s = Inr (g, s1)"
  shows "held_ok {(g, aid)} s1 \<and> (\<exists>st. generation s1 g = Some st \<and> \<not> gn_isReleased st) \<and> held_for s1 tid = Some g
    \<and> ls_runs s1 = ls_runs s \<and> ls_next s1 = ls_next s"
proof -
  from got obtain st where st: "held_for s tid = Some g" "generation s g = Some st"
    and s1: "s1 = put_generation g (st\<lparr>gn_idleTimer := None, gn_owningStageAssignmentId := aid\<rparr>) s"
    by (auto simp: LocalServerGeneration_heldGeneration_def bind_eq_Some_conv split: option.splits)
  have live: "\<not> gn_isReleased st" using held_okD(2) [OF ok st(1)] st(2) by auto
  have "held_ok {(g, aid)} s1" unfolding s1
    by (rule put_ok [OF ok st(2)]) (use st live in \<open>auto simp: generation_ok_def\<close>)
  with st live show ?thesis by (simp add: s1)
qed

lemma start_ok:
  assumes "held_ok {(rn_generation rn, rn_stageAssignmentId rn)} s" and "only_entry s r (rn_generation rn) (rn_stageAssignmentId rn)"
    and "run_ok s rn" and "r < ls_next s" and st: "generation s (rn_generation rn) = Some st"
  shows "held_ok {} (LocalServerGeneration_startGeneration p modelId r rn st payload settings s)"
proof -
  have "held_ok {} (put_generation (rn_generation rn) (st\<lparr>gn_isAborted := Some False\<rparr>) (s\<lparr>ls_runs := map_set (ls_runs s) r rn\<rparr>))"
    using put_same_ok [OF wait_ok [OF assms(1-4)], of "rn_generation rn" st "st\<lparr>gn_isAborted := Some False\<rparr>"] st by simp
  with leave_run_ok [OF assms(1-3)] show ?thesis by (simp add: LocalServerGeneration_startGeneration_def)
qed

lemma end_nothing_ok: "held_ok {} s \<Longrightarrow> map_get (ls_runs s) r = None \<Longrightarrow> held_ok {} (end_run r a g res s)"
  by (simp add: end_run_def delete_id map_of_eq_None_iff)

lemma compute_ok:
  assumes ok: "held_ok {} s"
  shows "held_ok {} (LocalServerGeneration_compute p modelId tid aid payload settings s)"
proof -
  define r where "r = ls_next s"
  define s0 where "s0 = s\<lparr>ls_next := r + 1\<rparr>"
  define got where "got = (if pl_isContinuation payload = Some True then LocalServerGeneration_heldGeneration tid aid s0
      else Inr (r, LocalServerGeneration_newGeneration tid aid (declared_tools_of payload) r s0))"
  have ok0: "held_ok {} s0" using held_next [OF ok] by (simp add: s0_def r_def)
  have free: "map_get (ls_runs s0) r = None"
    using held_okD(6) [OF ok, of r] by (cases "map_get (ls_runs s) r") (auto simp: s0_def r_def)
  have compute: "LocalServerGeneration_compute p modelId tid aid payload settings s =
      (case got of
         Inl err \<Rightarrow> end_run r aid None (Inl err) s0
       | Inr (g, s1) \<Rightarrow>
           (case generation s1 g of
              None \<Rightarrow> s1
            | Some st \<Rightarrow>
                let rn = \<lparr>rn_taskId = tid, rn_stageAssignmentId = aid, rn_generation = g,
                      rn_wantsPieces = wants_pieces settings st, rn_stream = gn_stream st\<rparr>
                in if gn_stream st = None then LocalServerGeneration_startGeneration p modelId r rn st payload settings s1
                   else read_on p r rn st s1))"
    by (simp only: LocalServerGeneration_compute_def Let_def got_def s0_def r_def)
  show ?thesis
  proof (cases got)
    case (Inl err)
    with end_nothing_ok [OF ok0 free] show ?thesis by (simp add: compute)
  next
    case (Inr gs)
    obtain g s1 where gs: "gs = (g, s1)" by fastforce
    have s1: "held_ok {(g, aid)} s1 \<and> (\<exists>st. generation s1 g = Some st \<and> \<not> gn_isReleased st) \<and> held_for s1 tid = Some g
        \<and> ls_runs s1 = ls_runs s0 \<and> ls_next s1 = ls_next s0"
    proof (cases "pl_isContinuation payload = Some True")
      case True
      with Inr gs held_generation_ok [OF ok0] show ?thesis by (simp add: got_def)
    next
      case False
      with Inr gs have g: "g = r" and s1: "s1 = LocalServerGeneration_newGeneration tid aid (declared_tools_of payload) r s0"
        by (auto simp: got_def)
      from new_generation_ok [OF ok r_def] have "held_ok {(r, aid)} s1" by (simp add: s1 s0_def)
      then show ?thesis unfolding g
        by (auto simp: s1 LocalServerGeneration_newGeneration_def Let_def fresh_generation_def split: option.split)
    qed
    then obtain st where st: "generation s1 g = Some st" "\<not> gn_isReleased st" by blast
    let ?rn = "\<lparr>rn_taskId = tid, rn_stageAssignmentId = aid, rn_generation = g,
      rn_wantsPieces = wants_pieces settings st, rn_stream = gn_stream st\<rparr>"
    have "only_entry s1 r g aid" and "r < ls_next s1" using s1 free by (auto simp: only_entry_def s0_def)
    moreover have "run_ok s1 ?rn" using s1 st by (simp add: run_ok_def)
    ultimately show ?thesis
      using start_ok [of ?rn s1 r st p modelId payload settings] read_on_ok [of ?rn s1 r p st] s1 st
      by (cases "gn_stream st") (simp_all add: compute Inr gs Let_def)
  qed
qed

lemma entry_self: "map_get (ls_runs s) r = Some rn \<Longrightarrow> only_entry s r (rn_generation rn) (rn_stageAssignmentId rn)"
  by (simp add: only_entry_def)

lemma request_answered_ok:
  assumes ok: "held_ok {} s"
  shows "held_ok {} (request_answered p r failure s)"
proof (cases "map_get (ls_runs s) r")
  case None
  with ok show ?thesis by (simp add: request_answered_def)
next
  case (Some rn)
  let ?g = "rn_generation rn" and ?aid = "rn_stageAssignmentId rn"
  have busy: "held_ok {(?g, ?aid)} s" using ok by (rule held_ok_mono)
  note entry = entry_self [OF Some] and rn = held_okD(7) [OF ok Some] and r = held_okD(6) [OF ok Some]
  obtain st where st: "generation s ?g = Some st" using rn by (auto simp: run_ok_def)
  let ?st = "st\<lparr>gn_stream := Some (ls_next s)\<rparr>"
  let ?s = "put_generation ?g ?st (s\<lparr>ls_next := ls_next s + 1, ls_streams := map_set (ls_streams s) (ls_next s) fresh_reading\<rparr>)"
  have "held_ok {(?g, ?aid)} ?s"
    by (rule put_same_ok [of _ _ _ st]) (use held_next [OF busy] st in simp_all)
  moreover have "run_ok ?s (rn\<lparr>rn_stream := Some (ls_next s)\<rparr>)" using rn st by (simp add: run_ok_def)
  ultimately have "held_ok {} (read_on p r (rn\<lparr>rn_stream := Some (ls_next s)\<rparr>) ?st ?s)"
    using read_on_ok [of "rn\<lparr>rn_stream := Some (ls_next s)\<rparr>" ?s r p ?st] entry r by (simp add: only_entry_def)
  moreover have "held_ok {} (leave_run r rn res (output_of os s))" for res os
    using leave_run_ok [of rn "output_of os s" r res] busy entry rn by (simp add: only_entry_def run_ok_def)
  moreover from this [of _ "[]"] have "held_ok {} (leave_run r rn res s)" for res by (simp add: output_of_def)
  ultimately show ?thesis using ok by (simp add: request_answered_def Some st Let_def split: option.split)
qed

lemma partial_ok:
  assumes ok: "held_ok {(rn_generation rn, rn_stageAssignmentId rn)} s" and entry: "only_entry s r (rn_generation rn) (rn_stageAssignmentId rn)"
    and rn: "run_ok s rn" and st: "generation s (rn_generation rn) = Some st" "\<not> gn_isReleased st" and st': "gn_isReleased st' = gn_isReleased st"
  shows "held_ok {} (end_run r a g res (LocalServerGeneration_waitForTheRunAfterThis (rn_taskId rn) (rn_generation rn) st' s))"
proof (rule end_run_ok)
  let ?s = "LocalServerGeneration_waitForTheRunAfterThis (rn_taskId rn) (rn_generation rn) st' s"
  from rn st have held: "held_for s (rn_taskId rn) = Some (rn_generation rn)" by (auto simp: run_ok_def)
  have "held_ok {(rn_generation rn, rn_stageAssignmentId rn)} (put_generation (rn_generation rn) (st'\<lparr>gn_idleTimer := Some (rn_taskId rn)\<rparr>) s)"
    by (rule put_ok [OF ok st(1)]) (use st st' held in \<open>auto simp: generation_ok_def\<close>)
  then show "held_ok {(rn_generation rn, rn_stageAssignmentId rn)} ?s" by (simp add: LocalServerGeneration_waitForTheRunAfterThis_def)
  show "only_entry ?s r (rn_generation rn) (rn_stageAssignmentId rn)"
    using entry by (simp add: LocalServerGeneration_waitForTheRunAfterThis_def only_entry_def)
  show "gn_isReleased st'' \<or> gn_idleTimer st'' \<noteq> None \<or> gn_owningStageAssignmentId st'' \<noteq> rn_stageAssignmentId rn"
    if "generation ?s (rn_generation rn) = Some st''" for st''
    using that by (auto simp: LocalServerGeneration_waitForTheRunAfterThis_def)
qed

lemma stream_read_ok:
  assumes ok: "held_ok {} s"
  shows "held_ok {} (stream_read p r rd result s)"
proof (cases "map_get (ls_runs s) r")
  case None
  with ok show ?thesis by (simp add: stream_read_def)
next
  case (Some rn)
  let ?g = "rn_generation rn" and ?aid = "rn_stageAssignmentId rn"
  note rn = held_okD(7) [OF ok Some] and r = held_okD(6) [OF ok Some]
  obtain st where st: "generation s ?g = Some st" using rn by (auto simp: run_ok_def)
  show ?thesis
  proof (cases "rn_stream rn")
    case None
    with ok st show ?thesis by (simp add: stream_read_def Some)
  next
    case (Some k)
    let ?s = "s\<lparr>ls_streams := map_set (ls_streams s) k rd\<rparr>"
    have s: "held_ok {(?g, ?aid)} ?s" "only_entry ?s r ?g ?aid" "run_ok ?s rn" "r < ls_next ?s" "generation ?s ?g = Some st"
      using held_ok_mono [OF ok] entry_self [OF \<open>map_get (ls_runs s) r = Some rn\<close>] rn r st
      by (simp_all add: only_entry_def run_ok_def)
    note left_run = leave_run_ok [OF s(1-3)]
    show ?thesis
    proof (cases result)
      case (Read_piece t)
      define st1 where "st1 = st\<lparr>gn_text := gn_text st @ t, gn_unreportedText := gn_unreportedText st @ t,
          gn_pieceCount := gn_pieceCount st + 1\<rparr>"
      have same: "gn_isReleased st1 = gn_isReleased st" "gn_idleTimer st1 = gn_idleTimer st"
        "gn_owningStageAssignmentId st1 = gn_owningStageAssignmentId st" by (simp_all add: st1_def)
      define s1 where "s1 = put_generation ?g st1 ?s"
      have s1: "held_ok {(?g, ?aid)} s1" "only_entry s1 r ?g ?aid" "run_ok s1 rn" "r < ls_next s1" "generation s1 ?g = Some st1"
        unfolding s1_def using put_same_ok [OF s(1,5) same] s(2-5) same(1) by (simp_all add: only_entry_def put_generation_run_ok)
      have "held_ok {} (leave_run r rn res s1)" for res by (rule leave_run_ok [OF s1(1-3)])
      moreover have "held_ok {} (read_on p r rn st1 s1)" by (rule read_on_ok [OF s1(1-4)])
      moreover have "held_ok {} (end_run r ?aid (Some ?g) res
          (LocalServerGeneration_waitForTheRunAfterThis (rn_taskId rn) ?g (st1\<lparr>gn_unreportedText := []\<rparr>) s1))"
        if "\<not> gn_isReleased st1" for res
        by (rule partial_ok [OF s1(1-3,5) that]) simp
      ultimately show ?thesis using left_run same(1)
        unfolding stream_read_def \<open>map_get (ls_runs s) r = Some rn\<close> st Some Read_piece option.case prod.case Let_def
          read_result.case st1_def [symmetric] s1_def [symmetric]
        by (simp split: sum.split)
    qed (use left_run in \<open>simp_all add: stream_read_def \<open>map_get (ls_runs s) r = Some rn\<close> st Some finish_run_def Let_def\<close>)
  qed
qed

theorem generation_step_ok: "held_ok {} s \<Longrightarrow> held_ok {} (generation_step p modelId s e)"
proof (cases e)
  case (Idle_timer_fired g)
  then show "held_ok {} s \<Longrightarrow> ?thesis" by (auto simp: idle_timer_fired_def intro: forget_ok split: option.split)
qed (simp_all add: compute_ok request_answered_ok stream_read_ok clear_ok clear_every_ok)

section \<open>What is answered\<close>

fun answer_of :: "nat \<Rightarrow> generation_output \<Rightarrow> llm_stage_payload list" where
  "answer_of g (Run_ended r aid (Some g') (Inr payload)) = (if g' = g then [payload] else [])"
| "answer_of g _ = []"

definition answers :: "local_server \<Rightarrow> nat \<Rightarrow> llm_stage_payload list" where
  "answers s g = concat (map (answer_of g) (ls_outputs s))"

definition said :: "llm_stage_payload list \<Rightarrow> string" where
  "said as = concat (map (\<lambda>payload. default_to [] (pl_newText payload)) as)"

definition is_piece :: "llm_stage_payload \<Rightarrow> bool" where
  "is_piece payload \<longleftrightarrow> pl_done payload = Some False"

definition is_whole :: "string \<Rightarrow> llm_stage_payload \<Rightarrow> bool" where
  "is_whole t payload \<longleftrightarrow> pl_done payload = Some True \<and> pl_newText payload = None
     \<and> (pl_toolCalls payload = None \<longrightarrow> pl_text payload = Some t)"

definition answered_ok :: "task_generation_state \<Rightarrow> llm_stage_payload list \<Rightarrow> bool" where
  "answered_ok st as \<longleftrightarrow> said as @ gn_unreportedText st = gn_text st
     \<and> (list_all is_piece as \<or>
        gn_isReleased st \<and> (\<exists>ps f. as = ps @ [f] \<and> list_all is_piece ps \<and> is_whole (gn_text st) f))"

definition log_ok :: "local_server \<Rightarrow> bool" where
  "log_ok s \<longleftrightarrow> (\<forall>g. case generation s g of None \<Rightarrow> answers s g = [] | Some st \<Rightarrow> answered_ok st (answers s g))"

text \<open>What leaves the texts and the answers as they are.\<close>

definition keeps :: "local_server \<Rightarrow> local_server \<Rightarrow> bool" where
  "keeps s s' \<longleftrightarrow> (\<forall>g. answers s' g = answers s g \<and>
     (case generation s g of
        None \<Rightarrow> (case generation s' g of None \<Rightarrow> True | Some st' \<Rightarrow> gn_text st' = [] \<and> gn_unreportedText st' = [])
      | Some st \<Rightarrow> (\<exists>st'. generation s' g = Some st' \<and> gn_text st' = gn_text st \<and> gn_unreportedText st' = gn_unreportedText st
          \<and> (gn_isReleased st \<longrightarrow> gn_isReleased st'))))"

lemma keeps_refl [simp]: "keeps s s"
  by (auto simp: keeps_def split: option.split)

lemma keeps_trans: "keeps s t \<Longrightarrow> keeps t u \<Longrightarrow> keeps s u"
  unfolding keeps_def
proof (intro allI conjI)
  fix g
  assume a: "\<forall>g. answers t g = answers s g \<and>
      (case generation s g of
         None \<Rightarrow> (case generation t g of None \<Rightarrow> True | Some st' \<Rightarrow> gn_text st' = [] \<and> gn_unreportedText st' = [])
       | Some st \<Rightarrow> (\<exists>st'. generation t g = Some st' \<and> gn_text st' = gn_text st \<and> gn_unreportedText st' = gn_unreportedText st
           \<and> (gn_isReleased st \<longrightarrow> gn_isReleased st')))"
    and b: "\<forall>g. answers u g = answers t g \<and>
      (case generation t g of
         None \<Rightarrow> (case generation u g of None \<Rightarrow> True | Some st' \<Rightarrow> gn_text st' = [] \<and> gn_unreportedText st' = [])
       | Some st \<Rightarrow> (\<exists>st'. generation u g = Some st' \<and> gn_text st' = gn_text st \<and> gn_unreportedText st' = gn_unreportedText st
           \<and> (gn_isReleased st \<longrightarrow> gn_isReleased st')))"
  show "answers u g = answers s g" using a b by simp
  show "case generation s g of
         None \<Rightarrow> (case generation u g of None \<Rightarrow> True | Some st' \<Rightarrow> gn_text st' = [] \<and> gn_unreportedText st' = [])
       | Some st \<Rightarrow> (\<exists>st'. generation u g = Some st' \<and> gn_text st' = gn_text st \<and> gn_unreportedText st' = gn_unreportedText st
           \<and> (gn_isReleased st \<longrightarrow> gn_isReleased st'))"
    using a [rule_format, of g] b [rule_format, of g] by (auto split: option.splits)
qed

lemma keeps_log: "keeps s s' \<Longrightarrow> log_ok s \<Longrightarrow> log_ok s'"
  unfolding log_ok_def
proof
  fix g
  assume kept: "keeps s s'" and ok: "\<forall>g. case generation s g of None \<Rightarrow> answers s g = [] | Some st \<Rightarrow> answered_ok st (answers s g)"
  from kept [unfolded keeps_def, rule_format, of g] ok [rule_format, of g]
  show "case generation s' g of None \<Rightarrow> answers s' g = [] | Some st \<Rightarrow> answered_ok st (answers s' g)"
    by (auto simp: answered_ok_def said_def split: option.splits)
qed

lemma keeps_put: "generation s g = Some st \<Longrightarrow> gn_text st' = gn_text st \<Longrightarrow> gn_unreportedText st' = gn_unreportedText st \<Longrightarrow>
    gn_isReleased st \<longrightarrow> gn_isReleased st' \<Longrightarrow> keeps s (put_generation g st' s)"
  by (auto simp: keeps_def answers_def split: option.split)

lemma keeps_output: "\<forall>r a g res. Run_ended r a g res \<notin> set os \<Longrightarrow> keeps s (output_of os s)"
proof -
  assume quiet: "\<forall>r a g res. Run_ended r a g res \<notin> set os"
  have "answer_of g x = []" if "x \<in> set os" for g x by (cases x; use that quiet in auto)
  then have "concat (map (answer_of g) os) = []" for g by simp
  then show ?thesis by (auto simp: keeps_def answers_def split: option.split)
qed

lemma keeps_fields: "ls_generations s' = ls_generations s \<Longrightarrow> ls_outputs s' = ls_outputs s \<Longrightarrow> keeps s s'"
  by (auto simp: keeps_def answers_def split: option.split)

lemma keeps_release: "keeps s (LocalServerGeneration_release g s)"
proof (cases "generation s g")
  case None
  then show ?thesis by (simp add: LocalServerGeneration_release_def)
next
  case (Some st)
  have "LocalServerGeneration_release g s = output_of ((case gn_stream st of None \<Rightarrow> [] | Some k \<Rightarrow> [Reader_cancelled k]) @
      (if gn_isAborted st = None then [] else [Request_aborted g])) (put_generation g (released st) s)"
    by (simp add: LocalServerGeneration_release_def Some released_def)
  moreover have "keeps s (put_generation g (released st) s)" by (rule keeps_put [OF Some]) simp_all
  ultimately show ?thesis by (auto intro!: keeps_trans [OF _ keeps_output] split: option.splits)
qed

lemma keeps_forget: "keeps s (forget_and_release tid g s)"
  unfolding forget_and_release_def by (rule keeps_trans [OF keeps_fields keeps_release]) simp_all

lemma keeps_clear: "keeps s (LocalServerGeneration_clearGeneration tid aid s)"
  by (auto simp: LocalServerGeneration_clearGeneration_def intro: keeps_forget split: option.split)

lemma keeps_clear_every: "keeps s (LocalServerGeneration_clearEveryGeneration s)"
proof -
  have "keeps s (fold (\<lambda>(tid, g). forget_and_release tid g) xs s)" for xs
    by (induction xs arbitrary: s) (auto intro: keeps_trans [OF keeps_forget])
  then show ?thesis by (simp add: LocalServerGeneration_clearEveryGeneration_def)
qed

text \<open>Ending a run with an answer of its own.\<close>

lemma answers_end_run:
  "answers (end_run r aid g' res s) g = answers s g @ (case (g', res) of (Some h, Inr payload) \<Rightarrow> if h = g then [payload] else [] | _ \<Rightarrow> [])"
  by (auto simp: answers_def end_run_def split: option.split sum.split)

lemma end_failed_log: "log_ok s \<Longrightarrow> log_ok (end_run r aid g (Inl err) s)"
proof -
  have same: "answers (end_run r aid g (Inl err) s) = answers s" by (rule ext) (cases g; simp add: answers_end_run)
  show "log_ok s \<Longrightarrow> ?thesis" unfolding log_ok_def same end_run_fields .
qed

lemma leave_run_log:
  assumes log: "log_ok s" and rn: "run_ok s rn" and st: "generation s (rn_generation rn) = Some st"
    and res: "\<And>payload. res = Inr payload \<Longrightarrow> \<not> gn_isReleased st \<and> gn_owningStageAssignmentId st = rn_stageAssignmentId rn
      \<and> is_whole (gn_text st) payload"
  shows "log_ok (leave_run r rn res s)"
proof -
  let ?s = "LocalServerGeneration_clearGeneration (rn_taskId rn) (rn_stageAssignmentId rn) s"
  have log': "log_ok ?s" by (rule keeps_log [OF keeps_clear log])
  show ?thesis
  proof (cases res)
    case (Inl err)
    with end_failed_log [OF log'] show ?thesis by (simp add: leave_run_def)
  next
    case (Inr payload)
    from res [OF this] have live: "\<not> gn_isReleased st" and own: "gn_owningStageAssignmentId st = rn_stageAssignmentId rn"
      and whole: "is_whole (gn_text st) payload" by auto
    from log st have "answered_ok st (answers s (rn_generation rn))" by (auto simp: log_ok_def split: option.splits)
    with live have pieces: "list_all is_piece (answers s (rn_generation rn))"
      and joined: "said (answers s (rn_generation rn)) @ gn_unreportedText st = gn_text st" by (auto simp: answered_ok_def)
    have now: "generation ?s (rn_generation rn) = Some (released st)"
      using rn st live own by (auto simp: clear_generation run_ok_def)
    have "answered_ok (released st) (answers s (rn_generation rn) @ [payload])"
      using pieces joined whole by (auto simp: answered_ok_def said_def default_to_def is_whole_def)
    moreover have "answers ?s g = answers s g" for g using keeps_clear by (simp add: keeps_def)
    ultimately show ?thesis
      unfolding log_ok_def
    proof (intro allI)
      fix g
      assume done': "answered_ok (released st) (answers s (rn_generation rn) @ [payload])"
        and same: "\<And>g. answers ?s g = answers s g"
      show "case generation (leave_run r rn res s) g of None \<Rightarrow> answers (leave_run r rn res s) g = []
          | Some st \<Rightarrow> answered_ok st (answers (leave_run r rn res s) g)"
      proof (cases "g = rn_generation rn")
        case True
        with now done' same show ?thesis by (simp add: leave_run_def answers_end_run Inr)
      next
        case False
        with log' [unfolded log_ok_def, rule_format, of g] show ?thesis
          by (simp add: leave_run_def answers_end_run Inr split: option.splits)
      qed
    qed
  qed
qed

lemma finished_whole: "finished_answer p t rd = Inr payload \<Longrightarrow> is_whole t payload"
  by (auto simp: finished_answer_def Let_def sum_bind_Inr is_whole_def StagePayloadFactory_llmToolCalls_def StagePayloadFactory_llmDone_def
      StagePayloadFactory_piece_def with_usage_def split: if_splits sum.splits payload_error.splits)

lemma finish_run_log:
  assumes "log_ok s" and "run_ok s rn" and "generation s (rn_generation rn) = Some st" and "\<not> gn_isReleased st"
  shows "log_ok (finish_run p r rn st s)"
  unfolding finish_run_def
  by (rule leave_run_log [OF assms(1-3)])
    (use assms(4) in \<open>auto simp: sum_bind_Inr LocalServerGeneration_refuseIfReplaced_def dest: finished_whole split: if_splits\<close>)

lemma read_on_log:
  assumes "log_ok s" and "run_ok s rn" and "generation s (rn_generation rn) = Some st" and "\<not> gn_isReleased st"
  shows "log_ok (read_on p r rn st s)"
proof -
  have "log_ok (s\<lparr>ls_runs := map_set (ls_runs s) r rn\<rparr>)" by (rule keeps_log [OF keeps_fields assms(1)]) simp_all
  with finish_run_log [OF assms] show ?thesis by (simp add: read_on_def)
qed

lemma start_log:
  assumes "log_ok s" and "run_ok s rn" and st: "generation s (rn_generation rn) = Some st"
  shows "log_ok (LocalServerGeneration_startGeneration p modelId r rn st payload settings s)"
proof -
  have "log_ok (leave_run r rn (Inl err) s)" for err by (rule leave_run_log [OF assms]) simp_all
  moreover have "log_ok (output_of [Request_sent r body]
      (put_generation (rn_generation rn) (st\<lparr>gn_isAborted := Some False\<rparr>) (s\<lparr>ls_runs := map_set (ls_runs s) r rn\<rparr>)))" for body
  proof (rule keeps_log [OF keeps_trans [OF _ keeps_output] assms(1)])
    show "keeps s (put_generation (rn_generation rn) (st\<lparr>gn_isAborted := Some False\<rparr>) (s\<lparr>ls_runs := map_set (ls_runs s) r rn\<rparr>))"
      by (rule keeps_trans [OF keeps_fields keeps_put [where st = st]]) (use st in simp_all)
  qed simp
  ultimately show ?thesis by (simp add: LocalServerGeneration_startGeneration_def)
qed

lemma keeps_new:
  assumes "generation s g = None"
  shows "keeps s (LocalServerGeneration_newGeneration tid aid ds g s)"
proof -
  define s1 where "s1 = (case held_for s tid of None \<Rightarrow> s | Some abandoned \<Rightarrow> LocalServerGeneration_release abandoned s)"
  have kept: "keeps s s1" by (auto simp: s1_def keeps_release split: option.split)
  have "generation s1 g = None" using assms by (auto simp: s1_def split: option.split)
  then have "keeps s1 (put_generation g (fresh_generation aid ds) (s1\<lparr>ls_stateByTaskId := map_set (ls_stateByTaskId s1) tid g\<rparr>))"
    by (auto simp: keeps_def answers_def fresh_generation_def split: option.split)
  with kept show ?thesis
    by (simp add: LocalServerGeneration_newGeneration_def Let_def s1_def [symmetric]) (rule keeps_trans)
qed

lemma compute_log:
  assumes ok: "held_ok {} s" and log: "log_ok s"
  shows "log_ok (LocalServerGeneration_compute p modelId tid aid payload settings s)"
proof -
  define r where "r = ls_next s"
  define s0 where "s0 = s\<lparr>ls_next := r + 1\<rparr>"
  define got where "got = (if pl_isContinuation payload = Some True then LocalServerGeneration_heldGeneration tid aid s0
      else Inr (r, LocalServerGeneration_newGeneration tid aid (declared_tools_of payload) r s0))"
  have ok0: "held_ok {} s0" using held_next [OF ok] by (simp add: s0_def r_def)
  have log0: "log_ok s0" by (rule keeps_log [OF keeps_fields log]) (simp_all add: s0_def)
  have compute: "LocalServerGeneration_compute p modelId tid aid payload settings s =
      (case got of
         Inl err \<Rightarrow> end_run r aid None (Inl err) s0
       | Inr (g, s1) \<Rightarrow>
           (case generation s1 g of
              None \<Rightarrow> s1
            | Some st \<Rightarrow>
                let rn = \<lparr>rn_taskId = tid, rn_stageAssignmentId = aid, rn_generation = g,
                      rn_wantsPieces = wants_pieces settings st, rn_stream = gn_stream st\<rparr>
                in if gn_stream st = None then LocalServerGeneration_startGeneration p modelId r rn st payload settings s1
                   else read_on p r rn st s1))"
    by (simp only: LocalServerGeneration_compute_def Let_def got_def s0_def r_def)
  show ?thesis
  proof (cases got)
    case (Inl err)
    with end_failed_log [OF log0] show ?thesis by (simp add: compute)
  next
    case (Inr gs)
    obtain g s1 where gs: "gs = (g, s1)" by fastforce
    have s1: "keeps s0 s1 \<and> (\<exists>st. generation s1 g = Some st \<and> \<not> gn_isReleased st) \<and> held_for s1 tid = Some g"
    proof (cases "pl_isContinuation payload = Some True")
      case True
      with Inr gs have got: "LocalServerGeneration_heldGeneration tid aid s0 = Inr (g, s1)" by (simp add: got_def)
      then have "keeps s0 s1"
        by (auto simp: LocalServerGeneration_heldGeneration_def bind_eq_Some_conv intro!: keeps_put split: option.splits)
      with held_generation_ok [OF ok0 got] show ?thesis by blast
    next
      case False
      with Inr gs have g: "g = r" and s1: "s1 = LocalServerGeneration_newGeneration tid aid (declared_tools_of payload) r s0"
        by (auto simp: got_def)
      have "generation s0 r = None" using held_okD(4) [OF ok, of r] by (cases "generation s r") (auto simp: s0_def r_def)
      from keeps_new [OF this] show ?thesis unfolding g
        by (auto simp: s1 LocalServerGeneration_newGeneration_def Let_def fresh_generation_def split: option.split)
    qed
    then obtain st where st: "generation s1 g = Some st" "\<not> gn_isReleased st" by blast
    let ?rn = "\<lparr>rn_taskId = tid, rn_stageAssignmentId = aid, rn_generation = g,
      rn_wantsPieces = wants_pieces settings st, rn_stream = gn_stream st\<rparr>"
    have "log_ok s1" using s1 keeps_log log0 by blast
    moreover have "run_ok s1 ?rn" using s1 st by (simp add: run_ok_def)
    ultimately show ?thesis
      using start_log [of s1 ?rn st p modelId r payload settings] read_on_log [of s1 ?rn st p r] st
      by (cases "gn_stream st") (simp_all add: compute Inr gs Let_def)
  qed
qed

lemma request_answered_log:
  assumes ok: "held_ok {} s" and log: "log_ok s"
  shows "log_ok (request_answered p r failure s)"
proof (cases "map_get (ls_runs s) r")
  case None
  with log show ?thesis by (simp add: request_answered_def)
next
  case (Some rn)
  let ?g = "rn_generation rn"
  note rn = held_okD(7) [OF ok Some]
  obtain st where st: "generation s ?g = Some st" using rn by (auto simp: run_ok_def)
  let ?st = "st\<lparr>gn_stream := Some (ls_next s)\<rparr>"
  let ?s = "put_generation ?g ?st (s\<lparr>ls_next := ls_next s + 1, ls_streams := map_set (ls_streams s) (ls_next s) fresh_reading\<rparr>)"
  have "log_ok ?s"
    by (rule keeps_log [OF keeps_trans [OF keeps_fields keeps_put [where st = st]] log]) (use st in simp_all)
  moreover have "run_ok ?s (rn\<lparr>rn_stream := Some (ls_next s)\<rparr>)" using rn st by (simp add: run_ok_def)
  ultimately have "\<not> gn_isReleased st \<Longrightarrow> log_ok (read_on p r (rn\<lparr>rn_stream := Some (ls_next s)\<rparr>) ?st ?s)"
    using read_on_log [of ?s "rn\<lparr>rn_stream := Some (ls_next s)\<rparr>" ?st p r] by simp
  moreover have left_run: "log_ok (leave_run r rn (Inl err) s)" for err
    by (rule leave_run_log [OF log rn st]) simp
  moreover have "log_ok (leave_run r rn (Inl err) (output_of [Request_aborted g] s))" for err g
  proof (rule leave_run_log)
    show "log_ok (output_of [Request_aborted g] s)" by (rule keeps_log [OF keeps_output log]) simp
  qed (use rn st in \<open>simp_all add: run_ok_def\<close>)
  ultimately show ?thesis using log by (simp add: request_answered_def Some st Let_def split: option.split)
qed

lemma partial_log:
  assumes log: "log_ok s" and st: "generation s g = Some st" "\<not> gn_isReleased st"
  shows "log_ok (end_run r aid (Some g) (Inr (StagePayloadFactory_llmPartialText (gn_unreportedText st)))
    (LocalServerGeneration_waitForTheRunAfterThis tid g (st\<lparr>gn_unreportedText := []\<rparr>) s))"
  unfolding log_ok_def
proof (intro allI)
  fix h
  let ?payload = "StagePayloadFactory_llmPartialText (gn_unreportedText st)"
  let ?s = "LocalServerGeneration_waitForTheRunAfterThis tid g (st\<lparr>gn_unreportedText := []\<rparr>) s"
  have same: "answers ?s h = answers s h"
    by (simp add: answers_def LocalServerGeneration_waitForTheRunAfterThis_def)
  show "case generation (end_run r aid (Some g) (Inr ?payload) ?s) h of
      None \<Rightarrow> answers (end_run r aid (Some g) (Inr ?payload) ?s) h = []
    | Some st' \<Rightarrow> answered_ok st' (answers (end_run r aid (Some g) (Inr ?payload) ?s) h)"
  proof (cases "h = g")
    case True
    have said: "said (as @ [?payload]) = said as @ gn_unreportedText st" for as
      by (simp add: said_def StagePayloadFactory_llmPartialText_def StagePayloadFactory_piece_def default_to_def)
    from log st have "answered_ok st (answers s g)" by (auto simp: log_ok_def split: option.splits)
    with st(2) have "list_all is_piece (answers s g)" "said (answers s g) @ gn_unreportedText st = gn_text st"
      by (auto simp: answered_ok_def)
    moreover have "is_piece ?payload" by (simp add: is_piece_def StagePayloadFactory_llmPartialText_def)
    ultimately show ?thesis using True same
      by (simp add: answers_end_run LocalServerGeneration_waitForTheRunAfterThis_def answered_ok_def said)
  next
    case False
    with log [unfolded log_ok_def, rule_format, of h] same show ?thesis
      by (simp add: answers_end_run LocalServerGeneration_waitForTheRunAfterThis_def split: option.splits)
  qed
qed

lemma stream_read_log:
  assumes ok: "held_ok {} s" and log: "log_ok s"
  shows "log_ok (stream_read p r rd result s)"
proof (cases "map_get (ls_runs s) r")
  case None
  with log show ?thesis by (simp add: stream_read_def)
next
  case (Some rn)
  let ?g = "rn_generation rn" and ?aid = "rn_stageAssignmentId rn"
  note rn = held_okD(7) [OF ok Some]
  obtain st where st: "generation s ?g = Some st" using rn by (auto simp: run_ok_def)
  show ?thesis
  proof (cases "rn_stream rn")
    case None
    with log st show ?thesis by (simp add: stream_read_def Some)
  next
    case (Some k)
    let ?s = "s\<lparr>ls_streams := map_set (ls_streams s) k rd\<rparr>"
    have s: "log_ok ?s" "run_ok ?s rn" "generation ?s ?g = Some st"
      using keeps_log [OF keeps_fields log, of ?s] rn st by (simp_all add: run_ok_def)
    have left_run: "log_ok (leave_run r rn (Inl err) ?s)" for err by (rule leave_run_log [OF s]) simp
    show ?thesis
    proof (cases result)
      case (Read_piece t)
      define st1 where "st1 = st\<lparr>gn_text := gn_text st @ t, gn_unreportedText := gn_unreportedText st @ t,
          gn_pieceCount := gn_pieceCount st + 1\<rparr>"
      define s1 where "s1 = put_generation ?g st1 ?s"
      have same: "gn_isReleased st1 = gn_isReleased st" by (simp add: st1_def)
      have s1: "run_ok s1 rn" "generation s1 ?g = Some st1"
        unfolding s1_def using s same by (simp_all add: put_generation_run_ok)
      have log1: "log_ok s1" if live: "\<not> gn_isReleased st"
        unfolding log_ok_def
      proof (intro allI)
        fix h
        have same: "answers s1 h = answers s h" by (simp add: answers_def s1_def)
        note before = log [unfolded log_ok_def, rule_format, of h]
        show "case generation s1 h of None \<Rightarrow> answers s1 h = [] | Some st' \<Rightarrow> answered_ok st' (answers s1 h)"
        proof (cases "h = ?g")
          case True
          with before st have "answered_ok st (answers s h)" by simp
          with live have "list_all is_piece (answers s h)" "said (answers s h) @ gn_unreportedText st = gn_text st"
            by (simp_all add: answered_ok_def)
          then have "answered_ok st1 (answers s h)" by (simp add: answered_ok_def st1_def flip: append_assoc)
          with True same show ?thesis by (simp add: s1_def)
        next
          case False
          with before show ?thesis unfolding same by (simp add: s1_def)
        qed
      qed
      have "log_ok (leave_run r rn (Inl err) s1)" if "\<not> gn_isReleased st" for err
        by (rule leave_run_log [OF log1 [OF that] s1]) simp
      moreover have "log_ok (read_on p r rn st1 s1)" if "\<not> gn_isReleased st"
        by (rule read_on_log [OF log1 [OF that] s1]) (use that same in simp)
      moreover have "log_ok (end_run r ?aid (Some ?g) (Inr (StagePayloadFactory_llmPartialText (gn_unreportedText st1)))
          (LocalServerGeneration_waitForTheRunAfterThis (rn_taskId rn) ?g (st1\<lparr>gn_unreportedText := []\<rparr>) s1))"
        if "\<not> gn_isReleased st"
        by (rule partial_log [OF log1 [OF that] s1(2)]) (use that same in simp)
      ultimately show ?thesis using left_run
        unfolding stream_read_def \<open>map_get (ls_runs s) r = Some rn\<close> st Some Read_piece option.case prod.case Let_def
          read_result.case st1_def [symmetric] s1_def [symmetric]
        by (simp split: sum.split)
    qed (use left_run finish_run_log [OF s] in
        \<open>simp_all add: stream_read_def \<open>map_get (ls_runs s) r = Some rn\<close> st Some Let_def\<close>)
  qed
qed

lemma generation_step_log: "held_ok {} s \<Longrightarrow> log_ok s \<Longrightarrow> log_ok (generation_step p modelId s e)"
proof (cases e)
  case (Idle_timer_fired g)
  then show "held_ok {} s \<Longrightarrow> log_ok s \<Longrightarrow> ?thesis"
    by (auto simp: idle_timer_fired_def intro: keeps_log [OF keeps_forget] split: option.split)
qed (auto simp: compute_log request_answered_log stream_read_log intro: keeps_log [OF keeps_clear] keeps_log [OF keeps_clear_every])

section \<open>Every life of a worker\<close>

definition generation_life :: "js_platform \<Rightarrow> string \<Rightarrow> generation_event list \<Rightarrow> local_server" where
  "generation_life p modelId es = foldl (generation_step p modelId) fresh_local_server es"

lemma foldl_run: "run (\<lambda>s e t. t = f s e) s es (foldl f s es)"
  by (induction es arbitrary: s) (auto intro: run.intros)

lemma fresh_server_ok: "held_ok {} fresh_local_server \<and> log_ok fresh_local_server"
  by (simp add: held_ok_def log_ok_def fresh_local_server_def answers_def)

interpretation generations: invariant_machine "\<lambda>s. s = fresh_local_server" "\<lambda>s e t. t = generation_step p modelId s e"
    "\<lambda>s. held_ok {} s \<and> log_ok s" for p modelId
  by unfold_locales (auto simp: fresh_server_ok generation_step_ok generation_step_log)

lemma life_ok: "held_ok {} (generation_life p modelId es)" "log_ok (generation_life p modelId es)"
  using generations.inv_reachable [OF refl foldl_run, of p modelId es] by (simp_all add: generation_life_def)

text \<open>
  C30: Whatever happens to a worker, runs that are replaced while they wait, cancellations, timeouts and lost connections
  included, the pieces it has reported of an answer and what it has read but not reported join to the text it has read:
  nothing is lost and nothing is reported twice. At most one result ends an answer, it comes last, it carries the whole
  text unless it is a tool call, and the answer is released then.
\<close>

theorem reported_pieces_are_the_answer:
  assumes "generation (generation_life p modelId es) g = Some st"
  shows "said (answers (generation_life p modelId es) g) @ gn_unreportedText st = gn_text st
    \<and> (list_all is_piece (answers (generation_life p modelId es) g)
       \<or> gn_isReleased st \<and> (\<exists>pieces whole. answers (generation_life p modelId es) g = pieces @ [whole]
           \<and> list_all is_piece pieces \<and> is_whole (gn_text st) whole))"
  using life_ok(2) [of p modelId es, unfolded log_ok_def, rule_format, of g] assms by (simp add: answered_ok_def)

text \<open>
  C29: No answer is forgotten while it is open: it is the one held for its task, and either the run that owns it is under
  way or a timer will release it. When the connection to the gateway goes away every answer is released.
\<close>

theorem open_answers_are_attended:
  assumes "generation (generation_life p modelId es) g = Some st" and "\<not> gn_isReleased st"
  shows "(\<exists>tid. held_for (generation_life p modelId es) tid = Some g
      \<and> (gn_idleTimer st = Some tid \<or> gn_idleTimer st = None \<and> run_on (generation_life p modelId es) g (gn_owningStageAssignmentId st)))
    \<and> map_option gn_isReleased (generation (generation_life p modelId (es @ [Clear_every_generation])) g) = Some True"
proof
  let ?s = "generation_life p modelId es"
  from held_okD(5) [OF life_ok(1) assms(1)] assms(2)
  show "\<exists>tid. held_for ?s tid = Some g
      \<and> (gn_idleTimer st = Some tid \<or> gn_idleTimer st = None \<and> run_on ?s g (gn_owningStageAssignmentId st))"
    by (auto simp: generation_ok_def)
  let ?t = "generation_life p modelId (es @ [Clear_every_generation])"
  have t: "?t = LocalServerGeneration_clearEveryGeneration ?s" by (simp add: generation_life_def)
  have ok: "held_ok {} ?t" by (rule life_ok)
  from keeps_clear_every [of ?s, unfolded keeps_def, rule_format, of g] assms(1) obtain st' where st': "generation ?t g = Some st'"
    by (auto simp: t)
  have "gn_isReleased st'"
  proof (rule ccontr)
    assume "\<not> gn_isReleased st'"
    with held_okD(5) [OF ok st'] obtain tid where "held_for ?t tid = Some g" by (auto simp: generation_ok_def)
    with clear_every_ok [OF life_ok(1) [of p modelId es]] show False by (simp add: t)
  qed
  with st' show "map_option gn_isReleased (generation ?t g) = Some True" by simp
qed

section \<open>One run that reads the whole answer\<close>

definition reading_run :: "local_server \<Rightarrow> nat \<Rightarrow> nat \<Rightarrow> generation_run \<Rightarrow> task_generation_state \<Rightarrow> bool" where
  "reading_run s r k rn st \<longleftrightarrow> map_get (ls_runs s) r = Some rn \<and> generation s (rn_generation rn) = Some st
     \<and> \<not> gn_isReleased st \<and> gn_owningStageAssignmentId st = rn_stageAssignmentId rn
     \<and> rn_stream rn = Some k \<and> gn_stream st = Some k \<and> \<not> rn_wantsPieces rn"

abbreviation with_piece :: "string \<Rightarrow> task_generation_state \<Rightarrow> task_generation_state" where
  "with_piece t st \<equiv> st\<lparr>gn_text := gn_text st @ t, gn_unreportedText := gn_unreportedText st @ t, gn_pieceCount := gn_pieceCount st + 1\<rparr>"

lemma read_one_piece:
  assumes "reading_run s r k rn st"
  shows "gn_pieceCount st + 1 < MAXIMUM_ANSWER_PIECES \<Longrightarrow> reading_run (stream_read p r rd (Read_piece t) s) r k rn (with_piece t st)"
    and "gn_pieceCount st + 1 = MAXIMUM_ANSWER_PIECES \<Longrightarrow> \<exists>os. ls_outputs (stream_read p r rd (Read_piece t) s) =
      os @ [Run_ended r (rn_stageAssignmentId rn) (Some (rn_generation rn)) (finished_answer p (gn_text st @ t) (Some rd))]"
  using assms
  by (simp_all add: reading_run_def stream_read_def Let_def LocalServerGeneration_refuseIfReplaced_def read_on_def finish_run_def
      leave_run_def end_run_def stream_of_def)

lemma read_pieces_so_far:
  assumes "reading_run s r k rn st" and "gn_pieceCount st + length ts < MAXIMUM_ANSWER_PIECES"
  shows "\<exists>st'. reading_run (foldl (generation_step p modelId) s (map (\<lambda>(rd, t). Stream_read r rd (Read_piece t)) ts)) r k rn st'
    \<and> gn_text st' = gn_text st @ concat (map snd ts) \<and> gn_pieceCount st' = gn_pieceCount st + length ts"
  using assms
proof (induction ts arbitrary: s st)
  case (Cons x ts)
  obtain rd t where x: "x = (rd, t)" by fastforce
  from Cons.prems read_one_piece(1) [of s r k rn st p rd t]
  have "reading_run (stream_read p r rd (Read_piece t) s) r k rn (with_piece t st)" by simp
  from Cons.IH [OF this] Cons.prems(2) show ?case by (simp add: x)
qed auto

lemma compute_then_answered:
  assumes ok: "held_ok {} s" and new: "pl_isContinuation payload \<noteq> Some True"
    and whole: "Option.bind settings isStreaming \<noteq> Some True \<or> declared_tools_of payload \<noteq> []"
    and prompt: "\<not> LocalServerGeneration_isEmpty (prompt_or_history_of payload)"
  shows "\<exists>rn st. reading_run (foldl (generation_step p modelId) s [Compute tid aid payload settings, Request_answered (ls_next s) None])
      (ls_next s) (ls_next s + 1) rn st
    \<and> rn_stageAssignmentId rn = aid \<and> rn_generation rn = ls_next s \<and> gn_text st = [] \<and> gn_pieceCount st = 0"
proof -
  let ?r = "ls_next s" and ?ds = "declared_tools_of payload"
  define s1 where "s1 = LocalServerGeneration_newGeneration tid aid ?ds ?r (s\<lparr>ls_next := ?r + 1\<rparr>)"
  have s1: "generation s1 ?r = Some (fresh_generation aid ?ds)" "ls_next s1 = ?r + 1"
    by (auto simp: s1_def LocalServerGeneration_newGeneration_def Let_def split: option.split)
  have fresh: "gn_stream (fresh_generation aid ?ds) = None" "gn_isReleased (fresh_generation aid ?ds) = False"
    "gn_text (fresh_generation aid ?ds) = []" "gn_pieceCount (fresh_generation aid ?ds) = 0"
    "gn_owningStageAssignmentId (fresh_generation aid ?ds) = aid" "gn_declaredTools (fresh_generation aid ?ds) = ?ds"
    by (simp_all add: fresh_generation_def)
  let ?rn = "\<lparr>rn_taskId = tid, rn_stageAssignmentId = aid, rn_generation = ?r, rn_wantsPieces = False, rn_stream = None\<rparr>"
  define s2 where "s2 = LocalServerGeneration_compute p modelId tid aid payload settings s"
  have "\<not> wants_pieces settings (fresh_generation aid ?ds)" using whole fresh by (auto simp: wants_pieces_def)
  then have computed: "s2 = LocalServerGeneration_startGeneration p modelId ?r ?rn (fresh_generation aid ?ds) payload settings s1"
    using new s1(1) fresh(1) unfolding s2_def LocalServerGeneration_compute_def Let_def s1_def [symmetric] by simp
  have s2: "map_get (ls_runs s2) ?r = Some ?rn" "ls_next s2 = ?r + 1"
    "generation s2 ?r = Some ((fresh_generation aid ?ds)\<lparr>gn_isAborted := Some False\<rparr>)"
    using prompt s1 by (simp_all add: computed LocalServerGeneration_startGeneration_def)
  have "0 < MAXIMUM_ANSWER_PIECES" by (simp add: MAXIMUM_ANSWER_PIECES_def)
  then show ?thesis
    using s2 fresh by (auto simp: s2_def [symmetric] request_answered_def read_on_def reading_run_def)
qed

text \<open>What the events of a stream are, when it gives these pieces and then ends or fails.\<close>

definition stream_events :: "nat \<Rightarrow> (stream_reading \<times> string) list \<Rightarrow> stream_reading \<Rightarrow> thrown option \<Rightarrow> generation_event list" where
  "stream_events r ts rd failure =
     map (\<lambda>(rd, t). Stream_read r rd (Read_piece t)) ts @
     [Stream_read r rd (case failure of None \<Rightarrow> Read_ended | Some err \<Rightarrow> Read_failed err)]"


text \<open>
  C32: An answer of more than \<open>MAXIMUM_ANSWER_PIECES\<close> pieces is cut off there and reported as a finished answer that does not
  say why it stopped, whatever the local server still had to say: a consumer is then told that the model stopped of its
  own accord.
\<close>

theorem long_answer_cut_as_finished:
  assumes "s = generation_life p modelId es" and "pl_isContinuation payload \<noteq> Some True"
    and "Option.bind settings isStreaming \<noteq> Some True" and "\<not> LocalServerGeneration_isEmpty (prompt_or_history_of payload)"
    and "length ts + 1 = MAXIMUM_ANSWER_PIECES" and "concat (map snd ts) @ t \<noteq> []"
    and rd: "su_finishReason (sr_usage rd) = None" "sr_byIndex rd = []"
  shows "\<exists>u. last (ls_outputs (foldl (generation_step p modelId) s
      ([Compute tid aid payload settings, Request_answered (ls_next s) None]
        @ map (\<lambda>(rd, t). Stream_read (ls_next s) rd (Read_piece t)) ts @ [Stream_read (ls_next s) rd (Read_piece t)]))) =
    Run_ended (ls_next s) aid (Some (ls_next s)) (Inr (StagePayloadFactory_llmDone (concat (map snd ts) @ t) None (Some u)))
    \<and> FinishReasonTranslator_translate (usage_stopReason u) = Inr Finish_stop"
proof -
  have ok: "held_ok {} s" unfolding assms(1) by (rule life_ok)
  from compute_then_answered [OF ok assms(2) disjI1 [OF assms(3)] assms(4), of p modelId tid aid] obtain rn st where
    started: "reading_run (foldl (generation_step p modelId) s [Compute tid aid payload settings, Request_answered (ls_next s) None])
      (ls_next s) (ls_next s + 1) rn st"
    and rn: "rn_stageAssignmentId rn = aid" "rn_generation rn = ls_next s" and st: "gn_text st = []" "gn_pieceCount st = 0" by blast
  from read_pieces_so_far [OF started, of ts p modelId] st assms(5) obtain st' where
    read: "reading_run (foldl (generation_step p modelId) s ([Compute tid aid payload settings, Request_answered (ls_next s) None]
        @ map (\<lambda>(rd, t). Stream_read (ls_next s) rd (Read_piece t)) ts)) (ls_next s) (ls_next s + 1) rn st'"
    and st': "gn_text st' = concat (map snd ts)" "gn_pieceCount st' + 1 = MAXIMUM_ANSWER_PIECES" by auto
  from read_one_piece(2) [OF read st'(2), of p rd t] rn st'(1) obtain os where
    "ls_outputs (stream_read p (ls_next s) rd (Read_piece t) (foldl (generation_step p modelId) s
        ([Compute tid aid payload settings, Request_answered (ls_next s) None]
         @ map (\<lambda>(rd, t). Stream_read (ls_next s) rd (Read_piece t)) ts))) =
      os @ [Run_ended (ls_next s) aid (Some (ls_next s)) (finished_answer p (concat (map snd ts) @ t) (Some rd))]" by auto
  moreover have "finished_answer p (concat (map snd ts) @ t) (Some rd) =
      Inr (StagePayloadFactory_llmDone (concat (map snd ts) @ t) None (Some (LocalServerGeneration_usageOf (Some (sr_usage rd)))))"
    using assms(6) rd by (auto simp: finished_answer_def Let_def LocalServerGeneration_toolCallsOf_def
        OpenaiApiClient_orderedToolCallsOf_def LocalServerGeneration_refuseAnswerThatRanOutBeforeItBegan_def
        LocalServerGeneration_refuseEmptyAnswerThatNeverSaidWhyItStopped_def)
  moreover have "FinishReasonTranslator_translate (usage_stopReason (LocalServerGeneration_usageOf (Some (sr_usage rd)))) = Inr Finish_stop"
    using rd by (simp add: LocalServerGeneration_usageOf_def LocalServerGeneration_stopReasonOf_def)
  ultimately show ?thesis by (intro exI conjI) simp_all
qed

section \<open>A worker at work\<close>

definition streaming_settings :: generation_settings where
  "streaming_settings = \<lparr>isStreaming = Some True, temperature = None, topP = None, maximumOutputTokenCount = None,
     stopSequences = None, randomSeed = None, reasoningEffort = None, responseFormat = None\<rparr>"

definition stopped_reading :: stream_reading where
  "stopped_reading = fresh_reading\<lparr>sr_usage := \<lparr>su_promptTokenCount = Some 3, su_completionTokenCount = Some 2, su_finishReason = Some ''stop''\<rparr>\<rparr>"

text \<open>A run reports a piece; the next one takes over and is replaced by a third while it waits, which reports what both read.\<close>

definition replaced_life :: local_server where
  "replaced_life = generation_life (apiPlatform shaped_env) ''m''
     [Compute ''t'' ''a1'' (StagePayloadFactory_llmPrompt ''Hi'') (Some streaming_settings), Request_answered 0 None,
      Stream_read 0 fresh_reading (Read_piece ''Hel''),
      Compute ''t'' ''a2'' (empty_payload\<lparr>pl_isContinuation := Some True\<rparr>) (Some streaming_settings),
      Compute ''t'' ''a3'' (empty_payload\<lparr>pl_isContinuation := Some True\<rparr>) (Some streaming_settings),
      Stream_read 2 fresh_reading (Read_piece ''lo''), Stream_read 3 fresh_reading (Read_piece ''!'')]"

lemmas carried_out = generation_life_def fresh_local_server_def LocalServerGeneration_compute_def
  LocalServerGeneration_newGeneration_def LocalServerGeneration_heldGeneration_def LocalServerGeneration_startGeneration_def Let_def
  StagePayloadFactory_llmPrompt_def prompt_or_history_of_def LocalServerGeneration_isEmpty_def default_to_def trim_def is_space_def
  put_generation_def fresh_generation_def output_of_def request_answered_def read_on_def MAXIMUM_ANSWER_PIECES_def stream_read_def
  LocalServerGeneration_refuseIfReplaced_def wants_pieces_def streaming_settings_def declared_tools_of_def end_run_def leave_run_def
  LocalServerGeneration_waitForTheRunAfterThis_def LocalServerGeneration_clearGeneration_def

theorem reported_pieces_are_the_answer_witness:
  "said (answers replaced_life 0) = ''Hello!'' \<and> map (\<lambda>a. pl_newText a) (answers replaced_life 0) = [Some ''Hel'', Some ''lo!'']"
proof -
  have "map_option (\<lambda>st. (gn_text st, gn_unreportedText st)) (generation replaced_life 0) = Some (''Hello!'', [])"
    and new: "map (\<lambda>a. pl_newText a) (answers replaced_life 0) = [Some ''Hel'', Some ''lo!'']"
    by (simp_all add: replaced_life_def carried_out answers_def StagePayloadFactory_llmPartialText_def StagePayloadFactory_piece_def)
  then obtain st where "generation replaced_life 0 = Some st" "gn_text st = ''Hello!''" "gn_unreportedText st = []" by auto
  with reported_pieces_are_the_answer [OF this(1) [unfolded replaced_life_def]] new show ?thesis by (simp add: replaced_life_def)
qed

theorem open_answers_are_attended_witness:
  "\<exists>tid st. generation replaced_life 0 = Some st \<and> held_for replaced_life tid = Some 0 \<and> gn_idleTimer st = Some tid"
proof -
  have "map_option (\<lambda>st. (gn_isReleased st, gn_idleTimer st)) (generation replaced_life 0) = Some (False, Some ''t'')"
    by (simp add: replaced_life_def carried_out)
  then obtain st where st: "generation replaced_life 0 = Some st" "\<not> gn_isReleased st" "gn_idleTimer st = Some ''t''" by auto
  from open_answers_are_attended [OF st(1,2) [unfolded replaced_life_def], THEN conjunct1] st show ?thesis
    by (auto simp: replaced_life_def)
qed


theorem long_answer_cut_as_finished_witness:
  "\<exists>u. last (ls_outputs (foldl (generation_step (apiPlatform shaped_env) ''m'') fresh_local_server
      ([Compute ''t'' ''a'' (StagePayloadFactory_llmPrompt ''Hi'') None, Request_answered 0 None]
        @ map (\<lambda>(rd, t). Stream_read 0 rd (Read_piece t)) (replicate 1999 (fresh_reading, ''a''))
        @ [Stream_read 0 fresh_reading (Read_piece ''b'')]))) =
    Run_ended 0 ''a'' (Some 0) (Inr (StagePayloadFactory_llmDone (concat (map snd (replicate 1999 (fresh_reading, ''a''))) @ ''b'') None (Some u)))
    \<and> FinishReasonTranslator_translate (usage_stopReason u) = Inr Finish_stop"
proof -
  have "\<not> LocalServerGeneration_isEmpty (prompt_or_history_of (StagePayloadFactory_llmPrompt ''Hi''))" by code_simp
  moreover have "ls_next fresh_local_server = 0" by (simp add: fresh_local_server_def)
  moreover have "fresh_local_server = generation_life (apiPlatform shaped_env) ''m'' []" by (simp add: generation_life_def)
  moreover have "su_finishReason (sr_usage fresh_reading) = None" and "sr_byIndex fresh_reading = []" by (simp_all add: fresh_reading_def)
  ultimately show ?thesis
    using long_answer_cut_as_finished [of fresh_local_server "apiPlatform shaped_env" "''m''" "[]" "StagePayloadFactory_llmPrompt ''Hi''" None
        "replicate 1999 (fresh_reading, ''a'')" "''b''" fresh_reading "''t''" "''a''"]
    by (simp add: StagePayloadFactory_llmPrompt_def MAXIMUM_ANSWER_PIECES_def del: map_replicate foldl_append foldl.simps)
qed

end
