(* ===== verification/Worker_Client.thy ===== *)
theory Worker_Client
  imports Local_Server_Generation
begin

text \<open>
  The worker process of the OpenAI-compatible kind (\<open>src/packages/worker_openai/src\<close>): the stage helpers and their catalog
  (\<open>stages/stage_catalog.ts\<close> and the three helpers), the stages it offers (\<open>libs/worker_stage_offer.ts\<close>), the heartbeats that
  extend its leases (\<open>libs/lease_heartbeat.ts\<close>), its client of the gateway (\<open>libs/gateway_worker_client.ts\<close>), one for each
  connection, and the supervisor that connects again (\<open>libs/gateway_connection_supervisor.ts\<close>). The helpers and the
  heartbeats belong to the process and outlive a connection. A stage run is a run of the helper that carries it out, so
  what ends it is what the helper's answer is; whatever comes from outside is an event.
\<close>

section \<open>The stage helpers\<close>

definition StageCatalog_stageHelpers :: "string list" where
  "StageCatalog_stageHelpers = [''llm_gemma_4_e2b_full'', ''llm_llama3_2_1b_full'', ''llm_qwen3_5_0_8b_full'']"

definition StageCatalog_stageHelperFor :: "string \<Rightarrow> string option" where
  "StageCatalog_stageHelperFor named = find (\<lambda>helper. helper = named) StageCatalog_stageHelpers"

definition StageCatalog_implementsComputation :: "string \<Rightarrow> bool" where
  "StageCatalog_implementsComputation named \<longleftrightarrow> StageCatalog_stageHelperFor named \<noteq> None"

record offered_stages =
  of_stageNames :: "string list"
  of_localModelStageNames :: "string list"

definition offer_stage :: "string list \<Rightarrow> pipeline_stage \<Rightarrow> offered_stages \<Rightarrow> offered_stages" where
  "offer_stage requested st offered =
     (if \<not> StageCatalog_implementsComputation (computation st) then offered
      else if length requested > 0 \<and> stageName st \<notin> set requested then offered
      else \<lparr>of_stageNames = set_add (of_stageNames offered) (stageName st),
            of_localModelStageNames = set_add (of_localModelStageNames offered) (stageName st)\<rparr>)"

definition WorkerStageOffer_offeredStages :: "pipeline_specification list \<Rightarrow> string list \<Rightarrow> offered_stages" where
  "WorkerStageOffer_offeredStages pipelines requested =
     fold (\<lambda>pl. fold (offer_stage requested) (spec_stages pl)) pipelines \<lparr>of_stageNames = [], of_localModelStageNames = []\<rparr>"

section \<open>The heartbeats of a lease\<close>

definition minimumHeartbeatIntervalMs :: int where
  "minimumHeartbeatIntervalMs = 1000"

record lease_heartbeat =
  hb_taskId :: task_id
  hb_attempt :: nat
  hb_client :: nat
  hb_intervalMs :: int

definition LeaseHeartbeat_intervalMs :: "int \<Rightarrow> int \<Rightarrow> int" where
  "LeaseHeartbeat_intervalMs leaseEnd now = max minimumHeartbeatIntervalMs ((leaseEnd - now) div 3)"

definition LeaseHeartbeat_start ::
  "int \<Rightarrow> nat \<Rightarrow> stage_assign_message \<Rightarrow> (string, lease_heartbeat) js_map \<Rightarrow> (string, lease_heartbeat) js_map" where
  "LeaseHeartbeat_start now c m timers =
     map_set timers (sa_stageAssignmentId m)
       \<lparr>hb_taskId = sa_taskId m, hb_attempt = sa_attempt m, hb_client = c,
        hb_intervalMs = LeaseHeartbeat_intervalMs (sa_leaseUntil m) now\<rparr>"

definition LeaseHeartbeat_stop :: "string option \<Rightarrow> (string, lease_heartbeat) js_map \<Rightarrow> (string, lease_heartbeat) js_map" where
  "LeaseHeartbeat_stop aid timers = (case aid of None \<Rightarrow> [] | Some a \<Rightarrow> map_delete timers a)"

section \<open>The worker process\<close>

record worker_options =
  wo_gatewayUrl :: string
  wo_name :: string
  wo_authenticationToken :: string
  wo_requestedStageNames :: "string list"
  wo_modelId :: string
  wo_baseUrl :: string
  wo_accountKeyPair :: "account_key_pair option"
  wo_platform :: js_platform
  wo_engineMessage :: string
  wo_isAutomaticReconnectionEnabled :: bool

datatype socket_state = Socket_connecting | Socket_open | Socket_closing | Socket_closed

record worker_client =
  wc_socket :: socket_state
  wc_isRegistered :: bool
  wc_sessionRenewal :: "int option"
  wc_offeredStageNames :: "string list"
  wc_running :: "string list"
  wc_cancelled :: "string list"
  wc_account :: "account_conversation option"
  wc_checks :: "(nat, offered_stages) js_map"

datatype worker_action =
    Client_acts nat client_action
  | Worker_registered nat device_id "string list"
  | Worker_notice string
  | Worker_failure string
  | Worker_refused protocol_error
  | Ask_models nat
  | Close_with nat nat string
  | Wait_before_attempt int

record worker_process =
  wp_helpers :: "(string, local_server) js_map"
  wp_heartbeats :: "(string, lease_heartbeat) js_map"
  wp_runs :: "(string \<times> nat, nat \<times> stage_assign_message) js_map"
  wp_clients :: "(nat, worker_client) js_map"
  wp_isStopped :: bool
  wp_attemptCount :: nat
  wp_current :: "nat option"
  wp_waiting :: "int option"
  wp_next :: nat
  wp_actions :: "worker_action list"

definition fresh_worker :: worker_process where
  "fresh_worker = \<lparr>wp_helpers = map (\<lambda>h. (h, fresh_local_server)) StageCatalog_stageHelpers, wp_heartbeats = [], wp_runs = [],
     wp_clients = [], wp_isStopped = False, wp_attemptCount = 0, wp_current = None, wp_waiting = None, wp_next = 0, wp_actions = []\<rparr>"

definition fresh_client :: worker_client where
  "fresh_client = \<lparr>wc_socket = Socket_connecting, wc_isRegistered = False, wc_sessionRenewal = None, wc_offeredStageNames = [],
     wc_running = [], wc_cancelled = [], wc_account = None, wc_checks = []\<rparr>"

definition act :: "worker_action list \<Rightarrow> worker_process \<Rightarrow> worker_process" where
  "act as w = w\<lparr>wp_actions := wp_actions w @ as\<rparr>"

text \<open>\<open>Worker_refused\<close> is the failure that joins a code and its message. The client of a connection: there is one for every identifier that was given out.\<close>

definition client_of :: "worker_process \<Rightarrow> nat \<Rightarrow> worker_client" where
  "client_of w c = (case map_get (wp_clients w) c of None \<Rightarrow> fresh_client\<lparr>wc_socket := Socket_closed\<rparr> | Some cl \<Rightarrow> cl)"

definition set_client :: "nat \<Rightarrow> worker_client \<Rightarrow> worker_process \<Rightarrow> worker_process" where
  "set_client c cl w = w\<lparr>wp_clients := map_set (wp_clients w) c cl\<rparr>"

definition GatewayWorkerClient_send :: "nat \<Rightarrow> client_message \<Rightarrow> worker_process \<Rightarrow> worker_process" where
  "GatewayWorkerClient_send c message w =
     (if wc_socket (client_of w c) \<noteq> Socket_open then w else act [Client_acts c (Send message)] w)"

fun account_action :: "nat \<Rightarrow> client_action \<Rightarrow> worker_process \<Rightarrow> worker_process" where
  "account_action c (Send message) w = GatewayWorkerClient_send c message w"
| "account_action c other w = act [Client_acts c other] w"

definition account_actions :: "nat \<Rightarrow> client_action list \<Rightarrow> worker_process \<Rightarrow> worker_process" where
  "account_actions c as w = fold (account_action c) as w"

definition account_settled :: "nat \<Rightarrow> worker_process \<Rightarrow> account_id option \<Rightarrow> client_action list" where
  "account_settled c w accountId' =
     On_account_settled accountId' # (if wc_isRegistered (client_of w c) then [] else [Send Pipelines_get])"

text \<open>A socket that is being closed sends nothing any more, but still gives what arrives until it has closed.\<close>

definition start_closing :: "nat \<Rightarrow> worker_process \<Rightarrow> worker_process" where
  "start_closing c w = set_client c ((client_of w c)\<lparr>wc_socket :=
     (if wc_socket (client_of w c) = Socket_closed then Socket_closed else Socket_closing)\<rparr>) w"

definition thrown_message :: "worker_options \<Rightarrow> thrown \<Rightarrow> string" where
  "thrown_message opts err = (case err of Thrown m \<Rightarrow> m | _ \<Rightarrow> wo_engineMessage opts)"

section \<open>Running a stage\<close>

definition StageCatalog_clearGeneration :: "task_id \<Rightarrow> string \<Rightarrow> worker_process \<Rightarrow> worker_process" where
  "StageCatalog_clearGeneration tid aid w =
     w\<lparr>wp_helpers := map (\<lambda>(h, s). (h, LocalServerGeneration_clearGeneration tid aid s)) (wp_helpers w)\<rparr>"

definition StageCatalog_clearEveryGeneration :: "worker_process \<Rightarrow> worker_process" where
  "StageCatalog_clearEveryGeneration w =
     w\<lparr>wp_helpers := map (\<lambda>(h, s). (h, LocalServerGeneration_clearEveryGeneration s)) (wp_helpers w)\<rparr>"

definition stop_heartbeat :: "string option \<Rightarrow> worker_process \<Rightarrow> worker_process" where
  "stop_heartbeat aid w = w\<lparr>wp_heartbeats := LeaseHeartbeat_stop aid (wp_heartbeats w)\<rparr>"

definition silent_notice :: string where
  "silent_notice = ''The assignment was cancelled while it was running, so its outcome is not being reported''"

text \<open>The report of a run, unless its assignment was cancelled while it was under way.\<close>

definition report_unless_cancelled :: "nat \<Rightarrow> string \<Rightarrow> client_message \<Rightarrow> worker_process \<Rightarrow> worker_process" where
  "report_unless_cancelled c aid message w =
     (if aid \<in> set (wc_cancelled (client_of w c)) then act [Worker_notice silent_notice] w
      else GatewayWorkerClient_send c message w)"

definition forget_assignment :: "nat \<Rightarrow> string \<Rightarrow> worker_process \<Rightarrow> worker_process" where
  "forget_assignment c aid w =
     set_client c ((client_of w c)\<lparr>wc_running := removeAll aid (wc_running (client_of w c)),
       wc_cancelled := removeAll aid (wc_cancelled (client_of w c))\<rparr>) w"

definition settle_assigned_stage ::
  "worker_options \<Rightarrow> nat \<Rightarrow> stage_assign_message \<Rightarrow> thrown + llm_stage_payload \<Rightarrow> worker_process \<Rightarrow> worker_process" where
  "settle_assigned_stage opts c m outcome w0 =
     (let aid = sa_stageAssignmentId m; w1 = stop_heartbeat (Some aid) w0;
        w2 = (case outcome of
            Inr payload \<Rightarrow> report_unless_cancelled c aid
              (Stage_result (sa_taskId m) aid (sa_attempt m) (sa_stage m) (Llm payload)) w1
          | Inl err \<Rightarrow> report_unless_cancelled c aid
              (Stage_failed (sa_taskId m) aid (sa_attempt m) (sa_stage m) (thrown_message opts err))
              (StageCatalog_clearGeneration (sa_taskId m) aid w1))
      in forget_assignment c aid w2)"

text \<open>What a helper answered is what the run waiting for it goes on with.\<close>

fun settle_output :: "worker_options \<Rightarrow> string \<Rightarrow> generation_output \<Rightarrow> worker_process \<Rightarrow> worker_process" where
  "settle_output opts h (Run_ended r aid g outcome) w =
     (case map_get (wp_runs w) (h, r) of
        None \<Rightarrow> w
      | Some (c, m) \<Rightarrow> settle_assigned_stage opts c m outcome (w\<lparr>wp_runs := map_delete (wp_runs w) (h, r)\<rparr>))"
| "settle_output opts h _ w = w"

definition helper_step :: "worker_options \<Rightarrow> string \<Rightarrow> generation_event \<Rightarrow> worker_process \<Rightarrow> worker_process" where
  "helper_step opts h e w =
     (case map_get (wp_helpers w) h of
        None \<Rightarrow> w
      | Some s \<Rightarrow>
          let s' = generation_step (wo_platform opts) (wo_modelId opts) s e
          in fold (settle_output opts h) (drop (length (ls_outputs s)) (ls_outputs s'))
               (w\<lparr>wp_helpers := map_set (wp_helpers w) h s'\<rparr>))"

text \<open>A value that is not an object has none of the fields a run reads.\<close>

definition payload_of :: "stage_payload \<Rightarrow> llm_stage_payload" where
  "payload_of value = (case value of Llm payload \<Rightarrow> payload | _ \<Rightarrow> empty_payload)"

definition GatewayWorkerClient_runAssignedStage ::
  "worker_options \<Rightarrow> int \<Rightarrow> nat \<Rightarrow> stage_assign_message \<Rightarrow> worker_process \<Rightarrow> worker_process" where
  "GatewayWorkerClient_runAssignedStage opts now c m w0 =
     (let aid = sa_stageAssignmentId m;
        w1 = set_client c ((client_of w0 c)\<lparr>wc_running := set_add (wc_running (client_of w0 c)) aid\<rparr>) w0;
        w2 = GatewayWorkerClient_send c (Stage_accepted (sa_taskId m) aid (sa_attempt m)) w1;
        w3 = w2\<lparr>wp_heartbeats := LeaseHeartbeat_start now c m (wp_heartbeats w2)\<rparr>
      in case Option.bind (StageCatalog_stageHelperFor (sa_computation m)) (\<lambda>h. map_option (Pair h) (map_get (wp_helpers w3) h)) of
           None \<Rightarrow> settle_assigned_stage opts c m
             (Inl (Thrown (''This worker implements no computation named '' @ sa_computation m))) w3
         | Some (h, s) \<Rightarrow>
             helper_step opts h (Compute (sa_taskId m) aid (payload_of (sa_value m)) (sa_generationSettings m))
               (w3\<lparr>wp_runs := map_set (wp_runs w3) (h, ls_next s) (c, m)\<rparr>))"

section \<open>Registering\<close>

definition register_with :: "worker_options \<Rightarrow> nat \<Rightarrow> string list \<Rightarrow> worker_process \<Rightarrow> worker_process" where
  "register_with opts c offer w =
     (if offer = [] then
        start_closing c (act [Worker_failure ''This worker can run none of the stages the loaded pipelines define, so it is not registering'',
          Close_with c 1000 ''No stage to run''] w)
      else GatewayWorkerClient_send c (DeviceRegister Worker (wo_name opts) (Some offer) None None)
             (set_client c ((client_of w c)\<lparr>wc_offeredStageNames := offer\<rparr>) w))"

definition GatewayWorkerClient_registerOfferedStages ::
  "worker_options \<Rightarrow> nat \<Rightarrow> pipeline_specification list \<Rightarrow> worker_process \<Rightarrow> worker_process" where
  "GatewayWorkerClient_registerOfferedStages opts c pipelines w =
     (let offered = WorkerStageOffer_offeredStages pipelines (wo_requestedStageNames opts)
      in if length (of_localModelStageNames offered) > 0 then
           let k = wp_next w
           in act [Ask_models k] (set_client c ((client_of w c)\<lparr>wc_checks := map_set (wc_checks (client_of w c)) k offered\<rparr>)
                (w\<lparr>wp_next := k + 1\<rparr>))
         else register_with opts c (of_stageNames offered) w)"

text \<open>The half after the list of models was asked for.\<close>

definition models_listed :: "worker_options \<Rightarrow> nat \<Rightarrow> nat \<Rightarrow> json option fetched \<Rightarrow> worker_process \<Rightarrow> worker_process" where
  "models_listed opts c k answer w0 =
     (case map_get (wc_checks (client_of w0 c)) k of
        None \<Rightarrow> w0
      | Some offered \<Rightarrow>
          let w = set_client c ((client_of w0 c)\<lparr>wc_checks := map_delete (wc_checks (client_of w0 c)) k\<rparr>) w0
          in case LocalServerGeneration_readiness (wo_baseUrl opts) answer (wo_modelId opts) of
               Ready \<Rightarrow> register_with opts c (of_stageNames offered)
                 (act [Worker_notice (''The local server offers '' @ wo_modelId opts)] w)
             | Unavailable err \<Rightarrow> register_with opts c
                 (filter (\<lambda>n. n \<notin> set (of_localModelStageNames offered)) (of_stageNames offered))
                 (act [Worker_failure (thrown_message opts err)] w))"

section \<open>The conversation with the gateway\<close>

definition GatewayWorkerClient_authenticated :: "worker_options \<Rightarrow> int \<Rightarrow> int \<Rightarrow> nat \<Rightarrow> worker_process \<Rightarrow> worker_process" where
  "GatewayWorkerClient_authenticated opts now expiresAt c w0 =
     (let w = set_client c ((client_of w0 c)\<lparr>wc_sessionRenewal := Some (SessionRenewal_renewAfterMs (Some expiresAt) now)\<rparr>) w0;
        cl = client_of w c
      in if wc_isRegistered cl \<or> wc_account cl \<noteq> None then w
         else case wo_accountKeyPair opts of
           None \<Rightarrow> GatewayWorkerClient_send c Pipelines_get (act [Client_acts c (On_account_settled None)] w)
         | Some kp \<Rightarrow>
             let conv = \<lparr>conv_keyPair = kp, conv_isSettled = False\<rparr>
             in account_actions c (AccountAuthentication_begin conv) (set_client c (cl\<lparr>wc_account := Some conv\<rparr>) w))"

definition cancel_stage :: "task_id \<Rightarrow> string \<Rightarrow> nat \<Rightarrow> worker_process \<Rightarrow> worker_process" where
  "cancel_stage tid aid c w0 =
     (let w = StageCatalog_clearGeneration tid aid (stop_heartbeat (Some aid) w0); cl = client_of w c
      in if aid \<in> set (wc_running cl) then set_client c (cl\<lparr>wc_cancelled := set_add (wc_cancelled cl) aid\<rparr>) w else w)"

definition stale_notice :: string where
  "stale_notice = ''The gateway had already moved the assignment on, so the result this worker sent was not wanted''"

definition GatewayWorkerClient_dispatch :: "worker_options \<Rightarrow> int \<Rightarrow> gateway_message \<Rightarrow> nat \<Rightarrow> worker_process \<Rightarrow> worker_process" where
  "GatewayWorkerClient_dispatch opts now message c w =
     (case message of
        Pipelines pipelines \<Rightarrow> GatewayWorkerClient_registerOfferedStages opts c pipelines w
      | DeviceRegistered deviceId' \<Rightarrow>
          act [Worker_registered c deviceId' (wc_offeredStageNames (client_of w c))]
            ((set_client c ((client_of w c)\<lparr>wc_isRegistered := True\<rparr>) w)\<lparr>wp_attemptCount := ReconnectBackoff_reset\<rparr>)
      | Stage_cancel tid aid _ _ \<Rightarrow> cancel_stage tid aid c w
      | Stage_lease_extended _ _ _ _ \<Rightarrow> w
      | Stage_assign m \<Rightarrow> GatewayWorkerClient_runAssignedStage opts now c m w
      | Error_message e \<Rightarrow>
          if error_code e = STALE_ASSIGNMENT then act [Worker_notice stale_notice] w
          else act [Worker_refused e] w
      | _ \<Rightarrow> w)"

definition GatewayWorkerClient_handleMessage ::
  "worker_options \<Rightarrow> int \<Rightarrow> received_frame \<Rightarrow> nat \<Rightarrow> worker_process \<Rightarrow> worker_process" where
  "GatewayWorkerClient_handleMessage opts now frame c w =
     (case frame of
        Invalid_data \<Rightarrow> act [Worker_failure ''The central gateway sent invalid data''] w
      | No_message \<Rightarrow> act [Worker_failure ''The central gateway sent a frame with no message in it''] w
      | Message message \<Rightarrow>
          (case message of
             DeviceAuthenticated _ expiresAt \<Rightarrow> GatewayWorkerClient_authenticated opts now expiresAt c w
           | _ \<Rightarrow>
               (case wc_account (client_of w c) of
                  None \<Rightarrow> GatewayWorkerClient_dispatch opts now message c w
                | Some conv \<Rightarrow>
                    let (handled, conv', actions) = AccountAuthentication_handleMessage (account_settled c w) message conv;
                      w1 = account_actions c actions (set_client c ((client_of w c)\<lparr>wc_account := Some conv'\<rparr>) w)
                    in if handled then w1 else GatewayWorkerClient_dispatch opts now message c w1)))"

text \<open>The challenge was signed; a conversation whose connection has closed sends nothing.\<close>

definition challenge_signed :: "nat \<Rightarrow> string + string \<Rightarrow> worker_process \<Rightarrow> worker_process" where
  "challenge_signed c signature w =
     (case wc_account (client_of w c) of
        None \<Rightarrow> w
      | Some conv \<Rightarrow>
          let (conv', actions) = AccountAuthentication_signed (account_settled c w) signature conv
          in account_actions c actions (set_client c ((client_of w c)\<lparr>wc_account := Some conv'\<rparr>) w))"

definition GatewayWorkerClient_close :: "nat \<Rightarrow> worker_process \<Rightarrow> worker_process" where
  "GatewayWorkerClient_close c w0 =
     (let w = stop_heartbeat None w0
      in start_closing c (act [Client_acts c Close_socket] (set_client c ((client_of w c)\<lparr>wc_sessionRenewal := None\<rparr>) w)))"

definition GatewayWorkerClient_renew :: "worker_options \<Rightarrow> nat \<Rightarrow> worker_process \<Rightarrow> worker_process" where
  "GatewayWorkerClient_renew opts c w =
     (if wc_sessionRenewal (client_of w c) = None then w
      else GatewayWorkerClient_send c (DeviceAuthenticate (wo_authenticationToken opts)) w)"

definition heartbeat_fired :: "string \<Rightarrow> worker_process \<Rightarrow> worker_process" where
  "heartbeat_fired aid w =
     (case map_get (wp_heartbeats w) aid of
        None \<Rightarrow> w
      | Some hb \<Rightarrow> GatewayWorkerClient_send (hb_client hb) (Stage_heartbeat (hb_taskId hb) aid (hb_attempt hb)) w)"

section \<open>Staying connected\<close>

definition GatewayConnectionSupervisor_scheduleAttempt :: "worker_options \<Rightarrow> rat \<Rightarrow> worker_process \<Rightarrow> worker_process" where
  "GatewayConnectionSupervisor_scheduleAttempt opts fraction w =
     (if wp_isStopped w \<or> \<not> wo_isAutomaticReconnectionEnabled opts then w
      else if wp_waiting w \<noteq> None then w
      else let (delayMs, attempts) = ReconnectBackoff_nextDelayMs fraction (wp_attemptCount w)
           in act [Wait_before_attempt delayMs] (w\<lparr>wp_attemptCount := attempts, wp_waiting := Some delayMs\<rparr>))"

text \<open>Opening a socket either throws or gives a connection that is not open yet.\<close>

definition GatewayConnectionSupervisor_connect :: "worker_options \<Rightarrow> string option \<Rightarrow> rat \<Rightarrow> worker_process \<Rightarrow> worker_process" where
  "GatewayConnectionSupervisor_connect opts openFailure fraction w =
     (if wp_isStopped w then w
      else case openFailure of
        Some reason \<Rightarrow> GatewayConnectionSupervisor_scheduleAttempt opts fraction
          (act [Worker_failure (''The connection to the central gateway at '' @ wo_gatewayUrl opts @ '' could not be opened: '' @ reason)] w)
      | None \<Rightarrow> set_client (wp_next w) fresh_client (w\<lparr>wp_current := Some (wp_next w), wp_next := wp_next w + 1\<rparr>))"

definition GatewayConnectionSupervisor_stop :: "worker_process \<Rightarrow> worker_process" where
  "GatewayConnectionSupervisor_stop w0 =
     (let w = w0\<lparr>wp_isStopped := True, wp_waiting := None\<rparr>
      in (case wp_current w of None \<Rightarrow> w | Some c \<Rightarrow> GatewayWorkerClient_close c w)\<lparr>wp_current := None\<rparr>)"

definition GatewayWorkerClient_onopen :: "worker_options \<Rightarrow> nat \<Rightarrow> worker_process \<Rightarrow> worker_process" where
  "GatewayWorkerClient_onopen opts c w =
     GatewayWorkerClient_send c (DeviceAuthenticate (wo_authenticationToken opts))
       (act [Client_acts c (On_connection_change True)] (set_client c ((client_of w c)\<lparr>wc_socket := Socket_open\<rparr>) w))"

definition GatewayWorkerClient_onclose :: "worker_options \<Rightarrow> rat \<Rightarrow> nat \<Rightarrow> worker_process \<Rightarrow> worker_process" where
  "GatewayWorkerClient_onclose opts fraction c w0 =
     (let w1 = set_client c ((client_of w0 c)\<lparr>wc_socket := Socket_closed, wc_isRegistered := False, wc_account := None,
          wc_sessionRenewal := None\<rparr>) w0;
        w2 = stop_heartbeat None (StageCatalog_clearEveryGeneration w1);
        w3 = (act [Client_acts c (On_connection_change False)] w2)\<lparr>wp_current := None\<rparr>
      in GatewayConnectionSupervisor_scheduleAttempt opts fraction w3)"

datatype worker_event =
    Wait_over "string option" rat
  | Stop
  | Opened nat
  | Frame nat int received_frame
  | Connection_error nat
  | Closed nat rat
  | Signed nat "string + string"
  | Models_listed nat nat "json option fetched"
  | Local_server string nat "thrown option"
  | Local_stream string nat stream_reading read_result
  | Answer_idle string nat
  | Heartbeat_due string
  | Renewal_due nat

text \<open>A socket opens once, gives frames while it is open and closes once; a wait that was cancelled does not end.\<close>

fun worker_step :: "worker_options \<Rightarrow> worker_process \<Rightarrow> worker_event \<Rightarrow> worker_process" where
  "worker_step opts w (Wait_over failed random) =
     (if wp_waiting w = None then w else GatewayConnectionSupervisor_connect opts failed random (w\<lparr>wp_waiting := None\<rparr>))"
| "worker_step opts w Stop = GatewayConnectionSupervisor_stop w"
| "worker_step opts w (Opened c) =
     (if wc_socket (client_of w c) = Socket_connecting then GatewayWorkerClient_onopen opts c w else w)"
| "worker_step opts w (Frame c now frame) =
     (if wc_socket (client_of w c) \<in> {Socket_open, Socket_closing} then GatewayWorkerClient_handleMessage opts now frame c w else w)"
| "worker_step opts w (Connection_error c) = act [Worker_failure ''The connection to the central gateway failed''] w"
| "worker_step opts w (Closed c random) =
     (if wc_socket (client_of w c) = Socket_closed then w else GatewayWorkerClient_onclose opts random c w)"
| "worker_step opts w (Signed c signature) = challenge_signed c signature w"
| "worker_step opts w (Models_listed c k answer) = models_listed opts c k answer w"
| "worker_step opts w (Local_server h r failure) = helper_step opts h (Request_answered r failure) w"
| "worker_step opts w (Local_stream h r rd result) = helper_step opts h (Stream_read r rd result) w"
| "worker_step opts w (Answer_idle h g) = helper_step opts h (Idle_timer_fired g) w"
| "worker_step opts w (Heartbeat_due aid) = heartbeat_fired aid w"
| "worker_step opts w (Renewal_due c) = GatewayWorkerClient_renew opts c w"

text \<open>A process starts once, with the first attempt to connect, and then takes what happens to it.\<close>

definition GatewayConnectionSupervisor_start :: "worker_options \<Rightarrow> string option \<Rightarrow> rat \<Rightarrow> worker_process" where
  "GatewayConnectionSupervisor_start opts openFailure fraction = GatewayConnectionSupervisor_connect opts openFailure fraction fresh_worker"

definition worker_life :: "worker_options \<Rightarrow> string option \<Rightarrow> rat \<Rightarrow> worker_event list \<Rightarrow> worker_process" where
  "worker_life opts openFailure fraction es = foldl (worker_step opts) (GatewayConnectionSupervisor_start opts openFailure fraction) es"

end
