(* ===== verification/Worker_Safety.thy ===== *)
theory Worker_Safety
  imports Worker_Client
begin

text \<open>
  What the worker process of \<open>Worker_Client\<close> keeps: no run is lost, an assignment is reported at most once, what is kept for
  a run does not outlive it, and the worker stays connected until it is stopped.
\<close>

section \<open>No run is lost\<close>

text \<open>A run that was waiting still waits, or its end was put out.\<close>

definition runs_le :: "local_server \<Rightarrow> local_server \<Rightarrow> bool" where
  "runs_le s s' \<longleftrightarrow> (\<exists>os. ls_outputs s' = ls_outputs s @ os \<and>
     (\<forall>r rn. map_get (ls_runs s) r = Some rn \<longrightarrow>
        (\<exists>rn'. map_get (ls_runs s') r = Some rn' \<and> rn_stageAssignmentId rn' = rn_stageAssignmentId rn)
        \<or> (\<exists>g res. Run_ended r (rn_stageAssignmentId rn) g res \<in> set os)))"

lemma runs_le_refl [simp]: "runs_le s s"
  by (auto simp: runs_le_def)

lemma runs_le_trans: "runs_le s t \<Longrightarrow> runs_le t u \<Longrightarrow> runs_le s u"
proof -
  assume "runs_le s t" "runs_le t u"
  then obtain os os' where os: "ls_outputs t = ls_outputs s @ os" "ls_outputs u = ls_outputs t @ os'"
    and st: "\<forall>r rn. map_get (ls_runs s) r = Some rn \<longrightarrow>
        (\<exists>rn'. map_get (ls_runs t) r = Some rn' \<and> rn_stageAssignmentId rn' = rn_stageAssignmentId rn)
        \<or> (\<exists>g res. Run_ended r (rn_stageAssignmentId rn) g res \<in> set os)"
    and tu: "\<forall>r rn. map_get (ls_runs t) r = Some rn \<longrightarrow>
        (\<exists>rn'. map_get (ls_runs u) r = Some rn' \<and> rn_stageAssignmentId rn' = rn_stageAssignmentId rn)
        \<or> (\<exists>g res. Run_ended r (rn_stageAssignmentId rn) g res \<in> set os')"
    unfolding runs_le_def by blast
  have "(\<exists>rn'. map_get (ls_runs u) r = Some rn' \<and> rn_stageAssignmentId rn' = rn_stageAssignmentId rn)
      \<or> (\<exists>g res. Run_ended r (rn_stageAssignmentId rn) g res \<in> set (os @ os'))" if "map_get (ls_runs s) r = Some rn" for r rn
    using st [rule_format, OF that] tu by fastforce
  with os show ?thesis unfolding runs_le_def by (intro exI [of _ "os @ os'"]) simp
qed

lemma runs_le_same: "ls_runs s' = ls_runs s \<Longrightarrow> ls_outputs s' = ls_outputs s \<Longrightarrow> runs_le s s'"
  by (simp add: runs_le_def)

lemma runs_le_output [simp]: "runs_le s (output_of os s)"
  by (auto simp: runs_le_def)

lemma runs_le_release: "runs_le s (LocalServerGeneration_release g s)"
  by (auto simp: LocalServerGeneration_release_def intro!: runs_le_trans [OF runs_le_same runs_le_output] split: option.split)

lemma runs_le_forget: "runs_le s (forget_and_release tid g s)"
  unfolding forget_and_release_def by (rule runs_le_trans [OF runs_le_same runs_le_release]) simp_all

lemma runs_le_clear: "runs_le s (LocalServerGeneration_clearGeneration tid aid s)"
  by (auto simp: LocalServerGeneration_clearGeneration_def intro: runs_le_forget split: option.split)

lemma runs_le_clear_every: "runs_le s (LocalServerGeneration_clearEveryGeneration s)"
proof -
  have "runs_le s (fold (\<lambda>(tid, g). forget_and_release tid g) xs s)" for xs
    by (induction xs arbitrary: s) (auto intro: runs_le_trans [OF runs_le_forget])
  then show ?thesis by (simp add: LocalServerGeneration_clearEveryGeneration_def)
qed

lemma clear_runs: "ls_runs (LocalServerGeneration_clearEveryGeneration s) = ls_runs s"
proof -
  have "ls_runs (fold (\<lambda>(tid, g). forget_and_release tid g) xs s) = ls_runs s" for xs
    by (induction xs arbitrary: s) auto
  then show ?thesis by (simp add: LocalServerGeneration_clearEveryGeneration_def)
qed

text \<open>What becomes of a run that is carried out inside a step: it waits, or it has ended.\<close>

definition carried :: "nat \<Rightarrow> string \<Rightarrow> local_server \<Rightarrow> local_server \<Rightarrow> bool" where
  "carried r aid s s' \<longleftrightarrow> (\<exists>os. ls_outputs s' = ls_outputs s @ os \<and>
     ((\<exists>rn. map_get (ls_runs s') r = Some rn \<and> rn_stageAssignmentId rn = aid) \<or> (\<exists>g res. Run_ended r aid g res \<in> set os)))"

lemma runs_le_end:
  "\<forall>rn. map_get (ls_runs s) r = Some rn \<longrightarrow> rn_stageAssignmentId rn = aid \<Longrightarrow> runs_le s (end_run r aid g res s)"
  by (auto simp: runs_le_def end_run_def)

lemma carried_end: "carried r aid s (end_run r aid g res s)"
  by (auto simp: carried_def end_run_def)

lemma carried_after: "runs_le s t \<Longrightarrow> carried r aid t u \<Longrightarrow> carried r aid s u"
  by (auto simp: runs_le_def carried_def)

lemma leave_run_le:
  "\<forall>rn'. map_get (ls_runs s) r = Some rn' \<longrightarrow> rn_stageAssignmentId rn' = rn_stageAssignmentId rn \<Longrightarrow>
   runs_le s (leave_run r rn res s) \<and> carried r (rn_stageAssignmentId rn) s (leave_run r rn res s)"
  unfolding leave_run_def
  by (intro conjI runs_le_trans [OF runs_le_clear runs_le_end] carried_after [OF runs_le_clear carried_end]) simp

lemma wait_le:
  "\<forall>rn'. map_get (ls_runs s) r = Some rn' \<longrightarrow> rn_stageAssignmentId rn' = rn_stageAssignmentId rn \<Longrightarrow>
   runs_le s (s\<lparr>ls_runs := map_set (ls_runs s) r rn\<rparr>) \<and> carried r (rn_stageAssignmentId rn) s (s\<lparr>ls_runs := map_set (ls_runs s) r rn\<rparr>)"
  by (auto simp: runs_le_def carried_def)

lemma read_on_le:
  "\<forall>rn'. map_get (ls_runs s) r = Some rn' \<longrightarrow> rn_stageAssignmentId rn' = rn_stageAssignmentId rn \<Longrightarrow>
   runs_le s (read_on p r rn st s) \<and> carried r (rn_stageAssignmentId rn) s (read_on p r rn st s)"
  using wait_le [of s r rn] leave_run_le [of s r rn] by (simp add: read_on_def finish_run_def)

lemma start_le:
  assumes "\<forall>rn'. map_get (ls_runs s) r = Some rn' \<longrightarrow> rn_stageAssignmentId rn' = rn_stageAssignmentId rn"
  shows "runs_le s (LocalServerGeneration_startGeneration p modelId r rn st payload settings s)
    \<and> carried r (rn_stageAssignmentId rn) s (LocalServerGeneration_startGeneration p modelId r rn st payload settings s)"
  using leave_run_le [OF assms] assms
  by (auto simp: LocalServerGeneration_startGeneration_def runs_le_def carried_def)

lemma compute_le:
  assumes "map_get (ls_runs s) (ls_next s) = None"
  shows "runs_le s (LocalServerGeneration_compute p modelId tid aid payload settings s)
    \<and> (held_ok {} s \<longrightarrow> carried (ls_next s) aid s (LocalServerGeneration_compute p modelId tid aid payload settings s))"
proof -
  define r where "r = ls_next s"
  define s0 where "s0 = s\<lparr>ls_next := r + 1\<rparr>"
  define got where "got = (if pl_isContinuation payload = Some True then LocalServerGeneration_heldGeneration tid aid s0
      else Inr (r, LocalServerGeneration_newGeneration tid aid (declared_tools_of payload) r s0))"
  have le0: "runs_le s s0" by (rule runs_le_same) (simp_all add: s0_def)
  have none: "map_get (ls_runs s0) r = None" using assms by (simp add: s0_def r_def)
  have compute: "LocalServerGeneration_compute p modelId tid aid payload settings s =
      (case got of
         Inl err \<Rightarrow> end_run r aid None (Inl err) s0
       | Inr (g, s1) \<Rightarrow>
           (case generation s1 g of
              None \<Rightarrow> s1
            | Some st \<Rightarrow>
                let rn = \<lparr>rn_taskId = tid, rn_stageAssignmentId = aid, rn_generation = g,
                      rn_wantsPieces = wants_pieces settings st, rn_stream = gn_stream st\<rparr>
                in if gn_stream st = None then LocalServerGeneration_startGeneration p modelId r rn st payload settings s1
                   else read_on p r rn st s1))"
    by (simp only: LocalServerGeneration_compute_def Let_def got_def s0_def r_def)
  show ?thesis
  proof (cases got)
    case (Inl err)
    with none show ?thesis
      using runs_le_trans [OF le0 runs_le_end [of s0 r aid None "Inl err"]] carried_after [OF le0 carried_end [of r aid s0 None "Inl err"]]
      by (simp add: compute r_def)
  next
    case (Inr gs)
    obtain g s1 where gs: "gs = (g, s1)" by fastforce
    have s1: "runs_le s0 s1" "ls_runs s1 = ls_runs s0" "generation s1 g \<noteq> None"
    proof -
      have "runs_le s0 s1 \<and> ls_runs s1 = ls_runs s0 \<and> generation s1 g \<noteq> None"
      proof (cases "pl_isContinuation payload = Some True")
        case True
        with Inr gs show ?thesis
          by (auto simp: got_def LocalServerGeneration_heldGeneration_def bind_eq_Some_conv runs_le_def split: option.splits)
      next
        case False
        from False Inr gs have "s1 = LocalServerGeneration_newGeneration tid aid (declared_tools_of payload) r s0" "g = r"
          by (auto simp: got_def)
        then show ?thesis
          by (auto simp: LocalServerGeneration_newGeneration_def Let_def intro: runs_le_same runs_le_trans [OF runs_le_release runs_le_same] split: option.split)
      qed
      then show "runs_le s0 s1" "ls_runs s1 = ls_runs s0" "generation s1 g \<noteq> None" by auto
    qed
    then obtain st where st: "generation s1 g = Some st" by blast
    let ?rn = "\<lparr>rn_taskId = tid, rn_stageAssignmentId = aid, rn_generation = g,
      rn_wantsPieces = wants_pieces settings st, rn_stream = gn_stream st\<rparr>"
    note le1 = runs_le_trans [OF le0 s1(1)]
    have free: "\<forall>rn'. map_get (ls_runs s1) r = Some rn' \<longrightarrow> rn_stageAssignmentId rn' = rn_stageAssignmentId ?rn"
      using none s1(2) by simp
    have eq: "LocalServerGeneration_compute p modelId tid aid payload settings s =
        (if gn_stream st = None then LocalServerGeneration_startGeneration p modelId r ?rn st payload settings s1
         else read_on p r ?rn st s1)"
      by (simp add: compute Inr gs st Let_def)
    have aid: "rn_stageAssignmentId ?rn = aid" by simp
    have "runs_le s1 (LocalServerGeneration_compute p modelId tid aid payload settings s)
      \<and> carried r aid s1 (LocalServerGeneration_compute p modelId tid aid payload settings s)"
      using start_le [OF free, of p modelId st payload settings, unfolded aid] read_on_le [OF free, of p st, unfolded aid]
      by (cases "gn_stream st = None") (simp_all only: eq if_True if_False simp_thms)
    then show ?thesis using runs_le_trans [OF le1] carried_after [OF le1] by (simp add: r_def)
  qed
qed

lemma runs_le_grown: "ls_runs t = ls_runs s \<Longrightarrow> \<exists>os. ls_outputs t = ls_outputs s @ os \<Longrightarrow> runs_le s t"
  by (auto simp: runs_le_def)

lemma request_answered_le: "runs_le s (request_answered p r failure s)"
proof (cases "map_get (ls_runs s) r")
  case (Some rn)
  have leave: "runs_le s (leave_run r rn res t)" if "ls_runs t = ls_runs s" "\<exists>os. ls_outputs t = ls_outputs s @ os" for res t
    using runs_le_grown [OF that] leave_run_le [of t r rn res] Some that by (auto intro: runs_le_trans)
  have read: "runs_le s (read_on p r (rn\<lparr>rn_stream := k\<rparr>) st t)" if "ls_runs t = ls_runs s" "\<exists>os. ls_outputs t = ls_outputs s @ os" for k st t
    using runs_le_grown [OF that] read_on_le [of t r "rn\<lparr>rn_stream := k\<rparr>" p st] Some that by (auto intro: runs_le_trans)
  show ?thesis
    by (auto simp: request_answered_def Some Let_def intro!: leave read split: option.split)
qed (simp add: request_answered_def)

lemma stream_read_le: "runs_le s (stream_read p r rd result s)"
proof (cases "map_get (ls_runs s) r")
  case (Some rn)
  have leave: "runs_le s (leave_run r rn res t)" if "ls_runs t = ls_runs s" "\<exists>os. ls_outputs t = ls_outputs s @ os" for res t
    using runs_le_grown [OF that] leave_run_le [of t r rn res] Some that by (auto intro: runs_le_trans)
  have read: "runs_le s (read_on p r rn st t)" if "ls_runs t = ls_runs s" "\<exists>os. ls_outputs t = ls_outputs s @ os" for st t
    using runs_le_grown [OF that] read_on_le [of t r rn p st] Some that by (auto intro: runs_le_trans)
  have ended: "runs_le s (end_run r (rn_stageAssignmentId rn) g res t)" if "ls_runs t = ls_runs s" "\<exists>os. ls_outputs t = ls_outputs s @ os" for g res t
    using runs_le_grown [OF that] runs_le_end [of t r "rn_stageAssignmentId rn" g res] Some that by (auto intro: runs_le_trans)
  show ?thesis
    unfolding stream_read_def Some
    by (auto simp: Let_def finish_run_def LocalServerGeneration_waitForTheRunAfterThis_def intro!: leave read ended
        split: option.split read_result.split sum.split)
qed (simp add: stream_read_def)

lemma step_le:
  assumes "held_ok {} s"
  shows "runs_le s (generation_step p modelId s e)"
proof (cases e)
  case (Compute tid aid payload settings)
  have "map_get (ls_runs s) (ls_next s) = None"
    using held_okD(6) [OF assms, of "ls_next s"] by (cases "map_get (ls_runs s) (ls_next s)") auto
  with Compute show ?thesis using compute_le by simp
next
  case (Idle_timer_fired g)
  then show ?thesis by (auto simp: idle_timer_fired_def intro: runs_le_forget split: option.split)
qed (simp_all add: request_answered_le stream_read_le runs_le_clear runs_le_clear_every)

section \<open>What a worker keeps of an assignment\<close>

fun report_of :: "worker_action \<Rightarrow> (nat \<times> string) option" where
  "report_of (Client_acts c (Send (Stage_result t a n st v))) = Some (c, a)"
| "report_of (Client_acts c (Send (Stage_failed t a n st m))) = Some (c, a)"
| "report_of _ = None"

fun acceptance_of :: "worker_action \<Rightarrow> (nat \<times> string) option" where
  "acceptance_of (Client_acts c (Send (Stage_accepted t a n))) = Some (c, a)"
| "acceptance_of _ = None"

definition reports :: "worker_process \<Rightarrow> nat \<times> string \<Rightarrow> nat" where
  "reports w k = length (filter (\<lambda>a. report_of a = Some k) (wp_actions w))"

definition acceptances :: "worker_process \<Rightarrow> nat \<times> string \<Rightarrow> nat" where
  "acceptances w k = length (filter (\<lambda>a. acceptance_of a = Some k) (wp_actions w))"

definition under_way :: "worker_process \<Rightarrow> nat \<times> string \<Rightarrow> nat" where
  "under_way w k = length (filter (\<lambda>(_, c, m). (c, sa_stageAssignmentId m) = k) (wp_runs w))"

text \<open>A connection that still opens or is open: only over such a one can a message be sent, now or later.\<close>

definition usable :: "worker_process \<Rightarrow> nat \<Rightarrow> bool" where
  "usable w c \<longleftrightarrow> wc_socket (client_of w c) \<in> {Socket_connecting, Socket_open}"

text \<open>
  \<open>busy\<close> names an assignment whose run is being started or settled inside a step: it counts as one under way.
\<close>

definition counted :: "worker_process \<Rightarrow> (nat \<times> string) option \<Rightarrow> nat \<times> string \<Rightarrow> nat" where
  "counted w busy k = under_way w k + (if busy = Some k then 1 else 0)"

definition kept_ok :: "(nat \<times> string) option \<Rightarrow> worker_process \<Rightarrow> bool" where
  "kept_ok busy w \<longleftrightarrow>
     (\<forall>k. reports w k + (if usable w (fst k) then counted w busy k else 0) \<le> acceptances w k)
     \<and> (\<forall>aid hb. map_get (wp_heartbeats w) aid = Some hb \<longrightarrow> counted w busy (hb_client hb, aid) > 0)
     \<and> (\<forall>c aid. aid \<in> set (wc_running (client_of w c)) \<longrightarrow> counted w busy (c, aid) > 0)
     \<and> (\<forall>c. set (wc_cancelled (client_of w c)) \<subseteq> set (wc_running (client_of w c)))
     \<and> (\<forall>k. under_way w k > 0 \<longrightarrow> fst k < wp_next w) \<and> wf_map (wp_runs w)
     \<and> (\<forall>c. wc_socket (client_of w c) \<noteq> Socket_closed \<longrightarrow> c < wp_next w)"

lemma kept_okD:
  assumes "kept_ok busy w"
  shows "reports w k + (if usable w (fst k) then counted w busy k else 0) \<le> acceptances w k"
    and "map_get (wp_heartbeats w) aid = Some hb \<Longrightarrow> counted w busy (hb_client hb, aid) > 0"
    and "aid \<in> set (wc_running (client_of w c)) \<Longrightarrow> counted w busy (c, aid) > 0"
    and "set (wc_cancelled (client_of w c)) \<subseteq> set (wc_running (client_of w c))"
    and "under_way w k > 0 \<Longrightarrow> fst k < wp_next w" and "wf_map (wp_runs w)"
    and "wc_socket (client_of w c) \<noteq> Socket_closed \<Longrightarrow> c < wp_next w"
  using assms unfolding kept_ok_def by blast+

lemma kept_okI:
  assumes "\<And>k. reports w k + (if usable w (fst k) then counted w busy k else 0) \<le> acceptances w k"
    and "\<And>aid hb. map_get (wp_heartbeats w) aid = Some hb \<Longrightarrow> counted w busy (hb_client hb, aid) > 0"
    and "\<And>c aid. aid \<in> set (wc_running (client_of w c)) \<Longrightarrow> counted w busy (c, aid) > 0"
    and "\<And>c. set (wc_cancelled (client_of w c)) \<subseteq> set (wc_running (client_of w c))"
    and "\<And>k. under_way w k > 0 \<Longrightarrow> fst k < wp_next w" and "wf_map (wp_runs w)"
    and "\<And>c. wc_socket (client_of w c) \<noteq> Socket_closed \<Longrightarrow> c < wp_next w"
  shows "kept_ok busy w"
  unfolding kept_ok_def by (intro conjI allI impI; rule assms; assumption)

text \<open>
  What most operations do: they start no run, settle none and report nothing; a connection of theirs may become
  unusable and a run may be cancelled.
\<close>

definition quiet :: "worker_process \<Rightarrow> worker_process \<Rightarrow> bool" where
  "quiet w w' \<longleftrightarrow> wp_runs w' = wp_runs w \<and> wp_next w \<le> wp_next w'
     \<and> (\<forall>k. reports w' k = reports w k \<and> acceptances w k \<le> acceptances w' k)
     \<and> (\<forall>aid hb. map_get (wp_heartbeats w') aid = Some hb \<longrightarrow> map_get (wp_heartbeats w) aid = Some hb)
     \<and> (\<forall>c. (usable w' c \<longrightarrow> usable w c)
          \<and> (wc_socket (client_of w' c) \<noteq> Socket_closed \<longrightarrow> wc_socket (client_of w c) \<noteq> Socket_closed)
          \<and> set (wc_running (client_of w' c)) = set (wc_running (client_of w c))
          \<and> set (wc_cancelled (client_of w' c)) \<subseteq> set (wc_cancelled (client_of w c)) \<union> set (wc_running (client_of w c)))"

lemma quiet_self [simp]: "quiet w w"
  by (simp add: quiet_def)

lemma quiet_then:
  assumes "quiet u v" and "quiet v w"
  shows "quiet u w"
proof -
  have "set (wc_cancelled (client_of w c)) \<subseteq> set (wc_cancelled (client_of u c)) \<union> set (wc_running (client_of u c))" for c
    using assms unfolding quiet_def by blast
  moreover have "acceptances u k \<le> acceptances w k" for k using assms le_trans unfolding quiet_def by blast
  moreover have "wp_next u \<le> wp_next w" using assms le_trans unfolding quiet_def by blast
  ultimately show ?thesis using assms by (simp add: quiet_def)
qed

lemma quiet_kept:
  assumes q: "quiet w w'" and ok: "kept_ok busy w"
  shows "kept_ok busy w'"
proof (rule kept_okI)
  have run: "under_way w' k = under_way w k" "counted w' busy k = counted w busy k" for k
    using q by (simp_all add: quiet_def under_way_def counted_def)
  show "reports w' k + (if usable w' (fst k) then counted w' busy k else 0) \<le> acceptances w' k" for k
  proof -
    have "reports w' k = reports w k" "acceptances w k \<le> acceptances w' k" "usable w' (fst k) \<longrightarrow> usable w (fst k)"
      using q unfolding quiet_def by blast+
    with kept_okD(1) [OF ok, of k] show ?thesis unfolding run by (auto split: if_splits)
  qed
  show "counted w' busy (hb_client hb, aid) > 0" if "map_get (wp_heartbeats w') aid = Some hb" for aid hb
    using that q kept_okD(2) [OF ok, of aid hb] unfolding run quiet_def by blast
  show "counted w' busy (c, aid) > 0" if "aid \<in> set (wc_running (client_of w' c))" for c aid
    using that q kept_okD(3) [OF ok, of aid c] unfolding run quiet_def by blast
  show "set (wc_cancelled (client_of w' c)) \<subseteq> set (wc_running (client_of w' c))" for c
    using q kept_okD(4) [OF ok, of c] unfolding quiet_def by blast
  show "fst k < wp_next w'" if "under_way w' k > 0" for k
  proof -
    have "fst k < wp_next w" using that kept_okD(5) [OF ok, of k] by (simp add: run)
    moreover have "wp_next w \<le> wp_next w'" using q by (simp add: quiet_def)
    ultimately show ?thesis by simp
  qed
  show "wf_map (wp_runs w')" using q kept_okD(6) [OF ok] by (simp add: quiet_def)
  show "c < wp_next w'" if "wc_socket (client_of w' c) \<noteq> Socket_closed" for c
  proof -
    have "wc_socket (client_of w c) \<noteq> Socket_closed" "wp_next w \<le> wp_next w'" using q that unfolding quiet_def by blast+
    with kept_okD(7) [OF ok] show ?thesis using less_le_trans by blast
  qed
qed

lemma client_of_set [simp]: "client_of (set_client c cl w) c' = (if c' = c then cl else client_of w c')"
  by (simp add: client_of_def set_client_def)

lemma set_client_fields [simp]:
  "wp_helpers (set_client c cl w) = wp_helpers w" "wp_heartbeats (set_client c cl w) = wp_heartbeats w"
  "wp_runs (set_client c cl w) = wp_runs w" "wp_isStopped (set_client c cl w) = wp_isStopped w"
  "wp_current (set_client c cl w) = wp_current w" "wp_waiting (set_client c cl w) = wp_waiting w"
  "wp_next (set_client c cl w) = wp_next w" "wp_actions (set_client c cl w) = wp_actions w"
  by (simp_all add: set_client_def)

lemma act_fields [simp]:
  "wp_helpers (act as w) = wp_helpers w" "wp_heartbeats (act as w) = wp_heartbeats w" "wp_runs (act as w) = wp_runs w"
  "wp_clients (act as w) = wp_clients w" "wp_isStopped (act as w) = wp_isStopped w" "wp_current (act as w) = wp_current w"
  "wp_waiting (act as w) = wp_waiting w" "wp_next (act as w) = wp_next w" "wp_actions (act as w) = wp_actions w @ as"
  "client_of (act as w) c = client_of w c"
  by (simp_all add: act_def client_of_def)

lemma quiet_act [intro]: "\<forall>a \<in> set as. report_of a = None \<Longrightarrow> quiet w (act as w)"
  by (auto simp: quiet_def reports_def acceptances_def usable_def filter_empty_conv)

lemma quiet_set_client [intro]:
  "(wc_socket cl \<noteq> Socket_closed \<Longrightarrow> wc_socket (client_of w c) \<noteq> Socket_closed) \<Longrightarrow>
   (wc_socket cl \<in> {Socket_connecting, Socket_open} \<Longrightarrow> wc_socket (client_of w c) \<in> {Socket_connecting, Socket_open}) \<Longrightarrow>
   wc_running cl = wc_running (client_of w c) \<Longrightarrow>
   set (wc_cancelled cl) \<subseteq> set (wc_cancelled (client_of w c)) \<union> set (wc_running (client_of w c)) \<Longrightarrow> quiet w (set_client c cl w)"
  by (auto simp: quiet_def reports_def acceptances_def usable_def)

lemma quiet_fields:
  "wp_runs w' = wp_runs w \<Longrightarrow> wp_clients w' = wp_clients w \<Longrightarrow> wp_actions w' = wp_actions w \<Longrightarrow>
   wp_next w \<le> wp_next w' \<Longrightarrow>
   (\<And>aid hb. map_get (wp_heartbeats w') aid = Some hb \<Longrightarrow> map_get (wp_heartbeats w) aid = Some hb) \<Longrightarrow> quiet w w'"
  by (auto simp: quiet_def reports_def acceptances_def usable_def client_of_def)

lemma quiet_send: "report_of (Client_acts c (Send m)) = None \<Longrightarrow> quiet w (GatewayWorkerClient_send c m w)"
  by (auto simp: GatewayWorkerClient_send_def)

section \<open>The quiet operations\<close>

lemma clear_generation_fields [simp]:
  "wp_clients (StageCatalog_clearGeneration tid aid w) = wp_clients w" "wp_runs (StageCatalog_clearGeneration tid aid w) = wp_runs w"
  "wp_heartbeats (StageCatalog_clearGeneration tid aid w) = wp_heartbeats w"
  "wp_actions (StageCatalog_clearGeneration tid aid w) = wp_actions w" "wp_next (StageCatalog_clearGeneration tid aid w) = wp_next w"
  "wp_isStopped (StageCatalog_clearGeneration tid aid w) = wp_isStopped w"
  "wp_current (StageCatalog_clearGeneration tid aid w) = wp_current w" "wp_waiting (StageCatalog_clearGeneration tid aid w) = wp_waiting w"
  "client_of (StageCatalog_clearGeneration tid aid w) c = client_of w c"
  by (simp_all add: StageCatalog_clearGeneration_def client_of_def)

lemma clear_every_fields [simp]:
  "wp_clients (StageCatalog_clearEveryGeneration w) = wp_clients w" "wp_runs (StageCatalog_clearEveryGeneration w) = wp_runs w"
  "wp_heartbeats (StageCatalog_clearEveryGeneration w) = wp_heartbeats w"
  "wp_actions (StageCatalog_clearEveryGeneration w) = wp_actions w" "wp_next (StageCatalog_clearEveryGeneration w) = wp_next w"
  "wp_isStopped (StageCatalog_clearEveryGeneration w) = wp_isStopped w"
  "wp_current (StageCatalog_clearEveryGeneration w) = wp_current w" "wp_waiting (StageCatalog_clearEveryGeneration w) = wp_waiting w"
  "client_of (StageCatalog_clearEveryGeneration w) c = client_of w c"
  by (simp_all add: StageCatalog_clearEveryGeneration_def client_of_def)

lemma stop_heartbeat_fields [simp]:
  "wp_clients (stop_heartbeat aid w) = wp_clients w" "wp_runs (stop_heartbeat aid w) = wp_runs w"
  "wp_helpers (stop_heartbeat aid w) = wp_helpers w" "wp_actions (stop_heartbeat aid w) = wp_actions w"
  "wp_next (stop_heartbeat aid w) = wp_next w" "wp_isStopped (stop_heartbeat aid w) = wp_isStopped w"
  "wp_current (stop_heartbeat aid w) = wp_current w" "wp_waiting (stop_heartbeat aid w) = wp_waiting w"
  "client_of (stop_heartbeat aid w) c = client_of w c"
  "map_get (wp_heartbeats (stop_heartbeat aid w)) a = (if aid = None \<or> aid = Some a then None else map_get (wp_heartbeats w) a)"
  by (auto simp: stop_heartbeat_def client_of_def LeaseHeartbeat_stop_def split: option.split)

lemma quiet_clear: "quiet w (StageCatalog_clearGeneration tid aid w)"
  by (rule quiet_fields) simp_all

lemma quiet_clear_every: "quiet w (StageCatalog_clearEveryGeneration w)"
  by (rule quiet_fields) simp_all

lemma quiet_stop_heartbeat: "quiet w (stop_heartbeat aid w)"
  by (rule quiet_fields) (simp_all split: if_splits)

lemma account_is_quiet:
  "a \<in> set (AccountAuthentication_begin conv) \<Longrightarrow> report_of (Client_acts c a) = None"
  "a \<in> set (snd (snd (AccountAuthentication_handleMessage (account_settled c w) m conv))) \<Longrightarrow> report_of (Client_acts c a) = None"
  "a \<in> set (snd (AccountAuthentication_signed (account_settled c w) signature conv)) \<Longrightarrow> report_of (Client_acts c a) = None"
  by (auto simp: AccountAuthentication_begin_def AccountAuthentication_handleMessage_def AccountAuthentication_signed_def
      AccountAuthentication_settle_def account_settled_def Let_def split: gateway_message.splits if_splits sum.splits)

lemma quiet_account_actions: "\<forall>a \<in> set as. report_of (Client_acts c a) = None \<Longrightarrow> quiet w (account_actions c as w)"
proof (induction as arbitrary: w)
  case (Cons a as)
  have "quiet w (account_action c a w)" using Cons.prems by (cases a) (auto intro: quiet_send)
  with Cons show ?case by (auto simp: account_actions_def intro: quiet_then)
qed (simp add: account_actions_def)

lemma quiet_start_closing: "quiet w (start_closing c w)"
  by (auto simp: start_closing_def)

lemma quiet_register_with: "quiet w (register_with opts c offer w)"
  by (auto simp: register_with_def intro!: quiet_then [OF quiet_act quiet_start_closing] quiet_then [OF quiet_set_client quiet_send])

lemma quiet_next: "quiet w (w\<lparr>wp_next := wp_next w + 1\<rparr>)"
  by (rule quiet_fields) simp_all

lemma client_of_next [simp]: "client_of (w\<lparr>wp_next := n\<rparr>) c = client_of w c"
  by (simp add: client_of_def)

lemma quiet_offered: "quiet w (GatewayWorkerClient_registerOfferedStages opts c pipelines w)"
proof -
  have "quiet w (act [Ask_models k] (set_client c ((client_of w c)\<lparr>wc_checks := x\<rparr>) (w\<lparr>wp_next := wp_next w + 1\<rparr>)))" for k x
    by (rule quiet_then [OF quiet_then [OF quiet_next quiet_set_client] quiet_act]) simp_all
  then show ?thesis by (simp add: GatewayWorkerClient_registerOfferedStages_def Let_def quiet_register_with)
qed

lemma quiet_models: "quiet w (models_listed opts c k answer w)"
proof -
  have "quiet w (register_with opts c offer (act [a] (set_client c ((client_of w c)\<lparr>wc_checks := x\<rparr>) w)))"
    if "report_of a = None" for offer a x
    by (rule quiet_then [OF quiet_then [OF quiet_set_client quiet_act] quiet_register_with]) (simp_all add: that)
  then show ?thesis by (simp add: models_listed_def Let_def split: option.split local_model_readiness.split)
qed

lemma quiet_authenticated: "quiet w (GatewayWorkerClient_authenticated opts now expiresAt c w)"
proof -
  let ?w = "set_client c ((client_of w c)\<lparr>wc_sessionRenewal := Some (SessionRenewal_renewAfterMs (Some expiresAt) now)\<rparr>) w"
  have set: "quiet w ?w" by (rule quiet_set_client) simp_all
  have "quiet ?w (GatewayWorkerClient_send c Pipelines_get (act [Client_acts c (On_account_settled None)] ?w))"
    by (rule quiet_then [OF quiet_act quiet_send]) simp_all
  moreover have "quiet ?w (account_actions c (AccountAuthentication_begin conv) (set_client c ((client_of ?w c)\<lparr>wc_account := Some conv\<rparr>) ?w))" for conv
    by (rule quiet_then [OF quiet_set_client quiet_account_actions]) (auto simp: account_is_quiet)
  ultimately show ?thesis
    using quiet_then [OF set] set by (simp add: GatewayWorkerClient_authenticated_def Let_def split: option.split)
qed

lemma quiet_cancel: "quiet w (cancel_stage tid aid c w)"
proof -
  have "quiet w (StageCatalog_clearGeneration tid aid (stop_heartbeat (Some aid) w))"
    by (rule quiet_then [OF quiet_stop_heartbeat quiet_clear])
  moreover have "quiet (StageCatalog_clearGeneration tid aid (stop_heartbeat (Some aid) w))
     (set_client c ((client_of w c)\<lparr>wc_cancelled := set_add (wc_cancelled (client_of w c)) aid\<rparr>)
       (StageCatalog_clearGeneration tid aid (stop_heartbeat (Some aid) w)))" if "aid \<in> set (wc_running (client_of w c))"
    by (rule quiet_set_client) (use that in \<open>auto simp: set_add_def\<close>)
  ultimately show ?thesis by (auto simp: cancel_stage_def Let_def intro: quiet_then)
qed

lemma quiet_dispatch: "\<forall>m. message \<noteq> Stage_assign m \<Longrightarrow> quiet w (GatewayWorkerClient_dispatch opts now message c w)"
proof -
  have "quiet w (act [Worker_registered c d x] ((set_client c ((client_of w c)\<lparr>wc_isRegistered := True\<rparr>) w)\<lparr>wp_attemptCount := n\<rparr>))" for d x n
    by (rule quiet_then [OF quiet_then [OF quiet_set_client quiet_fields] quiet_act]) simp_all
  then show "\<forall>m. message \<noteq> Stage_assign m \<Longrightarrow> ?thesis"
    by (auto simp: GatewayWorkerClient_dispatch_def quiet_offered quiet_cancel split: gateway_message.split)
qed

lemma quiet_challenge: "quiet w (challenge_signed c signature w)"
proof -
  have "quiet w (account_actions c as (set_client c ((client_of w c)\<lparr>wc_account := x\<rparr>) w))"
    if "\<forall>a \<in> set as. report_of (Client_acts c a) = None" for as x
    by (rule quiet_then [OF quiet_set_client quiet_account_actions]) (use that in simp_all)
  then show ?thesis by (simp add: challenge_signed_def case_prod_beta account_is_quiet(3) split: option.split)
qed

lemma quiet_close: "quiet w (GatewayWorkerClient_close c w)"
  unfolding GatewayWorkerClient_close_def Let_def
  by (rule quiet_then [OF quiet_stop_heartbeat quiet_then [OF quiet_then [OF quiet_set_client quiet_act] quiet_start_closing]]) simp_all

lemma quiet_renew: "quiet w (GatewayWorkerClient_renew opts c w)"
  by (simp add: GatewayWorkerClient_renew_def quiet_send)

lemma quiet_heartbeat: "quiet w (heartbeat_fired aid w)"
  by (simp add: heartbeat_fired_def quiet_send split: option.split)

lemma quiet_schedule: "quiet w (GatewayConnectionSupervisor_scheduleAttempt opts fraction w)"
proof -
  have "quiet w (act [Wait_before_attempt d] (w\<lparr>wp_attemptCount := n, wp_waiting := x\<rparr>))" for d n x
    by (rule quiet_then [OF quiet_fields quiet_act]) simp_all
  then show ?thesis by (simp add: GatewayConnectionSupervisor_scheduleAttempt_def split: prod.split)
qed

lemma quiet_stop: "quiet w (GatewayConnectionSupervisor_stop w)"
proof -
  have "quiet w (w\<lparr>wp_isStopped := True, wp_waiting := None\<rparr>)" by (rule quiet_fields) simp_all
  moreover have "quiet u (u\<lparr>wp_current := None\<rparr>)" for u by (rule quiet_fields) simp_all
  ultimately show ?thesis
    using quiet_then quiet_close by (simp add: GatewayConnectionSupervisor_stop_def Let_def split: option.split) blast
qed

lemma quiet_onopen: "wc_socket (client_of w c) = Socket_connecting \<Longrightarrow> quiet w (GatewayWorkerClient_onopen opts c w)"
  unfolding GatewayWorkerClient_onopen_def
  by (rule quiet_then [OF quiet_then [OF quiet_set_client quiet_act] quiet_send]) simp_all

lemma quiet_onclose: "quiet w (GatewayWorkerClient_onclose opts fraction c w)"
proof -
  have "quiet u (u\<lparr>wp_current := None\<rparr>)" for u by (rule quiet_fields) simp_all
  then show ?thesis
    unfolding GatewayWorkerClient_onclose_def Let_def
    by (intro quiet_then [OF _ quiet_schedule] quiet_then [OF _ \<open>\<And>u. quiet u (u\<lparr>wp_current := None\<rparr>)\<close>]
        quiet_then [OF _ quiet_act] quiet_then [OF _ quiet_stop_heartbeat] quiet_then [OF _ quiet_clear_every] quiet_set_client) simp_all
qed

section \<open>Starting and settling a run\<close>

lemma under_way_runs: "wp_runs w' = wp_runs w \<Longrightarrow> under_way w' k = under_way w k"
  by (simp add: under_way_def)

lemma delete_run_kept:
  assumes ok: "kept_ok None w" and run: "map_get (wp_runs w) key = Some (c, m)"
  shows "kept_ok (Some (c, sa_stageAssignmentId m)) (w\<lparr>wp_runs := map_delete (wp_runs w) key\<rparr>)"
proof (rule kept_okI)
  let ?w = "w\<lparr>wp_runs := map_delete (wp_runs w) key\<rparr>" and ?k = "(c, sa_stageAssignmentId m)"
  have same: "reports ?w k = reports w k" "acceptances ?w k = acceptances w k" "usable ?w c' = usable w c'" "client_of ?w c' = client_of w c'" for k c'
    by (simp_all add: reports_def acceptances_def usable_def client_of_def)
  have le: "under_way ?w k + (if k = ?k then 1 else 0) \<le> under_way w k" for k
  proof -
    have "length (filter P (AList.delete key xs)) + (if P (key, c, m) then 1 else 0) \<le> length (filter P xs)"
      if "map_get xs key = Some (c, m)" for P xs
      using that
    proof (induction xs)
      case (Cons x xs)
      have del: "length (filter P (AList.delete key ys)) \<le> length (filter P ys)" for ys
        by (induction ys) auto
      show ?case using Cons del [of xs] by (cases x) (auto split: if_splits)
    qed simp
    from this [OF run, of "\<lambda>(_, c, m). (c, sa_stageAssignmentId m) = k"] show ?thesis by (auto simp: under_way_def)
  qed
  have ge: "under_way w k > 0 \<Longrightarrow> counted ?w (Some ?k) k > 0" for k
  proof -
    assume "under_way w k > 0"
    then obtain key' c' m' where mem: "(key', c', m') \<in> set (wp_runs w)" "k = (c', sa_stageAssignmentId m')"
      by (auto simp: under_way_def filter_empty_conv)
    show "counted ?w (Some ?k) k > 0"
    proof (cases "key' = key")
      case False
      with mem have "(key', c', m') \<in> set (map_delete (wp_runs w) key)" by (simp add: AList.delete_eq)
      then have "under_way ?w k > 0" using mem(2) by (auto simp: under_way_def filter_empty_conv)
      then show ?thesis by (simp add: counted_def)
    next
      case True
      with mem(1) have "map_get (wp_runs w) key = Some (c', m')" using kept_okD(6) [OF ok] by (simp only: map_of_eq_Some_iff)
      with run mem(2) show ?thesis by (simp add: counted_def)
    qed
  qed
  show "reports ?w k + (if usable ?w (fst k) then counted ?w (Some ?k) k else 0) \<le> acceptances ?w k" for k
    using kept_okD(1) [OF ok, of k] le [of k] unfolding same counted_def by (auto split: if_splits)
  show "0 < counted ?w (Some ?k) (hb_client hb, aid)" if "map_get (wp_heartbeats ?w) aid = Some hb" for aid hb
    using kept_okD(2) [OF ok, of aid hb] that by (intro ge) (simp add: counted_def)
  show "0 < counted ?w (Some ?k) (c', aid)" if "aid \<in> set (wc_running (client_of ?w c'))" for c' aid
    using kept_okD(3) [OF ok, of aid c'] that unfolding same by (intro ge) (simp add: counted_def)
  show "set (wc_cancelled (client_of ?w c')) \<subseteq> set (wc_running (client_of ?w c'))" for c'
    using kept_okD(4) [OF ok, of c'] unfolding same .
  show "fst k < wp_next ?w" if "0 < under_way ?w k" for k
    using kept_okD(5) [OF ok, of k] le [of k] that by simp
  show "wf_map (wp_runs ?w)" using kept_okD(6) [OF ok] by simp
  show "c' < wp_next ?w" if "wc_socket (client_of ?w c') \<noteq> Socket_closed" for c'
    using kept_okD(7) [OF ok, of c'] that unfolding same by simp
qed

text \<open>The end of a run: its report, at most one, and what was kept for it is dropped.\<close>

lemma report_fields [simp]:
  "wp_runs (report_unless_cancelled c aid m w) = wp_runs w" "wp_heartbeats (report_unless_cancelled c aid m w) = wp_heartbeats w"
  "wp_helpers (report_unless_cancelled c aid m w) = wp_helpers w" "wp_next (report_unless_cancelled c aid m w) = wp_next w"
  "wp_current (report_unless_cancelled c aid m w) = wp_current w" "wp_waiting (report_unless_cancelled c aid m w) = wp_waiting w"
  "wp_isStopped (report_unless_cancelled c aid m w) = wp_isStopped w"
  "client_of (report_unless_cancelled c aid m w) c' = client_of w c'"
  by (simp_all add: report_unless_cancelled_def GatewayWorkerClient_send_def)

lemma report_counts:
  assumes "report_of (Client_acts c (Send m)) = Some (c, aid)" and "acceptance_of (Client_acts c (Send m)) = None"
  shows "reports (report_unless_cancelled c aid m w) k \<le> reports w k + (if k = (c, aid) \<and> usable w c then 1 else 0)"
    and "acceptances (report_unless_cancelled c aid m w) k = acceptances w k"
  using assms by (auto simp: report_unless_cancelled_def GatewayWorkerClient_send_def reports_def acceptances_def usable_def)

definition reported :: "nat \<Rightarrow> string \<Rightarrow> worker_process \<Rightarrow> worker_process \<Rightarrow> bool" where
  "reported c aid w w' \<longleftrightarrow> wp_runs w' = wp_runs w \<and> wp_next w' = wp_next w
     \<and> (\<forall>a. map_get (wp_heartbeats w') a = (if a = aid then None else map_get (wp_heartbeats w) a))
     \<and> (\<forall>c'. client_of w' c' = client_of w c')
     \<and> (\<forall>k. reports w' k \<le> reports w k + (if k = (c, aid) \<and> usable w c then 1 else 0) \<and> acceptances w' k = acceptances w k)"

lemma forget_kept:
  assumes rep: "reported c aid w w'" and ok: "kept_ok (Some (c, aid)) w"
  shows "kept_ok None (forget_assignment c aid w')"
proof (rule kept_okI)
  let ?w = "forget_assignment c aid w'"
  have same: "wp_runs ?w = wp_runs w" "wp_next ?w = wp_next w" "wp_heartbeats ?w = wp_heartbeats w'" "usable ?w c' = usable w c'"
    "under_way ?w k = under_way w k" "counted ?w None k = under_way w k" for c' k
    using rep by (simp_all add: reported_def forget_assignment_def usable_def under_way_def counted_def)
  have client: "client_of ?w c' = (if c' = c then (client_of w c)\<lparr>wc_running := removeAll aid (wc_running (client_of w c)),
      wc_cancelled := removeAll aid (wc_cancelled (client_of w c))\<rparr> else client_of w c')" for c'
    using rep by (simp add: reported_def forget_assignment_def)
  show "reports ?w k + (if usable ?w (fst k) then counted ?w None k else 0) \<le> acceptances ?w k" for k
  proof -
    have "reports ?w k = reports w' k" "acceptances ?w k = acceptances w' k"
      by (simp_all add: forget_assignment_def reports_def acceptances_def)
    moreover have "reports w' k \<le> reports w k + (if k = (c, aid) \<and> usable w c then 1 else 0)" "acceptances w' k = acceptances w k"
      using rep unfolding reported_def by blast+
    ultimately have "reports ?w k \<le> reports w k + (if k = (c, aid) \<and> usable w c then 1 else 0)" "acceptances ?w k = acceptances w k"
      by simp_all
    with kept_okD(1) [OF ok, of k] show ?thesis unfolding same by (auto simp: counted_def split: if_splits)
  qed
  show "0 < counted ?w None (hb_client hb, a)" if "map_get (wp_heartbeats ?w) a = Some hb" for a hb
  proof -
    from that rep have "a \<noteq> aid" "map_get (wp_heartbeats w) a = Some hb" by (auto simp: same reported_def split: if_splits)
    with kept_okD(2) [OF ok this(2)] show ?thesis unfolding same by (simp add: counted_def)
  qed
  show "0 < counted ?w None (c', a)" if "a \<in> set (wc_running (client_of ?w c'))" for c' a
  proof -
    from that have "a \<in> set (wc_running (client_of w c'))" "(c', a) \<noteq> (c, aid)" by (auto simp: client split: if_splits)
    with kept_okD(3) [OF ok this(1)] show ?thesis unfolding same by (auto simp: counted_def split: if_splits)
  qed
  show "set (wc_cancelled (client_of ?w c')) \<subseteq> set (wc_running (client_of ?w c'))" for c'
    using kept_okD(4) [OF ok, of c'] by (auto simp: client)
  show "fst k < wp_next ?w" if "0 < under_way ?w k" for k
    using kept_okD(5) [OF ok, of k] that unfolding same .
  show "wf_map (wp_runs ?w)" using kept_okD(6) [OF ok] unfolding same .
  show "c' < wp_next ?w" if "wc_socket (client_of ?w c') \<noteq> Socket_closed" for c'
    using kept_okD(7) [OF ok, of c'] that by (simp add: client same split: if_splits)
qed

lemma settle_kept:
  assumes "kept_ok (Some (c, sa_stageAssignmentId m)) w"
  shows "kept_ok None (settle_assigned_stage opts c m outcome w)"
proof -
  have "reported c (sa_stageAssignmentId m) w (case outcome of
      Inr payload \<Rightarrow> report_unless_cancelled c (sa_stageAssignmentId m)
        (Stage_result (sa_taskId m) (sa_stageAssignmentId m) (sa_attempt m) (sa_stage m) (Llm payload)) (stop_heartbeat (Some (sa_stageAssignmentId m)) w)
    | Inl err \<Rightarrow> report_unless_cancelled c (sa_stageAssignmentId m)
        (Stage_failed (sa_taskId m) (sa_stageAssignmentId m) (sa_attempt m) (sa_stage m) (thrown_message opts err))
        (StageCatalog_clearGeneration (sa_taskId m) (sa_stageAssignmentId m) (stop_heartbeat (Some (sa_stageAssignmentId m)) w)))"
  proof -
    have rep: "reported c (sa_stageAssignmentId m) w (report_unless_cancelled c (sa_stageAssignmentId m) msg u)"
      if "report_of (Client_acts c (Send msg)) = Some (c, sa_stageAssignmentId m)" "acceptance_of (Client_acts c (Send msg)) = None"
        "wp_runs u = wp_runs w" "wp_next u = wp_next w" "wp_actions u = wp_actions w" "\<And>c. client_of u c = client_of w c"
        "\<And>a. map_get (wp_heartbeats u) a = (if a = sa_stageAssignmentId m then None else map_get (wp_heartbeats w) a)" for msg u
    proof -
      have "reports u k = reports w k" "acceptances u k = acceptances w k" "usable u c = usable w c" for k
        using that by (simp_all add: reports_def acceptances_def usable_def)
      then show ?thesis using that report_counts [OF that(1,2), of u] by (simp add: reported_def)
    qed
    show ?thesis by (cases outcome) (auto intro!: rep)
  qed
  from forget_kept [OF this assms] show ?thesis by (simp add: settle_assigned_stage_def Let_def)
qed

lemma settle_output_kept:
  assumes "kept_ok None w"
  shows "kept_ok None (settle_output opts h out w)"
proof (cases out)
  case (Run_ended r aid g outcome)
  then show ?thesis
    using assms settle_kept [OF delete_run_kept [OF assms]] by (simp split: option.split prod.split)
qed (use assms in simp_all)

lemma fold_kept: "(\<And>x w. kept_ok None w \<Longrightarrow> kept_ok None (f x w)) \<Longrightarrow> kept_ok None w \<Longrightarrow> kept_ok None (fold f xs w)"
  by (induction xs arbitrary: w) simp_all

lemma quiet_helpers: "quiet w (w\<lparr>wp_helpers := hs\<rparr>)"
  by (rule quiet_fields) simp_all

lemma helper_step_kept: "kept_ok None w \<Longrightarrow> kept_ok None (helper_step opts h e w)"
  by (auto simp: helper_step_def Let_def intro!: fold_kept settle_output_kept quiet_kept [OF quiet_helpers] split: option.split)

lemma assign_started:
  fixes m :: stage_assign_message
  assumes ok: "kept_ok None w" and socket: "wc_socket (client_of w c) \<in> {Socket_open, Socket_closing}"
  defines "w1 \<equiv> set_client c ((client_of w c)\<lparr>wc_running := set_add (wc_running (client_of w c)) (sa_stageAssignmentId m)\<rparr>) w"
  defines "w2 \<equiv> GatewayWorkerClient_send c (Stage_accepted (sa_taskId m) (sa_stageAssignmentId m) (sa_attempt m)) w1"
  shows "kept_ok (Some (c, sa_stageAssignmentId m)) (w2\<lparr>wp_heartbeats := LeaseHeartbeat_start now c m (wp_heartbeats w2)\<rparr>)"
proof (rule kept_okI)
  let ?w = "w2\<lparr>wp_heartbeats := LeaseHeartbeat_start now c m (wp_heartbeats w2)\<rparr>" and ?k = "(c, sa_stageAssignmentId m)"
  have same: "wp_runs ?w = wp_runs w" "wp_next ?w = wp_next w" "wp_heartbeats ?w = LeaseHeartbeat_start now c m (wp_heartbeats w)"
    by (simp_all add: w2_def w1_def GatewayWorkerClient_send_def)
  have count: "counted ?w (Some ?k) k = under_way w k + (if k = ?k then 1 else 0)" "under_way ?w k = under_way w k" for k
    using same(1) by (simp_all add: counted_def under_way_def)
  have "client_of ?w c' = client_of w1 c'" for c' by (simp add: w2_def GatewayWorkerClient_send_def client_of_def act_def)
  then have client: "client_of ?w c' = (if c' = c then (client_of w c)\<lparr>wc_running := set_add (wc_running (client_of w c)) (sa_stageAssignmentId m)\<rparr>
      else client_of w c')" for c' by (simp add: w1_def)
  have acts: "wp_actions ?w = wp_actions w @ (if wc_socket (client_of w c) = Socket_open
      then [Client_acts c (Send (Stage_accepted (sa_taskId m) (sa_stageAssignmentId m) (sa_attempt m)))] else [])"
    by (simp add: w2_def w1_def GatewayWorkerClient_send_def)
  show "reports ?w k + (if usable ?w (fst k) then counted ?w (Some ?k) k else 0) \<le> acceptances ?w k" for k
  proof -
    have "reports ?w k = reports w k" "acceptances ?w k = acceptances w k + (if k = ?k \<and> wc_socket (client_of w c) = Socket_open then 1 else 0)"
      unfolding reports_def acceptances_def acts by auto
    moreover have "usable ?w c' = usable w c'" for c' by (simp add: usable_def client)
    ultimately show ?thesis using kept_okD(1) [OF ok, of k] socket by (auto simp: count usable_def counted_def split: if_splits)
  qed
  show "0 < counted ?w (Some ?k) (hb_client hb, aid)" if "map_get (wp_heartbeats ?w) aid = Some hb" for aid hb
  proof (cases "aid = sa_stageAssignmentId m")
    case True
    with that show ?thesis unfolding same count by (auto simp: LeaseHeartbeat_start_def)
  next
    case False
    with that have "map_get (wp_heartbeats w) aid = Some hb" unfolding same by (simp add: LeaseHeartbeat_start_def)
    from kept_okD(2) [OF ok this] show ?thesis unfolding count by (simp add: counted_def)
  qed
  show "0 < counted ?w (Some ?k) (c', aid)" if "aid \<in> set (wc_running (client_of ?w c'))" for c' aid
  proof -
    from that have "aid \<in> set (wc_running (client_of w c')) \<or> (c', aid) = ?k" by (auto simp: client set_add_def split: if_splits)
    with kept_okD(3) [OF ok, of aid c'] show ?thesis unfolding count by (auto simp: counted_def)
  qed
  show "set (wc_cancelled (client_of ?w c')) \<subseteq> set (wc_running (client_of ?w c'))" for c'
    using kept_okD(4) [OF ok, of c'] by (auto simp: client set_add_def)
  show "fst k < wp_next ?w" if "0 < under_way ?w k" for k
    using kept_okD(5) [OF ok, of k] that unfolding same count .
  show "wf_map (wp_runs ?w)" using kept_okD(6) [OF ok] unfolding same .
  show "c' < wp_next ?w" if "wc_socket (client_of ?w c') \<noteq> Socket_closed" for c'
    using kept_okD(7) [OF ok, of c'] that by (simp add: client same split: if_splits)
qed

lemma add_run_kept:
  assumes ok: "kept_ok (Some (c, sa_stageAssignmentId m)) w" and c: "c < wp_next w" and new: "map_get (wp_runs w) key = None"
  shows "kept_ok None (w\<lparr>wp_runs := map_set (wp_runs w) key (c, m)\<rparr>)"
proof (rule kept_okI)
  let ?w = "w\<lparr>wp_runs := map_set (wp_runs w) key (c, m)\<rparr>" and ?k = "(c, sa_stageAssignmentId m)"
  have same: "reports ?w k = reports w k" "acceptances ?w k = acceptances w k" "usable ?w c' = usable w c'" "client_of ?w c' = client_of w c'" for k c'
    by (simp_all add: reports_def acceptances_def usable_def client_of_def)
  have count: "counted ?w None k = counted w (Some ?k) k" "under_way ?w k = counted w (Some ?k) k" for k
    using new by (auto simp: counted_def under_way_def map_set_fresh)
  show "reports ?w k + (if usable ?w (fst k) then counted ?w None k else 0) \<le> acceptances ?w k" for k
    using kept_okD(1) [OF ok, of k] unfolding same count .
  show "0 < counted ?w None (hb_client hb, aid)" if "map_get (wp_heartbeats ?w) aid = Some hb" for aid hb
    using kept_okD(2) [OF ok, of aid hb] that unfolding count by simp
  show "0 < counted ?w None (c', aid)" if "aid \<in> set (wc_running (client_of ?w c'))" for c' aid
    using kept_okD(3) [OF ok, of aid c'] that unfolding count same by simp
  show "set (wc_cancelled (client_of ?w c')) \<subseteq> set (wc_running (client_of ?w c'))" for c'
    using kept_okD(4) [OF ok, of c'] unfolding same .
  show "fst k < wp_next ?w" if "0 < under_way ?w k" for k
    using kept_okD(5) [OF ok, of k] c that unfolding count by (auto simp: counted_def split: if_splits)
  show "wf_map (wp_runs ?w)" using kept_okD(6) [OF ok] by simp
  show "c' < wp_next ?w" if "wc_socket (client_of ?w c') \<noteq> Socket_closed" for c'
    using kept_okD(7) [OF ok, of c'] that unfolding same by simp
qed

text \<open>
  Every run under way is a run of its helper, under the same assignment; \<open>os\<close> are the outputs of the helper \<open>h0\<close> that the
  step has not come to yet.
\<close>

definition helpers_ok :: "string \<Rightarrow> generation_output list \<Rightarrow> worker_process \<Rightarrow> bool" where
  "helpers_ok h0 os w \<longleftrightarrow> (\<forall>h s. map_get (wp_helpers w) h = Some s \<longrightarrow> held_ok {} s)
     \<and> (\<forall>h r c m. map_get (wp_runs w) (h, r) = Some (c, m) \<longrightarrow> (\<exists>s. map_get (wp_helpers w) h = Some s
          \<and> ((\<exists>rn. map_get (ls_runs s) r = Some rn \<and> rn_stageAssignmentId rn = sa_stageAssignmentId m)
             \<or> (h = h0 \<and> (\<exists>g res. Run_ended r (sa_stageAssignmentId m) g res \<in> set os)))))"

definition kept_helpers :: "worker_process \<Rightarrow> worker_process \<Rightarrow> bool" where
  "kept_helpers w w' \<longleftrightarrow> (\<forall>h. case (map_get (wp_helpers w) h, map_get (wp_helpers w') h) of
     (Some s, Some s') \<Rightarrow> ls_runs s' = ls_runs s \<and> (held_ok {} s \<longrightarrow> held_ok {} s') | (None, None) \<Rightarrow> True | _ \<Rightarrow> False)"

lemma kept_helpersD:
  assumes "kept_helpers w w'"
  shows "map_get (wp_helpers w') h = Some s' \<Longrightarrow> \<exists>s. map_get (wp_helpers w) h = Some s \<and> (held_ok {} s \<longrightarrow> held_ok {} s')"
    and "map_get (wp_helpers w) h = Some s \<Longrightarrow> \<exists>s'. map_get (wp_helpers w') h = Some s' \<and> ls_runs s' = ls_runs s"
  using assms [unfolded kept_helpers_def, THEN spec [of _ h]] by (auto split: option.splits)

lemma kept_helpers_ok:
  assumes "kept_helpers w w'" and "helpers_ok h0 os w"
    and runs: "\<And>h r c m. map_get (wp_runs w') (h, r) = Some (c, m) \<Longrightarrow> map_get (wp_runs w) (h, r) = Some (c, m)"
  shows "helpers_ok h0 os w'"
proof -
  have "held_ok {} s'" if "map_get (wp_helpers w') h = Some s'" for h s'
    using kept_helpersD(1) [OF assms(1) that] assms(2) unfolding helpers_ok_def by blast
  moreover have "\<exists>s. map_get (wp_helpers w') h = Some s
      \<and> ((\<exists>rn. map_get (ls_runs s) r = Some rn \<and> rn_stageAssignmentId rn = sa_stageAssignmentId m)
         \<or> (h = h0 \<and> (\<exists>g res. Run_ended r (sa_stageAssignmentId m) g res \<in> set os)))"
    if "map_get (wp_runs w') (h, r) = Some (c, m)" for h r c m
  proof -
    from assms(2) runs [OF that] obtain s where s: "map_get (wp_helpers w) h = Some s"
      "(\<exists>rn. map_get (ls_runs s) r = Some rn \<and> rn_stageAssignmentId rn = sa_stageAssignmentId m)
       \<or> (h = h0 \<and> (\<exists>g res. Run_ended r (sa_stageAssignmentId m) g res \<in> set os))"
      unfolding helpers_ok_def by blast
    from kept_helpersD(2) [OF assms(1) s(1)] s(2) show ?thesis by auto
  qed
  ultimately show ?thesis unfolding helpers_ok_def by blast
qed

lemma kept_helpers_same [simp]: "wp_helpers w' = wp_helpers w \<Longrightarrow> kept_helpers w w'"
  by (auto simp: kept_helpers_def split: option.split)

lemma kept_helpers_trans: "kept_helpers u v \<Longrightarrow> kept_helpers v w \<Longrightarrow> kept_helpers u w"
  unfolding kept_helpers_def
proof (intro allI)
  fix h
  assume "\<forall>h. case (map_get (wp_helpers u) h, map_get (wp_helpers v) h) of
      (Some s, Some s') \<Rightarrow> ls_runs s' = ls_runs s \<and> (held_ok {} s \<longrightarrow> held_ok {} s') | (None, None) \<Rightarrow> True | _ \<Rightarrow> False"
    and "\<forall>h. case (map_get (wp_helpers v) h, map_get (wp_helpers w) h) of
      (Some s, Some s') \<Rightarrow> ls_runs s' = ls_runs s \<and> (held_ok {} s \<longrightarrow> held_ok {} s') | (None, None) \<Rightarrow> True | _ \<Rightarrow> False"
  from this [THEN spec [of _ h]] show "case (map_get (wp_helpers u) h, map_get (wp_helpers w) h) of
      (Some s, Some s') \<Rightarrow> ls_runs s' = ls_runs s \<and> (held_ok {} s \<longrightarrow> held_ok {} s') | (None, None) \<Rightarrow> True | _ \<Rightarrow> False"
    by (auto split: option.splits)
qed

lemma map_of_mapped: "map_get (map (\<lambda>(h, s). (h, f s)) m) h = map_option f (map_get m h)"
  by (induction m) auto

lemma kept_clear: "kept_helpers w (StageCatalog_clearGeneration tid aid w)"
  by (auto simp: kept_helpers_def StageCatalog_clearGeneration_def map_of_mapped intro: clear_ok split: option.split)

lemma kept_clear_every: "kept_helpers w (StageCatalog_clearEveryGeneration w)"
  using clear_every_ok by (auto simp: kept_helpers_def StageCatalog_clearEveryGeneration_def map_of_mapped clear_runs split: option.split)

lemma helpers_ok_none: "helpers_ok h [] w \<Longrightarrow> helpers_ok h' os w"
  unfolding helpers_ok_def by (simp, blast)

text \<open>What every operation does that is not the supervisor's: no connection closes, and the helpers keep their runs.\<close>

definition attached :: "worker_process \<Rightarrow> worker_process \<Rightarrow> bool" where
  "attached w w' \<longleftrightarrow> wp_current w' = wp_current w \<and> wp_waiting w' = wp_waiting w \<and> wp_isStopped w' = wp_isStopped w
     \<and> (\<forall>c. (wc_socket (client_of w' c) = Socket_closed) = (wc_socket (client_of w c) = Socket_closed))"

definition calm :: "worker_process \<Rightarrow> worker_process \<Rightarrow> bool" where
  "calm w w' \<longleftrightarrow> kept_helpers w w' \<and> attached w w'"

lemma attached_refl [simp]: "attached w w"
  by (simp add: attached_def)

lemma attached_trans: "attached u v \<Longrightarrow> attached v w \<Longrightarrow> attached u w"
  by (simp add: attached_def)

lemma calm_trans: "calm u v \<Longrightarrow> calm v w \<Longrightarrow> calm u w"
  unfolding calm_def using kept_helpers_trans attached_trans by blast

lemma calm_refl [simp]: "calm w w"
  by (simp add: calm_def attached_def)

lemma calm_act [simp]: "calm w (act as w)"
  by (simp add: calm_def attached_def)

lemma calm_set_client: "(wc_socket cl = Socket_closed) = (wc_socket (client_of w c) = Socket_closed) \<Longrightarrow> calm w (set_client c cl w)"
  by (simp add: calm_def attached_def)

lemma calm_fields:
  "kept_helpers w w' \<Longrightarrow> wp_clients w' = wp_clients w \<Longrightarrow> wp_current w' = wp_current w \<Longrightarrow> wp_waiting w' = wp_waiting w \<Longrightarrow>
   wp_isStopped w' = wp_isStopped w \<Longrightarrow> calm w w'"
  by (simp add: calm_def attached_def client_of_def)

lemma calm_send [simp]: "calm w (GatewayWorkerClient_send c m w)"
  by (simp add: GatewayWorkerClient_send_def)

lemma calm_stop_heartbeat [simp]: "calm w (stop_heartbeat aid w)"
  by (rule calm_fields) simp_all

lemma calm_clear [simp]: "calm w (StageCatalog_clearGeneration tid aid w)"
  by (rule calm_fields) (simp_all add: kept_clear)

lemma calm_account_actions [simp]: "calm w (account_actions c as w)"
proof (induction as arbitrary: w)
  case (Cons a as)
  have "calm w (account_action c a w)" by (cases a) simp_all
  with Cons show ?case by (auto simp: account_actions_def intro: calm_trans)
qed (simp add: account_actions_def)

lemma calm_start_closing [simp]: "calm w (start_closing c w)"
  by (auto simp: start_closing_def intro: calm_set_client)

lemma calm_register_with [simp]: "calm w (register_with opts c offer w)"
  by (simp add: register_with_def calm_trans [OF calm_act calm_start_closing] calm_trans [OF calm_set_client calm_send])

lemma calm_offered: "calm w (GatewayWorkerClient_registerOfferedStages opts c pipelines w)"
proof -
  have "calm w (w\<lparr>wp_next := wp_next w + 1\<rparr>)" by (rule calm_fields) simp_all
  then have "calm w (act [Ask_models k] (set_client c ((client_of w c)\<lparr>wc_checks := x\<rparr>) (w\<lparr>wp_next := wp_next w + 1\<rparr>)))" for k x
    by (rule calm_trans [OF calm_trans [OF _ calm_set_client] calm_act]) simp
  then show ?thesis by (simp add: GatewayWorkerClient_registerOfferedStages_def Let_def)
qed

lemma calm_models: "calm w (models_listed opts c k answer w)"
proof -
  have "calm w (register_with opts c offer (act [a] (set_client c ((client_of w c)\<lparr>wc_checks := x\<rparr>) w)))" for offer a x
    by (rule calm_trans [OF calm_trans [OF calm_set_client calm_act] calm_register_with]) simp
  then show ?thesis by (simp add: models_listed_def Let_def split: option.split local_model_readiness.split)
qed

lemma calm_authenticated: "calm w (GatewayWorkerClient_authenticated opts now expiresAt c w)"
proof -
  let ?w = "set_client c ((client_of w c)\<lparr>wc_sessionRenewal := Some (SessionRenewal_renewAfterMs (Some expiresAt) now)\<rparr>) w"
  have set: "calm w ?w" by (rule calm_set_client) simp
  have "calm ?w (GatewayWorkerClient_send c Pipelines_get (act [Client_acts c (On_account_settled None)] ?w))"
    by (rule calm_trans [OF calm_act calm_send])
  moreover have "calm ?w (account_actions c as (set_client c ((client_of ?w c)\<lparr>wc_account := x\<rparr>) ?w))" for as x
    by (rule calm_trans [OF calm_set_client calm_account_actions]) simp
  ultimately show ?thesis
    using calm_trans [OF set] set by (simp add: GatewayWorkerClient_authenticated_def Let_def split: option.split)
qed

lemma calm_cancel: "calm w (cancel_stage tid aid c w)"
proof -
  have "calm w (StageCatalog_clearGeneration tid aid (stop_heartbeat (Some aid) w))"
    by (rule calm_trans [OF calm_stop_heartbeat calm_clear])
  then show ?thesis by (auto simp: cancel_stage_def Let_def intro!: calm_trans [OF _ calm_set_client])
qed

lemma calm_dispatch: "\<forall>m. message \<noteq> Stage_assign m \<Longrightarrow> calm w (GatewayWorkerClient_dispatch opts now message c w)"
proof -
  have "calm w (act [Worker_registered c d x] ((set_client c ((client_of w c)\<lparr>wc_isRegistered := True\<rparr>) w)\<lparr>wp_attemptCount := n\<rparr>))" for d x n
    by (rule calm_trans [OF calm_trans [OF calm_set_client calm_fields] calm_act]) simp_all
  then show "\<forall>m. message \<noteq> Stage_assign m \<Longrightarrow> ?thesis"
    by (auto simp: GatewayWorkerClient_dispatch_def calm_offered calm_cancel split: gateway_message.split)
qed

lemma calm_challenge: "calm w (challenge_signed c signature w)"
  by (auto simp: challenge_signed_def case_prod_beta intro!: calm_trans [OF calm_set_client calm_account_actions] split: option.split)

lemma calm_renew: "calm w (GatewayWorkerClient_renew opts c w)"
  by (simp add: GatewayWorkerClient_renew_def)

lemma calm_heartbeat: "calm w (heartbeat_fired aid w)"
  by (simp add: heartbeat_fired_def split: option.split)

lemma calm_onopen: "wc_socket (client_of w c) = Socket_connecting \<Longrightarrow> calm w (GatewayWorkerClient_onopen opts c w)"
  unfolding GatewayWorkerClient_onopen_def by (rule calm_trans [OF calm_trans [OF calm_set_client calm_act] calm_send]) simp

lemma calm_settle: "calm w (settle_assigned_stage opts c m outcome w)"
proof -
  have rep: "calm u (report_unless_cancelled c aid msg u)" for aid msg u by (simp add: report_unless_cancelled_def)
  have "calm u (forget_assignment c aid u)" for aid u by (auto simp: forget_assignment_def intro: calm_set_client)
  then show ?thesis
    unfolding settle_assigned_stage_def Let_def
    by (cases outcome) (auto intro!: calm_trans [OF _ \<open>\<And>aid u. calm u (forget_assignment c aid u)\<close>] calm_trans [OF _ rep]
        calm_trans [OF calm_stop_heartbeat calm_clear])
qed

lemma settle_runs [simp]: "wp_runs (settle_assigned_stage opts c m outcome w) = wp_runs w"
  by (cases outcome) (simp_all add: settle_assigned_stage_def Let_def forget_assignment_def)

lemma settle_output_ok:
  assumes "helpers_ok h (out # os) w"
  shows "helpers_ok h os (settle_output opts h out w)"
proof -
  have calm: "kept_helpers u (settle_assigned_stage opts c m outcome u)" for c m outcome u using calm_settle by (simp add: calm_def)
  show ?thesis
  proof (cases out)
    case out: (Run_ended r aid g outcome)
    show ?thesis
    proof (cases "map_get (wp_runs w) (h, r)")
      case None
      with out assms show ?thesis by (auto simp: helpers_ok_def) (metis option.distinct(1))+
    next
      case (Some cm)
      let ?w = "w\<lparr>wp_runs := map_delete (wp_runs w) (h, r)\<rparr>"
      have "helpers_ok h os ?w" using assms out unfolding helpers_ok_def by (fastforce split: if_splits)
      from kept_helpers_ok [OF calm this] Some out show ?thesis by (cases cm) simp
    qed
  qed (use assms in \<open>auto simp: helpers_ok_def\<close>)
qed

lemma settle_outputs_ok: "helpers_ok h os w \<Longrightarrow> helpers_ok h [] (fold (settle_output opts h) os w)"
  by (induction os arbitrary: w) (auto intro: settle_output_ok)

definition run_held :: "nat \<Rightarrow> string \<Rightarrow> local_server \<Rightarrow> generation_output list \<Rightarrow> bool" where
  "run_held r aid s os \<longleftrightarrow> (\<exists>rn. map_get (ls_runs s) r = Some rn \<and> rn_stageAssignmentId rn = aid) \<or> (\<exists>g res. Run_ended r aid g res \<in> set os)"

lemma helper_step_ok:
  assumes s: "map_get (wp_helpers w) h = Some s" and held: "\<And>h s. map_get (wp_helpers w) h = Some s \<Longrightarrow> held_ok {} s"
    and others: "\<And>h' r c m. h' \<noteq> h \<Longrightarrow> map_get (wp_runs w) (h', r) = Some (c, m) \<Longrightarrow>
      \<exists>s' rn. map_get (wp_helpers w) h' = Some s' \<and> map_get (ls_runs s') r = Some rn \<and> rn_stageAssignmentId rn = sa_stageAssignmentId m"
    and own: "\<And>r c m. map_get (wp_runs w) (h, r) = Some (c, m) \<Longrightarrow>
      run_held r (sa_stageAssignmentId m) (generation_step (wo_platform opts) (wo_modelId opts) s e)
        (drop (length (ls_outputs s)) (ls_outputs (generation_step (wo_platform opts) (wo_modelId opts) s e)))"
  shows "helpers_ok h' [] (helper_step opts h e w)"
proof -
  let ?s = "generation_step (wo_platform opts) (wo_modelId opts) s e"
  let ?w = "w\<lparr>wp_helpers := map_set (wp_helpers w) h ?s\<rparr>"
  have "helpers_ok h (drop (length (ls_outputs s)) (ls_outputs ?s)) ?w"
    unfolding helpers_ok_def
  proof (intro conjI allI impI)
    fix h' s'
    assume "map_get (wp_helpers ?w) h' = Some s'"
    then show "held_ok {} s'" using held held [OF s] generation_step_ok by (auto split: if_splits)
  next
    fix h' r c m
    assume "map_get (wp_runs ?w) (h', r) = Some (c, m)"
    then show "\<exists>s'. map_get (wp_helpers ?w) h' = Some s'
      \<and> ((\<exists>rn. map_get (ls_runs s') r = Some rn \<and> rn_stageAssignmentId rn = sa_stageAssignmentId m)
         \<or> h' = h \<and> (\<exists>g res. Run_ended r (sa_stageAssignmentId m) g res \<in> set (drop (length (ls_outputs s)) (ls_outputs ?s))))"
      using others [of h' r c m] own [of r c m] by (cases "h' = h") (auto simp: run_held_def)
  qed
  from settle_outputs_ok [OF this, of opts] have "helpers_ok h [] (helper_step opts h e w)"
    by (simp add: helper_step_def s Let_def)
  then show ?thesis by (rule helpers_ok_none)
qed

lemma helpers_okD:
  assumes "helpers_ok h0 [] w"
  shows "map_get (wp_helpers w) h = Some s \<Longrightarrow> held_ok {} s"
    and "map_get (wp_runs w) (h, r) = Some (c, m) \<Longrightarrow>
      \<exists>s rn. map_get (wp_helpers w) h = Some s \<and> map_get (ls_runs s) r = Some rn \<and> rn_stageAssignmentId rn = sa_stageAssignmentId m"
  using assms unfolding helpers_ok_def by auto

lemma run_held_le:
  assumes "runs_le s s'" and "map_get (ls_runs s) r = Some rn" and "rn_stageAssignmentId rn = aid"
  shows "run_held r aid s' (drop (length (ls_outputs s)) (ls_outputs s'))"
proof -
  from assms(1) obtain os where "ls_outputs s' = ls_outputs s @ os"
    and "(\<exists>rn'. map_get (ls_runs s') r = Some rn' \<and> rn_stageAssignmentId rn' = aid) \<or> (\<exists>g res. Run_ended r aid g res \<in> set os)"
    using assms(2,3) unfolding runs_le_def by blast
  then show ?thesis by (simp add: run_held_def)
qed

lemma event_helpers_ok:
  assumes ok: "helpers_ok h0 [] w"
  shows "helpers_ok h' [] (helper_step opts h e w)"
proof (cases "map_get (wp_helpers w) h")
  case (Some s)
  note D = helpers_okD [OF ok]
  show ?thesis
  proof (rule helper_step_ok [OF Some D(1)])
    show "run_held r (sa_stageAssignmentId m) (generation_step (wo_platform opts) (wo_modelId opts) s e)
        (drop (length (ls_outputs s)) (ls_outputs (generation_step (wo_platform opts) (wo_modelId opts) s e)))"
      if "map_get (wp_runs w) (h, r) = Some (c, m)" for r c m
      using D(2) [OF that] Some run_held_le [OF step_le [OF D(1) [OF Some]]] by auto
  qed (use D(2) in blast)+
qed (simp add: helper_step_def helpers_ok_none [OF ok])

lemma assigned_helpers_ok:
  assumes ok: "helpers_ok h0 [] w" and s: "map_get (wp_helpers w) h = Some s"
  shows "helpers_ok h' [] (helper_step opts h (Compute tid (sa_stageAssignmentId m) payload settings)
      (w\<lparr>wp_runs := map_set (wp_runs w) (h, ls_next s) (c, m)\<rparr>))"
    and "map_get (wp_runs w) (h, ls_next s) = None"
proof -
  note D = helpers_okD [OF ok]
  have held: "held_ok {} s" by (rule D(1) [OF s])
  have free: "map_get (ls_runs s) (ls_next s) = None"
    using held_okD(6) [OF held, of "ls_next s"] by (cases "map_get (ls_runs s) (ls_next s)") auto
  show new: "map_get (wp_runs w) (h, ls_next s) = None"
    using D(2) [of h "ls_next s"] s free by (cases "map_get (wp_runs w) (h, ls_next s)") fastforce+
  let ?w = "w\<lparr>wp_runs := map_set (wp_runs w) (h, ls_next s) (c, m)\<rparr>" and ?e = "Compute tid (sa_stageAssignmentId m) payload settings"
  let ?s = "generation_step (wo_platform opts) (wo_modelId opts) s ?e"
  show "helpers_ok h' [] (helper_step opts h ?e ?w)"
  proof (rule helper_step_ok [of ?w])
    show "map_get (wp_helpers ?w) h = Some s" using s by simp
    show "held_ok {} s'" if "map_get (wp_helpers ?w) h' = Some s'" for h' s' using D(1) that by simp
    show "\<exists>s' rn. map_get (wp_helpers ?w) h' = Some s' \<and> map_get (ls_runs s') r = Some rn \<and> rn_stageAssignmentId rn = sa_stageAssignmentId m'"
      if "h' \<noteq> h" "map_get (wp_runs ?w) (h', r) = Some (c', m')" for h' r c' m'
      using D(2) [of h' r c' m'] that by simp
    show "run_held r (sa_stageAssignmentId m') ?s (drop (length (ls_outputs s)) (ls_outputs ?s))"
      if "map_get (wp_runs ?w) (h, r) = Some (c', m')" for r c' m'
    proof (cases "r = ls_next s")
      case True
      with that have "m' = m" by simp
      moreover have "carried (ls_next s) (sa_stageAssignmentId m) s ?s" using compute_le [OF free] held by simp
      ultimately show ?thesis using True by (auto simp: carried_def run_held_def)
    next
      case False
      with that have "map_get (wp_runs w) (h, r) = Some (c', m')" by simp
      from D(2) [OF this] s obtain rn where "map_get (ls_runs s) r = Some rn" "rn_stageAssignmentId rn = sa_stageAssignmentId m'" by auto
      from run_held_le [OF step_le [OF held] this] show ?thesis .
    qed
  qed
qed

section \<open>Every step\<close>

definition worker_ok :: "worker_process \<Rightarrow> bool" where
  "worker_ok w \<longleftrightarrow> kept_ok None w \<and> helpers_ok [] [] w"

lemma quiet_calm_ok: "quiet w w' \<Longrightarrow> kept_helpers w w' \<Longrightarrow> worker_ok w \<Longrightarrow> worker_ok w'"
  unfolding worker_ok_def using quiet_kept kept_helpers_ok [of w w' "[]" "[]"] by (auto simp: quiet_def)

lemma calm_helpers: "calm w w' \<Longrightarrow> kept_helpers w w'"
  by (simp add: calm_def)

lemma helper_step_worker_ok: "worker_ok w \<Longrightarrow> worker_ok (helper_step opts h e w)"
  using helper_step_kept event_helpers_ok by (auto simp: worker_ok_def)

lemma assign_ok:
  assumes ok: "worker_ok w" and socket: "wc_socket (client_of w c) \<in> {Socket_open, Socket_closing}"
  shows "worker_ok (GatewayWorkerClient_runAssignedStage opts now c m w)"
proof -
  let ?aid = "sa_stageAssignmentId m"
  define w1 where "w1 = set_client c ((client_of w c)\<lparr>wc_running := set_add (wc_running (client_of w c)) ?aid\<rparr>) w"
  define w2 where "w2 = GatewayWorkerClient_send c (Stage_accepted (sa_taskId m) ?aid (sa_attempt m)) w1"
  define w3 where "w3 = w2\<lparr>wp_heartbeats := LeaseHeartbeat_start now c m (wp_heartbeats w2)\<rparr>"
  have kept: "kept_ok (Some (c, ?aid)) w3" unfolding w3_def w2_def w1_def
    using ok socket by (intro assign_started) (simp_all add: worker_ok_def)
  have same: "wp_helpers w3 = wp_helpers w" "wp_runs w3 = wp_runs w" "wp_next w3 = wp_next w"
    by (simp_all add: w3_def w2_def w1_def GatewayWorkerClient_send_def)
  have helpers: "helpers_ok [] [] w3" using ok by (simp add: worker_ok_def helpers_ok_def same)
  have c: "c < wp_next w3" using ok socket kept_okD(7) [of None w c] by (auto simp: worker_ok_def same)
  have failed: "worker_ok (settle_assigned_stage opts c m outcome w3)" for outcome
    using settle_kept [OF kept] kept_helpers_ok [OF calm_helpers [OF calm_settle] helpers] by (simp add: worker_ok_def)
  have "worker_ok (helper_step opts h (Compute tid ?aid payload settings) (w3\<lparr>wp_runs := map_set (wp_runs w3) (h, ls_next s) (c, m)\<rparr>))"
    if "map_get (wp_helpers w3) h = Some s" for h s tid payload settings
    using assigned_helpers_ok [OF helpers that] add_run_kept [OF kept c] helper_step_kept by (simp add: worker_ok_def)
  then show ?thesis
    unfolding GatewayWorkerClient_runAssignedStage_def Let_def w1_def [symmetric] w2_def [symmetric] w3_def [symmetric]
    using failed by (auto split: option.split simp: bind_eq_Some_conv)
qed

lemma dispatch_ok:
  assumes ok: "worker_ok w" and "wc_socket (client_of w c) \<in> {Socket_open, Socket_closing}"
  shows "worker_ok (GatewayWorkerClient_dispatch opts now message c w)"
proof (cases "\<exists>m. message = Stage_assign m")
  case True
  with assign_ok [OF assms] show ?thesis by (auto simp: GatewayWorkerClient_dispatch_def)
next
  case False
  then have "\<forall>m. message \<noteq> Stage_assign m" by blast
  from quiet_calm_ok [OF quiet_dispatch [OF this] calm_helpers [OF calm_dispatch [OF this]] ok] show ?thesis .
qed

lemma handle_ok:
  assumes ok: "worker_ok w" and socket: "wc_socket (client_of w c) \<in> {Socket_open, Socket_closing}"
  shows "worker_ok (GatewayWorkerClient_handleMessage opts now frame c w)"
proof -
  have act: "worker_ok (act [Worker_failure e] w)" for e using quiet_calm_ok [OF quiet_act calm_helpers [OF calm_act] ok] by simp
  have auth: "worker_ok (GatewayWorkerClient_authenticated opts now expiresAt c w)" for expiresAt
    by (rule quiet_calm_ok [OF quiet_authenticated calm_helpers [OF calm_authenticated] ok])
  define talked where "talked conv' as = account_actions c as (set_client c ((client_of w c)\<lparr>wc_account := Some conv'\<rparr>) w)" for conv' as
  have talk: "worker_ok (talked conv' (snd (snd (AccountAuthentication_handleMessage (account_settled c w) message conv))))"
    for conv' message conv
    unfolding talked_def
    by (rule quiet_calm_ok [OF quiet_then [OF quiet_set_client quiet_account_actions]
          calm_helpers [OF calm_trans [OF calm_set_client calm_account_actions]] ok]) (simp_all add: account_is_quiet(2))
  have opened: "wc_socket (client_of (account_actions c as u) c') = wc_socket (client_of u c')" for as u c'
  proof (induction as arbitrary: u)
    case (Cons a as)
    have "wc_socket (client_of (account_action c a u) c') = wc_socket (client_of u c')"
      by (cases a) (simp_all add: GatewayWorkerClient_send_def)
    with Cons show ?case by (simp add: account_actions_def)
  qed (simp add: account_actions_def)
  then have "wc_socket (client_of (talked conv' as) c) \<in> {Socket_open, Socket_closing}" for conv' as
    using socket by (simp add: talked_def)
  from dispatch_ok [OF talk this] have told: "worker_ok (GatewayWorkerClient_dispatch opts now message' c
      (talked conv' (snd (snd (AccountAuthentication_handleMessage (account_settled c w) message conv)))))" for message' conv' message conv .
  show ?thesis
    unfolding GatewayWorkerClient_handleMessage_def Let_def case_prod_beta talked_def [symmetric]
    using act auth talk told dispatch_ok [OF ok socket]
    by (simp split: received_frame.split gateway_message.split option.split)
qed

lemma settle_output_attached: "attached w (settle_output opts h out w)"
proof (cases out)
  case (Run_ended r aid g outcome)
  have "attached w (w\<lparr>wp_runs := x\<rparr>)" for x by (simp add: attached_def client_of_def)
  moreover have "attached u (settle_assigned_stage opts c m outcome u)" for c m u using calm_settle by (simp add: calm_def)
  ultimately have "attached w (settle_assigned_stage opts c m outcome (w\<lparr>wp_runs := x\<rparr>))" for c m x using attached_trans by blast
  with Run_ended attached_refl show ?thesis by (simp split: option.split prod.split)
qed simp_all

lemma helper_step_attached: "attached w (helper_step opts h e w)"
proof -
  have "attached w (fold (settle_output opts h) os w)" for os w
  proof (induction os arbitrary: w)
    case (Cons out os)
    from attached_trans [OF settle_output_attached Cons.IH] show ?case by simp
  qed simp
  moreover have "attached w (w\<lparr>wp_helpers := x\<rparr>)" for x by (simp add: attached_def client_of_def)
  ultimately have "attached w (fold (settle_output opts h) os (w\<lparr>wp_helpers := x\<rparr>))" for os x using attached_trans by blast
  then show ?thesis by (simp add: helper_step_def Let_def attached_def split: option.split)
qed

lemma assign_attached: "attached w (GatewayWorkerClient_runAssignedStage opts now c m w)"
proof -
  define w1 where "w1 = set_client c ((client_of w c)\<lparr>wc_running := set_add (wc_running (client_of w c)) (sa_stageAssignmentId m)\<rparr>) w"
  define w2 where "w2 = GatewayWorkerClient_send c (Stage_accepted (sa_taskId m) (sa_stageAssignmentId m) (sa_attempt m)) w1"
  define w3 where "w3 = w2\<lparr>wp_heartbeats := LeaseHeartbeat_start now c m (wp_heartbeats w2)\<rparr>"
  have "attached w w1" by (simp add: attached_def w1_def)
  moreover have "attached w1 w2" using calm_send by (simp add: calm_def w2_def)
  moreover have "attached w2 w3" by (simp add: attached_def w3_def client_of_def)
  ultimately have w3: "attached w w3" using attached_trans by blast
  have "attached w3 (settle_assigned_stage opts c m outcome w3)" for outcome using calm_settle by (simp add: calm_def)
  moreover have "attached w3 (helper_step opts h e (w3\<lparr>wp_runs := x\<rparr>))" for h e x
    by (rule attached_trans [OF _ helper_step_attached]) (simp add: attached_def client_of_def)
  ultimately show ?thesis
    unfolding GatewayWorkerClient_runAssignedStage_def Let_def w1_def [symmetric] w2_def [symmetric] w3_def [symmetric]
    using attached_trans [OF w3] by (auto split: option.split)
qed

lemma dispatch_attached: "attached w (GatewayWorkerClient_dispatch opts now message c w)"
proof (cases "\<exists>m. message = Stage_assign m")
  case True
  with assign_attached show ?thesis by (auto simp: GatewayWorkerClient_dispatch_def)
next
  case False
  then have "\<forall>m. message \<noteq> Stage_assign m" by blast
  from calm_dispatch [OF this] show ?thesis by (simp add: calm_def)
qed

lemma handle_attached: "attached w (GatewayWorkerClient_handleMessage opts now frame c w)"
proof -
  have "calm w (account_actions c as (set_client c ((client_of w c)\<lparr>wc_account := x\<rparr>) w))" for as x
    by (rule calm_trans [OF calm_set_client calm_account_actions]) simp
  then have talked: "attached w (account_actions c as (set_client c ((client_of w c)\<lparr>wc_account := x\<rparr>) w))" for as x
    by (simp add: calm_def)
  have "attached w (act as w)" for as by (simp add: attached_def)
  moreover have "attached w (GatewayWorkerClient_authenticated opts now expiresAt c w)" for expiresAt
    using calm_authenticated by (simp add: calm_def)
  ultimately show ?thesis
    unfolding GatewayWorkerClient_handleMessage_def Let_def case_prod_beta
    using dispatch_attached talked attached_trans [OF talked dispatch_attached]
    by (simp split: received_frame.split gateway_message.split option.split)
qed

section \<open>Staying connected\<close>

text \<open>One connection that has not closed, or a wait for the next attempt, until the worker is stopped.\<close>

definition supervised :: "worker_options \<Rightarrow> worker_process \<Rightarrow> bool" where
  "supervised opts w \<longleftrightarrow>
     (\<forall>c. wp_current w = Some c \<longrightarrow> wc_socket (client_of w c) \<noteq> Socket_closed \<and> wp_waiting w = None)
     \<and> (wp_isStopped w \<longrightarrow> wp_current w = None \<and> wp_waiting w = None)
     \<and> (\<not> wp_isStopped w \<longrightarrow> (\<forall>c. wc_socket (client_of w c) \<noteq> Socket_closed \<longrightarrow> wp_current w = Some c))
     \<and> (\<not> wp_isStopped w \<and> wo_isAutomaticReconnectionEnabled opts \<longrightarrow> wp_current w \<noteq> None \<or> wp_waiting w \<noteq> None)"

lemma attached_supervised: "attached w w' \<Longrightarrow> supervised opts w \<Longrightarrow> supervised opts w'"
proof -
  assume "attached w w'" and ok: "supervised opts w"
  then have same: "wp_current w' = wp_current w" "wp_waiting w' = wp_waiting w" "wp_isStopped w' = wp_isStopped w"
    "(wc_socket (client_of w' c) = Socket_closed) = (wc_socket (client_of w c) = Socket_closed)" for c
    unfolding attached_def by blast+
  from ok show "supervised opts w'" unfolding supervised_def same .
qed

lemma calm_attached: "calm w w' \<Longrightarrow> attached w w'"
  by (simp add: calm_def)

lemma schedule_supervised:
  assumes "wp_current w = None" and "\<forall>c. \<not> wp_isStopped w \<longrightarrow> wc_socket (client_of w c) = Socket_closed" and "wp_isStopped w \<Longrightarrow> wp_waiting w = None"
  shows "supervised opts (GatewayConnectionSupervisor_scheduleAttempt opts fraction w)"
proof -
  have "client_of (w\<lparr>wp_attemptCount := n, wp_waiting := x\<rparr>) c = client_of w c" for n x c by (simp add: client_of_def)
  then show ?thesis
    using assms by (auto simp: GatewayConnectionSupervisor_scheduleAttempt_def supervised_def split: prod.split)
qed

lemma connect_supervised:
  assumes "wp_current w = None" and "wp_waiting w = None" and "\<forall>c. \<not> wp_isStopped w \<longrightarrow> wc_socket (client_of w c) = Socket_closed"
  shows "supervised opts (GatewayConnectionSupervisor_connect opts failure fraction w)"
proof (cases "wp_isStopped w")
  case True
  with assms show ?thesis by (simp add: GatewayConnectionSupervisor_connect_def supervised_def)
next
  case False
  have client: "client_of (w\<lparr>wp_current := x\<rparr>) c = client_of w c" for x c by (simp add: client_of_def)
  show ?thesis
  proof (cases failure)
    case None
    with False assms show ?thesis by (simp add: GatewayConnectionSupervisor_connect_def supervised_def client fresh_client_def)
  next
    case (Some reason)
    with False show ?thesis
      by (simp add: GatewayConnectionSupervisor_connect_def) (rule schedule_supervised; use assms in simp)
  qed
qed

lemma supervised_closed:
  assumes "supervised opts w" and "wp_current w = None" and "\<not> wp_isStopped w"
  shows "wc_socket (client_of w c) = Socket_closed"
  using assms by (auto simp: supervised_def)

lemma onclose_supervised:
  assumes ok: "supervised opts w" and "wc_socket (client_of w c) \<noteq> Socket_closed"
  shows "supervised opts (GatewayWorkerClient_onclose opts fraction c w)"
  unfolding GatewayWorkerClient_onclose_def Let_def
proof (rule schedule_supervised, goal_cases)
  case 2
  have client: "client_of (u\<lparr>wp_current := x\<rparr>) c' = client_of u c'" for u x c' by (simp add: client_of_def)
  have "\<not> wp_isStopped w \<Longrightarrow> c' = c \<or> wc_socket (client_of w c') = Socket_closed" for c'
  proof -
    assume "\<not> wp_isStopped w"
    then have "wc_socket (client_of w c') \<noteq> Socket_closed \<Longrightarrow> wp_current w = Some c'" "wp_current w = Some c"
      using assms unfolding supervised_def by blast+
    then show ?thesis by (cases "wc_socket (client_of w c') = Socket_closed") simp_all
  qed
  then show ?case by (auto simp: client)
next
  case 3
  then show ?case using ok by (simp add: supervised_def)
qed simp

lemma stop_supervised: "supervised opts (GatewayConnectionSupervisor_stop w)"
  by (simp add: GatewayConnectionSupervisor_stop_def Let_def supervised_def GatewayWorkerClient_close_def start_closing_def split: option.split)

lemma step_supervised:
  assumes ok: "supervised opts w"
  shows "supervised opts (worker_step opts w e)"
proof (cases e)
  case (Wait_over failed random)
  have client: "client_of (w\<lparr>wp_waiting := x\<rparr>) c = client_of w c" for x c by (simp add: client_of_def)
  show ?thesis
  proof (cases "wp_waiting w = None")
    case False
    with ok have "wp_current w = None" by (auto simp: supervised_def)
    moreover from this have "\<not> wp_isStopped w \<longrightarrow> wc_socket (client_of w c) = Socket_closed" for c using supervised_closed [OF ok] by blast
    ultimately have "supervised opts (GatewayConnectionSupervisor_connect opts failed random (w\<lparr>wp_waiting := None\<rparr>))"
      by (intro connect_supervised) (simp_all add: client)
    with False Wait_over show ?thesis by (simp only: worker_step.simps if_False)
  qed (use ok Wait_over in simp)
next
  case (Opened c)
  with ok show ?thesis using attached_supervised [OF calm_attached [OF calm_onopen] ok] by simp
next
  case (Closed c random)
  with ok onclose_supervised show ?thesis by simp
qed (use ok in \<open>simp_all add: stop_supervised attached_supervised [OF handle_attached ok] attached_supervised [OF helper_step_attached ok]
    attached_supervised [OF calm_attached [OF calm_act] ok] attached_supervised [OF calm_attached [OF calm_challenge] ok]
    attached_supervised [OF calm_attached [OF calm_models] ok] attached_supervised [OF calm_attached [OF calm_heartbeat] ok]
    attached_supervised [OF calm_attached [OF calm_renew] ok]\<close>)

section \<open>A worker's life\<close>

lemma connect_ok:
  assumes ok: "worker_ok w"
  shows "worker_ok (GatewayConnectionSupervisor_connect opts failure fraction w)"
proof -
  let ?u = "w\<lparr>wp_current := Some (wp_next w), wp_next := wp_next w + 1\<rparr>"
  have quiet: "quiet w ?u" by (rule quiet_fields) simp_all
  have kept: "kept_ok None ?u" using quiet_kept [OF quiet] ok by (simp add: worker_ok_def)
  have none: "under_way ?u (wp_next w, aid) = 0" for aid
    using kept_okD(5) [of None w "(wp_next w, aid)"] ok by (auto simp: worker_ok_def under_way_def)
  have closed: "\<not> usable ?u (wp_next w)"
    using kept_okD(7) [of None w "wp_next w"] ok by (auto simp: worker_ok_def usable_def client_of_def)
  let ?w = "set_client (wp_next w) fresh_client ?u"
  have "kept_ok None ?w"
  proof (rule kept_okI)
    have count: "counted ?w None k = counted ?u None k" "under_way ?w k = under_way ?u k" "reports ?w k = reports ?u k"
      "acceptances ?w k = acceptances ?u k" for k
      by (simp_all add: counted_def under_way_def reports_def acceptances_def)
    have use: "usable ?w c = (c = wp_next w \<or> usable ?u c)" for c by (simp add: usable_def fresh_client_def)
    show "reports ?w k + (if usable ?w (fst k) then counted ?w None k else 0) \<le> acceptances ?w k" for k
      using kept_okD(1) [OF kept, of k] none [of "snd k"] unfolding count use by (cases k) (auto simp: counted_def split: if_splits)
    show "0 < counted ?w None (hb_client hb, aid)" if "map_get (wp_heartbeats ?w) aid = Some hb" for aid hb
      using kept_okD(2) [OF kept] that unfolding count by simp
    show "0 < counted ?w None (c, aid)" if "aid \<in> set (wc_running (client_of ?w c))" for c aid
      using kept_okD(3) [OF kept, of aid c] that unfolding count by (auto simp: fresh_client_def split: if_splits)
    show "set (wc_cancelled (client_of ?w c)) \<subseteq> set (wc_running (client_of ?w c))" for c
      using kept_okD(4) [OF kept, of c] by (simp add: fresh_client_def)
    show "fst k < wp_next ?w" if "0 < under_way ?w k" for k
      using kept_okD(5) [OF kept, of k] that unfolding count by simp
    show "wf_map (wp_runs ?w)" using kept_okD(6) [OF kept] by simp
    show "c < wp_next ?w" if "wc_socket (client_of ?w c) \<noteq> Socket_closed" for c
      using kept_okD(7) [OF kept, of c] that by (auto split: if_splits)
  qed
  moreover have "helpers_ok [] [] ?w" using ok by (simp add: worker_ok_def helpers_ok_def)
  ultimately have opened: "worker_ok ?w" by (simp add: worker_ok_def)
  have "worker_ok (GatewayConnectionSupervisor_scheduleAttempt opts fraction (act [Worker_failure reason] w))" for reason
  proof (rule quiet_calm_ok [OF quiet_schedule])
    show "worker_ok (act [Worker_failure reason] w)" using quiet_calm_ok [OF quiet_act calm_helpers [OF calm_act] ok] by simp
  qed (simp add: GatewayConnectionSupervisor_scheduleAttempt_def split: prod.split)
  with opened ok show ?thesis by (simp add: GatewayConnectionSupervisor_connect_def split: option.split)
qed

lemma step_worker_ok:
  assumes ok: "worker_ok w"
  shows "worker_ok (worker_step opts w e)"
proof (cases e)
  case (Wait_over failed random)
  have "quiet w (w\<lparr>wp_waiting := None\<rparr>)" by (rule quiet_fields) simp_all
  from quiet_calm_ok [OF this _ ok] Wait_over ok connect_ok show ?thesis by simp
next
  case Stop
  have "wp_helpers (GatewayConnectionSupervisor_stop w) = wp_helpers w"
    by (simp add: GatewayConnectionSupervisor_stop_def Let_def GatewayWorkerClient_close_def start_closing_def split: option.split)
  from quiet_calm_ok [OF quiet_stop kept_helpers_same [OF this] ok] Stop show ?thesis by simp
next
  case (Opened c)
  with ok show ?thesis using quiet_calm_ok [OF quiet_onopen calm_helpers [OF calm_onopen] ok] by simp
next
  case (Closed c random)
  have same: "wp_helpers (GatewayConnectionSupervisor_scheduleAttempt opts random u) = wp_helpers u" for u
    by (simp add: GatewayConnectionSupervisor_scheduleAttempt_def split: prod.split)
  have "kept_helpers w (GatewayWorkerClient_onclose opts random c w)"
    unfolding GatewayWorkerClient_onclose_def Let_def
    by (rule kept_helpers_trans [OF kept_helpers_trans [OF kept_helpers_same kept_clear_every] kept_helpers_same]) (simp_all add: same)
  from quiet_calm_ok [OF quiet_onclose this ok] Closed ok show ?thesis by simp
qed (use ok in \<open>auto intro: handle_ok quiet_calm_ok [OF quiet_challenge calm_helpers [OF calm_challenge]]
    quiet_calm_ok [OF quiet_models calm_helpers [OF calm_models]] quiet_calm_ok [OF quiet_heartbeat calm_helpers [OF calm_heartbeat]]
    quiet_calm_ok [OF quiet_renew calm_helpers [OF calm_renew]] quiet_calm_ok [OF quiet_act calm_helpers [OF calm_act]]
    simp: helper_step_worker_ok\<close>)

lemma fresh_worker_ok: "worker_ok fresh_worker"
proof -
  have "kept_ok None fresh_worker"
    by (simp add: kept_ok_def fresh_worker_def reports_def acceptances_def under_way_def counted_def client_of_def fresh_client_def)
  moreover have "held_ok {} s" if "map_get (wp_helpers fresh_worker) h = Some s" for h s
  proof -
    from that have "s = fresh_local_server" by (auto simp: fresh_worker_def StageCatalog_stageHelpers_def split: if_splits)
    then show ?thesis by (simp add: held_ok_def fresh_local_server_def)
  qed
  ultimately show ?thesis by (simp add: worker_ok_def helpers_ok_def) (simp add: fresh_worker_def)
qed

lemma life_worker_ok: "worker_ok (worker_life opts failure fraction es)"
proof -
  have "worker_ok (foldl (worker_step opts) w es)" if "worker_ok w" for w
    using that by (induction es arbitrary: w) (simp_all add: step_worker_ok)
  then show ?thesis by (simp add: worker_life_def GatewayConnectionSupervisor_start_def connect_ok fresh_worker_ok)
qed

lemma life_supervised: "supervised opts (worker_life opts failure fraction es)"
proof -
  have "supervised opts (foldl (worker_step opts) w es)" if "supervised opts w" for w
    using that by (induction es arbitrary: w) (simp_all add: step_supervised)
  moreover have "supervised opts (GatewayConnectionSupervisor_connect opts failure fraction fresh_worker)"
    by (rule connect_supervised) (simp_all add: fresh_worker_def client_of_def)
  ultimately show ?thesis by (simp add: worker_life_def GatewayConnectionSupervisor_start_def)
qed

text \<open>
  C25: Over one connection an assignment is reported, as a result or as a failure, at most as often as it was accepted there;
  a run that is still under way has not been reported.
\<close>

theorem assignment_reported_at_most_once:
  fixes es failure fraction opts
  defines "w \<equiv> worker_life opts failure fraction es"
  shows "reports w (c, aid) + (if usable w c then under_way w (c, aid) else 0) \<le> acceptances w (c, aid)"
proof -
  have "kept_ok None w" using life_worker_ok [of opts failure fraction es] by (simp add: w_def worker_ok_def)
  from kept_okD(1) [OF this, of "(c, aid)"] show ?thesis unfolding counted_def by (cases "usable w c") simp_all
qed



text \<open>
  C28: A worker whose reconnection is on, and that was not stopped, always has either one connection that has not closed or
  one wait for the next attempt, never both, and no second connection.
\<close>

theorem worker_stays_connected:
  fixes es failure fraction opts
  defines "w \<equiv> worker_life opts failure fraction es"
  assumes "wo_isAutomaticReconnectionEnabled opts" and "\<not> wp_isStopped w"
  shows "(wp_current w = None) = (wp_waiting w \<noteq> None)
    \<and> (wc_socket (client_of w c) \<noteq> Socket_closed) = (wp_current w = Some c)"
proof -
  have "supervised opts w" unfolding w_def by (rule life_supervised)
  with assms(2,3) show ?thesis unfolding supervised_def by (cases "wp_current w") auto
qed

lemma offer_pipelines:
  "WorkerStageOffer_offeredStages pipelines requested =
     fold (offer_stage requested) (concat (map spec_stages pipelines)) \<lparr>of_stageNames = [], of_localModelStageNames = []\<rparr>"
proof -
  have "fold (\<lambda>pl. fold (offer_stage requested) (spec_stages pl)) pipelines o0 =
      fold (offer_stage requested) (concat (map spec_stages pipelines)) o0" for o0
    by (induction pipelines arbitrary: o0) simp_all
  then show ?thesis by (simp add: WorkerStageOffer_offeredStages_def)
qed

text \<open>
  The stages a worker offers are exactly those of the loaded pipelines that one of its helpers carries out and that it
  was asked to offer, if it was asked for some; each once. All of them need the model.
\<close>

theorem offered_stages_are_the_runnable_ones:
  defines "offered requested pipelines \<equiv> WorkerStageOffer_offeredStages pipelines requested"
  shows "distinct (of_stageNames (offered requested pipelines))
    \<and> of_localModelStageNames (offered requested pipelines) = of_stageNames (offered requested pipelines)
    \<and> set (of_stageNames (offered requested pipelines)) = {stageName st | st. st \<in> (\<Union>pl \<in> set pipelines. set (spec_stages pl))
        \<and> computation st \<in> set StageCatalog_stageHelpers \<and> (requested = [] \<or> stageName st \<in> set requested)}"
proof -
  have implements: "StageCatalog_implementsComputation n = (n \<in> set StageCatalog_stageHelpers)" for n
    by (auto simp: StageCatalog_implementsComputation_def StageCatalog_stageHelperFor_def find_None_iff)
  have "distinct (of_stageNames (fold (offer_stage requested) sts o0))
      \<and> of_localModelStageNames (fold (offer_stage requested) sts o0) = of_stageNames (fold (offer_stage requested) sts o0)
      \<and> set (of_stageNames (fold (offer_stage requested) sts o0)) = set (of_stageNames o0) \<union> {stageName st | st. st \<in> set sts
          \<and> computation st \<in> set StageCatalog_stageHelpers \<and> (requested = [] \<or> stageName st \<in> set requested)}"
    if "distinct (of_stageNames o0)" "of_localModelStageNames o0 = of_stageNames o0" for sts o0
    using that
  proof (induction sts arbitrary: o0)
    case (Cons st sts)
    let ?o1 = "offer_stage requested st o0"
    have "distinct (of_stageNames ?o1)" "of_localModelStageNames ?o1 = of_stageNames ?o1"
      using Cons.prems by (auto simp: offer_stage_def set_add_def)
    from Cons.IH [OF this] Cons.prems show ?case
      by (auto simp: offer_stage_def set_add_def implements)
  qed simp
  from this [of "\<lparr>of_stageNames = [], of_localModelStageNames = []\<rparr>" "concat (map spec_stages pipelines)"]
  show ?thesis by (simp add: offered_def offer_pipelines)
qed

text \<open>
  Three heartbeats fit in the lease they are for when it lasts three seconds or more and the worker's clock agrees with
  the gateway's; by a clock that is behind the gateway's by more than twice the lease, not even the first is sent in time.
\<close>

theorem heartbeats_fit_the_lease:
  "(leaseEnd - now \<ge> 3000 \<longrightarrow> now + 3 * LeaseHeartbeat_intervalMs leaseEnd now \<le> leaseEnd)
   \<and> (behind > 2 * (leaseEnd - now) + 2 \<longrightarrow> now + LeaseHeartbeat_intervalMs leaseEnd (now - behind) > leaseEnd)"
  by (auto simp: LeaseHeartbeat_intervalMs_def minimumHeartbeatIntervalMs_def max_def)

section \<open>A worker's day\<close>

definition day_options :: worker_options where
  "day_options = \<lparr>wo_gatewayUrl = ''ws://gateway'', wo_name = ''worker'', wo_authenticationToken = ''token'', wo_requestedStageNames = [],
     wo_modelId = ''m'', wo_baseUrl = ''http://localhost'', wo_accountKeyPair = None, wo_platform = apiPlatform shaped_env,
     wo_engineMessage = ''engine'', wo_isAutomaticReconnectionEnabled = True\<rparr>"

definition day_assignment :: stage_assign_message where
  "day_assignment = \<lparr>sa_taskId = ''t'', sa_stageAssignmentId = ''a'', sa_attempt = 1, sa_stage = ''answer'',
     sa_computation = ''llm_gemma_4_e2b_full'', sa_stageIndex = 0, sa_value = Llm (StagePayloadFactory_llmPrompt ''Hi''),
     sa_generationSettings = None, sa_leaseUntil = 30000\<rparr>"

definition assigned_day :: "worker_event list" where
  "assigned_day = [Opened 0, Frame 0 0 (Message (Stage_assign day_assignment))]"

definition cancelled_day :: "worker_event list" where
  "cancelled_day = assigned_day @ [Frame 0 1 (Message (Stage_cancel ''t'' ''a'' 1 ''Task_was_cancelled''))]"

lemmas day_defs = worker_life_def GatewayConnectionSupervisor_start_def GatewayConnectionSupervisor_connect_def fresh_worker_def
  set_client_def client_of_def fresh_client_def GatewayWorkerClient_onopen_def GatewayWorkerClient_send_def act_def
  GatewayWorkerClient_handleMessage_def GatewayWorkerClient_dispatch_def GatewayWorkerClient_runAssignedStage_def
  LeaseHeartbeat_start_def StageCatalog_stageHelperFor_def StageCatalog_stageHelpers_def set_add_def helper_step_def payload_of_def
  cancel_stage_def stop_heartbeat_def LeaseHeartbeat_stop_def StageCatalog_clearGeneration_def

lemma day_runs:
  defines "w \<equiv> worker_life day_options None 0 cancelled_day"
  shows "map_get (wp_runs w) (''llm_gemma_4_e2b_full'', 0) = Some (0, day_assignment)" and "''a'' \<in> set (wc_cancelled (client_of w 0))"
    and "wp_current w = Some 0 \<and> \<not> wp_isStopped w"
  unfolding w_def cancelled_day_def assigned_day_def day_assignment_def day_options_def
  by (simp_all add: day_defs carried_out forget_and_release_def LocalServerGeneration_release_def)



theorem worker_stays_connected_witness:
  "wp_waiting (worker_life day_options None 0 cancelled_day) = None
   \<and> wc_socket (client_of (worker_life day_options None 0 cancelled_day) 0) \<noteq> Socket_closed"
proof -
  have "wo_isAutomaticReconnectionEnabled day_options" by (simp add: day_options_def)
  from worker_stays_connected [OF this, of None 0 cancelled_day 0] day_runs(3) show ?thesis by auto
qed

theorem heartbeats_fit_the_lease_witness:
  "0 + 3 * LeaseHeartbeat_intervalMs 30000 0 \<le> 30000 \<and> 0 + LeaseHeartbeat_intervalMs 30000 (0 - 60003) > 30000"
  using heartbeats_fit_the_lease [of 30000 0 60003] by simp

end
