(* ===== verification/Spec2Isabelle.thy ===== *)
theory Spec2Isabelle
  imports Gateway_Scenario Account_Safety Worker_Text Gemma_Tool_Calls Worker_Safety
begin

text \<open>
  WebAI at Home runs one computation on many browser tabs. A central gateway (\<open>src/packages/gateway\<close>) keeps the
  tasks consumers submit, splits each into the stages of a pipeline, gives every stage to a worker that is
  connected, collects the results, and keeps accounts of who computed for whom. Consumers and workers speak one
  protocol over WebSockets (\<open>src/packages/protocol\<close>). This library models the gateway whole, from the frame that
  arrives on a connection to the task, the session, the balance and the file it changes, and proves what makes it
  correct at every moment of every life, restarts included.

  \<^bold>\<open>The parts and their theories.\<close> Names of definitions follow the code: \<open>TaskStore_assign\<close> is \<open>assign\<close> of class
  \<open>TaskStore\<close>; a definition without such a prefix is a type, a constant or a named piece of a long method.

  \<^item> \<open>Prelude\<close>: what the code uses of the language (insertion-ordered \<open>Map\<close> and \<open>Set\<close>, \<open>??\<close>, \<open>find\<close>), decimal
    numbers, runs of labelled step relations and the locales \<open>ordered_map\<close> and \<open>invariant_machine\<close>.
  \<^item> \<open>Protocol_Types\<close>, \<open>Stage_Payload\<close>, \<open>Gateway_Messages\<close>: the data that crosses the network, the bounds its
    schemas state, the payload builders, the rule for reporting a growing answer, the projections of a task
    (\<open>src/packages/protocol/src\<close>).
  \<^item> \<open>Task_Store\<close> (\<open>task/task_store.ts\<close>): the tasks, the request index, the state file. \<open>Task_Lifecycle\<close>: the abstract
    machine of a task and of the whole store, and its invariants.
  \<^item> \<open>Pipeline_Registry\<close> (\<open>task/pipeline_registry.ts\<close>, \<open>task/stage_policy_resolver.ts\<close>), \<open>Device_Registry\<close>
    (\<open>device/device_registry.ts\<close>, \<open>device/worker_placement.ts\<close>, locale \<open>worker_pool\<close>), \<open>Session_Registry\<close>
    (\<open>task/session_registry.ts\<close>, \<open>accounting/challenge_registry.ts\<close>, locale \<open>expiring_registry\<close> and its two
    extensions), \<open>Account_Identity\<close> (\<open>accounting/account_identity.ts\<close>, \<open>accounting/account_registry.ts\<close>),
    \<open>Ledger_Store\<close> (\<open>accounting/ledger_store.ts\<close>, \<open>accounting/accounting_recorder.ts\<close>, locale
    \<open>append_only_ledger\<close>), \<open>Liveness_Limits\<close> (\<open>libs/diagnostics_rate_limiter.ts\<close>,
    \<open>connection/websocket_heartbeat.ts\<close>).
  \<^item> \<open>Gateway_State\<close>: the state of the whole gateway as one record, sending and logging
    (\<open>connection/connection_hub.ts\<close>), announcing devices (\<open>device/device_announcer.ts\<close>).
  \<^item> \<open>Task_Scheduler\<close> (\<open>task/task_scheduler.ts\<close>), \<open>Message_Handler\<close> (\<open>task/client_message_handler.ts\<close>,
    \<open>accounting/account_message_handler.ts\<close>, \<open>accounting/accounting_query_handler.ts\<close>,
    \<open>accounting/accounting_summary_handler.ts\<close>), \<open>Websocket_Router\<close> (\<open>connection/websocket_router.ts\<close> and the timers of
    \<open>cli.ts\<close>): every handler whole, every check in the order of the source, and the step relation \<open>gateway_step\<close> over
    the events that can happen.
  \<^item> \<open>Gateway_Refinement\<close>: every handler is a run of the abstract machine with the labels its sender is entitled to.
    \<open>Gateway_History\<close>: the life of a gateway, restarts included. \<open>Scheduler_Progress\<close>: what the sweeps achieve.
    \<open>Account_Safety\<close>: how a session comes to carry an account. \<open>Gateway_Scenario\<close>: a concrete history.
  \<^item> \<open>Js_Strings\<close>, \<open>Js_Json\<close>: searching and cutting texts, objects and JSON text. \<open>Worker_Text\<close>
    (\<open>worker_webpage/web/src/stages/stop_sequence_watcher.ts\<close>, \<open>thinking_block_cut.ts\<close>, \<open>thought_channel_cut.ts\<close>,
    \<open>empty_answer_refusal.ts\<close>, \<open>structured_output/sampled_token_forwarder.ts\<close>): what a browser worker does with a text
    while the model writes it. \<open>Qwen_Tool_Calls\<close> (\<open>tool_call_reader.ts\<close>), \<open>Gemma_Tool_Calls\<close>
    (\<open>gemma_4_e2b_tool_call_reader.ts\<close>): reading the tool calls out of it.
  \<^item> \<open>Consumer_Client\<close> (\<open>protocol/src/reconnect_backoff.ts\<close>, \<open>session_renewal.ts\<close>,
    \<open>accounting/account_authentication.ts\<close>, \<open>consumer_cli/src/gateway_connection/consumer_client.ts\<close>): the client's side of
    a connection. \<open>Openai_Error\<close> (\<open>consumer_openai/src/api/openai_error.ts\<close>) and \<open>Cluster_Task_Runner\<close>
    (\<open>consumer_openai/src/libs/cluster_task_runner.ts\<close>): the OpenAI-compatible server's waiting for its tasks, as a
    step relation over callers, timers and the socket, with the invariant \<open>runner_ok\<close>. \<open>Openai_Api\<close>
    (\<open>consumer_openai/src/api\<close>, \<open>consumer_cli/src/libs/task_input_factory.ts\<close>, the two tables of
    \<open>protocol/src/task\<close>): a request of either OpenAI interface becomes a task, and an answer goes back. \<open>Openai_Routes\<close>
    (\<open>consumer_openai/src/http/openai_routes.ts\<close>, \<open>responses_stream_writer.ts\<close>): what is written to a response,
    whole or piece by piece, and what is kept for the transaction log.
  \<^item> The worker behind a local OpenAI-compatible server (\<open>worker_openai/src\<close>). \<open>Openai_Api_Client\<close>
    (\<open>libs/openai_api_client.ts\<close>): the request to that server and the reading of its event stream.
    \<open>Local_Server_Generation\<close> (\<open>stages/local_server_generation.ts\<close>): the answers held open between stage runs.
    \<open>Worker_Client\<close> (\<open>libs/gateway_worker_client.ts\<close>, \<open>libs/gateway_connection_supervisor.ts\<close>,
    \<open>libs/lease_heartbeat.ts\<close>, \<open>libs/worker_stage_offer.ts\<close>, \<open>stages/stage_catalog.ts\<close>): the worker process over all its
    connections. \<open>Worker_Safety\<close>: what that process keeps, by a relation for the operations that start and settle no run
    (\<open>quiet\<close>), one for those that are not the supervisor's (\<open>calm\<close>), and the invariants \<open>kept_ok\<close>, \<open>helpers_ok\<close> and
    \<open>supervised\<close>.
  \<^item> This theory: the properties that span components.

  \<^bold>\<open>State and effects.\<close> A \<open>gateway\<close> record holds the objects \<open>cli.ts\<close> builds. A handler is a function from the
  configuration \<open>env\<close>, the time and the state to the state after it; sending appends to the outbox of the record's
  \<open>world\<close>, an exception is the field \<open>raised\<close>, and the half of a handler that runs after an \<open>await\<close> is a
  continuation in \<open>pending\<close> that a later event runs. Random identifiers are drawn from a stream (\<open>randomUUID\<close>, assumed
  injective, as \<open>env_ok\<close> says); hashing, base64 and signatures are parameters (\<open>web_platform\<close>).

  \<^bold>\<open>Bounds.\<close> The loops of the gateway run over finite lists, so they need no fuel. Only the reader of nested values in
  \<open>Gemma_Tool_Calls\<close> takes fuel: \<open>gemma_calls_read_back\<close> says it is enough for every written call, and
  \<open>endless_answer_never_read\<close> that no fuel is enough for one answer, on which the code never returns. Times are unbounded integers
  and counters natural numbers, as a number of the code below \<open>2^53\<close> is exact.

  \<^bold>\<open>Not modelled.\<close> The process around the gateway (sockets, HTTP pages, option parsing, files on disk as byte streams),
  JSON parsing and the schema library (a frame arrives as the value they give), and of the programs that talk to the
  gateway what is not listed above: the browser page and its model runtimes, the command lines, the layout of the
  OpenAI-compatible server's transaction log, and the checked-in build of the grammar package.
\<close>

section \<open>The gateway refines the machine of its tasks\<close>



text \<open>
  C2: A gateway is never stuck and no exception ever leaves it: at any moment of its life every event that
  can arrive is served, nothing is left raised, and the state it leads to is again one of its life, so the
  next event can be served as well.
\<close>

theorem gateway_serves_every_event:
  assumes "life e g" and "env_ok e" and "enabled g ev"
  shows "gateway_step e g (now, ev) (gateway_next e now ev g)
    \<and> raised (gateway_next e now ev g) = None \<and> life e (gateway_next e now ev g)"
proof -
  have "raised g = None" using life_core [OF assms(1,2)] by (simp add: core_inv_def)
  with assms(3) have step: "gateway_step e g (now, ev) (gateway_next e now ev g)" by (rule gateway_step.step)
  with assms(1) have "life e (gateway_next e now ev g)" by (rule life.served)
  with step life_core [OF this assms(2)] show ?thesis by (simp add: core_inv_def)
qed

theorem gateway_serves_every_event_witness:
  "raised (gateway_next example_env 8 (Connection_closed ''device-u'') joined_gateway) = None"
  using gateway_serves_every_event [OF joined_life example_env_ok(1), of "Connection_closed ''device-u''" 8] joined(2)
  by (simp add: is_joined_def)

section \<open>What holds of every task at every moment\<close>

text \<open>
  C5: At every moment every task is in a consistent state: it has a worker assignment exactly while it is
  assigned or running, running exactly when that worker accepted, it was never tried more often than the
  retry limit on one stage, and the assignment it has is its latest attempt.
\<close>

theorem task_state_consistent:
  assumes "life e g" and "env_ok e" and "map_get (tasks (taskStore g)) tid = Some t"
  shows "(stageAssignment t \<noteq> None \<longleftrightarrow> taskState t = Assigned \<or> taskState t = Running)
    \<and> currentStageAttempts t \<le> maximumAttempts e
    \<and> (\<forall>a. stageAssignment t = Some a \<longrightarrow> attempt a = currentStageAttempts t \<and> 1 \<le> attempt a
         \<and> (acceptedAt a \<noteq> None \<longleftrightarrow> taskState t = Running)
         \<and> stageAssignmentId a \<in> set (map stageAssignmentId (stageAssignmentAttempts t)))"
  using life_task(1) [OF assms] by (auto simp: task_inv_def assignment_matches_def attempt_ids_def)

theorem task_state_consistent_witness:
  "\<exists>t. map_get (tasks (taskStore joined_gateway)) example_task = Some t \<and> taskState t = Assigned
    \<and> stageAssignment t \<noteq> None \<and> currentStageAttempts t \<le> 3"
proof -
  obtain t where t: "map_get (tasks (taskStore joined_gateway)) example_task = Some t" "taskState t = Assigned"
    using joined(2) by (auto simp: is_joined_def)
  from task_state_consistent [OF joined_life example_env_ok(1) t(1)] t show ?thesis by (simp add: example_env_def)
qed

text \<open>
  C3: Every task runs the stages of its pipeline in order (round and round when the pipeline repeats until
  done): the results it recorded carry the pipeline's stage names in turn, the stage a worker has been given
  is the next one and its input is the value the previous stage returned, or the consumer's own input for
  the first; and a task is completed only when no stage is left, with the last value as its result.
\<close>

theorem stages_follow_the_pipeline:
  assumes "life e g" and "env_ok e" and "map_get (tasks (taskStore g)) tid = Some t"
    and "pipelineStages t = Some stages"
  shows "stages \<noteq> []
    \<and> (\<forall>i < length (completedStages t). result_name (completedStages t ! i) = stages ! (i mod length stages))
    \<and> (pipelineRepeatsUntilDone t \<noteq> Some True \<longrightarrow> length (completedStages t) \<le> length stages)
    \<and> (\<forall>a. stageAssignment t = Some a \<longrightarrow>
         assignedStage a = stages ! (length (completedStages t) mod length stages)
         \<and> assignedValue a = (if completedStages t = [] then StagePayloadFactory_initial (taskInput t)
              else result_value (last (completedStages t))))
    \<and> (taskState t = Completed \<longrightarrow> completedStages t \<noteq> [] \<and> TaskStore_nextStage t = None
         \<and> taskResult t = Some (result_value (last (completedStages t))))"
proof -
  note inv = life_task(1) [OF assms(1-3)]
  have seq: "stage_sequence t = stages" using assms(4) by (simp add: stage_sequence_def)
  have last: "lastValue t = (if completedStages t = [] then None else Some (result_value (last (completedStages t))))"
    by (simp add: lastValue_def at_last_def)
  have "assignedStage a = stages ! (length (completedStages t) mod length stages)
      \<and> assignedValue a = next_value t" if "stageAssignment t = Some a" for a
    using that inv nextStage_Some [of t "assignedStage a"]
    by (auto simp: task_inv_def assignment_matches_def seq)
  with inv last show ?thesis
    by (auto simp: task_inv_def in_pipeline_order_def seq repeats_def result_final_def next_value_def)
qed

theorem stages_follow_the_pipeline_witness:
  "\<exists>t a. map_get (tasks (taskStore worked_gateway)) example_task = Some t \<and> stageAssignment t = Some a
    \<and> assignedValue a = Number 6"
proof -
  obtain t where t: "map_get (tasks (taskStore worked_gateway)) example_task = Some t" "taskState t = Assigned"
      "map result_value (completedStages t) = [Number 6]"
    using worked(2) by (auto simp: is_worked_def)
  have inv: "task_inv (maximumAttempts example_env) t" by (rule life_task(1) [OF worked_life example_env_ok(1) t(1)])
  then obtain a where a: "stageAssignment t = Some a" using t(2) by (auto simp: task_inv_def)
  obtain stages where "pipelineStages t = Some stages"
    using inv by (cases "pipelineStages t") (auto simp: task_inv_def in_pipeline_order_def stage_sequence_def)
  from stages_follow_the_pipeline [OF worked_life example_env_ok(1) t(1) this] a t show ?thesis
    by (auto simp: map_eq_Cons_conv)
qed

text \<open>
  C13: No principal ever has more unfinished tasks than the limit, at any moment of any life.
\<close>

theorem unfinished_tasks_bounded:
  assumes "life e g" and "env_ok e"
  shows "length (filter (\<lambda>t. consumerAuthIdentity t = Some who \<and> \<not> isFinished (taskState t))
      (TaskStore_list (taskStore g))) \<le> maximumTasksPerPrincipal e"
  using life_core [OF assms] by (simp add: core_inv_def store_inv_def active_tasks_def TaskStore_list_def)

theorem unfinished_tasks_bounded_witness: "active_task_count joined_gateway ''s'' \<le> 2"
  using unfinished_tasks_bounded [OF joined_life example_env_ok(1), of "''s''"]
  by (simp add: active_task_count_def example_env_def)

text \<open>
  C6: While a gateway serves, no task is ever lost, exchanged or rewritten: a task present at one moment is
  present at every later one, with the same identity, input and pipeline, a revision no smaller, and every
  recorded stage, event and attempt still there; and once it is finished its stages and its result stay as
  they are and its state can only still become cancelled.
\<close>

theorem tasks_never_lost:
  assumes "life e g" and "env_ok e" and "run (gateway_step e) g evs g'"
    and "map_get (tasks (taskStore g)) tid = Some t"
  shows "\<exists>t'. map_get (tasks (taskStore g')) tid = Some t' \<and> same_identity t t'
    \<and> taskRevision t \<le> taskRevision t' \<and> prefix (completedStages t) (completedStages t')
    \<and> prefix (taskEvents t) (taskEvents t')
    \<and> prefix (map stageAssignmentId (stageAssignmentAttempts t)) (map stageAssignmentId (stageAssignmentAttempts t'))
    \<and> (isFinished (taskState t) \<longrightarrow> completedStages t' = completedStages t \<and> taskResult t' = taskResult t
         \<and> (taskState t' = taskState t \<or> taskState t' = Cancelled))"
  using life_run_le [OF assms(1-3)] assms(4)
  by (fastforce simp: store_le_def task_le_def history_grows_def stays_finished_def attempt_ids_def)

theorem tasks_never_lost_witness:
  "\<exists>t'. map_get (tasks (taskStore (gateway_next example_env 8 (Connection_closed ''device-'') joined_gateway)))
      example_task = Some t' \<and> taskId t' = example_task"
proof -
  obtain t where t: "map_get (tasks (taskStore joined_gateway)) example_task = Some t"
    using joined(2) by (auto simp: is_joined_def)
  have "run (gateway_step example_env) joined_gateway [(8, Connection_closed ''device-'')]
      (gateway_next example_env 8 (Connection_closed ''device-'') joined_gateway)"
    by (rule run_single, rule joined_worker_leaves)
  from tasks_never_lost [OF joined_life example_env_ok(1) this t] life_task(2) [OF joined_life example_env_ok(1) t]
  show ?thesis by (auto simp: same_identity_def)
qed

section \<open>Once and only once\<close>

text \<open>
  C4: The work of a stage counts exactly once. At every moment the results a task has recorded belong to
  distinct assignments, one each; and a result sent again for an assignment that was already counted, by
  whatever device and at whatever time, changes no task, no balance and no device: it is only answered.
\<close>

theorem stage_result_counted_once:
  assumes "life e g" and "env_ok e" and "map_get (tasks (taskStore g)) tid = Some t"
  shows "length (coalesce (acknowledgedStageAssignmentIds t) []) = length (completedStages t)
    \<and> distinct (coalesce (acknowledgedStageAssignmentIds t) [])
    \<and> (aid \<in> set (coalesce (acknowledgedStageAssignmentIds t) []) \<longrightarrow>
        (let g' = ClientMessageHandler_acceptStageResult e now s did reply tid aid n stage v g
         in taskStore g' = taskStore g \<and> ledgerStore g' = ledgerStore g \<and> deviceRegistry g' = deviceRegistry g))"
proof -
  note inv = life_task [OF assms]
  have "only_sends g (ClientMessageHandler_acceptStageResult e now s did reply tid aid n stage v g)"
    if "aid \<in> set (coalesce (acknowledgedStageAssignmentIds t) [])"
  proof -
    have none: "current_assignment t aid n = None"
      using inv(1) that
      by (auto simp: current_assignment_def task_inv_def assignment_matches_def acknowledged_def split: option.splits)
    show ?thesis
      using that assms(3) none
      by (simp add: ClientMessageHandler_acceptStageResult_def check_result_def check_stage_report_def
          already_acknowledged_def TaskStore_get_def Let_def)
  qed
  then show ?thesis
    using inv(1) by (auto simp: task_inv_def ids_consistent_def acknowledged_def Let_def only_sends_fields)
qed

theorem stage_result_counted_once_witness:
  "taskStore (ClientMessageHandler_acceptStageResult example_env 10 1 ''device-'' ''m2'' example_task
      ''stageAssignment-uuuuuuuu'' 1 ''m'' (Number 9) worked_gateway) = taskStore worked_gateway"
proof -
  obtain t where t: "map_get (tasks (taskStore worked_gateway)) example_task = Some t"
      "acknowledged t = [''stageAssignment-uuuuuuuu'']"
    using worked(2) by (auto simp: is_worked_def)
  have "''stageAssignment-uuuuuuuu'' \<in> set (coalesce (acknowledgedStageAssignmentIds t) [])"
    using t(2) by (simp add: acknowledged_def)
  then show ?thesis
    using stage_result_counted_once [OF worked_life example_env_ok(1) t(1), of "''stageAssignment-uuuuuuuu''" 10 1
        "''device-''" "''m2''" 1 "''m''" "Number 9"] unfolding Let_def by blast
qed

text \<open>
  C12: Submitting is idempotent: a consumer that repeats a submission under a request identifier it already
  used never creates a second task. It is answered with the task it has when the contents are the same, and
  told of the conflict when they differ; no task changes either way.
\<close>

theorem submission_idempotent:
  assumes "life e g" and "env_ok e" and "map_get (tasks (taskStore g)) tid = Some t"
    and "map_option deviceRole (DeviceRegistry_get (deviceRegistry g) (consumerDeviceId t)) = Some Consumer"
  shows "(let g' = submit_task e now s (consumerDeviceId t) reply (taskRequestId t) input' pid version session g
    in taskStore g' = taskStore g
     \<and> g' = reply_with e now s (consumerDeviceId t) reply
         (if taskInput t = input' then Task_accepted (taskRequestId t) (TaskProjection_snapshot t)
          else plain_error TASK_REQUEST_ID_CONFLICT ''taskRequestId was already used with different task contents''
            (Some (taskRequestId t)) (Some (taskId t))) g)"
proof -
  have "map_get (taskIdByConsumerTaskRequest (taskStore g)) (request_key t) = Some tid"
    using life_core [OF assms(1,2)] assms(3) by (simp add: core_inv_def store_inv_def index_consistent_def)
  then have "TaskStore_findByTaskRequest (taskStore g) (consumerDeviceId t) (taskRequestId t) = Some t"
    using assms(3) by (simp add: TaskStore_findByTaskRequest_def request_key_def)
  with assms(4) show ?thesis by (simp add: submit_task_def reply_with_def Let_def)
qed

theorem submission_idempotent_witness:
  "taskStore (submit_task example_env 10 2 ''device-u'' ''m2'' ''r'' (Dev_formula 4 None) None None None worked_gateway)
     = taskStore worked_gateway"
proof -
  obtain t where t: "map_get (tasks (taskStore worked_gateway)) example_task = Some t"
      "consumerDeviceId t = ''device-u''" "taskRequestId t = ''r''"
    using worked(2) by (auto simp: is_worked_def)
  have "map_option deviceRole (DeviceRegistry_get (deviceRegistry worked_gateway) (consumerDeviceId t)) = Some Consumer"
    using worked(2) t by (simp add: is_worked_def)
  from submission_idempotent [OF worked_life example_env_ok(1) t(1) this, of 10 2 "''m2''" "Dev_formula 4 None"
      None None None] t show ?thesis by (simp add: Let_def)
qed

section \<open>Recovery\<close>





text \<open>
  C10: A restart loses nothing: a gateway that keeps a state file can stop at any moment of its life and start
  again with exactly the same tasks in the same order, still recognising every submission by its consumer and
  request identifier, and everything stated of a life holds of the life that goes on.
\<close>

theorem restart_keeps_every_task:
  assumes "life e g" and "env_ok e" and "isDurable (storeSettings e)"
  shows "\<exists>st. TaskStore_restore (storeSettings e) (stateFile (taskStore g)) = Inr st \<and> tasks st = tasks (taskStore g)
    \<and> (\<forall>t \<in> set (TaskStore_list (taskStore g)).
          TaskStore_findByTaskRequest st (consumerDeviceId t) (taskRequestId t) = Some t)
    \<and> (\<forall>accounts led. life e (restarted_gateway (nonce (world g)) st accounts led))"
proof -
  have inv: "core_inv e g" by (rule life_core [OF assms(1,2)])
  then have store: "store_inv (storeSettings e) (maximumAttempts e) (maximumTasksPerPrincipal e) (taskStore g)"
    and dur: "durable (storeSettings e) (taskStore g)" by (simp_all add: core_inv_def store_inv_def)
  from restore_durable [OF assms(3) dur store_inv_wf_store [OF store]]
  obtain st where st: "TaskStore_restore (storeSettings e) (stateFile (taskStore g)) = Inr st"
    "tasks st = tasks (taskStore g)" and index: "\<forall>t \<in> set (TaskStore_list (taskStore g)).
      map_get (taskIdByConsumerTaskRequest st) (request_key t) = Some (taskId t)" by blast
  have "TaskStore_findByTaskRequest st (consumerDeviceId t) (taskRequestId t) = Some t"
    if "t \<in> set (TaskStore_list (taskStore g))" for t
    using index that stored_tasks(2) [OF inv] st(2) by (simp add: TaskStore_findByTaskRequest_def request_key_def)
  with st life.restarted [OF assms(1) st(1)] show ?thesis by blast
qed

theorem restart_keeps_every_task_witness:
  "\<exists>st. TaskStore_restore (storeSettings durable_env) (stateFile (taskStore durable_gateway)) = Inr st
    \<and> map_option taskState (map_get (tasks st) example_task) = Some Assigned"
proof -
  have "isDurable (storeSettings durable_env)"
    by (simp add: durable_env_def example_store_settings_def isDurable_def)
  from restart_keeps_every_task [OF durable_life example_env_ok(2) this] durable_joined(2) show ?thesis
    by (auto simp: is_joined_def)
qed

section \<open>Who may do what\<close>


text \<open>A connection with a session, whose signature is being verified.\<close>

definition signing_profile :: account_profile where
  "signing_profile = \<lparr>profile_accountId = ''account-1'', signatureAlgorithmName = Ed25519,
     publicKeySpkiBase64 = ''key'', emailAddress = [], displayName = [], profile_createdAt = 0\<rparr>"

definition signing_gateway :: gateway where
  "signing_gateway = example_start
     \<lparr>sessionRegistry := snd (SessionRegistry_open id 3600000 ''device-'' ''s'' 0 (sessionRegistry example_start)),
      pending := [Finish_authenticate 1 ''device-'' signing_profile ''c''
        (filter (\<lambda>c. c \<noteq> CHR '' '') (signedMessagePrefix @ ''c'')) ''m'']\<rparr>"


text \<open>
  C14: Without a session nothing happens: a message other than an authentication that arrives on a connection
  with no live session changes no task, device, account, balance, challenge, subscription or pending
  verification, and opens no session; the gateway only answers it.
\<close>

theorem unauthenticated_message_changes_nothing:
  assumes "gateway_step e g (now, Frame_arrived did n (Json r (Some f))) g'"
    and "live_session (sessionRegistry g) did now = None" and "\<not> is_authentication (env_body f)"
  shows "taskStore g' = taskStore g \<and> deviceRegistry g' = deviceRegistry g \<and> hub g' = hub g
    \<and> accountRegistry g' = accountRegistry g \<and> ledgerStore g' = ledgerStore g
    \<and> challengeRegistry g' = challengeRegistry g \<and> pending g' = pending g
    \<and> (\<forall>did' later. now \<le> later \<longrightarrow>
         live_session (sessionRegistry g') did' later = live_session (sessionRegistry g) did' later)"
proof -
  obtain s where s: "map_get (socketMap (hub g)) did = Some s" and raised: "raised g = None"
    and g': "g' = WebsocketRouter_readFrame e now s did n (Json r (Some f)) g"
    using assms(1) by (auto simp: gateway_step_iff)
  let ?l = "log_received did f g"
  have l: "taskStore ?l = taskStore g" "deviceRegistry ?l = deviceRegistry g" "hub ?l = hub g"
    "accountRegistry ?l = accountRegistry g" "ledgerStore ?l = ledgerStore g"
    "challengeRegistry ?l = challengeRegistry g" "pending ?l = pending g"
    "sessionRegistry ?l = sessionRegistry g" "raised ?l = None"
    using raised by (simp_all add: log_received_def)
  have handled: "only_sends (looked_up now did ?l)
      (ClientMessageHandler_handle e now s did (env_body f) reply ?l)" for reply
    by (cases rule: handle_cases [of "env_body f" did now ?l e s reply]) (use assms(2,3) l in auto)
  have calm: "catch_exception e now s did (ClientMessageHandler_handle e now s did (env_body f) reply ?l)
      = ClientMessageHandler_handle e now s did (env_body f) reply ?l" for reply
    using only_sends_fields(11) [OF handled] l by (simp add: catch_exception_def looked_up_def)
  have "only_sends g g' \<or> only_sends (looked_up now did ?l) g'"
    using handled unfolding g' WebsocketRouter_readFrame_def by (auto simp: calm)
  then show ?thesis using l live_after_active by (auto simp: only_sends_fields looked_up_def)
qed

text \<open>A connection nobody authenticated yet.\<close>

definition unknown_gateway :: gateway where
  "unknown_gateway = WebsocketRouter_acceptConnection example_env 1 None example_start"

theorem unauthenticated_message_changes_nothing_witness:
  "taskStore (gateway_next example_env 9 (frame ''device-'' (Task_cancel example_task ''no'')) unknown_gateway)
     = taskStore unknown_gateway"
proof -
  have "gateway_step example_env unknown_gateway (9, frame ''device-'' (Task_cancel example_task ''no''))
      (gateway_next example_env 9 (frame ''device-'' (Task_cancel example_task ''no'')) unknown_gateway)"
    by (rule gateway_step.step)
      (simp_all add: unknown_gateway_def frame_def WebsocketRouter_acceptConnection_def draw_uuid_def Let_def
        example_start_def initial_gateway_def example_env_def)
  from unauthenticated_message_changes_nothing [OF this [unfolded frame_def]] show ?thesis
    by (simp add: frame_def unknown_gateway_def WebsocketRouter_acceptConnection_def draw_uuid_def Let_def
        example_start_def initial_gateway_def live_session_def is_authentication_def Envelope_fromClient_def)
qed




text \<open>A gateway with one worker and one queued task.\<close>

definition placing_gateway :: gateway where
  "placing_gateway = (initial_gateway example_store no_accounts empty_ledger)
     \<lparr>deviceRegistry := snd (DeviceRegistry_add example_device empty_device_registry)\<rparr>"


end
